(* ===== verification/Go_Prelude.thy ===== *)
theory Go_Prelude
  imports Main "HOL-Library.Word" "HOL-Library.List_Lexorder" "HOL-Library.Char_ord"
    "HOL-Library.Product_Lexorder" "HOL-Library.Sublist" "HOL-Library.Multiset"
begin

text \<open>
  What the components of the agent share: the reading of Go's values (a \<open>string\<close> and a
  \<open>[]byte\<close> are both sequences of bytes, and a HOL \<open>char\<close> is a byte), runtime panics as values
  of a sum type, the order of Go strings (bytewise lexicographic, which is the order of
  \<open>List_Lexorder\<close> over \<open>Char_ord\<close>), \<open>bytes.TrimSpace\<close>, \<open>strings.Join\<close>, and the lemmas on
  keyed lists that several components use (a slice of structs searched by a key field,
  updated in place or appended to, which is how the code stores labels, tags and fields).
\<close>

named_theorems view_simps \<open>the abstract view of a component's state after each operation\<close>
named_theorems inv_intros \<open>every operation keeps the component's invariant\<close>

type_synonym bytes = "char list"

subsection \<open>Runtime panics and errors as values\<close>

datatype go_panic =
    IndexOutOfRange
  | SliceBoundsOutOfRange
  | MakeSliceLenOutOfRange
  | NilDereference
  | DivideByZero
  | NilMapWrite
  | ExplicitPanic string

type_synonym 'a go = "go_panic + 'a"

definition and_then :: "'e + 'a \<Rightarrow> ('a \<Rightarrow> 'e + 'b) \<Rightarrow> 'e + 'b" where
  "and_then r f = (case r of Inl e \<Rightarrow> Inl e | Inr x \<Rightarrow> f x)"

lemma and_then_simps [simp]:
  "and_then (Inl e) f = Inl e"
  "and_then (Inr x) f = f x"
  by (simp_all add: and_then_def)

lemma and_then_Inr_iff:
  "and_then r f = Inr y \<longleftrightarrow> (\<exists>x. r = Inr x \<and> f x = Inr y)"
  by (cases r) auto

lemma and_then_Inr_right [simp]: "and_then r Inr = r"
  by (cases r) auto

lemma and_then_assoc: "and_then (and_then r f) g = and_then r (\<lambda>x. and_then (f x) g)"
  by (cases r) auto

text \<open>A loop over a slice whose body may fail stops at the first failure.\<close>

fun foldM :: "('s \<Rightarrow> 'a \<Rightarrow> 'e + 's) \<Rightarrow> 's \<Rightarrow> 'a list \<Rightarrow> 'e + 's" where
  "foldM f s [] = Inr s"
| "foldM f s (x # xs) = and_then (f s x) (\<lambda>s'. foldM f s' xs)"

lemma foldM_append: "foldM f s (xs @ ys) = and_then (foldM f s xs) (\<lambda>t. foldM f t ys)"
  by (induction xs arbitrary: s) (auto simp: and_then_assoc)

lemma foldM_total:
  assumes "\<And>s x. I s \<Longrightarrow> x \<in> set xs \<Longrightarrow> \<exists>s'. f s x = Inr s' \<and> I s'" and "I s"
  shows "\<exists>s'. foldM f s xs = Inr s' \<and> I s'"
  using assms
proof (induction xs arbitrary: s)
  case (Cons x xs)
  then obtain s' where "f s x = Inr s'" "I s'" by (meson list.set_intros(1))
  with Cons show ?case by (simp add: Cons.IH)
qed simp

subsection \<open>Strings\<close>

fun go_join :: "string list \<Rightarrow> string \<Rightarrow> string" where
  "go_join [] sep = []"
| "go_join [x] sep = x"
| "go_join (x # y # zs) sep = x @ sep @ go_join (y # zs) sep"

lemma go_join_Cons: "xs \<noteq> [] \<Longrightarrow> go_join (x # xs) sep = x @ sep @ go_join xs sep"
  by (cases xs) auto

lemma go_join_snoc: "go_join (xs @ [y]) sep = (if xs = [] then y else go_join xs sep @ sep @ y)"
  by (induction xs sep rule: go_join.induct) auto

text \<open>\<open>strings.Split\<close> at a single byte.\<close>

fun split_on :: "char \<Rightarrow> bytes \<Rightarrow> bytes list" where
  "split_on c [] = [[]]"
| "split_on c (x # xs) = (if x = c then [] # split_on c xs else (x # hd (split_on c xs)) # tl (split_on c xs))"

lemma split_on_nonempty: "split_on c s \<noteq> []"
  by (induction s) auto

lemma split_on_append: "c \<notin> set a \<Longrightarrow> split_on c (a @ c # s) = a # split_on c s"
  by (induction a) auto

lemma split_on_plain: "c \<notin> set a \<Longrightarrow> split_on c a = [a]"
  by (induction a) auto

lemma split_on_join: "xs \<noteq> [] \<Longrightarrow> list_all (\<lambda>x. c \<notin> set x) xs \<Longrightarrow> split_on c (go_join xs [c]) = xs"
proof (induction xs)
  case (Cons x xs)
  then show ?case by (cases xs) (auto simp: split_on_append split_on_plain)
qed simp

text \<open>
  The UTF-8 encodings of the code points for which \<open>unicode.IsSpace\<close> holds. In a byte
  sequence, the first (last) rune is one of them exactly when one of these encodings is a
  prefix (suffix) of the sequence.
\<close>

definition space_encodings :: "bytes list" where
  "space_encodings =
     [[CHR 0x09], [CHR 0x0A], [CHR 0x0B], [CHR 0x0C], [CHR 0x0D], [CHR 0x20],
      [CHR 0xC2, CHR 0x85], [CHR 0xC2, CHR 0xA0], [CHR 0xE1, CHR 0x9A, CHR 0x80],
      [CHR 0xE2, CHR 0x80, CHR 0x80], [CHR 0xE2, CHR 0x80, CHR 0x81],
      [CHR 0xE2, CHR 0x80, CHR 0x82], [CHR 0xE2, CHR 0x80, CHR 0x83],
      [CHR 0xE2, CHR 0x80, CHR 0x84], [CHR 0xE2, CHR 0x80, CHR 0x85],
      [CHR 0xE2, CHR 0x80, CHR 0x86], [CHR 0xE2, CHR 0x80, CHR 0x87],
      [CHR 0xE2, CHR 0x80, CHR 0x88], [CHR 0xE2, CHR 0x80, CHR 0x89],
      [CHR 0xE2, CHR 0x80, CHR 0x8A], [CHR 0xE2, CHR 0x80, CHR 0xA8],
      [CHR 0xE2, CHR 0x80, CHR 0xA9], [CHR 0xE2, CHR 0x80, CHR 0xAF],
      [CHR 0xE2, CHR 0x81, CHR 0x9F], [CHR 0xE3, CHR 0x80, CHR 0x80]]"

lemma space_encodings_nonempty: "p \<in> set space_encodings \<Longrightarrow> p \<noteq> []"
  by (auto simp: space_encodings_def)

function trim_prefixes :: "bytes list \<Rightarrow> bytes \<Rightarrow> bytes" where
  "trim_prefixes ps s =
     (case find (\<lambda>p. p \<noteq> [] \<and> prefix p s) ps of
        None \<Rightarrow> s
      | Some p \<Rightarrow> trim_prefixes ps (drop (length p) s))"
  by pat_completeness auto
termination
  by (relation "measure (\<lambda>(ps, s). length s)")
    (auto simp: find_Some_iff diff_less dest!: prefix_length_le
      simp del: length_0_conv simp flip: length_greater_0_conv)

declare trim_prefixes.simps [simp del]

definition trim_left :: "bytes \<Rightarrow> bytes" where
  "trim_left s = trim_prefixes space_encodings s"

definition trim_right :: "bytes \<Rightarrow> bytes" where
  "trim_right s = rev (trim_prefixes (map rev space_encodings) (rev s))"

definition TrimSpace :: "bytes \<Rightarrow> bytes" where
  "TrimSpace s = trim_right (trim_left s)"

lemma trim_prefixes_suffix: "suffix (trim_prefixes ps s) s"
proof (induction ps s rule: trim_prefixes.induct)
  case (1 ps s)
  show ?case
  proof (cases "find (\<lambda>p. p \<noteq> [] \<and> prefix p s) ps")
    case None
    then show ?thesis by (simp add: trim_prefixes.simps [of ps s])
  next
    case (Some p)
    with "1" have "suffix (trim_prefixes ps (drop (length p) s)) (drop (length p) s)" by simp
    then have "suffix (trim_prefixes ps (drop (length p) s)) s"
      using suffix_drop suffix_order.trans by blast
    with Some show ?thesis by (simp add: trim_prefixes.simps [of ps s])
  qed
qed

lemma length_trim_prefixes: "length (trim_prefixes ps s) \<le> length s"
  by (rule suffix_length_le [OF trim_prefixes_suffix])

lemma TrimSpace_length [simp]: "length (TrimSpace s) \<le> length s"
proof -
  have "length (trim_right (trim_left s)) \<le> length (trim_left s)"
    using length_trim_prefixes [of _ "rev (trim_left s)"] by (simp add: trim_right_def)
  also have "\<dots> \<le> length s"
    by (simp add: trim_left_def length_trim_prefixes)
  finally show ?thesis by (simp add: TrimSpace_def)
qed

lemma TrimSpace_Nil [simp]: "TrimSpace [] = []"
  using TrimSpace_length [of "[]"] by simp

lemma trim_prefixes_idem: "trim_prefixes ps (trim_prefixes ps s) = trim_prefixes ps s"
proof (induction ps s rule: trim_prefixes.induct)
  case (1 ps s)
  show ?case
  proof (cases "find (\<lambda>p. p \<noteq> [] \<and> prefix p s) ps")
    case None
    then show ?thesis by (simp add: trim_prefixes.simps [of ps s])
  next
    case (Some p)
    with "1" show ?thesis by (simp add: trim_prefixes.simps [of ps s])
  qed
qed

subsection \<open>Numbers as text and bytes\<close>

definition digit_char :: "nat \<Rightarrow> char" where
  "digit_char d = char_of (48 + d)"

fun itoa :: "nat \<Rightarrow> string" where
  "itoa n = (if n < 10 then [digit_char n] else itoa (n div 10) @ [digit_char (n mod 10)])"

declare itoa.simps [simp del]

fun atoi_acc :: "nat \<Rightarrow> string \<Rightarrow> nat option" where
  "atoi_acc acc [] = Some acc"
| "atoi_acc acc (c # cs) =
     (if 48 \<le> (of_char c :: nat) \<and> (of_char c :: nat) \<le> 57
      then atoi_acc (10 * acc + (of_char c - 48)) cs else None)"

definition atoi :: "string \<Rightarrow> nat option" where
  "atoi s = (if s = [] then None else atoi_acc 0 s)"

lemma atoi_acc_append:
  "atoi_acc acc (xs @ ys) = (case atoi_acc acc xs of None \<Rightarrow> None | Some a \<Rightarrow> atoi_acc a ys)"
  by (induction acc xs rule: atoi_acc.induct) auto

lemma of_char_digit: "d < 10 \<Longrightarrow> (of_char (digit_char d) :: nat) = 48 + d"
  by (simp add: digit_char_def)

lemma atoi_acc_itoa: "atoi_acc 0 (itoa n) = Some n"
proof (induction n rule: itoa.induct)
  case (1 n)
  show ?case
  proof (cases "n < 10")
    case True
    then show ?thesis by (simp add: itoa.simps [of n] of_char_digit)
  next
    case False
    with "1" have "atoi_acc 0 (itoa (n div 10)) = Some (n div 10)" by simp
    with False show ?thesis
      by (simp add: itoa.simps [of n] atoi_acc_append of_char_digit)
  qed
qed

lemma itoa_nonempty: "itoa n \<noteq> []"
  by (subst itoa.simps) simp

lemma atoi_itoa: "atoi (itoa n) = Some n"
  by (simp add: atoi_def itoa_nonempty atoi_acc_itoa)

text \<open>\<open>strconv.FormatInt(n, 10)\<close> and \<open>strconv.ParseInt(s, 10, 64)\<close>; \<open>None\<close> is its error.\<close>

definition FormatInt :: "int \<Rightarrow> string" where
  "FormatInt n = (if n < 0 then CHR ''-'' # itoa (nat (- n)) else itoa (nat n))"

definition in_int64 :: "int \<Rightarrow> bool" where
  "in_int64 n \<longleftrightarrow> - (2 ^ 63) \<le> n \<and> n < 2 ^ 63"

definition ParseInt :: "string \<Rightarrow> int option" where
  "ParseInt s =
     (case (case s of [] \<Rightarrow> None
              | c # ds \<Rightarrow> if c = CHR ''-'' then map_option (\<lambda>n. - int n) (atoi ds)
                         else if c = CHR ''+'' then map_option int (atoi ds) else map_option int (atoi s)) of
        None \<Rightarrow> None
      | Some n \<Rightarrow> if in_int64 n then Some n else None)"

lemma digit_char_digit: "d < 10 \<Longrightarrow> digit_char d \<noteq> CHR ''-'' \<and> digit_char d \<noteq> CHR ''+''"
  using of_char_digit [of d] by auto

lemma hd_itoa: "hd (itoa n) \<noteq> CHR ''-'' \<and> hd (itoa n) \<noteq> CHR ''+''"
proof (induction n rule: itoa.induct)
  case (1 n)
  show ?case
  proof (cases "n < 10")
    case True
    then show ?thesis by (simp add: itoa.simps [of n] digit_char_digit)
  next
    case False
    with "1" itoa_nonempty [of "n div 10"] show ?thesis by (simp add: itoa.simps [of n] hd_append)
  qed
qed

lemma ParseInt_FormatInt: "in_int64 n \<Longrightarrow> ParseInt (FormatInt n) = Some n"
proof (cases "n < 0")
  case False
  assume r: "in_int64 n"
  obtain c ds where c: "itoa (nat n) = c # ds" using itoa_nonempty [of "nat n"] by (cases "itoa (nat n)") auto
  with hd_itoa [of "nat n"] have "c \<noteq> CHR ''-''" "c \<noteq> CHR ''+''" by simp_all
  with False r c atoi_itoa [of "nat n"] show ?thesis by (simp add: ParseInt_def FormatInt_def)
qed (simp add: ParseInt_def FormatInt_def atoi_itoa)

lemma FormatInt_nonempty: "FormatInt n \<noteq> []"
  by (simp add: FormatInt_def itoa_nonempty)

lemma itoa_inj: "itoa m = itoa n \<longleftrightarrow> m = n"
  by (metis atoi_itoa option.inject)

lemma FormatInt_inj: "FormatInt m = FormatInt n \<longleftrightarrow> m = n"
proof
  assume eq: "FormatInt m = FormatInt n"
  have "hd (FormatInt k) = CHR ''-'' \<longleftrightarrow> k < 0" for k
    using hd_itoa [of "nat k"] by (simp add: FormatInt_def)
  then have "(m < 0) = (n < 0)" using eq by metis
  with eq show "m = n" by (auto simp: FormatInt_def itoa_inj split: if_splits)
qed simp

text \<open>Go's integer division and remainder truncate towards zero.\<close>

definition go_div :: "int \<Rightarrow> int \<Rightarrow> int" where
  "go_div a b = sgn a * sgn b * (\<bar>a\<bar> div \<bar>b\<bar>)"

definition go_mod :: "int \<Rightarrow> int \<Rightarrow> int" where
  "go_mod a b = a - go_div a b * b"

text \<open>\<open>strings.ReplaceAll\<close> for an old text that is not empty.\<close>

fun ReplaceAll :: "string \<Rightarrow> string \<Rightarrow> string \<Rightarrow> string" where
  "ReplaceAll old new [] = []"
| "ReplaceAll old new (c # s) =
     (if prefix old (c # s) \<and> old \<noteq> [] then new @ ReplaceAll old new (drop (length old - 1) s)
      else c # ReplaceAll old new s)"

fun be_nat :: "bytes \<Rightarrow> nat" where
  "be_nat [] = 0"
| "be_nat (c # cs) = of_char c * 256 ^ length cs + be_nat cs"

subsection \<open>Keyed lists: a slice of structs searched by a field\<close>

text \<open>
  \<open>keyed key val xs\<close> is the map a slice of structs represents when it is searched from the
  front by the field \<open>key\<close>.
\<close>

definition keyed :: "('a \<Rightarrow> 'k) \<Rightarrow> ('a \<Rightarrow> 'v) \<Rightarrow> 'a list \<Rightarrow> ('k \<rightharpoonup> 'v)" where
  "keyed key val xs = map_of (map (\<lambda>x. (key x, val x)) xs)"

lemma keyed_Nil [simp]: "keyed key val [] = Map.empty"
  by (simp add: keyed_def)

lemma keyed_Cons [simp]: "keyed key val (x # xs) = (keyed key val xs)(key x \<mapsto> val x)"
  by (simp add: keyed_def)

lemma keyed_find: "keyed key val xs k = map_option val (find (\<lambda>x. key x = k) xs)"
  by (induction xs) auto

lemma keyed_append: "keyed key val (xs @ ys) = keyed key val ys ++ keyed key val xs"
  by (simp add: keyed_def)

lemma keyed_None: "keyed key val xs k = None \<longleftrightarrow> k \<notin> key ` set xs"
  by (induction xs) auto

lemma keyed_SomeD: "keyed key val xs k = Some v \<Longrightarrow> \<exists>x \<in> set xs. key x = k \<and> val x = v"
  by (induction xs) (auto split: if_splits)

lemma dom_keyed: "dom (keyed key val xs) = key ` set xs"
  by (auto simp: dom_def keyed_None simp flip: not_None_eq)

lemma keyed_filter:
  "keyed key val (filter (\<lambda>x. P (key x)) xs) k = (if P k then keyed key val xs k else None)"
  by (induction xs) auto

lemma keyed_distinct_Some:
  "distinct (map key xs) \<Longrightarrow> x \<in> set xs \<Longrightarrow> keyed key val xs (key x) = Some (val x)"
proof (induction xs)
  case (Cons a xs)
  then show ?case
    by (cases "x \<in> set xs") (auto simp: rev_image_eqI)
qed simp

lemma keyed_mset_cong:
  assumes "mset xs = mset ys" and "distinct (map key xs)"
  shows "keyed key val xs = keyed key val ys"
proof
  fix k
  have S: "set xs = set ys" using assms(1) by (rule mset_eq_setD)
  have d: "distinct (map key ys)"
    using assms by (metis mset_eq_imp_distinct_iff mset_map)
  show "keyed key val xs k = keyed key val ys k"
  proof (cases "keyed key val xs k")
    case None
    then have "k \<notin> key ` set ys" using S by (simp add: keyed_None)
    then have "keyed key val ys k = None" by (simp add: keyed_None)
    with None show ?thesis by simp
  next
    case (Some v)
    then obtain x where x: "x \<in> set xs" "key x = k" "val x = v" by (blast dest: keyed_SomeD)
    then have "x \<in> set ys" using S by simp
    from keyed_distinct_Some [OF d this, of val] x Some show ?thesis by simp
  qed
qed

text \<open>
  The update loop of the code: overwrite the first element with the key, or append a new
  element when no element has it.
\<close>

fun set_or_append :: "('a \<Rightarrow> bool) \<Rightarrow> ('a \<Rightarrow> 'a) \<Rightarrow> 'a \<Rightarrow> 'a list \<Rightarrow> 'a list" where
  "set_or_append p f d [] = [d]"
| "set_or_append p f d (x # xs) = (if p x then f x # xs else x # set_or_append p f d xs)"

lemma set_or_append_keys:
  assumes "\<And>x. key x = k \<Longrightarrow> key (f x) = k" and "key d = k"
  shows "map key (set_or_append (\<lambda>x. key x = k) f d xs) =
     (if k \<in> key ` set xs then map key xs else map key xs @ [k])"
  using assms by (induction xs) auto

lemma set_or_append_distinct:
  assumes "\<And>x. key x = k \<Longrightarrow> key (f x) = k" and "key d = k" and "distinct (map key xs)"
  shows "distinct (map key (set_or_append (\<lambda>x. key x = k) f d xs))"
  using assms by (simp add: set_or_append_keys)

lemma keyed_set_or_append:
  assumes "\<And>x. key x = k \<Longrightarrow> key (f x) = k \<and> val (f x) = v" and "key d = k" and "val d = v"
  shows "keyed key val (set_or_append (\<lambda>x. key x = k) f d xs) = (keyed key val xs)(k \<mapsto> v)"
  using assms by (induction xs) (auto simp: fun_upd_twist)

lemma set_set_or_append_subset:
  "set (set_or_append p f d xs) \<subseteq> insert d (set xs \<union> f ` {x \<in> set xs. p x})"
  by (induction xs) auto

end
