(* ===== verification/Prom_Labels.thy ===== *)
theory Prom_Labels
  imports Go_Prelude
begin

text \<open>
  Label sets and their builders: \<open>src/pkg/prom/labels/labels.go\<close>. A label set is a slice of
  name/value pairs in the order of the names. \<open>slices.SortFunc\<close> sorts without promising the
  order of equal names, and \<open>xxhash\<close>, \<open>strconv.Quote\<close> and the validity checks of
  \<open>prometheus/common/model\<close> are code the repository only calls: they are arguments of the
  definitions that use them, and \<open>sorts_by_name\<close> and \<open>xxhash_streams\<close> state what is relied on.
\<close>

subsection \<open>Data\<close>

record label =
  Name :: string
  Value :: string

type_synonym Labels = "label list"

abbreviation Label :: "string \<Rightarrow> string \<Rightarrow> label" where
  "Label n v \<equiv> \<lparr>Name = n, Value = v\<rparr>"

abbreviation label_map :: "Labels \<Rightarrow> (string \<rightharpoonup> string)" where
  "label_map \<equiv> keyed Name Value"

abbreviation label_names :: "Labels \<Rightarrow> string list" where
  "label_names ls \<equiv> map Name ls"

definition MetricName :: string where "MetricName = ''__name__''"

definition labelSep :: char where "labelSep = CHR 0xFE"

definition seps :: bytes where "seps = [CHR 0xFF]"

definition sorts_by_name :: "(Labels \<Rightarrow> Labels) \<Rightarrow> bool" where
  "sorts_by_name srt \<longleftrightarrow> (\<forall>ls. mset (srt ls) = mset ls \<and> sorted (label_names (srt ls)))"

record 'd xxhash =
  xx_Sum64 :: "bytes \<Rightarrow> 64 word"
  xx_New :: 'd
  xx_Write :: "'d \<Rightarrow> bytes \<Rightarrow> 'd"
  xx_digest_Sum64 :: "'d \<Rightarrow> 64 word"

definition xxhash_streams :: "'d xxhash \<Rightarrow> bool" where
  "xxhash_streams x \<longleftrightarrow>
     (\<forall>chunks. xx_digest_Sum64 x (foldl (xx_Write x) (xx_New x) chunks) = xx_Sum64 x (concat chunks))"

subsection \<open>Printing, bytes and hashes\<close>

fun Labels_String_loop :: "(string \<Rightarrow> string) \<Rightarrow> nat \<Rightarrow> Labels \<Rightarrow> string" where
  "Labels_String_loop quote i [] = []"
| "Labels_String_loop quote i (l # ls) =
     (if i > 0 then '', '' else []) @ Name l @ ''='' @ quote (Value l)
       @ Labels_String_loop quote (Suc i) ls"

definition Labels_String :: "(string \<Rightarrow> string) \<Rightarrow> Labels \<Rightarrow> string" where
  "Labels_String quote ls = ''{'' @ Labels_String_loop quote 0 ls @ ''}''"

fun Labels_Bytes_loop :: "nat \<Rightarrow> Labels \<Rightarrow> bytes" where
  "Labels_Bytes_loop i [] = []"
| "Labels_Bytes_loop i (l # ls) =
     (if i > 0 then seps else []) @ Name l @ seps @ Value l @ Labels_Bytes_loop (Suc i) ls"

definition Labels_Bytes :: "Labels \<Rightarrow> bytes" where
  "Labels_Bytes ls = labelSep # Labels_Bytes_loop 0 ls"

definition MatchLabels :: "Labels \<Rightarrow> bool \<Rightarrow> string list \<Rightarrow> Labels" where
  "MatchLabels ls on names =
     filter (\<lambda>v. on = (Name v \<in> set names) \<and> (on \<or> Name v \<noteq> MetricName)) ls"

definition label_chunk :: "label \<Rightarrow> bytes" where
  "label_chunk l = Name l @ seps @ Value l @ seps"

fun Hash_stream :: "'d xxhash \<Rightarrow> 'd \<Rightarrow> Labels \<Rightarrow> 'd" where
  "Hash_stream x h [] = h"
| "Hash_stream x h (v # ls) =
     Hash_stream x (xx_Write x (xx_Write x (xx_Write x (xx_Write x h (Name v)) seps) (Value v)) seps) ls"

fun Hash_loop :: "'d xxhash \<Rightarrow> Labels \<Rightarrow> bytes \<Rightarrow> 64 word" where
  "Hash_loop x [] b = xx_Sum64 x b"
| "Hash_loop x (v # ls) b =
     (if length b + length (Name v) + length (Value v) + 2 \<ge> 1024
      then xx_digest_Sum64 x (Hash_stream x (xx_Write x (xx_New x) b) (v # ls))
      else Hash_loop x ls (b @ Name v @ seps @ Value v @ seps))"

definition Labels_Hash :: "'d xxhash \<Rightarrow> Labels \<Rightarrow> 64 word" where
  "Labels_Hash x ls = Hash_loop x ls []"

fun HashForLabels_loop :: "Labels \<Rightarrow> string list \<Rightarrow> bytes \<Rightarrow> bytes" where
  "HashForLabels_loop [] ns b = b"
| "HashForLabels_loop (l # ls) [] b = b"
| "HashForLabels_loop (l # ls) (n # ns) b =
     (if n < Name l then HashForLabels_loop (l # ls) ns b
      else if Name l < n then HashForLabels_loop ls (n # ns) b
      else HashForLabels_loop ls ns (b @ Name l @ seps @ Value l @ seps))"

definition HashForLabels :: "'d xxhash \<Rightarrow> Labels \<Rightarrow> string list \<Rightarrow> 64 word \<times> bytes" where
  "HashForLabels x ls names =
     (let b = HashForLabels_loop ls names [] in (xx_Sum64 x b, b))"

fun HashWithoutLabels_loop :: "Labels \<Rightarrow> string list \<Rightarrow> bytes \<Rightarrow> bytes" where
  "HashWithoutLabels_loop [] ns b = b"
| "HashWithoutLabels_loop (l # ls) ns b =
     (let ns' = dropWhile (\<lambda>n. n < Name l) ns in
      if Name l = MetricName \<or> (ns' \<noteq> [] \<and> Name l = hd ns')
      then HashWithoutLabels_loop ls ns' b
      else HashWithoutLabels_loop ls ns' (b @ Name l @ seps @ Value l @ seps))"

definition HashWithoutLabels :: "'d xxhash \<Rightarrow> Labels \<Rightarrow> string list \<Rightarrow> 64 word \<times> bytes" where
  "HashWithoutLabels x ls names =
     (let b = HashWithoutLabels_loop ls names [] in (xx_Sum64 x b, b))"

fun BytesWithLabels_loop :: "Labels \<Rightarrow> string list \<Rightarrow> bytes \<Rightarrow> bytes" where
  "BytesWithLabels_loop [] ns b = b"
| "BytesWithLabels_loop (l # ls) [] b = b"
| "BytesWithLabels_loop (l # ls) (n # ns) b =
     (if n < Name l then BytesWithLabels_loop (l # ls) ns b
      else if Name l < n then BytesWithLabels_loop ls (n # ns) b
      else BytesWithLabels_loop ls ns
             (b @ (if length b > 1 then seps else []) @ Name l @ seps @ Value l))"

definition BytesWithLabels :: "Labels \<Rightarrow> string list \<Rightarrow> bytes" where
  "BytesWithLabels ls names = BytesWithLabels_loop ls names [labelSep]"

fun BytesWithoutLabels_loop :: "Labels \<Rightarrow> string list \<Rightarrow> bytes \<Rightarrow> bytes" where
  "BytesWithoutLabels_loop [] ns b = b"
| "BytesWithoutLabels_loop (l # ls) ns b =
     (let ns' = dropWhile (\<lambda>n. n < Name l) ns in
      if ns' \<noteq> [] \<and> Name l = hd ns'
      then BytesWithoutLabels_loop ls ns' b
      else BytesWithoutLabels_loop ls ns'
             (b @ (if length b > 1 then seps else []) @ Name l @ seps @ Value l))"

definition BytesWithoutLabels :: "Labels \<Rightarrow> string list \<Rightarrow> bytes" where
  "BytesWithoutLabels ls names = BytesWithoutLabels_loop ls names [labelSep]"

subsection \<open>Reading a label set\<close>

definition Labels_Get :: "Labels \<Rightarrow> string \<Rightarrow> string" where
  "Labels_Get ls name = (case find (\<lambda>l. Name l = name) ls of Some l \<Rightarrow> Value l | None \<Rightarrow> [])"

definition Labels_Has :: "Labels \<Rightarrow> string \<Rightarrow> bool" where
  "Labels_Has ls name = (find (\<lambda>l. Name l = name) ls \<noteq> None)"

fun HasDuplicateLabelNames :: "Labels \<Rightarrow> string \<times> bool" where
  "HasDuplicateLabelNames (a # l # ls) =
     (if Name l = Name a then (Name l, True) else HasDuplicateLabelNames (l # ls))"
| "HasDuplicateLabelNames _ = ([], False)"

definition WithoutEmpty :: "Labels \<Rightarrow> Labels" where
  "WithoutEmpty ls =
     (if \<exists>v \<in> set ls. Value v = [] then filter (\<lambda>v. Value v \<noteq> []) ls else ls)"

fun Labels_IsValid ::
  "(string \<Rightarrow> bool) \<Rightarrow> (string \<Rightarrow> bool) \<Rightarrow> (string \<Rightarrow> bool) \<Rightarrow> Labels \<Rightarrow> bool" where
  "Labels_IsValid metricOK nameOK valueOK [] = True"
| "Labels_IsValid metricOK nameOK valueOK (l # ls) =
     (if Name l = MetricName \<and> \<not> metricOK (Value l) then False
      else if \<not> nameOK (Name l) \<or> \<not> valueOK (Value l) then False
      else Labels_IsValid metricOK nameOK valueOK ls)"

fun Labels_Equal_loop :: "Labels \<Rightarrow> Labels \<Rightarrow> bool" where
  "Labels_Equal_loop (l # ls) (k # o') = (if l \<noteq> k then False else Labels_Equal_loop ls o')"
| "Labels_Equal_loop _ _ = True"

definition Labels_Equal :: "Labels \<Rightarrow> Labels \<Rightarrow> bool" where
  "Labels_Equal ls o' = (if length ls \<noteq> length o' then False else Labels_Equal_loop ls o')"

definition Labels_Map :: "Labels \<Rightarrow> (string \<rightharpoonup> string)" where
  "Labels_Map ls = foldl (\<lambda>m l. m(Name l \<mapsto> Value l)) Map.empty ls"

fun Labels_Compare_loop :: "Labels \<Rightarrow> Labels \<Rightarrow> int" where
  "Labels_Compare_loop (x # xs) (y # ys) =
     (if Name x \<noteq> Name y then (if Name x < Name y then -1 else 1)
      else if Value x \<noteq> Value y then (if Value x < Value y then -1 else 1)
      else Labels_Compare_loop xs ys)"
| "Labels_Compare_loop xs ys = int (length xs) - int (length ys)"

definition Labels_Compare :: "Labels \<Rightarrow> Labels \<Rightarrow> int" where
  "Labels_Compare a b = Labels_Compare_loop a b"

fun Labels_Validate :: "(label \<Rightarrow> 'e option) \<Rightarrow> Labels \<Rightarrow> 'e option" where
  "Labels_Validate f [] = None"
| "Labels_Validate f (l # ls) = (case f l of Some e \<Rightarrow> Some e | None \<Rightarrow> Labels_Validate f ls)"

definition InternStrings :: "(string \<Rightarrow> string) \<Rightarrow> Labels \<Rightarrow> Labels" where
  "InternStrings intern ls = map (\<lambda>l. Label (intern (Name l)) (intern (Value l))) ls"

subsection \<open>Making a label set\<close>

definition Labels_New :: "(Labels \<Rightarrow> Labels) \<Rightarrow> label list \<Rightarrow> Labels" where
  "Labels_New srt ls = srt ls"

text \<open>A Go map is ranged over in an unspecified order: the argument is one enumeration of it.\<close>

definition Labels_FromMap :: "(Labels \<Rightarrow> Labels) \<Rightarrow> (string \<times> string) list \<Rightarrow> Labels" where
  "Labels_FromMap srt kvs = Labels_New srt (map (\<lambda>(k, v). Label k v) kvs)"

fun string_pairs :: "string list \<Rightarrow> Labels" where
  "string_pairs (n # v # ss) = Label n v # string_pairs ss"
| "string_pairs _ = []"

definition Labels_FromStrings :: "(Labels \<Rightarrow> Labels) \<Rightarrow> string list \<Rightarrow> Labels go" where
  "Labels_FromStrings srt ss =
     (if length ss mod 2 \<noteq> 0 then Inl (ExplicitPanic ''invalid number of strings'')
      else Inr (srt (string_pairs ss)))"

subsection \<open>Sorting\<close>

lemma sorts_by_nameD:
  assumes "sorts_by_name srt"
  shows "mset (srt ls) = mset ls" and "sorted (label_names (srt ls))" and "set (srt ls) = set ls"
    and "distinct (label_names (srt ls)) \<longleftrightarrow> distinct (label_names ls)"
proof -
  show m: "mset (srt ls) = mset ls" and "sorted (label_names (srt ls))"
    using assms by (simp_all add: sorts_by_name_def)
  from m show "set (srt ls) = set ls" by (rule mset_eq_setD)
  from m have "mset (label_names (srt ls)) = mset (label_names ls)" by simp
  then show "distinct (label_names (srt ls)) \<longleftrightarrow> distinct (label_names ls)"
    by (rule mset_eq_imp_distinct_iff)
qed

lemma sorts_by_name_sort_key: "sorts_by_name (sort_key Name)"
  by (simp add: sorts_by_name_def)

lemma sorted_names_unique:
  assumes "mset xs = mset ys" and "sorted (label_names xs)" and "sorted (label_names ys)"
    and "distinct (label_names xs)"
  shows "xs = ys"
proof -
  have "set xs = set ys" using assms(1) by (rule mset_eq_setD)
  moreover have "distinct (label_names ys)"
    using assms(1,4) by (metis mset_eq_imp_distinct_iff mset_map)
  moreover have "inj_on Name (set xs)"
    using assms(4) by (simp add: distinct_map)
  ultimately show ?thesis
    using assms by (intro map_sorted_distinct_set_unique [of Name]) auto
qed

subsection \<open>Hashes\<close>

lemma Hash_stream_foldl:
  "Hash_stream x h ls =
     foldl (xx_Write x) h (concat (map (\<lambda>l. [Name l, seps, Value l, seps]) ls))"
  by (induction x h ls rule: Hash_stream.induct) auto

lemma concat_label_chunks:
  "concat (concat (map (\<lambda>l. [Name l, seps, Value l, seps]) ls)) = concat (map label_chunk ls)"
  by (induction ls) (auto simp: label_chunk_def)

lemma Hash_loop_chunks:
  assumes "xxhash_streams x"
  shows "Hash_loop x ls b = xx_Sum64 x (b @ concat (map label_chunk ls))"
proof (induction ls arbitrary: b)
  case (Cons v ls)
  have "xx_digest_Sum64 x (Hash_stream x (xx_Write x (xx_New x) b) (v # ls)) =
      xx_Sum64 x (concat (b # concat (map (\<lambda>l. [Name l, seps, Value l, seps]) (v # ls))))"
    using assms [unfolded xxhash_streams_def, rule_format,
      of "b # concat (map (\<lambda>l. [Name l, seps, Value l, seps]) (v # ls))"]
    by (simp add: Hash_stream_foldl)
  then have "xx_digest_Sum64 x (Hash_stream x (xx_Write x (xx_New x) b) (v # ls)) =
      xx_Sum64 x (b @ concat (map label_chunk (v # ls)))"
    by (simp only: concat.simps concat_label_chunks)
  with Cons.IH show ?case by (simp add: label_chunk_def [of v])
qed simp

lemma HashForLabels_loop_filter:
  assumes "sorted_wrt (<) (label_names ls)" and "sorted names"
  shows "HashForLabels_loop ls names b =
     b @ concat (map label_chunk (filter (\<lambda>l. Name l \<in> set names) ls))"
  using assms
proof (induction ls names b rule: HashForLabels_loop.induct)
  case (3 l ls n ns b)
  consider "n < Name l" | "Name l < n" | "Name l = n" by fastforce
  then show ?case
  proof cases
    case 1
    then have "filter (\<lambda>k. Name k \<in> set (n # ns)) (l # ls) = filter (\<lambda>k. Name k \<in> set ns) (l # ls)"
      using "3.prems"(1) by (intro filter_cong) auto
    with 1 3 show ?thesis by simp
  next
    case 2
    then have "Name l \<notin> set (n # ns)" using "3.prems"(2) by auto
    with 2 3 show ?thesis by auto
  next
    case eq: 3
    then have "filter (\<lambda>k. Name k \<in> set (n # ns)) ls = filter (\<lambda>k. Name k \<in> set ns) ls"
      using "3.prems"(1) by (intro filter_cong) auto
    with eq 3 show ?thesis by (simp add: label_chunk_def)
  qed
qed auto

lemma dropWhile_less_member:
  assumes "sorted ns" and "x \<le> (y :: 'a :: linorder)"
  shows "y \<in> set (dropWhile (\<lambda>n. n < x) ns) \<longleftrightarrow> y \<in> set ns"
  using assms by (induction ns) auto

lemma hd_dropWhile_less_member:
  assumes "sorted ns"
  shows "dropWhile (\<lambda>n. n < x) ns \<noteq> [] \<and> x = hd (dropWhile (\<lambda>n. n < x) ns) \<longleftrightarrow> x \<in> set (ns :: 'a :: linorder list)"
  using assms by (induction ns) auto

lemma sorted_dropWhile_less: "sorted ns \<Longrightarrow> sorted (dropWhile (\<lambda>n. n < (x :: 'a :: linorder)) ns)"
  by (rule sorted_wrt_dropWhile)

lemma HashWithoutLabels_loop_filter:
  assumes "sorted (label_names ls)" and "sorted names"
  shows "HashWithoutLabels_loop ls names b =
     b @ concat (map label_chunk
       (filter (\<lambda>l. Name l \<noteq> MetricName \<and> Name l \<notin> set names) ls))"
  using assms
proof (induction ls names b rule: HashWithoutLabels_loop.induct)
  case (2 l ls ns b)
  define ns' where "ns' = dropWhile (\<lambda>n. n < Name l) ns"
  have s: "sorted ns'" using "2.prems"(2) by (simp add: ns'_def sorted_dropWhile_less)
  have m: "ns' \<noteq> [] \<and> Name l = hd ns' \<longleftrightarrow> Name l \<in> set ns"
    unfolding ns'_def by (rule hd_dropWhile_less_member [OF "2.prems"(2)])
  have f: "filter (\<lambda>k. Name k \<noteq> MetricName \<and> Name k \<notin> set ns') ls =
      filter (\<lambda>k. Name k \<noteq> MetricName \<and> Name k \<notin> set ns) ls"
    using "2.prems" unfolding ns'_def by (intro filter_cong) (auto simp: dropWhile_less_member)
  show ?case
  proof (cases "Name l = MetricName \<or> Name l \<in> set ns")
    case True
    with m have c: "Name l = MetricName \<or> (ns' \<noteq> [] \<and> Name l = hd ns')" by blast
    with "2.IH"(1) [OF ns'_def] "2.prems"(1) s f True show ?thesis
      by (auto simp add: Let_def simp flip: ns'_def)
  next
    case False
    with m have c: "\<not> (Name l = MetricName \<or> (ns' \<noteq> [] \<and> Name l = hd ns'))" by blast
    with "2.IH"(2) [OF ns'_def] "2.prems"(1) s f False show ?thesis
      by (auto simp add: Let_def label_chunk_def simp flip: ns'_def)
  qed
qed simp

subsection \<open>Bytes\<close>

lemma Labels_Bytes_loop_Suc:
  "Labels_Bytes_loop (Suc i) ls = concat (map (\<lambda>l. seps @ Name l @ seps @ Value l) ls)"
  by (induction ls arbitrary: i) auto

definition label_clean :: "label \<Rightarrow> bool" where
  "label_clean l \<longleftrightarrow> CHR 0xFF \<notin> set (Name l) \<and> CHR 0xFF \<notin> set (Value l)"

lemma split_at_sep:
  assumes "c \<notin> set x" and "c \<notin> set x'" and "x @ c # r = x' @ c # r'"
  shows "x = x' \<and> r = r'"
  using assms by (induction x arbitrary: x') (auto simp: Cons_eq_append_conv)

lemma label_bytes_tail_inject:
  assumes "list_all label_clean ls" and "list_all label_clean ks"
    and "CHR 0xFF \<notin> set x" and "CHR 0xFF \<notin> set y"
    and "x @ concat (map (\<lambda>l. seps @ Name l @ seps @ Value l) ls) =
         y @ concat (map (\<lambda>l. seps @ Name l @ seps @ Value l) ks)"
  shows "x = y \<and> ls = ks"
  using assms
proof (induction ls arbitrary: ks x y)
  case Nil
  show ?case
  proof (cases ks)
    case (Cons k ks')
    with Nil.prems(5) have "CHR 0xFF \<in> set x" by (simp add: seps_def)
    with Nil.prems(3) show ?thesis by simp
  qed (use Nil in simp)
next
  case (Cons l ls)
  have "ks \<noteq> []"
  proof
    assume "ks = []"
    with Cons.prems(5) have "y = x @ concat (map (\<lambda>l. seps @ Name l @ seps @ Value l) (l # ls))"
      by simp
    then have "CHR 0xFF \<in> set y" by (simp add: seps_def)
    with Cons.prems(4) show False by simp
  qed
  then obtain k ks' where ks: "ks = k # ks'" by (cases ks) auto
  let ?tl = "\<lambda>zs. concat (map (\<lambda>l. seps @ Name l @ seps @ Value l) zs)"
  have e: "x @ CHR 0xFF # (Name l @ CHR 0xFF # (Value l @ ?tl ls)) =
      y @ CHR 0xFF # (Name k @ CHR 0xFF # (Value k @ ?tl ks'))"
    using Cons.prems(5) by (simp add: ks seps_def)
  from split_at_sep [OF Cons.prems(3,4) e]
  have "x = y" and r: "Name l @ CHR 0xFF # (Value l @ ?tl ls) = Name k @ CHR 0xFF # (Value k @ ?tl ks')"
    by simp_all
  have c: "CHR 0xFF \<notin> set (Name l)" "CHR 0xFF \<notin> set (Name k)"
      "CHR 0xFF \<notin> set (Value l)" "CHR 0xFF \<notin> set (Value k)"
    using Cons.prems(1,2) by (simp_all add: ks label_clean_def)
  from split_at_sep [OF c(1,2) r]
  have "Name l = Name k" and r2: "Value l @ ?tl ls = Value k @ ?tl ks'" by simp_all
  have "Value l = Value k \<and> ls = ks'"
    using Cons.IH [of ks' "Value l" "Value k"] Cons.prems(1,2) c r2 by (simp add: ks)
  with \<open>x = y\<close> \<open>Name l = Name k\<close> show ?case by (simp add: ks)
qed

subsection \<open>Comparison\<close>

abbreviation label_pair :: "label \<Rightarrow> string \<times> string" where
  "label_pair l \<equiv> (Name l, Value l)"

lemma label_pair_inject: "label_pair l = label_pair k \<longleftrightarrow> l = k"
  by (cases l; cases k) simp

lemma map_label_pair_inject: "map label_pair ls = map label_pair ks \<longleftrightarrow> ls = ks"
  by (rule inj_map_eq_map) (simp add: inj_def label_pair_inject)

lemma Nil_less_map: "[] < map f ys \<longleftrightarrow> ys \<noteq> ([] :: 'a list)"
  by (cases ys) auto

lemma Labels_Compare_loop_sign:
  "(Labels_Compare_loop a b < 0 \<longleftrightarrow> map label_pair a < map label_pair b) \<and>
   (Labels_Compare_loop a b = 0 \<longleftrightarrow> a = b)"
proof (induction a b rule: Labels_Compare_loop.induct)
  case (1 x xs y ys)
  have eq: "x = y \<longleftrightarrow> Name x = Name y \<and> Value x = Value y"
    using label_pair_inject [of x y] by simp
  show ?case
  proof (cases "Name x = Name y \<and> Value x = Value y")
    case True
    then have "x = y" using eq by simp
    with "1" True show ?thesis by simp
  next
    case False
    then have "x \<noteq> y" by blast
    with False show ?thesis by (auto simp: less_prod_def' eq)
  qed
qed (auto simp: Nil_less_map)

subsection \<open>Maps\<close>

lemma Labels_Map_eq_gen:
  "foldl (\<lambda>m l. m(Name l \<mapsto> Value l)) m0 ls = m0 ++ label_map (rev ls)"
  by (induction ls arbitrary: m0) (auto simp: keyed_append)

lemma Labels_Map_distinct:
  assumes "distinct (label_names ls)"
  shows "Labels_Map ls = label_map ls"
proof -
  have "label_map (rev ls) = label_map ls"
    by (rule keyed_mset_cong) (use assms in \<open>simp_all flip: rev_map\<close>)
  then show ?thesis by (simp add: Labels_Map_def Labels_Map_eq_gen)
qed

lemma Labels_Get_view: "Labels_Get ls n = (case label_map ls n of None \<Rightarrow> [] | Some v \<Rightarrow> v)"
  by (simp add: Labels_Get_def keyed_find split: option.splits)

lemma Labels_Has_view: "Labels_Has ls n \<longleftrightarrow> n \<in> dom (label_map ls)"
  by (auto simp: Labels_Has_def keyed_find dom_def)

lemma keyed_pairs: "label_map (map (\<lambda>(k, v). Label k v) kvs) = map_of kvs"
  by (induction kvs) auto

lemma label_names_pairs: "label_names (map (\<lambda>(k, v). Label k v) kvs) = map fst kvs"
  by (induction kvs) auto

lemma HasDuplicateLabelNames_sorted:
  assumes "sorted (label_names ls)"
  shows "snd (HasDuplicateLabelNames ls) \<longleftrightarrow> \<not> distinct (label_names ls)"
  using assms
proof (induction ls rule: HasDuplicateLabelNames.induct)
  case (1 a l ls)
  show ?case
  proof (cases "Name l = Name a")
    case False
    with "1.prems" have "Name a \<notin> set (label_names (l # ls))" by force
    with False "1" show ?thesis by simp
  qed simp
qed auto

subsection \<open>Properties\<close>

text \<open>\<open>Labels.Hash\<close> gives the same hash on its fast path (one buffer under 1 KB) and on its
  streaming path: the hash of the concatenated name and value chunks, for any hash whose
  digest of a sequence of writes is the hash of their concatenation.\<close>

theorem Labels_Hash_path_independent:
  assumes "xxhash_streams x"
  shows "Labels_Hash x ls = xx_Sum64 x (concat (map label_chunk ls))"
  using Hash_loop_chunks [OF assms] by (simp add: Labels_Hash_def)

definition length_hash :: "bytes xxhash" where
  "length_hash = \<lparr>xx_Sum64 = (\<lambda>b. of_nat (length b)), xx_New = [], xx_Write = (@),
     xx_digest_Sum64 = (\<lambda>b. of_nat (length b))\<rparr>"

lemma foldl_append_concat: "foldl (@) b chunks = b @ concat chunks"
  by (induction chunks arbitrary: b) auto

lemma length_hash_streams: "xxhash_streams length_hash"
  by (simp add: xxhash_streams_def length_hash_def foldl_append_concat)

theorem Labels_Hash_path_independent_witness:
  "xxhash_streams length_hash \<and>
   Labels_Hash length_hash [Label ''a'' ''b'', Label ''k'' (replicate 1100 CHR ''x'')] = 1107"
  using length_hash_streams
    Labels_Hash_path_independent [OF length_hash_streams,
      of "[Label ''a'' ''b'', Label ''k'' (replicate 1100 CHR ''x'')]"]
  by (simp add: length_hash_def label_chunk_def seps_def)

text \<open>The two-pointer loops of \<open>HashForLabels\<close> and \<open>HashWithoutLabels\<close> hash exactly the
  labels whose names are listed, respectively the labels that are neither listed nor the
  metric name, when the label set is strictly sorted and the list of names is sorted.\<close>

theorem HashForLabels_selects:
  assumes "sorted_wrt (<) (label_names ls)" and "sorted names"
  shows "snd (HashForLabels x ls names) =
      concat (map label_chunk (filter (\<lambda>l. Name l \<in> set names) ls)) \<and>
    snd (HashWithoutLabels x ls names) =
      concat (map label_chunk (filter (\<lambda>l. Name l \<noteq> MetricName \<and> Name l \<notin> set names) ls))"
proof -
  have "sorted (label_names ls)" using assms(1) by (rule strict_sorted_imp_sorted)
  with assms show ?thesis
    by (simp add: HashForLabels_def HashWithoutLabels_def Let_def HashForLabels_loop_filter
      HashWithoutLabels_loop_filter)
qed

theorem HashForLabels_selects_witness:
  "snd (HashForLabels length_hash [Label ''a'' ''1'', Label ''b'' ''2'', Label ''d'' ''3''] [''b'', ''c'']) =
     label_chunk (Label ''b'' ''2'')"
  using HashForLabels_selects [of "[Label ''a'' ''1'', Label ''b'' ''2'', Label ''d'' ''3'']"
      "[''b'', ''c'']" length_hash]
  by simp

lemma not_less_or_eq_iff: "\<not> (x < y \<or> x = y) \<longleftrightarrow> y < (x :: 'a :: linorder)"
  by auto

text \<open>\<open>Compare\<close> is a total order on label sets: negative, zero and positive exactly when the
  first set precedes, equals or follows the second in the lexicographic order of the
  name/value pairs (so it is antisymmetric and transitive).\<close>

theorem Labels_Compare_lex:
  "(Labels_Compare a b < 0 \<longleftrightarrow> map label_pair a < map label_pair b) \<and>
   (Labels_Compare a b = 0 \<longleftrightarrow> a = b) \<and>
   (Labels_Compare a b > 0 \<longleftrightarrow> map label_pair b < map label_pair a)"
proof -
  have s: "Labels_Compare a b < 0 \<longleftrightarrow> map label_pair a < map label_pair b"
    and z: "Labels_Compare a b = 0 \<longleftrightarrow> map label_pair a = map label_pair b"
    using Labels_Compare_loop_sign [of a b] by (simp_all add: Labels_Compare_def map_label_pair_inject)
  have "Labels_Compare a b > 0 \<longleftrightarrow> \<not> (Labels_Compare a b < 0 \<or> Labels_Compare a b = 0)"
    by linarith
  also have "\<dots> \<longleftrightarrow> map label_pair b < map label_pair a"
    unfolding s z by (rule not_less_or_eq_iff)
  finally show ?thesis using s z by (simp add: map_label_pair_inject)
qed

lemma Labels_Bytes_eq_imp:
  assumes "list_all label_clean ls" and "list_all label_clean ks"
    and "Labels_Bytes ls = Labels_Bytes ks"
  shows "ls = ks"
proof (cases "ls = [] \<or> ks = []")
  case True
  with assms(3) show ?thesis by (cases ls; cases ks) (auto simp: Labels_Bytes_def seps_def)
next
  case False
  then obtain l ls' k ks' where eq: "ls = l # ls'" "ks = k # ks'"
    by (metis list.exhaust)
  have h: "concat (map (\<lambda>l. seps @ Name l @ seps @ Value l) ls) =
      concat (map (\<lambda>l. seps @ Name l @ seps @ Value l) ks)"
    using assms(3) by (simp add: Labels_Bytes_def eq Labels_Bytes_loop_Suc)
  have "([] :: bytes) = [] \<and> ls = ks"
    by (rule label_bytes_tail_inject [OF assms(1,2)]) (simp_all only: h append_Nil, simp_all)
  then show ?thesis by simp
qed

text \<open>\<open>Labels.Bytes\<close> identifies a label set: two different sets whose names and values hold
  no byte 0xFF (which no UTF-8 text holds) have different bytes.\<close>

theorem Labels_Bytes_separates:
  assumes "list_all label_clean ls" and "list_all label_clean ks" and "ls \<noteq> ks"
  shows "Labels_Bytes ls \<noteq> Labels_Bytes ks"
  using assms Labels_Bytes_eq_imp by blast

theorem Labels_Bytes_separates_witness:
  "Labels_Bytes [Label ''a'' ''b'', Label ''c'' ''d''] \<noteq> Labels_Bytes [Label ''a'' ''bc'', Label ''d'' '''']"
  by (rule Labels_Bytes_separates) (simp_all add: label_clean_def)

text \<open>\<open>FromMap\<close> does not depend on the order in which the map is enumerated, is sorted by
  name, and \<open>Map\<close> reads back the map it was built from.\<close>

theorem FromMap_canonical:
  assumes "sorts_by_name srt" and "distinct (map fst kvs)" and "distinct (map fst kvs')"
    and "map_of kvs = map_of kvs'"
  shows "Labels_FromMap srt kvs = Labels_FromMap srt kvs' \<and>
    sorted (label_names (Labels_FromMap srt kvs)) \<and>
    Labels_Map (Labels_FromMap srt kvs) = map_of kvs"
proof -
  let ?l = "map (\<lambda>(k, v). Label k v) kvs" and ?l' = "map (\<lambda>(k, v). Label k v) kvs'"
  have "mset kvs = mset kvs'"
    using map_of_inject_set [OF assms(2,3)] assms(2-4)
    by (simp add: distinct_map set_eq_iff_mset_eq_distinct)
  then have m: "mset (srt ?l) = mset (srt ?l')"
    by (simp add: sorts_by_nameD(1) [OF assms(1)])
  have d: "distinct (label_names (srt ?l))"
    using assms(2) by (simp add: sorts_by_nameD(4) [OF assms(1)] label_names_pairs del: map_map)
  have e: "srt ?l = srt ?l'"
    by (rule sorted_names_unique [OF m _ _ d]) (rule sorts_by_nameD(2) [OF assms(1)])+
  have "Labels_Map (srt ?l) = label_map (srt ?l)" using d by (rule Labels_Map_distinct)
  also have "\<dots> = label_map ?l"
    by (rule keyed_mset_cong [OF _ d]) (rule sorts_by_nameD(1) [OF assms(1)])
  finally have "Labels_Map (srt ?l) = map_of kvs" by (simp add: keyed_pairs)
  with e sorts_by_nameD(2) [OF assms(1)] show ?thesis
    by (simp add: Labels_FromMap_def Labels_New_def)
qed

theorem FromMap_canonical_witness:
  "Labels_FromMap (sort_key Name) [(''b'', ''1''), (''a'', ''2'')] =
   Labels_FromMap (sort_key Name) [(''a'', ''2''), (''b'', ''1'')]"
  using FromMap_canonical [OF sorts_by_name_sort_key, of "[(''b'', ''1''), (''a'', ''2'')]"
      "[(''a'', ''2''), (''b'', ''1'')]"]
  by (simp add: fun_eq_iff)

end
