(* ===== verification/Label_Builder.thy ===== *)
theory Label_Builder
  imports Prom_Labels
begin

text \<open>
  The builders of \<open>src/pkg/prom/labels/labels.go\<close>. \<open>Builder\<close> keeps the label set it started
  from and two slices of pending changes, \<open>del\<close> and \<open>add\<close>. The locale \<open>label_builder\<close> is the
  contract its clients rely on, a map from names to non-empty values; the interpretation
  \<open>bld\<close> discharges it for the definitions of this theory, and the relabelling component
  uses the lemmas proved once inside the locale.
\<close>

subsection \<open>Builder\<close>

record builder =
  bld_base :: Labels
  bld_del :: "string list"
  bld_add :: "label list"

definition Builder_Reset :: "builder \<Rightarrow> Labels \<Rightarrow> builder" where
  "Builder_Reset b base =
     b\<lparr>bld_base := base, bld_add := [],
       bld_del := map Name (filter (\<lambda>l. Value l = []) base)\<rparr>"

definition NewBuilder :: "Labels \<Rightarrow> builder" where
  "NewBuilder base = Builder_Reset \<lparr>bld_base = [], bld_del = [], bld_add = []\<rparr> base"

text \<open>
  \<open>Del\<close> removes from the slice it ranges over. The range reads the backing array \<open>arr\<close> up
  to the length the slice had when the loop started, while \<open>m\<close> is the length of \<open>b.add\<close> at
  this point; \<open>append(b.add[:i], b.add[i+1:]...)\<close> shifts inside the backing array, and
  \<open>b.add[i+1:]\<close> panics when \<open>i+1\<close> is past that length.
\<close>

function Del_loop :: "string \<Rightarrow> label list \<Rightarrow> nat \<Rightarrow> nat \<Rightarrow> label list go" where
  "Del_loop n arr m i =
     (if i \<ge> length arr then Inr (take m arr)
      else if Name (arr ! i) = n then
        (if m < i + 1 then Inl SliceBoundsOutOfRange
         else Del_loop n (take i arr @ drop (i + 1) (take m arr) @ drop (m - 1) arr) (m - 1) (i + 1))
      else Del_loop n arr m (i + 1))"
  by pat_completeness auto
termination
  by (relation "measure (\<lambda>(n, arr, m, i). length arr - i)") auto

declare Del_loop.simps [simp del]

definition Builder_Del1 :: "builder \<Rightarrow> string \<Rightarrow> builder go" where
  "Builder_Del1 b n =
     and_then (Del_loop n (bld_add b) (length (bld_add b)) 0)
       (\<lambda>add'. Inr (b\<lparr>bld_add := add', bld_del := bld_del b @ [n]\<rparr>))"

definition Builder_Del :: "builder \<Rightarrow> string list \<Rightarrow> builder go" where
  "Builder_Del b ns = foldM Builder_Del1 b ns"

definition Builder_Keep :: "builder \<Rightarrow> string list \<Rightarrow> builder" where
  "Builder_Keep b ns =
     b\<lparr>bld_del := bld_del b @ map Name (filter (\<lambda>l. Name l \<notin> set ns) (bld_base b))\<rparr>"

definition Builder_Set :: "builder \<Rightarrow> string \<Rightarrow> string \<Rightarrow> builder go" where
  "Builder_Set b n v =
     (if v = [] then Builder_Del b [n]
      else Inr (b\<lparr>bld_add :=
        set_or_append (\<lambda>a. Name a = n) (\<lambda>a. a\<lparr>Value := v\<rparr>) (Label n v) (bld_add b)\<rparr>))"

definition Builder_Get :: "builder \<Rightarrow> string \<Rightarrow> string" where
  "Builder_Get b n =
     (case find (\<lambda>a. Name a = n) (bld_add b) of
        Some a \<Rightarrow> Value a
      | None \<Rightarrow> if n \<in> set (bld_del b) then [] else Labels_Get (bld_base b) n)"

definition labels_contains :: "label list \<Rightarrow> string \<Rightarrow> bool" where
  "labels_contains s n = (\<exists>a \<in> set s. Name a = n)"

text \<open>The labels \<open>Range\<close> visits, in its order, read before any callback runs.\<close>

definition Builder_snapshot :: "builder \<Rightarrow> label list" where
  "Builder_snapshot b =
     filter (\<lambda>l. Name l \<notin> set (bld_del b) \<and> \<not> labels_contains (bld_add b) (Name l)) (bld_base b)
       @ bld_add b"

definition Builder_Range :: "(builder \<Rightarrow> label \<Rightarrow> builder go) \<Rightarrow> builder \<Rightarrow> builder go" where
  "Builder_Range f b = foldM f b (Builder_snapshot b)"

definition Builder_Labels :: "(Labels \<Rightarrow> Labels) \<Rightarrow> builder \<Rightarrow> Labels" where
  "Builder_Labels srt b =
     (if bld_del b = [] \<and> bld_add b = [] then bld_base b
      else
        (let res = filter (\<lambda>l. \<not> (Name l \<in> set (bld_del b) \<or> labels_contains (bld_add b) (Name l)))
                     (bld_base b)
         in if bld_add b \<noteq> [] then srt (res @ bld_add b) else res))"

subsection \<open>ScratchBuilder\<close>

type_synonym scratch_builder = Labels

definition ScratchBuilder_Add :: "scratch_builder \<Rightarrow> string \<Rightarrow> string \<Rightarrow> scratch_builder" where
  "ScratchBuilder_Add b name value = b @ [Label name value]"

definition ScratchBuilder_Sort :: "(Labels \<Rightarrow> Labels) \<Rightarrow> scratch_builder \<Rightarrow> scratch_builder" where
  "ScratchBuilder_Sort srt b = srt b"

definition ScratchBuilder_Assign :: "scratch_builder \<Rightarrow> Labels \<Rightarrow> scratch_builder" where
  "ScratchBuilder_Assign b ls = ls"

definition ScratchBuilder_Labels :: "scratch_builder \<Rightarrow> Labels" where
  "ScratchBuilder_Labels b = b"

subsection \<open>Deleting from the slice being ranged over\<close>

lemma Del_loop_absent:
  assumes "n \<notin> Name ` set (drop i arr)"
  shows "Del_loop n arr m i = Inr (take m arr)"
  using assms
proof (induction n arr m i rule: Del_loop.induct)
  case (1 n arr m i)
  show ?case
  proof (cases "i < length arr")
    case True
    then have d: "drop i arr = arr ! i # drop (i + 1) arr"
      by (simp add: Cons_nth_drop_Suc)
    with "1.prems" have "Name (arr ! i) \<noteq> n" by auto
    with True "1" d show ?thesis by (simp add: Del_loop.simps [of n arr m i])
  qed (simp add: Del_loop.simps [of n arr m i])
qed

lemma Del_loop_skip:
  assumes "n \<notin> Name ` set (take (j - i) (drop i arr))" and "i \<le> j" and "j \<le> length arr"
  shows "Del_loop n arr m i = Del_loop n arr m j"
  using assms
proof (induction "j - i" arbitrary: i)
  case (Suc k)
  then have i: "i < j" "i < length arr" by simp_all
  then have d: "take (j - i) (drop i arr) = arr ! i # take (j - Suc i) (drop (Suc i) arr)"
    by (metis Cons_nth_drop_Suc Suc_diff_Suc take_Suc_Cons)
  with Suc.prems have "Name (arr ! i) \<noteq> n" by auto
  with i have "Del_loop n arr m i = Del_loop n arr m (Suc i)"
    by (simp add: Del_loop.simps [of n arr m i])
  with Suc i d show ?case by simp
qed simp

lemma Del_loop_at:
  assumes "n \<notin> Name ` set xs" and "n \<notin> Name ` set ys" and "Name a = n"
  shows "Del_loop n (xs @ a # ys) (length (xs @ a # ys)) (length xs) = Inr (xs @ ys)"
proof -
  let ?arr = "xs @ a # ys"
  let ?arr' = "xs @ ys @ [last (a # ys)]"
  have l: "drop (length xs + length ys) ?arr = [last (a # ys)]"
  proof (cases ys rule: rev_cases)
    case (snoc zs z)
    then show ?thesis by simp
  qed simp
  have "Del_loop n ?arr (length ?arr) (length xs) = Del_loop n ?arr' (length xs + length ys) (length xs + 1)"
    using assms(3) l by (simp add: Del_loop.simps [of n ?arr])
  also have "\<dots> = Inr (take (length xs + length ys) ?arr')"
  proof (rule Del_loop_absent, cases ys)
    case (Cons y zs)
    then have "set (drop (length xs + 1) ?arr') \<subseteq> set ys"
      by (auto simp: in_set_dropD)
    with assms(2) show "n \<notin> Name ` set (drop (length xs + 1) ?arr')" by auto
  qed simp
  finally show ?thesis by simp
qed

lemma Del_loop_distinct:
  assumes "distinct (label_names arr)"
  shows "Del_loop n arr (length arr) 0 = Inr (filter (\<lambda>a. Name a \<noteq> n) arr)"
proof (cases "n \<in> Name ` set arr")
  case True
  then obtain xs a ys where arr: "arr = xs @ a # ys" "Name a = n"
    by (metis imageE split_list)
  with assms have x: "n \<notin> Name ` set xs" and y: "n \<notin> Name ` set ys" by auto
  have "Del_loop n arr (length arr) 0 = Del_loop n arr (length arr) (length xs)"
    by (rule Del_loop_skip) (use x arr in simp_all)
  also have "\<dots> = Inr (xs @ ys)"
    using Del_loop_at [OF x y arr(2)] arr(1) by simp
  also have "xs @ ys = filter (\<lambda>a. Name a \<noteq> n) arr"
  proof -
    have "filter (\<lambda>a. Name a \<noteq> n) xs = xs" and "filter (\<lambda>a. Name a \<noteq> n) ys = ys"
      using x y by (auto simp: filter_id_conv)
    with arr show ?thesis by simp
  qed
  finally show ?thesis .
next
  case False
  then have "filter (\<lambda>a. Name a \<noteq> n) arr = arr" by (auto simp: filter_id_conv)
  with False show ?thesis by (simp add: Del_loop_absent)
qed

subsection \<open>The contract of a builder\<close>

locale label_builder =
  fixes view :: "'b \<Rightarrow> (string \<rightharpoonup> string)"
    and invar :: "'b \<Rightarrow> bool"
    and get :: "'b \<Rightarrow> string \<Rightarrow> string"
    and set1 :: "'b \<Rightarrow> string \<Rightarrow> string \<Rightarrow> 'b go"
    and del1 :: "'b \<Rightarrow> string \<Rightarrow> 'b go"
  assumes get_law: "invar b \<Longrightarrow> get b n = (case view b n of None \<Rightarrow> [] | Some v \<Rightarrow> v)"
    and set_law: "invar b \<Longrightarrow> \<exists>b'. set1 b n v = Inr b' \<and> invar b' \<and>
        view b' = (view b)(n := (if v = [] then None else Some v))"
    and del_law: "invar b \<Longrightarrow> \<exists>b'. del1 b n = Inr b' \<and> invar b' \<and> view b' = (view b)(n := None)"
    and nonempty_law: "invar b \<Longrightarrow> view b n \<noteq> Some []"
begin

lemma get_eq_Nil_iff: "invar b \<Longrightarrow> get b n = [] \<longleftrightarrow> view b n = None"
  using nonempty_law by (auto simp: get_law split: option.splits)

lemma get_after_set:
  assumes "invar b"
  shows "\<exists>b'. set1 b n v = Inr b' \<and> get b' n = v \<and> (\<forall>k. k \<noteq> n \<longrightarrow> get b' k = get b k)"
proof -
  from set_law [OF assms] obtain b' where b': "set1 b n v = Inr b'" "invar b'"
    "view b' = (view b)(n := (if v = [] then None else Some v))" by blast
  then show ?thesis by (auto simp: get_law assms)
qed

lemma del_where:
  assumes "invar b"
  shows "\<exists>b'. foldM (\<lambda>b l. if P (Name l) then del1 b (Name l) else Inr b) b ls = Inr b' \<and> invar b' \<and>
     view b' = (\<lambda>n. if P n \<and> n \<in> Name ` set ls then None else view b n)"
  using assms
proof (induction ls arbitrary: b)
  case (Cons l ls)
  show ?case
  proof (cases "P (Name l)")
    case True
    from del_law [OF Cons.prems] obtain c where c: "del1 b (Name l) = Inr c" "invar c"
      "view c = (view b)(Name l := None)" by blast
    from Cons.IH [OF c(2)] c True show ?thesis by (auto simp: fun_eq_iff)
  next
    case False
    with Cons.IH [OF Cons.prems] show ?thesis by (auto simp: fun_eq_iff)
  qed
qed (auto simp: fun_eq_iff)

lemma set_where:
  assumes "invar b"
  shows "\<exists>b'. foldM (\<lambda>b l. if P (Name l) then set1 b (g (Name l)) (Value l) else Inr b) b ls = Inr b' \<and>
     invar b' \<and>
     view b' = foldl (\<lambda>m l. if P (Name l)
        then m(g (Name l) := (if Value l = [] then None else Some (Value l))) else m) (view b) ls"
  using assms
proof (induction ls arbitrary: b)
  case (Cons l ls)
  show ?case
  proof (cases "P (Name l)")
    case True
    from set_law [OF Cons.prems] obtain c where c: "set1 b (g (Name l)) (Value l) = Inr c" "invar c"
      "view c = (view b)(g (Name l) := (if Value l = [] then None else Some (Value l)))" by blast
    from Cons.IH [OF c(2)] obtain b' where
      "foldM (\<lambda>b l. if P (Name l) then set1 b (g (Name l)) (Value l) else Inr b) c ls = Inr b'" "invar b'"
      "view b' = foldl (\<lambda>m l. if P (Name l)
        then m(g (Name l) := (if Value l = [] then None else Some (Value l))) else m) (view c) ls"
      by blast
    with c(1,3) True show ?thesis by (intro exI [of _ b']) simp
  next
    case False
    with Cons.IH [OF Cons.prems] show ?thesis by auto
  qed
qed simp

lemma del_all:
  assumes "invar b"
  shows "\<exists>b'. foldM del1 b ns = Inr b' \<and> invar b' \<and> view b' = (\<lambda>n. if n \<in> set ns then None else view b n)"
  using assms
proof (induction ns arbitrary: b)
  case (Cons n ns)
  from del_law [OF Cons.prems] obtain c where c: "del1 b n = Inr c" "invar c"
    "view c = (view b)(n := None)" by blast
  from Cons.IH [OF c(2)] c show ?case by (auto simp: fun_eq_iff)
qed (auto simp: fun_eq_iff)

end

subsection \<open>The builder meets the contract\<close>

definition builder_inv :: "builder \<Rightarrow> bool" where
  "builder_inv b \<longleftrightarrow> distinct (label_names (bld_base b)) \<and> distinct (label_names (bld_add b)) \<and>
     (\<forall>l \<in> set (bld_add b). Value l \<noteq> []) \<and>
     (\<forall>l \<in> set (bld_base b). Value l = [] \<longrightarrow> Name l \<in> set (bld_del b))"

definition builder_view :: "builder \<Rightarrow> (string \<rightharpoonup> string)" where
  "builder_view b n =
     (case label_map (bld_add b) n of
        Some v \<Rightarrow> Some v
      | None \<Rightarrow> if n \<in> set (bld_del b) then None else label_map (bld_base b) n)"

lemma Builder_Get_view:
  "Builder_Get b n = (case builder_view b n of None \<Rightarrow> [] | Some v \<Rightarrow> v)"
  by (auto simp: Builder_Get_def builder_view_def keyed_find Labels_Get_def split: option.splits)

lemma Builder_Del1_law:
  assumes "builder_inv b"
  shows "\<exists>b'. Builder_Del1 b n = Inr b' \<and> builder_inv b' \<and> bld_base b' = bld_base b \<and>
     builder_view b' = (builder_view b)(n := None)"
proof -
  let ?b' = "b\<lparr>bld_add := filter (\<lambda>a. Name a \<noteq> n) (bld_add b), bld_del := bld_del b @ [n]\<rparr>"
  have d: "distinct (label_names (bld_add b))" using assms by (simp add: builder_inv_def)
  then have "Builder_Del1 b n = Inr ?b'"
    by (simp add: Builder_Del1_def Del_loop_distinct)
  moreover have "builder_inv ?b'"
    using assms by (auto simp: builder_inv_def distinct_map_filter)
  moreover have "builder_view ?b' = (builder_view b)(n := None)"
    by (auto simp: builder_view_def fun_eq_iff keyed_filter [of Name Value "\<lambda>k. k \<noteq> n"]
      split: option.splits)
  ultimately show ?thesis by auto
qed

lemma Builder_Del_law:
  assumes "builder_inv b"
  shows "\<exists>b'. Builder_Del b [n] = Inr b' \<and> builder_inv b' \<and> bld_base b' = bld_base b \<and>
     builder_view b' = (builder_view b)(n := None)"
  using Builder_Del1_law [OF assms, of n] by (auto simp: Builder_Del_def and_then_def split: sum.splits)

lemma Builder_Set_law:
  assumes "builder_inv b"
  shows "\<exists>b'. Builder_Set b n v = Inr b' \<and> builder_inv b' \<and> bld_base b' = bld_base b \<and>
     builder_view b' = (builder_view b)(n := (if v = [] then None else Some v))"
proof (cases "v = []")
  case True
  with Builder_Del_law [OF assms] show ?thesis by (simp add: Builder_Set_def)
next
  case False
  let ?add = "set_or_append (\<lambda>a. Name a = n) (\<lambda>a. a\<lparr>Value := v\<rparr>) (Label n v) (bld_add b)"
  have k: "label_map ?add = (label_map (bld_add b))(n \<mapsto> v)"
    by (rule keyed_set_or_append) auto
  have "distinct (label_names ?add)"
    by (rule set_or_append_distinct) (use assms in \<open>auto simp: builder_inv_def\<close>)
  moreover have "\<forall>l \<in> set ?add. Value l \<noteq> []"
    using False assms set_set_or_append_subset [of "\<lambda>a. Name a = n" "\<lambda>a. a\<lparr>Value := v\<rparr>" "Label n v" "bld_add b"]
    by (fastforce simp: builder_inv_def)
  ultimately have "builder_inv (b\<lparr>bld_add := ?add\<rparr>)"
    using assms by (simp add: builder_inv_def)
  moreover have "builder_view (b\<lparr>bld_add := ?add\<rparr>) = (builder_view b)(n \<mapsto> v)"
    by (auto simp: builder_view_def k fun_eq_iff split: option.splits)
  ultimately show ?thesis using False by (simp add: Builder_Set_def)
qed

lemma builder_view_nonempty: "builder_inv b \<Longrightarrow> builder_view b n \<noteq> Some []"
  by (auto simp: builder_view_def builder_inv_def split: option.splits if_splits dest!: keyed_SomeD)

interpretation bld: label_builder builder_view builder_inv Builder_Get Builder_Set Builder_Del1
  by unfold_locales
    (use Builder_Get_view Builder_Set_law Builder_Del1_law builder_view_nonempty in \<open>blast+\<close>)

lemma NewBuilder_inv: "distinct (label_names base) \<Longrightarrow> builder_inv (NewBuilder base)"
  by (auto simp: builder_inv_def NewBuilder_def Builder_Reset_def)

lemma NewBuilder_view:
  assumes "distinct (label_names base)"
  shows "builder_view (NewBuilder base) n = (if label_map base n = Some [] then None else label_map base n)"
proof -
  have "n \<in> Name ` {l \<in> set base. Value l = []} \<longleftrightarrow> label_map base n = Some []"
    using keyed_distinct_Some [OF assms, of _ Value] by (force dest: keyed_SomeD)
  then show ?thesis by (simp add: builder_view_def NewBuilder_def Builder_Reset_def)
qed

subsection \<open>What a builder returns\<close>

lemma labels_contains_iff: "labels_contains s n \<longleftrightarrow> n \<in> Name ` set s"
  by (auto simp: labels_contains_def)

abbreviation kept_base :: "builder \<Rightarrow> Labels" where
  "kept_base b \<equiv> filter (\<lambda>l. Name l \<notin> set (bld_del b) \<and> Name l \<notin> Name ` set (bld_add b)) (bld_base b)"

lemma Builder_snapshot_eq: "Builder_snapshot b = kept_base b @ bld_add b"
  by (simp add: Builder_snapshot_def labels_contains_iff)

lemma snapshot_distinct: "builder_inv b \<Longrightarrow> distinct (label_names (Builder_snapshot b))"
  by (auto simp: Builder_snapshot_eq builder_inv_def distinct_map_filter)

lemma snapshot_map: "label_map (Builder_snapshot b) = builder_view b"
proof
  fix n
  have f: "label_map (kept_base b) n =
      (if n \<notin> set (bld_del b) \<and> n \<notin> Name ` set (bld_add b) then label_map (bld_base b) n else None)"
    by (rule keyed_filter)
  show "label_map (Builder_snapshot b) n = builder_view b n"
  proof (cases "label_map (bld_add b) n")
    case None
    then have "n \<notin> Name ` set (bld_add b)" by (simp add: keyed_None)
    with None show ?thesis
      by (simp add: Builder_snapshot_eq keyed_append map_add_def f builder_view_def split: option.splits)
  next
    case (Some v)
    then have "n \<in> Name ` set (bld_add b)" by (metis keyed_None option.distinct(1))
    with Some show ?thesis
      by (simp add: Builder_snapshot_eq keyed_append map_add_def f builder_view_def)
  qed
qed

lemma snapshot_nonempty: "builder_inv b \<Longrightarrow> l \<in> set (Builder_snapshot b) \<Longrightarrow> Value l \<noteq> []"
  by (auto simp: Builder_snapshot_eq builder_inv_def)

lemma Builder_Labels_cases:
  "Builder_Labels srt b = (if bld_add b = [] then kept_base b else srt (Builder_snapshot b))"
  by (auto simp: Builder_Labels_def Builder_snapshot_eq labels_contains_iff Let_def)

lemma Builder_Labels_spec:
  assumes "sorts_by_name srt" and "builder_inv b"
  shows "label_map (Builder_Labels srt b) = builder_view b"
    and "distinct (label_names (Builder_Labels srt b))"
    and "\<forall>l \<in> set (Builder_Labels srt b). Value l \<noteq> []"
    and "sorted (label_names (bld_base b)) \<Longrightarrow> sorted (label_names (Builder_Labels srt b))"
proof -
  have c: "mset (Builder_Labels srt b) = mset (Builder_snapshot b)"
    by (simp add: Builder_Labels_cases sorts_by_nameD [OF assms(1)] Builder_snapshot_eq)
  have d: "distinct (label_names (Builder_snapshot b))" using assms(2) by (rule snapshot_distinct)
  show "label_map (Builder_Labels srt b) = builder_view b"
    using keyed_mset_cong [OF c [symmetric] d, of Value] by (simp add: snapshot_map)
  show "distinct (label_names (Builder_Labels srt b))"
    using c d by (metis mset_eq_imp_distinct_iff mset_map)
  show "\<forall>l \<in> set (Builder_Labels srt b). Value l \<noteq> []"
    using mset_eq_setD [OF c] snapshot_nonempty [OF assms(2)] by simp
  show "sorted (label_names (Builder_Labels srt b))" if "sorted (label_names (bld_base b))"
    using that sorts_by_nameD(2) [OF assms(1)] by (simp add: Builder_Labels_cases sorted_filter)
qed

lemma Builder_Keep_view:
  "builder_view (Builder_Keep b ns) n =
     (if n \<in> Name ` set (bld_add b) \<or> n \<in> set ns then builder_view b n else None)"
proof (cases "label_map (bld_add b) n")
  case None
  then have a: "n \<notin> Name ` set (bld_add b)" by (simp add: keyed_None)
  show ?thesis
  proof (cases "n \<in> Name ` set (bld_base b)")
    case True
    then have "n \<in> Name ` {l \<in> set (bld_base b). Name l \<notin> set ns} \<longleftrightarrow> n \<notin> set ns" by auto
    with None a show ?thesis by (simp add: Builder_Keep_def builder_view_def)
  next
    case False
    then have "label_map (bld_base b) n = None" by (simp add: keyed_None)
    with None a show ?thesis by (simp add: Builder_Keep_def builder_view_def)
  qed
next
  case (Some v)
  then have "n \<in> Name ` set (bld_add b)" by (metis keyed_None option.distinct(1))
  with Some show ?thesis by (simp add: Builder_Keep_def builder_view_def)
qed

subsection \<open>Sequences of changes\<close>

datatype builder_op = OpSet string string | OpDel "string list"

fun run_builder_op :: "builder \<Rightarrow> builder_op \<Rightarrow> builder go" where
  "run_builder_op b (OpSet n v) = Builder_Set b n v"
| "run_builder_op b (OpDel ns) = Builder_Del b ns"

fun map_op :: "(string \<rightharpoonup> string) \<Rightarrow> builder_op \<Rightarrow> (string \<rightharpoonup> string)" where
  "map_op m (OpSet n v) = m(n := (if v = [] then None else Some v))"
| "map_op m (OpDel ns) = (\<lambda>n. if n \<in> set ns then None else m n)"

lemma foldM_Del1_base:
  "builder_inv b \<Longrightarrow> foldM Builder_Del1 b ns = Inr b' \<Longrightarrow> bld_base b' = bld_base b"
proof (induction ns arbitrary: b)
  case (Cons n ns)
  from Builder_Del1_law [OF Cons.prems(1), of n] obtain c where
    "Builder_Del1 b n = Inr c" "builder_inv c" "bld_base c = bld_base b" by blast
  with Cons show ?case by simp
qed simp

lemma run_builder_op_law:
  assumes "builder_inv b"
  shows "\<exists>b'. run_builder_op b p = Inr b' \<and> builder_inv b' \<and> bld_base b' = bld_base b \<and>
     builder_view b' = map_op (builder_view b) p"
proof (cases p)
  case (OpSet n v)
  with Builder_Set_law [OF assms] show ?thesis by simp
next
  case (OpDel ns)
  with bld.del_all [OF assms] foldM_Del1_base [OF assms] show ?thesis
    by (fastforce simp: Builder_Del_def)
qed

lemma run_builder_ops_law:
  assumes "builder_inv b"
  shows "\<exists>b'. foldM run_builder_op b ps = Inr b' \<and> builder_inv b' \<and> bld_base b' = bld_base b \<and>
     builder_view b' = foldl map_op (builder_view b) ps"
  using assms
proof (induction ps arbitrary: b)
  case (Cons p ps)
  from run_builder_op_law [OF Cons.prems] obtain c where
    "run_builder_op b p = Inr c" "builder_inv c" "bld_base c = bld_base b"
    "builder_view c = map_op (builder_view b) p" by blast
  with Cons.IH [of c] show ?case by auto
qed simp

definition nonempty_labels :: "Labels \<Rightarrow> (string \<rightharpoonup> string)" where
  "nonempty_labels ls n = (if label_map ls n = Some [] then None else label_map ls n)"

text \<open>C13: a builder is a map from names to non-empty values. After any sequence of \<open>Set\<close> and \<open>Del\<close>
  on a builder made from a label set with distinct names, no operation panics, \<open>Get\<close> reads
  the map the operations describe, and \<open>Labels\<close> returns exactly that map, with distinct
  names, no empty value, and sorted when the first label set was.\<close>

theorem Builder_refines_map:
  assumes "sorts_by_name srt" and "distinct (label_names base)"
  shows "\<exists>b. foldM run_builder_op (NewBuilder base) ps = Inr b \<and>
    (\<forall>n. Builder_Get b n = (case foldl map_op (nonempty_labels base) ps n of None \<Rightarrow> [] | Some v \<Rightarrow> v)) \<and>
    label_map (Builder_Labels srt b) = foldl map_op (nonempty_labels base) ps \<and>
    distinct (label_names (Builder_Labels srt b)) \<and>
    (\<forall>l \<in> set (Builder_Labels srt b). Value l \<noteq> []) \<and>
    (sorted (label_names base) \<longrightarrow> sorted (label_names (Builder_Labels srt b)))"
proof -
  have v: "builder_view (NewBuilder base) = nonempty_labels base"
    using NewBuilder_view [OF assms(2)] by (auto simp: nonempty_labels_def)
  from run_builder_ops_law [OF NewBuilder_inv [OF assms(2)]] obtain b where
    b: "foldM run_builder_op (NewBuilder base) ps = Inr b" "builder_inv b"
      "bld_base b = bld_base (NewBuilder base)" "builder_view b = foldl map_op (nonempty_labels base) ps"
    by (auto simp: v)
  then have "bld_base b = base" by (simp add: NewBuilder_def Builder_Reset_def)
  with b Builder_Labels_spec [OF assms(1) b(2)] Builder_Get_view [of b] show ?thesis
    by (intro exI [of _ b]) simp
qed

theorem Builder_refines_map_witness:
  "\<exists>b. foldM run_builder_op (NewBuilder [Label ''a'' ''1'', Label ''b'' ''''])
      [OpSet ''c'' ''3'', OpSet ''d'' ''4'', OpDel [''a'', ''c'']] = Inr b \<and>
    Builder_Get b ''d'' = ''4'' \<and> Builder_Get b ''a'' = ''''"
  using Builder_refines_map [OF sorts_by_name_sort_key, of "[Label ''a'' ''1'', Label ''b'' '''']"
      "[OpSet ''c'' ''3'', OpSet ''d'' ''4'', OpDel [''a'', ''c'']]"]
  by (auto simp: nonempty_labels_def)

text \<open>\<open>Keep\<close> removes from the labels of the starting set those not listed, and leaves the ones
  set on the builder alone.\<close>

theorem Builder_Keep_keeps:
  assumes "builder_inv b"
  shows "builder_inv (Builder_Keep b ns) \<and>
    Builder_Get (Builder_Keep b ns) n =
      (if n \<in> Name ` set (bld_add b) \<or> n \<in> set ns then Builder_Get b n else [])"
  using assms Builder_Keep_view [of b ns n]
  by (auto simp: Builder_Get_view builder_inv_def Builder_Keep_def)

theorem Builder_Keep_keeps_witness:
  "Builder_Get (Builder_Keep (NewBuilder [Label ''a'' ''1'', Label ''b'' ''2'']) [''b'']) ''b'' = ''2'' \<and>
   Builder_Get (Builder_Keep (NewBuilder [Label ''a'' ''1'', Label ''b'' ''2'']) [''b'']) ''a'' = ''''"
proof -
  have i: "builder_inv (NewBuilder [Label ''a'' ''1'', Label ''b'' ''2''])"
    by (rule NewBuilder_inv) simp
  show ?thesis
    using Builder_Keep_keeps [OF i, of "[''b'']" "''b''"] Builder_Keep_keeps [OF i, of "[''b'']" "''a''"]
    by (simp add: NewBuilder_def Builder_Reset_def Builder_Get_def Labels_Get_def)
qed

end
