(* ===== verification/Prom_Relabel.thy ===== *)
theory Prom_Relabel
  imports Label_Builder
begin

text \<open>
  Relabelling: \<open>src/pkg/relabel/relabel.go\<close>. A compiled regular expression is the behaviour the
  code uses of it (\<open>MatchString\<close>, \<open>FindStringSubmatchIndex\<close>, \<open>ExpandString\<close>,
  \<open>ReplaceAllString\<close>); \<open>md5.Sum\<close>, the case mappings of \<open>strings\<close> and the label-name check of
  \<open>prometheus/common/model\<close> are the fields of an environment. \<open>relabel_spec\<close> says what one rule
  does to the map of labels a builder holds; the refinement lemmas show that the code does
  it, through the contract \<open>bld\<close> of the builder.
\<close>

subsection \<open>Data\<close>

datatype action =
    Replace | Keep | Drop | KeepEqual | DropEqual | HashMod | LabelMap | LabelDrop | LabelKeep
  | Lowercase | Uppercase | OtherAction string

definition Action_of_string :: "string \<Rightarrow> action" where
  "Action_of_string s =
     (if s = ''replace'' then Replace else if s = ''keep'' then Keep
      else if s = ''drop'' then Drop else if s = ''keepequal'' then KeepEqual
      else if s = ''dropequal'' then DropEqual else if s = ''hashmod'' then HashMod
      else if s = ''labelmap'' then LabelMap else if s = ''labeldrop'' then LabelDrop
      else if s = ''labelkeep'' then LabelKeep else if s = ''lowercase'' then Lowercase
      else if s = ''uppercase'' then Uppercase else OtherAction s)"

record regexp =
  re_MatchString :: "string \<Rightarrow> bool"
  re_FindStringSubmatchIndex :: "string \<Rightarrow> int list option"
  re_ExpandString :: "string \<Rightarrow> string \<Rightarrow> int list \<Rightarrow> string"
  re_ReplaceAllString :: "string \<Rightarrow> string \<Rightarrow> string"

record relabel_env =
  env_ToLower :: "string \<Rightarrow> string"
  env_ToUpper :: "string \<Rightarrow> string"
  env_md5 :: "bytes \<Rightarrow> bytes"
  env_LabelName_IsValid :: "string \<Rightarrow> bool"
  env_relabelTarget :: "string \<Rightarrow> bool"

record relabel_config =
  rc_SourceLabels :: "string list"
  rc_Separator :: string
  rc_Regex :: regexp
  rc_Modulus :: "64 word"
  rc_TargetLabel :: string
  rc_Replacement :: string
  rc_Action :: action

subsection \<open>Reading a configuration\<close>

text \<open>
  What \<open>Config.UnmarshalYAML\<close> checks after the YAML decoder has filled the fields over the
  defaults. \<open>yc_Regex\<close> tells whether the key was absent (the default regexp, the same
  pointer), explicitly null (the zero value), or set, and likewise \<open>yc_Action\<close>;
  \<open>yc_SourceLabels\<close> is \<open>None\<close> for a nil slice.
\<close>

datatype yaml_action = ActionAbsent | ActionNull | ActionSet string

datatype yaml_regex = DefaultRegex | NilRegex | SetRegex regexp

record yaml_config =
  yc_SourceLabels :: "string list option"
  yc_Separator :: string
  yc_Regex :: yaml_regex
  yc_Modulus :: "64 word"
  yc_TargetLabel :: string
  yc_Replacement :: string
  yc_Action :: yaml_action

datatype config_error =
    ActionUnknown | ActionEmpty | ModulusZero | TargetLabelMissing | TargetLabelInvalid
  | ReplacementSet | ReplacementInvalid | OnlySourceAndTarget | OnlyRegex

definition UnmarshalYAML_Action :: "relabel_env \<Rightarrow> string \<Rightarrow> config_error + action" where
  "UnmarshalYAML_Action env s =
     (case Action_of_string (env_ToLower env s) of
        OtherAction _ \<Rightarrow> Inl ActionUnknown
      | a \<Rightarrow> Inr a)"

definition UnmarshalYAML_Config ::
  "relabel_env \<Rightarrow> regexp \<Rightarrow> regexp \<Rightarrow> yaml_config \<Rightarrow> config_error + relabel_config" where
  "UnmarshalYAML_Config env defaultRegex emptyRegex y =
     and_then (case yc_Action y of ActionAbsent \<Rightarrow> Inr Replace | ActionNull \<Rightarrow> Inl ActionEmpty
               | ActionSet s \<Rightarrow> UnmarshalYAML_Action env s)
     (\<lambda>a.
      let r = (case yc_Regex y of DefaultRegex \<Rightarrow> defaultRegex | NilRegex \<Rightarrow> emptyRegex
               | SetRegex r \<Rightarrow> r);
          regexIsDefault = (yc_Regex y = DefaultRegex)
      in
      if yc_Modulus y = 0 \<and> a = HashMod then Inl ModulusZero
      else if a \<in> {Replace, HashMod, Lowercase, Uppercase, KeepEqual, DropEqual} \<and> yc_TargetLabel y = []
        then Inl TargetLabelMissing
      else if a \<in> {Replace, Lowercase, Uppercase, KeepEqual, DropEqual} \<and>
              \<not> env_relabelTarget env (yc_TargetLabel y) then Inl TargetLabelInvalid
      else if a \<in> {Lowercase, Uppercase, KeepEqual, DropEqual} \<and> yc_Replacement y \<noteq> ''$1''
        then Inl ReplacementSet
      else if a = LabelMap \<and> \<not> env_relabelTarget env (yc_Replacement y) then Inl ReplacementInvalid
      else if a = HashMod \<and> \<not> env_LabelName_IsValid env (yc_TargetLabel y) then Inl TargetLabelInvalid
      else if a \<in> {DropEqual, KeepEqual} \<and>
              (\<not> regexIsDefault \<or> yc_Modulus y \<noteq> 0 \<or> yc_Separator y \<noteq> '';'' \<or> yc_Replacement y \<noteq> ''$1'')
        then Inl OnlySourceAndTarget
      else if a \<in> {LabelDrop, LabelKeep} \<and>
              (yc_SourceLabels y \<noteq> None \<or> yc_TargetLabel y \<noteq> [] \<or> yc_Modulus y \<noteq> 0
               \<or> yc_Separator y \<noteq> '';'' \<or> yc_Replacement y \<noteq> ''$1'')
        then Inl OnlyRegex
      else Inr \<lparr>rc_SourceLabels = (case yc_SourceLabels y of None \<Rightarrow> [] | Some ls \<Rightarrow> ls),
                rc_Separator = yc_Separator y, rc_Regex = r, rc_Modulus = yc_Modulus y,
                rc_TargetLabel = yc_TargetLabel y, rc_Replacement = yc_Replacement y, rc_Action = a\<rparr>)"

subsection \<open>Applying a rule\<close>

definition relabel_val :: "relabel_config \<Rightarrow> builder \<Rightarrow> string" where
  "relabel_val cfg lb = go_join (map (Builder_Get lb) (rc_SourceLabels cfg)) (rc_Separator cfg)"

definition hashmod_text :: "relabel_env \<Rightarrow> relabel_config \<Rightarrow> string \<Rightarrow> string" where
  "hashmod_text env cfg val =
     itoa (unat ((of_nat (be_nat (drop 8 (env_md5 env val))) :: 64 word) mod rc_Modulus cfg))"

definition relabel :: "relabel_env \<Rightarrow> relabel_config \<Rightarrow> builder \<Rightarrow> (builder \<times> bool) go" where
  "relabel env cfg lb =
     (let val = relabel_val cfg lb; re = rc_Regex cfg; keeping = (\<lambda>r. and_then r (\<lambda>b. Inr (b, True)))
      in case rc_Action cfg of
        Drop \<Rightarrow> if re_MatchString re val then Inr (lb, False) else Inr (lb, True)
      | Keep \<Rightarrow> if \<not> re_MatchString re val then Inr (lb, False) else Inr (lb, True)
      | DropEqual \<Rightarrow> if Builder_Get lb (rc_TargetLabel cfg) = val then Inr (lb, False) else Inr (lb, True)
      | KeepEqual \<Rightarrow> if Builder_Get lb (rc_TargetLabel cfg) \<noteq> val then Inr (lb, False) else Inr (lb, True)
      | Replace \<Rightarrow>
          (case re_FindStringSubmatchIndex re val of
             None \<Rightarrow> Inr (lb, True)
           | Some indexes \<Rightarrow>
               (let target = re_ExpandString re (rc_TargetLabel cfg) val indexes in
                if \<not> env_LabelName_IsValid env target then keeping (Builder_Del lb [rc_TargetLabel cfg])
                else
                  (let res = re_ExpandString re (rc_Replacement cfg) val indexes in
                   if res = [] then keeping (Builder_Del lb [rc_TargetLabel cfg])
                   else keeping (Builder_Set lb target res))))
      | Lowercase \<Rightarrow> keeping (Builder_Set lb (rc_TargetLabel cfg) (env_ToLower env val))
      | Uppercase \<Rightarrow> keeping (Builder_Set lb (rc_TargetLabel cfg) (env_ToUpper env val))
      | HashMod \<Rightarrow>
          if rc_Modulus cfg = 0 then Inl DivideByZero
          else keeping (Builder_Set lb (rc_TargetLabel cfg) (hashmod_text env cfg val))
      | LabelMap \<Rightarrow>
          keeping (Builder_Range (\<lambda>b l. if re_MatchString re (Name l)
             then Builder_Set b (re_ReplaceAllString re (Name l) (rc_Replacement cfg)) (Value l)
             else Inr b) lb)
      | LabelDrop \<Rightarrow>
          keeping (Builder_Range (\<lambda>b l. if re_MatchString re (Name l)
             then Builder_Del b [Name l] else Inr b) lb)
      | LabelKeep \<Rightarrow>
          keeping (Builder_Range (\<lambda>b l. if \<not> re_MatchString re (Name l)
             then Builder_Del b [Name l] else Inr b) lb)
      | OtherAction s \<Rightarrow> Inl (ExplicitPanic s))"

fun ProcessBuilder :: "relabel_env \<Rightarrow> builder \<Rightarrow> relabel_config list \<Rightarrow> (builder \<times> bool) go" where
  "ProcessBuilder env lb [] = Inr (lb, True)"
| "ProcessBuilder env lb (cfg # cfgs) =
     and_then (relabel env cfg lb)
       (\<lambda>(lb', keep). if \<not> keep then Inr (lb', False) else ProcessBuilder env lb' cfgs)"

definition Process ::
  "relabel_env \<Rightarrow> (Labels \<Rightarrow> Labels) \<Rightarrow> Labels \<Rightarrow> relabel_config list \<Rightarrow> (Labels \<times> bool) go" where
  "Process env srt lbls cfgs =
     and_then (ProcessBuilder env (NewBuilder lbls) cfgs)
       (\<lambda>(lb, keep). if \<not> keep then Inr ([], False) else Inr (Builder_Labels srt lb, True))"

subsection \<open>What a rule does to the map of labels\<close>

definition map_get :: "(string \<rightharpoonup> string) \<Rightarrow> string \<Rightarrow> string" where
  "map_get m n = (case m n of None \<Rightarrow> [] | Some v \<Rightarrow> v)"

definition map_set :: "(string \<rightharpoonup> string) \<Rightarrow> string \<Rightarrow> string \<Rightarrow> (string \<rightharpoonup> string)" where
  "map_set m n v = m(n := (if v = [] then None else Some v))"

text \<open>\<open>None\<close>: the label set is dropped. \<open>ls\<close> is the order in which \<open>labelmap\<close> visits the labels.\<close>

definition relabel_spec ::
  "relabel_env \<Rightarrow> relabel_config \<Rightarrow> label list \<Rightarrow> (string \<rightharpoonup> string) \<Rightarrow> (string \<rightharpoonup> string) option" where
  "relabel_spec env cfg ls m =
     (let val = go_join (map (map_get m) (rc_SourceLabels cfg)) (rc_Separator cfg);
          re = rc_Regex cfg; t = rc_TargetLabel cfg
      in case rc_Action cfg of
        Drop \<Rightarrow> if re_MatchString re val then None else Some m
      | Keep \<Rightarrow> if re_MatchString re val then Some m else None
      | DropEqual \<Rightarrow> if map_get m t = val then None else Some m
      | KeepEqual \<Rightarrow> if map_get m t = val then Some m else None
      | Replace \<Rightarrow> Some (case re_FindStringSubmatchIndex re val of
             None \<Rightarrow> m
           | Some ix \<Rightarrow>
               if env_LabelName_IsValid env (re_ExpandString re t val ix) \<and>
                  re_ExpandString re (rc_Replacement cfg) val ix \<noteq> []
               then m(re_ExpandString re t val ix \<mapsto> re_ExpandString re (rc_Replacement cfg) val ix)
               else m(t := None))
      | Lowercase \<Rightarrow> Some (map_set m t (env_ToLower env val))
      | Uppercase \<Rightarrow> Some (map_set m t (env_ToUpper env val))
      | HashMod \<Rightarrow> Some (m(t \<mapsto> hashmod_text env cfg val))
      | LabelMap \<Rightarrow> Some (foldl (\<lambda>m l. if re_MatchString re (Name l)
            then map_set m (re_ReplaceAllString re (Name l) (rc_Replacement cfg)) (Value l) else m) m ls)
      | LabelDrop \<Rightarrow> Some (\<lambda>n. if re_MatchString re n then None else m n)
      | LabelKeep \<Rightarrow> Some (\<lambda>n. if re_MatchString re n then m n else None)
      | OtherAction _ \<Rightarrow> None)"

definition config_runs :: "relabel_config \<Rightarrow> bool" where
  "config_runs cfg \<longleftrightarrow> (\<forall>s. rc_Action cfg \<noteq> OtherAction s) \<and> (rc_Action cfg = HashMod \<longrightarrow> rc_Modulus cfg \<noteq> 0)"

lemma Builder_Get_map_get: "Builder_Get b = map_get (builder_view b)"
  by (simp add: fun_eq_iff Builder_Get_view map_get_def)

lemma Builder_Del_single: "Builder_Del b [n] = Builder_Del1 b n"
  by (simp add: Builder_Del_def and_then_def split: sum.splits)

lemma hashmod_text_nonempty [simp]: "hashmod_text env cfg val \<noteq> []"
  by (simp add: hashmod_text_def itoa_nonempty)

lemma foldM_keeps_base:
  assumes "\<And>b l b'. builder_inv b \<Longrightarrow> f b l = Inr b' \<Longrightarrow> builder_inv b' \<and> bld_base b' = bld_base b"
    and "builder_inv b" and "foldM f b ls = Inr b'"
  shows "bld_base b' = bld_base b"
  using assms(2,3)
proof (induction ls arbitrary: b)
  case (Cons l ls)
  from Cons.prems(2) obtain c where c: "f b l = Inr c" "foldM f c ls = Inr b'"
    by (auto simp: and_then_Inr_iff)
  with assms(1) [OF Cons.prems(1) c(1)] Cons.IH [of c] show ?case by simp
qed simp

lemma set1_keeps:
  "builder_inv b \<Longrightarrow> Builder_Set b n v = Inr b' \<Longrightarrow> builder_inv b' \<and> bld_base b' = bld_base b"
  using Builder_Set_law by (metis sum.inject(2))

lemma del1_keeps:
  "builder_inv b \<Longrightarrow> Builder_Del1 b n = Inr b' \<Longrightarrow> builder_inv b' \<and> bld_base b' = bld_base b"
  using Builder_Del1_law by (metis sum.inject(2))

lemma Range_del:
  assumes "builder_inv b"
  shows "\<exists>b'. Builder_Range (\<lambda>b l. if P (Name l) then Builder_Del1 b (Name l) else Inr b) b = Inr b' \<and>
    builder_inv b' \<and> bld_base b' = bld_base b \<and>
    builder_view b' = (\<lambda>n. if P n then None else builder_view b n)"
proof -
  from bld.del_where [OF assms, of P "Builder_snapshot b"] obtain b' where b':
    "foldM (\<lambda>b l. if P (Name l) then Builder_Del1 b (Name l) else Inr b) b (Builder_snapshot b) = Inr b'"
    "builder_inv b'"
    "builder_view b' = (\<lambda>n. if P n \<and> n \<in> Name ` set (Builder_snapshot b) then None else builder_view b n)"
    by blast
  have "bld_base b' = bld_base b"
    by (rule foldM_keeps_base [OF _ assms b'(1)]) (auto split: if_splits dest: del1_keeps)
  moreover have "n \<notin> Name ` set (Builder_snapshot b) \<Longrightarrow> builder_view b n = None" for n
    by (metis keyed_None snapshot_map)
  ultimately show ?thesis using b' by (auto simp: Builder_Range_def fun_eq_iff)
qed

lemma Range_set:
  assumes "builder_inv b"
  shows "\<exists>b'. Builder_Range (\<lambda>b l. if P (Name l) then Builder_Set b (g (Name l)) (Value l) else Inr b) b = Inr b' \<and>
    builder_inv b' \<and> bld_base b' = bld_base b \<and>
    builder_view b' = foldl (\<lambda>m l. if P (Name l) then map_set m (g (Name l)) (Value l) else m)
      (builder_view b) (Builder_snapshot b)"
proof -
  from bld.set_where [OF assms, of P g "Builder_snapshot b"] obtain b' where b':
    "foldM (\<lambda>b l. if P (Name l) then Builder_Set b (g (Name l)) (Value l) else Inr b) b (Builder_snapshot b) = Inr b'"
    "builder_inv b'"
    "builder_view b' = foldl (\<lambda>m l. if P (Name l) then map_set m (g (Name l)) (Value l) else m)
      (builder_view b) (Builder_snapshot b)"
    unfolding map_set_def by blast
  have "bld_base b' = bld_base b"
    by (rule foldM_keeps_base [OF _ assms b'(1)]) (auto split: if_splits dest: set1_keeps)
  with b' show ?thesis by (simp add: Builder_Range_def)
qed

text \<open>One rule of the code does to the view of the builder what the specification says.\<close>

definition rule_result :: "builder \<Rightarrow> (string \<rightharpoonup> string) option \<Rightarrow> (builder \<times> bool) go \<Rightarrow> bool" where
  "rule_result lb spec r \<longleftrightarrow>
     (\<exists>lb' keep. r = Inr (lb', keep) \<and> builder_inv lb' \<and> bld_base lb' = bld_base lb \<and>
        (case spec of None \<Rightarrow> \<not> keep | Some m \<Rightarrow> keep \<and> builder_view lb' = m))"

lemma rule_result_keeping:
  assumes "\<exists>b'. r = Inr b' \<and> builder_inv b' \<and> bld_base b' = bld_base lb \<and> builder_view b' = m"
  shows "rule_result lb (Some m) (and_then r (\<lambda>b. Inr (b, True)))"
  using assms by (auto simp: rule_result_def)

lemma rule_result_plain:
  "builder_inv lb \<Longrightarrow> rule_result lb None (Inr (lb, False))"
  "builder_inv lb \<Longrightarrow> rule_result lb (Some (builder_view lb)) (Inr (lb, True))"
  by (auto simp: rule_result_def)

lemma relabel_rule:
  assumes inv: "builder_inv lb" and ok: "config_runs cfg"
  shows "rule_result lb (relabel_spec env cfg (Builder_snapshot lb) (builder_view lb)) (relabel env cfg lb)"
proof -
  note defs = relabel_def relabel_spec_def Let_def relabel_val_def Builder_Get_map_get Builder_Del_single
  note S = rule_result_keeping [OF Builder_Set_law [OF inv]]
  have S1: "v \<noteq> [] \<Longrightarrow> rule_result lb (Some ((builder_view lb)(n \<mapsto> v)))
      (and_then (Builder_Set lb n v) (\<lambda>b. Inr (b, True)))" for n v
    using S [of n v] by simp
  note D = rule_result_keeping [OF Builder_Del1_law [OF inv]]
  show ?thesis
  proof (cases "rc_Action cfg")
    case Replace
    show ?thesis
    proof (cases "re_FindStringSubmatchIndex (rc_Regex cfg)
        (go_join (map (map_get (builder_view lb)) (rc_SourceLabels cfg)) (rc_Separator cfg))")
      case None
      with Replace inv show ?thesis by (simp add: defs rule_result_plain)
    next
      case (Some ix)
      with Replace show ?thesis by (simp add: defs S1 D)
    qed
  next
    case LabelMap
    with rule_result_keeping [OF Range_set [OF inv]] show ?thesis by (simp add: defs)
  next
    case LabelDrop
    with rule_result_keeping [OF Range_del [OF inv, of "re_MatchString (rc_Regex cfg)"]]
    show ?thesis by (simp add: defs cong: if_cong)
  next
    case LabelKeep
    have e: "(\<lambda>n. if \<not> re_MatchString (rc_Regex cfg) n then None else builder_view lb n) =
        (\<lambda>n. if re_MatchString (rc_Regex cfg) n then builder_view lb n else None)"
      by auto
    from LabelKeep rule_result_keeping [OF Range_del [OF inv, of "\<lambda>n. \<not> re_MatchString (rc_Regex cfg) n"],
        unfolded e]
    show ?thesis by (simp add: defs cong: if_cong)
  next
    case HashMod
    with ok show ?thesis by (simp add: defs config_runs_def S1)
  next
    case (OtherAction s)
    with ok show ?thesis by (simp add: config_runs_def)
  qed (use inv S in \<open>simp_all add: defs rule_result_plain map_set_def\<close>)
qed

subsection \<open>A list of rules\<close>

fun relabel_maps :: "relabel_env \<Rightarrow> relabel_config list \<Rightarrow> (string \<rightharpoonup> string) \<Rightarrow> (string \<rightharpoonup> string) option" where
  "relabel_maps env [] m = Some m"
| "relabel_maps env (cfg # cfgs) m =
     (case relabel_spec env cfg [] m of None \<Rightarrow> None | Some m' \<Rightarrow> relabel_maps env cfgs m')"

lemma relabel_spec_order_free:
  "rc_Action cfg \<noteq> LabelMap \<Longrightarrow> relabel_spec env cfg ls m = relabel_spec env cfg [] m"
  by (cases "rc_Action cfg") (simp_all add: relabel_spec_def Let_def)

lemma ProcessBuilder_total:
  assumes "builder_inv lb" and "list_all config_runs cfgs"
  shows "\<exists>lb' keep. ProcessBuilder env lb cfgs = Inr (lb', keep) \<and> builder_inv lb' \<and> bld_base lb' = bld_base lb"
  using assms
proof (induction cfgs arbitrary: lb)
  case (Cons cfg cfgs)
  then have ok: "config_runs cfg" by simp
  from relabel_rule [OF Cons.prems(1) ok] obtain lb1 k where
    "relabel env cfg lb = Inr (lb1, k)" "builder_inv lb1" "bld_base lb1 = bld_base lb"
    unfolding rule_result_def by blast
  with Cons.IH [of lb1] Cons.prems(2) show ?case by auto
qed auto

lemma ProcessBuilder_refines:
  assumes "builder_inv lb" and "list_all config_runs cfgs" and "list_all (\<lambda>c. rc_Action c \<noteq> LabelMap) cfgs"
  shows "rule_result lb (relabel_maps env cfgs (builder_view lb)) (ProcessBuilder env lb cfgs)"
  using assms
proof (induction cfgs arbitrary: lb)
  case (Cons cfg cfgs)
  then have ok: "config_runs cfg" and nm: "rc_Action cfg \<noteq> LabelMap" by simp_all
  from relabel_rule [OF Cons.prems(1) ok, unfolded relabel_spec_order_free [OF nm, of _ "Builder_snapshot lb"]]
  obtain lb1 k where r: "relabel env cfg lb = Inr (lb1, k)" "builder_inv lb1" "bld_base lb1 = bld_base lb"
    "case relabel_spec env cfg [] (builder_view lb) of None \<Rightarrow> \<not> k | Some m \<Rightarrow> k \<and> builder_view lb1 = m"
    unfolding rule_result_def by blast
  show ?case
  proof (cases "relabel_spec env cfg [] (builder_view lb)")
    case None
    with r show ?thesis by (auto simp: rule_result_def)
  next
    case (Some m)
    with r have v: "builder_view lb1 = m" "k" by simp_all
    with Cons.IH [OF r(2)] Cons.prems r Some show ?thesis
      by (simp add: rule_result_def)
  qed
qed (simp add: rule_result_plain)

text \<open>C12: relabelling refines the map specification. For rules whose action is known (and not
  \<open>labelmap\<close>, whose result depends on the visiting order), \<open>Process\<close> returns \<open>keep\<close> exactly when
  the specification keeps the set, and then the labels returned are exactly the map the
  rules specify; a dropped set is the empty one.\<close>

theorem Process_refines_spec:
  assumes "sorts_by_name srt" and "distinct (label_names lbls)"
    and "list_all config_runs cfgs" and "list_all (\<lambda>c. rc_Action c \<noteq> LabelMap) cfgs"
  shows "case relabel_maps env cfgs (nonempty_labels lbls) of
      None \<Rightarrow> Process env srt lbls cfgs = Inr ([], False)
    | Some m \<Rightarrow> \<exists>out. Process env srt lbls cfgs = Inr (out, True) \<and> label_map out = m \<and> distinct (label_names out)"
proof -
  have inv: "builder_inv (NewBuilder lbls)" using assms(2) by (rule NewBuilder_inv)
  have v: "builder_view (NewBuilder lbls) = nonempty_labels lbls"
    using NewBuilder_view [OF assms(2)] by (auto simp: nonempty_labels_def)
  from ProcessBuilder_refines [OF inv assms(3,4), of env, unfolded v rule_result_def]
  obtain lb k where "ProcessBuilder env (NewBuilder lbls) cfgs = Inr (lb, k)" "builder_inv lb"
    "case relabel_maps env cfgs (nonempty_labels lbls) of None \<Rightarrow> \<not> k | Some m \<Rightarrow> k \<and> builder_view lb = m"
    by blast
  with Builder_Labels_spec [OF assms(1), of lb] show ?thesis
    by (simp add: Process_def split: option.splits)
qed

definition sample_regexp :: regexp where
  "sample_regexp = \<lparr>re_MatchString = (\<lambda>s. s = ''b''),
     re_FindStringSubmatchIndex = (\<lambda>s. Some [0, int (length s)]),
     re_ExpandString = (\<lambda>t s ix. t), re_ReplaceAllString = (\<lambda>s r. r)\<rparr>"

definition sample_env :: relabel_env where
  "sample_env = \<lparr>env_ToLower = id, env_ToUpper = id, env_md5 = (\<lambda>b. replicate 16 CHR ''a''),
     env_LabelName_IsValid = (\<lambda>s. s \<noteq> []), env_relabelTarget = (\<lambda>s. s \<noteq> [])\<rparr>"

definition sample_rule :: "action \<Rightarrow> relabel_config" where
  "sample_rule a = \<lparr>rc_SourceLabels = [''a''], rc_Separator = '';'', rc_Regex = sample_regexp,
     rc_Modulus = 7, rc_TargetLabel = ''t'', rc_Replacement = ''r'', rc_Action = a\<rparr>"

theorem Process_refines_spec_witness:
  "\<exists>out. Process sample_env (sort_key Name) [Label ''a'' ''1'', Label ''b'' ''2'']
      [sample_rule LabelDrop, sample_rule Replace] = Inr (out, True) \<and>
    label_map out = [''a'' \<mapsto> ''1'', ''t'' \<mapsto> ''r'']"
proof -
  let ?ls = "[Label ''a'' ''1'', Label ''b'' ''2'']" and ?cs = "[sample_rule LabelDrop, sample_rule Replace]"
  have m: "relabel_maps sample_env ?cs (nonempty_labels ?ls) = Some [''a'' \<mapsto> ''1'', ''t'' \<mapsto> ''r'']"
    by (auto simp: relabel_spec_def sample_rule_def sample_env_def sample_regexp_def nonempty_labels_def
      map_get_def fun_eq_iff)
  have "list_all config_runs ?cs" "list_all (\<lambda>c. rc_Action c \<noteq> LabelMap) ?cs"
    by (simp_all add: config_runs_def sample_rule_def)
  from Process_refines_spec [OF sorts_by_name_sort_key, of ?ls, OF _ this, of sample_env] m
  show ?thesis by auto
qed

text \<open>C18: whatever the rules (\<open>labelmap\<close> included), when their actions are known and a \<open>hashmod\<close>
  modulus is not zero, \<open>Process\<close> never panics on a label set with distinct names, and what it
  returns is again a label set: distinct names, no empty value, and in name order when the
  input was.\<close>

theorem Process_well_formed:
  assumes "sorts_by_name srt" and "distinct (label_names lbls)" and "list_all config_runs cfgs"
  shows "\<exists>out keep. Process env srt lbls cfgs = Inr (out, keep) \<and> distinct (label_names out) \<and>
    (\<forall>l \<in> set out. Value l \<noteq> []) \<and> (sorted (label_names lbls) \<longrightarrow> sorted (label_names out))"
proof -
  from ProcessBuilder_total [OF NewBuilder_inv [OF assms(2)] assms(3), of env]
  obtain lb k where r: "ProcessBuilder env (NewBuilder lbls) cfgs = Inr (lb, k)" "builder_inv lb"
    "bld_base lb = lbls"
    by (auto simp: NewBuilder_def Builder_Reset_def)
  with Builder_Labels_spec [OF assms(1) r(2)] show ?thesis
    by (cases k) (auto simp: Process_def)
qed

theorem Process_well_formed_witness:
  "\<exists>out keep. Process sample_env (sort_key Name) [Label ''a'' ''1'', Label ''b'' ''2'']
     [sample_rule LabelMap, sample_rule HashMod] = Inr (out, keep) \<and> sorted (label_names out)"
proof -
  have "list_all config_runs [sample_rule LabelMap, sample_rule HashMod]"
    by (simp add: config_runs_def sample_rule_def)
  from Process_well_formed [OF sorts_by_name_sort_key _ this, of "[Label ''a'' ''1'', Label ''b'' ''2'']" sample_env]
  show ?thesis by auto
qed

text \<open>A configuration that \<open>Config.UnmarshalYAML\<close> accepts never makes a rule panic.\<close>

theorem UnmarshalYAML_Config_runs:
  assumes "UnmarshalYAML_Config env dr er y = Inr cfg" and "builder_inv lb"
  shows "\<exists>lb' keep. relabel env cfg lb = Inr (lb', keep) \<and> builder_inv lb'"
proof -
  from assms(1) obtain a where a: "(case yc_Action y of ActionAbsent \<Rightarrow> Inr Replace
      | ActionNull \<Rightarrow> Inl ActionEmpty | ActionSet s \<Rightarrow> UnmarshalYAML_Action env s) = Inr a"
    unfolding UnmarshalYAML_Config_def and_then_Inr_iff by blast
  then have known: "\<forall>s. a \<noteq> OtherAction s"
    by (auto simp: UnmarshalYAML_Action_def split: yaml_action.splits action.splits)
  have "rc_Action cfg = a \<and> (a = HashMod \<longrightarrow> rc_Modulus cfg \<noteq> 0)"
    using assms(1) a by (auto simp: UnmarshalYAML_Config_def Let_def split: if_splits)
  with known have "config_runs cfg" by (simp add: config_runs_def)
  from relabel_rule [OF assms(2) this, of env] show ?thesis
    by (auto simp: rule_result_def)
qed

definition sample_yaml :: yaml_config where
  "sample_yaml = \<lparr>yc_SourceLabels = Some [''a''], yc_Separator = '';'', yc_Regex = DefaultRegex,
     yc_Modulus = 7, yc_TargetLabel = ''t'', yc_Replacement = ''$1'', yc_Action = ActionSet ''hashmod''\<rparr>"

theorem UnmarshalYAML_Config_runs_witness:
  "\<exists>cfg lb' keep. UnmarshalYAML_Config sample_env sample_regexp sample_regexp sample_yaml = Inr cfg \<and>
     relabel sample_env cfg (NewBuilder [Label ''a'' ''1'']) = Inr (lb', keep)"
proof -
  obtain cfg where c: "UnmarshalYAML_Config sample_env sample_regexp sample_regexp sample_yaml = Inr cfg"
    by (simp add: UnmarshalYAML_Config_def sample_yaml_def UnmarshalYAML_Action_def sample_env_def
      Action_of_string_def Let_def)
  have "builder_inv (NewBuilder [Label ''a'' ''1''])" by (rule NewBuilder_inv) simp
  from UnmarshalYAML_Config_runs [OF c this] c show ?thesis by blast
qed

text \<open>\<open>hashmod\<close> writes to the target label the decimal text of a number below the modulus, and a
  zero modulus (which only \<open>UnmarshalYAML\<close> rejects) is a division by zero at run time.\<close>

theorem HashMod_bounded:
  assumes "builder_inv lb" and "rc_Action cfg = HashMod"
  shows "if rc_Modulus cfg = 0 then relabel env cfg lb = Inl DivideByZero
    else \<exists>lb' k. relabel env cfg lb = Inr (lb', True) \<and>
      atoi (Builder_Get lb' (rc_TargetLabel cfg)) = Some k \<and> k < unat (rc_Modulus cfg)"
proof (cases "rc_Modulus cfg = 0")
  case True
  with assms(2) show ?thesis by (simp add: relabel_def Let_def)
next
  case False
  let ?t = "hashmod_text env cfg (relabel_val cfg lb)"
  from bld.get_after_set [OF assms(1), of "rc_TargetLabel cfg" ?t] obtain lb' where
    b: "Builder_Set lb (rc_TargetLabel cfg) ?t = Inr lb'" "Builder_Get lb' (rc_TargetLabel cfg) = ?t"
    by blast
  have "unat (x mod rc_Modulus cfg) < unat (rc_Modulus cfg)" for x
    using False by (simp add: unat_mod mod_less_divisor word_neq_0_conv unat_gt_0)
  with b False assms(2) show ?thesis
    by (simp add: relabel_def Let_def hashmod_text_def atoi_itoa)
qed

theorem HashMod_bounded_witness:
  "\<exists>lb' k. relabel sample_env (sample_rule HashMod) (NewBuilder [Label ''a'' ''1'']) = Inr (lb', True) \<and>
     atoi (Builder_Get lb' ''t'') = Some k \<and> k < 7"
proof -
  have i: "builder_inv (NewBuilder [Label ''a'' ''1''])" by (rule NewBuilder_inv) simp
  have a: "rc_Action (sample_rule HashMod) = HashMod" by (simp add: sample_rule_def)
  show ?thesis using HashMod_bounded [OF i a, of sample_env] by (simp add: sample_rule_def)
qed

end
