(* ===== verification/Log_Config.thy ===== *)
theory Log_Config
  imports Go_Prelude
begin

text \<open>
  Configuration of log collection, \<open>src/config/logs\<close>: processing rules and their validation
  (\<open>processing_rules.go\<close>), a source's configuration (\<open>integration_config.go\<close>), its status,
  messages and counters (\<open>status.go\<close>, \<open>messages.go\<close>, \<open>info.go\<close>), a source (\<open>source.go\<close>)
  and the set of sources with its subscribers (\<open>sources.go\<close>).

  The regular expression engine is not part of the sources: \<open>re_compiles\<close> tells which patterns it
  accepts; a compiled expression is the text it was compiled from and \<open>None\<close> is the nil
  pointer. Mutexes guard each of these objects, so each method is one atomic step.
\<close>

subsection \<open>Processing rules\<close>

definition ExcludeAtMatch :: string where "ExcludeAtMatch = ''exclude_at_match''"
definition IncludeAtMatch :: string where "IncludeAtMatch = ''include_at_match''"
definition MaskSequences :: string where "MaskSequences = ''mask_sequences''"
definition MultiLine_type :: string where "MultiLine_type = ''multi_line''"

lemmas rule_types = ExcludeAtMatch_def IncludeAtMatch_def MaskSequences_def MultiLine_type_def

record processing_rule =
  r_Type :: string
  r_Name :: string
  ReplacePlaceholder :: string
  Pattern :: string
  Regex :: "string option"
  Placeholder :: bytes

datatype logs_config_error =
    RuleWithoutName
  | RuleWithoutType string
  | RuleTypeNotSupported string string
  | RuleWithoutPattern string
  | RuleInvalidPattern string string
  | PatternDoesNotCompile string
  | ConfigWithoutType
  | FileWithoutPath
  | InvalidTailingMode string string
  | WildcardFromBeginning string
  | TcpWithoutPort
  | UdpWithoutPort

definition validate_rule :: "(string \<Rightarrow> bool) \<Rightarrow> processing_rule \<Rightarrow> logs_config_error option" where
  "validate_rule re_compiles rule =
     (if r_Name rule = [] then Some RuleWithoutName
      else if r_Type rule \<in> {ExcludeAtMatch, IncludeAtMatch, MaskSequences, MultiLine_type} then
        (if Pattern rule = [] then Some (RuleWithoutPattern (r_Name rule))
         else if \<not> re_compiles (Pattern rule) then Some (RuleInvalidPattern (Pattern rule) (r_Name rule))
         else None)
      else if r_Type rule = [] then Some (RuleWithoutType (r_Name rule))
      else Some (RuleTypeNotSupported (r_Type rule) (r_Name rule)))"

fun ValidateProcessingRules :: "(string \<Rightarrow> bool) \<Rightarrow> processing_rule list \<Rightarrow> logs_config_error option" where
  "ValidateProcessingRules re_compiles [] = None"
| "ValidateProcessingRules re_compiles (rule # rules) =
     (case validate_rule re_compiles rule of
        Some err \<Rightarrow> Some err
      | None \<Rightarrow> ValidateProcessingRules re_compiles rules)"

text \<open>
  Compiling writes into the rules, also into those before the one that fails: the results are the
  rules as they are left and the error, if any.
\<close>

definition compile_rule :: "(string \<Rightarrow> bool) \<Rightarrow> processing_rule \<Rightarrow> processing_rule \<times> logs_config_error option" where
  "compile_rule re_compiles rule =
     (if \<not> re_compiles (Pattern rule) then (rule, Some (PatternDoesNotCompile (Pattern rule)))
      else if r_Type rule = ExcludeAtMatch \<or> r_Type rule = IncludeAtMatch then
        (rule\<lparr>Regex := Some (Pattern rule)\<rparr>, None)
      else if r_Type rule = MaskSequences then
        (rule\<lparr>Regex := Some (Pattern rule), Placeholder := ReplacePlaceholder rule\<rparr>, None)
      else if r_Type rule = MultiLine_type then
        (if re_compiles (CHR ''^'' # Pattern rule) then (rule\<lparr>Regex := Some (CHR ''^'' # Pattern rule)\<rparr>, None)
         else (rule\<lparr>Regex := None\<rparr>, Some (PatternDoesNotCompile (CHR ''^'' # Pattern rule))))
      else (rule, None))"

fun CompileProcessingRules ::
  "(string \<Rightarrow> bool) \<Rightarrow> processing_rule list \<Rightarrow> processing_rule list \<times> logs_config_error option" where
  "CompileProcessingRules re_compiles [] = ([], None)"
| "CompileProcessingRules re_compiles (rule # rules) =
     (case compile_rule re_compiles rule of
        (rule', Some err) \<Rightarrow> (rule' # rules, Some err)
      | (rule', None) \<Rightarrow>
          (let (rules', err) = CompileProcessingRules re_compiles rules in (rule' # rules', err)))"

subsection \<open>The configuration of a source\<close>

datatype tailing_mode = ForceBeginning | ForceEnd | Beginning | End

definition tailingModeTuples :: "(string \<times> tailing_mode) list" where
  "tailingModeTuples =
     [(''forceBeginning'', ForceBeginning), (''forceEnd'', ForceEnd), (''beginning'', Beginning), (''end'', End)]"

definition TailingModeFromString :: "string \<Rightarrow> tailing_mode \<times> bool" where
  "TailingModeFromString mode =
     (case find (\<lambda>t. fst t = mode) tailingModeTuples of Some t \<Rightarrow> (snd t, True) | None \<Rightarrow> (End, False))"

definition TailingMode_String :: "tailing_mode \<Rightarrow> string" where
  "TailingMode_String mode =
     (case find (\<lambda>t. snd t = mode) tailingModeTuples of Some t \<Rightarrow> fst t | None \<Rightarrow> [])"

record logs_config =
  c_Type :: string
  c_Port :: int
  c_Path :: string
  c_Encoding :: string
  ExcludePaths :: "string list"
  TailingMode :: string
  c_Identifier :: string
  c_Service :: string
  c_Source :: string
  SourceCategory :: string
  c_Tags :: "string list"
  ProcessingRules :: "processing_rule list"
  AutoMultiLine :: bool
  AutoMultiLineSampleSize :: int

definition ContainsWildcard :: "string \<Rightarrow> bool" where
  "ContainsWildcard path \<longleftrightarrow> list_ex (\<lambda>c. c \<in> set ''*?['') path"

definition validateTailingMode :: "logs_config \<Rightarrow> logs_config_error option" where
  "validateTailingMode c =
     (let (mode, found) = TailingModeFromString (TailingMode c) in
      if \<not> found \<and> TailingMode c \<noteq> [] then Some (InvalidTailingMode (TailingMode c) (c_Path c))
      else if ContainsWildcard (c_Path c) \<and> (mode = Beginning \<or> mode = ForceBeginning)
        then Some (WildcardFromBeginning (c_Path c))
      else None)"

text \<open>\<open>Validate\<close> compiles the rules in place, so that it returns the configuration as it leaves it.\<close>

definition validate_type :: "logs_config \<Rightarrow> logs_config_error option" where
  "validate_type c =
     (if c_Type c = [] then Some ConfigWithoutType
      else if c_Type c = ''file'' then
        (if c_Path c = [] then Some FileWithoutPath else validateTailingMode c)
      else if c_Type c = ''tcp'' \<and> c_Port c = 0 then Some TcpWithoutPort
      else if c_Type c = ''udp'' \<and> c_Port c = 0 then Some UdpWithoutPort
      else None)"

definition Validate :: "(string \<Rightarrow> bool) \<Rightarrow> logs_config \<Rightarrow> logs_config \<times> logs_config_error option" where
  "Validate re_compiles c =
     (case validate_type c of
        Some err \<Rightarrow> (c, Some err)
      | None \<Rightarrow>
          (case ValidateProcessingRules re_compiles (ProcessingRules c) of
             Some err \<Rightarrow> (c, Some err)
           | None \<Rightarrow>
               (let (rules, err) = CompileProcessingRules re_compiles (ProcessingRules c) in
                (c\<lparr>ProcessingRules := rules\<rparr>, err))))"

text \<open>The textual names of the tailing modes are read back as the mode they name, and a text that
  names no mode is reported as such.\<close>

theorem TailingMode_roundtrip:
  "TailingModeFromString (TailingMode_String m) = (m, True) \<and>
   (snd (TailingModeFromString s) \<longleftrightarrow> s \<in> {''forceBeginning'', ''forceEnd'', ''beginning'', ''end''})"
  by (cases m) (auto simp: TailingModeFromString_def TailingMode_String_def tailingModeTuples_def)

subsection \<open>Compiled rules\<close>

definition rule_compiled :: "(string \<Rightarrow> bool) \<Rightarrow> processing_rule \<Rightarrow> bool" where
  "rule_compiled re_compiles rule \<longleftrightarrow>
     r_Type rule \<in> {ExcludeAtMatch, IncludeAtMatch, MaskSequences, MultiLine_type} \<longrightarrow>
     (\<exists>re. Regex rule = Some re \<and> re_compiles re)"

lemma compile_rule_compiled:
  "compile_rule re_compiles rule = (rule', None) \<Longrightarrow>
     rule_compiled re_compiles rule' \<and> r_Type rule' = r_Type rule \<and> r_Name rule' = r_Name rule \<and>
     Pattern rule' = Pattern rule"
  by (auto simp: compile_rule_def rule_compiled_def split: if_splits)

lemma CompileProcessingRules_compiled:
  "CompileProcessingRules re_compiles rules = (rules', None) \<Longrightarrow>
     list_all (rule_compiled re_compiles) rules' \<and> map r_Type rules' = map r_Type rules \<and>
     map Pattern rules' = map Pattern rules"
proof (induction rules arbitrary: rules')
  case (Cons rule rules)
  then obtain rule' rules1 where r: "compile_rule re_compiles rule = (rule', None)"
    "CompileProcessingRules re_compiles rules = (rules1, None)" "rules' = rule' # rules1"
    by (auto split: prod.splits option.splits)
  from compile_rule_compiled [OF r(1)] Cons.IH [OF r(2)] r(3) show ?case by simp
qed simp

lemma Validate_fields:
  assumes "Validate re_compiles c = (c', None)"
  shows "validate_type c = None" and "c' = c\<lparr>ProcessingRules := ProcessingRules c'\<rparr>"
    and "list_all (rule_compiled re_compiles) (ProcessingRules c')"
    and "ValidateProcessingRules re_compiles (ProcessingRules c) = None"
    and "map r_Type (ProcessingRules c') = map r_Type (ProcessingRules c)"
  using assms CompileProcessingRules_compiled
  by (auto simp: Validate_def split: option.splits prod.splits)

lemma ValidateProcessingRules_None:
  "ValidateProcessingRules re_compiles rules = None \<longleftrightarrow> list_all (\<lambda>r. validate_rule re_compiles r = None) rules"
  by (induction rules) (auto split: option.splits)


subsection \<open>Status, messages and counters of a source\<close>

datatype log_state = isPending | isSuccess | isError

record log_status =
  ls_status :: log_state
  ls_err :: string

definition NewLogStatus :: log_status where "NewLogStatus = \<lparr>ls_status = isPending, ls_err = []\<rparr>"

definition Status_Success :: "log_status \<Rightarrow> log_status" where
  "Status_Success s = s\<lparr>ls_status := isSuccess, ls_err := []\<rparr>"

definition Status_Error :: "string \<Rightarrow> log_status \<Rightarrow> log_status" where
  "Status_Error err s = s\<lparr>ls_status := isError, ls_err := ''Error: '' @ err\<rparr>"

record count_info =
  ci_count :: "32 word"
  ci_key :: string

definition NewCountInfo :: "string \<Rightarrow> count_info" where "NewCountInfo key = \<lparr>ci_count = 0, ci_key = key\<rparr>"

definition CountInfo_Add :: "32 word \<Rightarrow> count_info \<Rightarrow> count_info" where
  "CountInfo_Add v c = c\<lparr>ci_count := ci_count c + v\<rparr>"

type_synonym message_map = "string \<rightharpoonup> string"

definition SetMessage :: "string \<Rightarrow> string \<Rightarrow> message_map \<Rightarrow> message_map" where
  "SetMessage key msg m = m(key \<mapsto> msg)"

definition RemoveMessage :: "string \<Rightarrow> message_map \<Rightarrow> message_map" where
  "RemoveMessage key m = m(key := None)"

subsection \<open>Sources\<close>

record log_source =
  src_id :: nat
  src_Name :: string
  src_Config :: "logs_config option"
  src_Status :: log_status
  src_inputs :: "string set"
  src_Messages :: message_map
  sourceType :: string
  src_info :: "string \<rightharpoonup> count_info"
  containerdFlg :: string
  BytesRead :: int

definition NewLogSource :: "nat \<Rightarrow> string \<Rightarrow> logs_config option \<Rightarrow> log_source" where
  "NewLogSource addr name config =
     \<lparr>src_id = addr, src_Name = name, src_Config = config, src_Status = NewLogStatus, src_inputs = {},
      src_Messages = Map.empty, sourceType = [], src_info = Map.empty, containerdFlg = [], BytesRead = 0\<rparr>"

definition AddInput :: "string \<Rightarrow> log_source \<Rightarrow> log_source" where
  "AddInput input s = s\<lparr>src_inputs := insert input (src_inputs s)\<rparr>"

definition RemoveInput :: "string \<Rightarrow> log_source \<Rightarrow> log_source" where
  "RemoveInput input s = s\<lparr>src_inputs := src_inputs s - {input}\<rparr>"

definition RegisterInfo :: "count_info \<Rightarrow> log_source \<Rightarrow> log_source" where
  "RegisterInfo i s = s\<lparr>src_info := (src_info s)(ci_key i \<mapsto> i)\<rparr>"

definition GetInfo :: "string \<Rightarrow> log_source \<Rightarrow> count_info option" where
  "GetInfo key s = src_info s key"

text \<open>
  The subscribers of a type read a channel; the sources sent on it, in order, are the list.
  A pointer is the number \<open>src_id\<close>.
\<close>

record log_sources =
  sources :: "log_source list"
  addedByType :: "string \<rightharpoonup> log_source list"
  removedByType :: "string \<rightharpoonup> log_source list"

definition NewLogSources :: log_sources where
  "NewLogSources = \<lparr>sources = [], addedByType = Map.empty, removedByType = Map.empty\<rparr>"

definition send_on :: "string \<Rightarrow> log_source \<Rightarrow> (string \<rightharpoonup> log_source list) \<Rightarrow> (string \<rightharpoonup> log_source list)" where
  "send_on t s streams = (case streams t of None \<Rightarrow> streams | Some sent \<Rightarrow> streams(t \<mapsto> sent @ [s]))"

definition AddSource :: "(string \<Rightarrow> bool) \<Rightarrow> log_source \<Rightarrow> log_sources \<Rightarrow> log_sources" where
  "AddSource re_compiles source s =
     (case src_Config source of
        None \<Rightarrow> s\<lparr>sources := sources s @ [source]\<rparr>
      | Some c \<Rightarrow>
          (let (c', err) = Validate re_compiles c;
               source' = source\<lparr>src_Config := Some c'\<rparr>;
               s' = s\<lparr>sources := sources s @ [source']\<rparr> in
           if err \<noteq> None then s'
           else s'\<lparr>addedByType := send_on (c_Type c') source' (addedByType s')\<rparr>))"

fun remove_first :: "nat \<Rightarrow> log_source list \<Rightarrow> log_source list \<times> bool" where
  "remove_first k [] = ([], False)"
| "remove_first k (x # xs) =
     (if src_id x = k then (xs, True) else let (xs', found) = remove_first k xs in (x # xs', found))"

definition RemoveSource :: "log_source \<Rightarrow> log_sources \<Rightarrow> log_sources go" where
  "RemoveSource source s =
     (let (srcs, sourceFound) = remove_first (src_id source) (sources s);
          s' = s\<lparr>sources := srcs\<rparr> in
      case src_Config source of
        None \<Rightarrow> Inl NilDereference
      | Some c \<Rightarrow>
          Inr (if sourceFound then s'\<lparr>removedByType := send_on (c_Type c) source (removedByType s')\<rparr> else s'))"

definition GetAddedForType :: "string \<Rightarrow> log_sources \<Rightarrow> log_sources" where
  "GetAddedForType t s =
     (if addedByType s t = None then s\<lparr>addedByType := (addedByType s)(t \<mapsto> [])\<rparr> else s)"

definition GetRemovedForType :: "string \<Rightarrow> log_sources \<Rightarrow> log_sources" where
  "GetRemovedForType t s =
     (if removedByType s t = None then s\<lparr>removedByType := (removedByType s)(t \<mapsto> [])\<rparr> else s)"

lemma Validate_type_kept: "c_Type (fst (Validate re_compiles c)) = c_Type c"
  by (auto simp: Validate_def split: option.splits prod.splits)

definition delivered :: "(string \<Rightarrow> bool) \<Rightarrow> string \<Rightarrow> log_source \<Rightarrow> log_source list" where
  "delivered re_compiles t x =
     (case src_Config x of
        None \<Rightarrow> []
      | Some c \<Rightarrow>
          (if snd (Validate re_compiles c) = None \<and> c_Type c = t
           then [x\<lparr>src_Config := Some (fst (Validate re_compiles c))\<rparr>] else []))"

lemma AddSource_one:
  assumes "addedByType s t = Some sent"
  shows "addedByType (AddSource re_compiles x s) t = Some (sent @ delivered re_compiles t x)"
    and "map src_id (sources (AddSource re_compiles x s)) = map src_id (sources s) @ [src_id x]"
proof -
  have "addedByType (AddSource re_compiles x s) t = Some (sent @ delivered re_compiles t x) \<and>
    map src_id (sources (AddSource re_compiles x s)) = map src_id (sources s) @ [src_id x]"
  proof (cases "src_Config x")
    case (Some c)
    obtain c' err where v: "Validate re_compiles c = (c', err)" by fastforce
    with Validate_type_kept [of re_compiles c] have "c_Type c' = c_Type c" by simp
    with assms Some v show ?thesis
      by (auto simp: AddSource_def delivered_def send_on_def Let_def split: option.splits)
  qed (use assms in \<open>simp add: AddSource_def delivered_def\<close>)
  then show "addedByType (AddSource re_compiles x s) t = Some (sent @ delivered re_compiles t x)"
    and "map src_id (sources (AddSource re_compiles x s)) = map src_id (sources s) @ [src_id x]" by blast+
qed

text \<open>Once a type has a subscriber, adding sources delivers to it exactly the sources of that
  type whose configuration validates, in the order of their arrival, with their rules
  compiled; all sources are recorded, whether they validate or not.\<close>

theorem AddSource_delivers:
  assumes "addedByType s t = Some sent"
  shows "addedByType (fold (AddSource re_compiles) srcs s) t =
           Some (sent @ concat (map (delivered re_compiles t) srcs)) \<and>
         map src_id (sources (fold (AddSource re_compiles) srcs s)) = map src_id (sources s) @ map src_id srcs"
  using assms
proof (induction srcs arbitrary: s sent)
  case (Cons x srcs)
  from Cons.IH [OF AddSource_one(1) [OF Cons.prems, of re_compiles x]] AddSource_one(2) [OF Cons.prems, of re_compiles x]
  show ?case by simp
qed simp

definition sample_config :: logs_config where
  "sample_config =
     \<lparr>c_Type = ''file'', c_Port = 0, c_Path = ''/var/log/a.log'', c_Encoding = [], ExcludePaths = [], TailingMode = [],
      c_Identifier = [], c_Service = [], c_Source = [], SourceCategory = [], c_Tags = [],
      ProcessingRules = [\<lparr>r_Type = ''exclude_at_match'', r_Name = ''n'', ReplacePlaceholder = [], Pattern = ''x'',
        Regex = None, Placeholder = []\<rparr>],
      AutoMultiLine = False, AutoMultiLineSampleSize = 0\<rparr>"

theorem AddSource_delivers_witness:
  "addedByType (fold (AddSource (\<lambda>_. True)) [NewLogSource 1 ''a'' (Some sample_config), NewLogSource 2 ''b'' None]
     (GetAddedForType ''file'' NewLogSources)) ''file'' \<noteq> Some []"
  using AddSource_delivers [of "GetAddedForType ''file'' NewLogSources" "''file''" "[]" "\<lambda>_. True"
      "[NewLogSource 1 ''a'' (Some sample_config), NewLogSource 2 ''b'' None]"]
  by (simp add: GetAddedForType_def NewLogSources_def delivered_def NewLogSource_def sample_config_def
      Validate_def validate_type_def validateTailingMode_def TailingModeFromString_def tailingModeTuples_def
      ContainsWildcard_def validate_rule_def compile_rule_def rule_types)

end
