(* ===== verification/Log_Message.thy ===== *)
theory Log_Message
  imports Log_Config
begin

text \<open>
  Messages on their way from an input to a destination and what the processor does to them:
  \<open>src/logs/message\<close> (\<open>message.go\<close>, \<open>origin.go\<close>, \<open>status.go\<close>) and, of \<open>src/logs/processor\<close>,
  \<open>processor.go\<close>, \<open>raw.go\<close>, \<open>json.go\<close> and \<open>encoder.go\<close>. The wall clock, the host name, the
  regular expression engine and \<open>json.Marshal\<close> are parameters.
\<close>

subsection \<open>Status and severity\<close>

definition StatusInfo :: string where "StatusInfo = ''info''"
definition StatusError :: string where "StatusError = ''error''"

definition statusSeverityMapping :: "(string \<times> bytes) list" where
  "statusSeverityMapping =
     [(''emergency'', ''<40>''), (''alert'', ''<41>''), (''critical'', ''<42>''), (''error'', ''<43>''),
      (''warn'', ''<44>''), (''notice'', ''<45>''), (''info'', ''<46>''), (''debug'', ''<47>'')]"

definition StatusToSeverity :: "string \<Rightarrow> bytes" where
  "StatusToSeverity status =
     (case map_of statusSeverityMapping status of Some sev \<Rightarrow> sev | None \<Rightarrow> ''<46>'')"

subsection \<open>Origins\<close>

record origin =
  o_Identifier :: string
  LogSource :: log_source
  Offset :: string
  o_service :: string
  o_source :: string
  o_tags :: "string list"

definition NewOrigin :: "log_source \<Rightarrow> origin" where
  "NewOrigin source =
     \<lparr>o_Identifier = [], LogSource = source, Offset = [], o_service = [], o_source = [], o_tags = []\<rparr>"

text \<open>Every method reads the configuration of the source, which is a pointer.\<close>

definition origin_config :: "origin \<Rightarrow> logs_config go" where
  "origin_config o' = (case src_Config (LogSource o') of None \<Rightarrow> Inl NilDereference | Some c \<Rightarrow> Inr c)"

definition Origin_Source :: "origin \<Rightarrow> logs_config \<Rightarrow> string" where
  "Origin_Source o' c = (if c_Source c \<noteq> [] then c_Source c else o_source o')"

definition Origin_Service :: "origin \<Rightarrow> logs_config \<Rightarrow> string" where
  "Origin_Service o' c = (if c_Service c \<noteq> [] then c_Service c else o_service o')"

definition quote_char :: char where "quote_char = CHR 0x22"

definition TagsPayload :: "origin \<Rightarrow> logs_config \<Rightarrow> bytes" where
  "TagsPayload o' c =
     (let source = Origin_Source o' c;
          p1 = (if source \<noteq> [] then ''[fc fcsource='' @ [quote_char] @ source @ [quote_char] @ '']'' else []);
          p2 = (if SourceCategory c \<noteq> []
                then ''[fc fcsourcecategory='' @ [quote_char] @ SourceCategory c @ [quote_char] @ '']'' else []);
          tags = c_Tags c @ o_tags o';
          p3 = (if length tags > 0
                then ''[fc fctags='' @ [quote_char] @ go_join tags '','' @ [quote_char] @ '']'' else []) in
      p1 @ p2 @ p3)"

definition tagsToStringArray :: "origin \<Rightarrow> logs_config \<Rightarrow> string list" where
  "tagsToStringArray o' c =
     o_tags o' @ (if SourceCategory c \<noteq> [] then [''sourcecategory'' @ '':'' @ SourceCategory c] else []) @ c_Tags c"

definition TagsToString :: "origin \<Rightarrow> logs_config \<Rightarrow> string" where
  "TagsToString o' c = go_join (tagsToStringArray o' c) '',''"

text \<open>The first index of a byte, -1 when there is none.\<close>

fun IndexByte :: "string \<Rightarrow> char \<Rightarrow> int" where
  "IndexByte [] c = -1"
| "IndexByte (x # xs) c = (if x = c then 0 else let i = IndexByte xs c in if i < 0 then -1 else i + 1)"

definition tag_split :: "string \<Rightarrow> (string \<times> string) option" where
  "tag_split tag =
     (if tag = [] then None
      else
        (let iEq = IndexByte tag (CHR ''=''); iColon = IndexByte tag (CHR '':'');
             idx = (if iEq \<ge> 0 \<and> iColon \<ge> 0 then (if iEq < iColon then iEq else iColon)
                    else if iEq \<ge> 0 then iEq else if iColon \<ge> 0 then iColon else -1) in
         if idx < 0 then None
         else
           (let key = TrimSpace (take (nat idx) tag); value = TrimSpace (drop (nat idx + 1) tag) in
            if key = [] then None else Some (key, value))))"

definition tags_map :: "string list \<Rightarrow> (string \<rightharpoonup> string)" where
  "tags_map tags = map_of (rev (List.map_filter tag_split tags))"

text \<open>\<open>json_Marshal\<close> returns \<open>None\<close> for an error.\<close>

definition TagsToJsonString ::
  "((string \<rightharpoonup> string) \<Rightarrow> string option) \<Rightarrow> origin \<Rightarrow> logs_config \<Rightarrow> string" where
  "TagsToJsonString json_Marshal o' c =
     (let tags = o_tags o' @ c_Tags c in
      if List.map_filter tag_split tags \<noteq> [] then
        (case json_Marshal (tags_map tags) of None \<Rightarrow> [] | Some data \<Rightarrow> data)
      else [])"

definition GetIdentifier :: "origin \<Rightarrow> logs_config \<Rightarrow> string" where
  "GetIdentifier o' c =
     (if sourceType (LogSource o') = ''docker'' \<or> sourceType (LogSource o') = ''kubernetes'' then c_Identifier c
      else if sourceType (LogSource o') = ''file'' then c_Path c
      else if sourceType (LogSource o') = ''tcp'' \<or> sourceType (LogSource o') = ''udp'' then
        (if c_Port c < 0 then ''-'' else []) @ itoa (nat \<bar>c_Port c\<bar>)
      else [])"

subsection \<open>Messages\<close>

record message =
  m_Content :: bytes
  m_Origin :: "origin option"
  m_status :: string
  m_IngestionTimestamp :: int

definition NewLogMessage :: "bytes \<Rightarrow> origin option \<Rightarrow> string \<Rightarrow> int \<Rightarrow> message" where
  "NewLogMessage content o' status ts =
     \<lparr>m_Content = content, m_Origin = o', m_status = status, m_IngestionTimestamp = ts\<rparr>"

definition GetStatus :: "message \<Rightarrow> message \<times> string" where
  "GetStatus m =
     (let m' = (if m_status m = [] then m\<lparr>m_status := StatusInfo\<rparr> else m) in (m', m_status m'))"

subsection \<open>The raw encoder\<close>

definition is_digit :: "char \<Rightarrow> bool" where
  "is_digit c \<longleftrightarrow> CHR ''0'' \<le> c \<and> c \<le> CHR ''9''"

text \<open>\<open>rfc_at s\<close>: the expression \<open>rfc5424Pattern\<close> matches at the start of \<open>s\<close>.\<close>

definition rfc_tail :: "string \<Rightarrow> bool" where
  "rfc_tail s \<longleftrightarrow> (case s of a # b # c # _ \<Rightarrow> a = CHR ''>'' \<and> is_digit b \<and> c = CHR '' '' | _ \<Rightarrow> False)"

definition rfc_at :: "string \<Rightarrow> bool" where
  "rfc_at s \<longleftrightarrow>
     (case s of
        c # s1 \<Rightarrow> c = CHR ''<'' \<and>
          list_ex (\<lambda>n. n \<le> length s1 \<and> list_all is_digit (take n s1) \<and> rfc_tail (drop n s1)) [1, 2, 3]
      | [] \<Rightarrow> False)"

fun rfc5424Pattern_Match :: "string \<Rightarrow> bool" where
  "rfc5424Pattern_Match [] = rfc_at []"
| "rfc5424Pattern_Match (c # s) = (rfc_at (c # s) \<or> rfc5424Pattern_Match s)"

definition isRFC5424Formatted :: "bytes \<Rightarrow> bool" where
  "isRFC5424Formatted content \<longleftrightarrow>
     (if length content < 8 then False else rfc5424Pattern_Match (take 8 content))"

definition rawEncoder_Encode :: "string \<Rightarrow> string \<Rightarrow> message \<Rightarrow> bytes \<Rightarrow> (message \<times> bytes) go" where
  "rawEncoder_Encode date hostname msg redactedMsg =
     (if length (m_Content msg) > 0 \<and> \<not> isRFC5424Formatted (m_Content msg) then
        (case m_Origin msg of
           None \<Rightarrow> Inl NilDereference
         | Some o' \<Rightarrow>
             and_then (origin_config o')
               (\<lambda>c. let (msg', status) = GetStatus msg;
                       service = Origin_Service o' c;
                       payload = TagsPayload o' c in
                    Inr (msg', StatusToSeverity status @ ''0'' @ '' '' @ date @ '' '' @ hostname @ '' '' @
                      (if service \<noteq> [] then service else ''-'') @ '' - - '' @
                      (if length payload > 0 then payload else ''-'') @ '' '' @ redactedMsg)))
      else Inr (msg, redactedMsg))"

subsection \<open>The processor\<close>

record regex_engine =
  re_match :: "string \<Rightarrow> bytes \<Rightarrow> bool"
  re_replace :: "string \<Rightarrow> bytes \<Rightarrow> bytes \<Rightarrow> bytes"

definition regex_ptr :: "processing_rule \<Rightarrow> string go" where
  "regex_ptr rule = (case Regex rule of None \<Rightarrow> Inl NilDereference | Some re \<Rightarrow> Inr re)"

fun apply_rules :: "regex_engine \<Rightarrow> processing_rule list \<Rightarrow> bytes \<Rightarrow> bytes option go" where
  "apply_rules E [] content = Inr (Some content)"
| "apply_rules E (rule # rules) content =
     (if r_Type rule = ExcludeAtMatch then
        and_then (regex_ptr rule)
          (\<lambda>re. if re_match E re content then Inr None else apply_rules E rules content)
      else if r_Type rule = IncludeAtMatch then
        and_then (regex_ptr rule)
          (\<lambda>re. if \<not> re_match E re content then Inr None else apply_rules E rules content)
      else if r_Type rule = MaskSequences then
        and_then (regex_ptr rule) (\<lambda>re. apply_rules E rules (re_replace E re content (Placeholder rule)))
      else apply_rules E rules content)"

definition applyRedactingRules :: "regex_engine \<Rightarrow> processing_rule list \<Rightarrow> message \<Rightarrow> bytes option go" where
  "applyRedactingRules E processingRules msg =
     (case m_Origin msg of
        None \<Rightarrow> Inl NilDereference
      | Some o' \<Rightarrow> and_then (origin_config o')
          (\<lambda>c. apply_rules E (processingRules @ ProcessingRules c) (m_Content msg)))"

text \<open>
  The encoder, whose errors drop the message, is an argument; the result lists the message sent to the
  output channel, if any.
\<close>

definition processMessage ::
  "regex_engine \<Rightarrow> (message \<Rightarrow> bytes \<Rightarrow> (message \<times> bytes option) go) \<Rightarrow> processing_rule list \<Rightarrow> message \<Rightarrow>
   message list go" where
  "processMessage E encode processingRules msg =
     and_then (applyRedactingRules E processingRules msg)
       (\<lambda>r. case r of
          None \<Rightarrow> Inr []
        | Some redactedMsg \<Rightarrow>
            and_then (encode msg redactedMsg)
              (\<lambda>(msg', content). case content of None \<Rightarrow> Inr [] | Some bs \<Rightarrow> Inr [msg'\<lparr>m_Content := bs\<rparr>]))"

fun Processor_run ::
  "regex_engine \<Rightarrow> (message \<Rightarrow> bytes \<Rightarrow> (message \<times> bytes option) go) \<Rightarrow> processing_rule list \<Rightarrow> message list \<Rightarrow>
   message list go" where
  "Processor_run E encode processingRules [] = Inr []"
| "Processor_run E encode processingRules (msg # msgs) =
     and_then (processMessage E encode processingRules msg)
       (\<lambda>out. and_then (Processor_run E encode processingRules msgs) (\<lambda>outs. Inr (out @ outs)))"


subsection \<open>What the rules let through\<close>

definition masked :: "regex_engine \<Rightarrow> processing_rule list \<Rightarrow> bytes \<Rightarrow> bytes" where
  "masked E rules content =
     fold (\<lambda>rule c. re_replace E (the (Regex rule)) c (Placeholder rule))
       (filter (\<lambda>rule. r_Type rule = MaskSequences) rules) content"

definition rule_passes :: "regex_engine \<Rightarrow> processing_rule \<Rightarrow> bytes \<Rightarrow> bool" where
  "rule_passes E rule content \<longleftrightarrow>
     (r_Type rule = ExcludeAtMatch \<longrightarrow> \<not> re_match E (the (Regex rule)) content) \<and>
     (r_Type rule = IncludeAtMatch \<longrightarrow> re_match E (the (Regex rule)) content)"

definition rules_pass :: "regex_engine \<Rightarrow> processing_rule list \<Rightarrow> bytes \<Rightarrow> bool" where
  "rules_pass E rules content \<longleftrightarrow>
     list_all (\<lambda>i. rule_passes E (rules ! i) (masked E (take i rules) content)) [0..<length rules]"

lemma masked_Nil [simp]: "masked E [] c = c"
  by (simp add: masked_def)

lemma masked_Cons:
  "masked E (rule # rules) c =
     masked E rules (if r_Type rule = MaskSequences then re_replace E (the (Regex rule)) c (Placeholder rule) else c)"
  by (simp add: masked_def)

lemma rules_pass_Cons:
  "rules_pass E (rule # rules) c \<longleftrightarrow> rule_passes E rule c \<and>
     rules_pass E rules (if r_Type rule = MaskSequences then re_replace E (the (Regex rule)) c (Placeholder rule) else c)"
proof -
  have *: "[0..<length (rule # rules)] = 0 # map Suc [0..<length rules]"
    by (simp add: map_Suc_upt upt_conv_Cons del: upt_Suc)
  show ?thesis
    unfolding rules_pass_def *
    by (simp only: list.pred_inject list.pred_map nth_Cons_0 nth_Cons_Suc take_Suc_Cons take_0 masked_Nil
      masked_Cons comp_def)
qed

lemma apply_rules_spec:
  "list_all (rule_compiled re_compiles) rules \<Longrightarrow>
     apply_rules E rules c = Inr (if rules_pass E rules c then Some (masked E rules c) else None)"
proof (induction E rules c rule: apply_rules.induct)
  case (1 E c)
  show ?case by (simp add: rules_pass_def)
next
  case (2 E rule rules c)
  have "regex_ptr rule = Inr (the (Regex rule))"
    if "r_Type rule \<in> {ExcludeAtMatch, IncludeAtMatch, MaskSequences}"
    using that "2.prems" by (auto simp: rule_compiled_def regex_ptr_def)
  with "2" show ?case
    by (auto simp: rules_pass_Cons masked_Cons rule_passes_def rule_types)
qed

text \<open>C28: for rules that passed validation the processor never panics, and a message goes on exactly
  when no exclude rule matches and every include rule matches the content as masked by the
  rules before it, the processor's own rules first; what is encoded is the content masked by
  all mask rules in order.\<close>

theorem applyRedactingRules_decides:
  assumes "CompileProcessingRules re_compiles rules0 = (rules, None)"
    and "Validate re_compiles c0 = (c, None)"
    and "m_Origin msg = Some o'" and "src_Config (LogSource o') = Some c"
  shows "applyRedactingRules E rules msg =
    Inr (if rules_pass E (rules @ ProcessingRules c) (m_Content msg)
         then Some (masked E (rules @ ProcessingRules c) (m_Content msg)) else None)"
proof -
  have "list_all (rule_compiled re_compiles) (rules @ ProcessingRules c)"
    using CompileProcessingRules_compiled [OF assms(1)] Validate_fields(3) [OF assms(2)] by simp
  from apply_rules_spec [OF this] assms(3,4) show ?thesis
    by (simp add: applyRedactingRules_def origin_config_def)
qed

definition sample_message :: "bytes \<Rightarrow> message" where
  "sample_message content =
     NewLogMessage content
       (Some (NewOrigin (NewLogSource 1 ''a'' (Some (fst (Validate (\<lambda>_. True) sample_config)))))) [] 0"

lemmas sample_eval = sample_message_def sample_config_def NewLogMessage_def NewOrigin_def NewLogSource_def
  Validate_def validate_type_def validateTailingMode_def TailingModeFromString_def tailingModeTuples_def
  ContainsWildcard_def validate_rule_def compile_rule_def rule_types

theorem applyRedactingRules_decides_witness:
  "applyRedactingRules \<lparr>re_match = (\<lambda>re c. c = re), re_replace = (\<lambda>re c p. c)\<rparr> [] (sample_message ''x'') = Inr None"
proof -
  let ?E = "\<lparr>re_match = (\<lambda>re c. c = re), re_replace = (\<lambda>re c p. c)\<rparr>"
  have "\<exists>c. Validate (\<lambda>_. True) sample_config = (c, None)" by (simp add: sample_eval)
  then obtain c where v: "Validate (\<lambda>_. True) sample_config = (c, None)" by blast
  have "\<not> rules_pass ?E (ProcessingRules c) ''x''"
    using v by (auto simp: sample_eval rules_pass_def rule_passes_def)
  with applyRedactingRules_decides [of "\<lambda>_. True" "[]" "[]" sample_config c "sample_message ''x''"
      "NewOrigin (NewLogSource 1 ''a'' (Some c))" ?E] v
  show ?thesis by (simp add: sample_message_def NewLogMessage_def NewOrigin_def NewLogSource_def)
qed

subsection \<open>The processor keeps the order\<close>

definition raw_encode :: "string \<Rightarrow> string \<Rightarrow> message \<Rightarrow> bytes \<Rightarrow> (message \<times> bytes option) go" where
  "raw_encode date hostname msg redactedMsg =
     and_then (rawEncoder_Encode date hostname msg redactedMsg) (\<lambda>(m, bs). Inr (m, Some bs))"

lemma GetStatus_origin [simp]: "m_Origin (fst (GetStatus m)) = m_Origin m"
  by (simp add: GetStatus_def Let_def)

lemma rawEncoder_origin:
  "rawEncoder_Encode date host m r = Inr (m', bs) \<Longrightarrow> m_Origin m' = m_Origin m"
  by (auto simp: rawEncoder_Encode_def and_then_Inr_iff GetStatus_def Let_def split: if_splits option.splits)

lemma rawEncoder_total:
  "m_Origin m = Some o' \<Longrightarrow> src_Config (LogSource o') = Some c \<Longrightarrow>
     \<exists>m' bs. rawEncoder_Encode date host m r = Inr (m', bs)"
  by (simp add: rawEncoder_Encode_def origin_config_def Let_def split_def)

lemma processMessage_outs:
  assumes "processMessage E (raw_encode date host) rules m = Inr outs"
  shows "map m_Origin outs = [] \<or> map m_Origin outs = [m_Origin m]"
  using assms rawEncoder_origin [of date host m]
  by (fastforce simp: processMessage_def raw_encode_def and_then_Inr_iff split: option.splits)

lemma processMessage_total:
  assumes "list_all (rule_compiled re_compiles) (rules @ ProcessingRules c)"
    and "m_Origin m = Some o'" and "src_Config (LogSource o') = Some c"
  shows "\<exists>outs. processMessage E (raw_encode date host) rules m = Inr outs"
proof -
  obtain m' bs where "rawEncoder_Encode date host m (masked E (rules @ ProcessingRules c) (m_Content m)) = Inr (m', bs)"
    using rawEncoder_total [OF assms(2,3)] by blast
  with assms apply_rules_spec [OF assms(1), of E "m_Content m"] show ?thesis
    by (simp add: processMessage_def raw_encode_def applyRedactingRules_def origin_config_def)
qed

text \<open>When every message has an origin whose configuration was validated, the processor with the
  raw encoder never panics and emits messages in the order it received them, each at most
  once.\<close>

theorem Processor_keeps_order:
  assumes "CompileProcessingRules re_compiles rules0 = (rules, None)"
    and "\<forall>m \<in> set msgs. \<exists>o' c0 c. m_Origin m = Some o' \<and> src_Config (LogSource o') = Some c \<and>
      Validate re_compiles c0 = (c, None)"
  shows "\<exists>outs. Processor_run E (raw_encode date host) rules msgs = Inr outs \<and>
    subseq (map m_Origin outs) (map m_Origin msgs)"
  using assms(2)
proof (induction msgs)
  case (Cons m msgs)
  then obtain outs where r: "Processor_run E (raw_encode date host) rules msgs = Inr outs"
    "subseq (map m_Origin outs) (map m_Origin msgs)" by auto
  from Cons.prems obtain o' c0 c where o: "m_Origin m = Some o'" "src_Config (LogSource o') = Some c"
    "Validate re_compiles c0 = (c, None)" by auto
  have "list_all (rule_compiled re_compiles) (rules @ ProcessingRules c)"
    using CompileProcessingRules_compiled [OF assms(1)] Validate_fields(3) [OF o(3)] by simp
  from processMessage_total [OF this o(1,2)] obtain out where
    p: "processMessage E (raw_encode date host) rules m = Inr out" by blast
  from processMessage_outs [OF p] r(2) have "subseq (map m_Origin (out @ outs)) (map m_Origin (m # msgs))" by auto
  with p r show ?case by auto
qed simp

theorem Processor_keeps_order_witness:
  "\<exists>outs. Processor_run \<lparr>re_match = (\<lambda>re c. c = re), re_replace = (\<lambda>re c p. c)\<rparr> (raw_encode ''d'' ''h'') []
     [sample_message ''a'', sample_message ''x''] = Inr outs \<and>
     subseq (map m_Origin outs) (map m_Origin [sample_message ''a'', sample_message ''x''])"
proof -
  have "\<exists>c. Validate (\<lambda>_. True) sample_config = (c, None)" by (simp add: sample_eval)
  then obtain c where v: "Validate (\<lambda>_. True) sample_config = (c, None)" by blast
  have "\<forall>m \<in> set [sample_message ''a'', sample_message ''x'']. \<exists>o' c0 c. m_Origin m = Some o' \<and>
      src_Config (LogSource o') = Some c \<and> Validate (\<lambda>_. True) c0 = (c, None)"
    using v by (auto simp: sample_message_def NewLogMessage_def NewOrigin_def NewLogSource_def)
  then show ?thesis
    by (rule Processor_keeps_order [of "\<lambda>_. True" "[]" "[]", rotated]) simp
qed

lemma StatusToSeverity_cases:
  "\<exists>d. is_digit d \<and> StatusToSeverity status = [CHR ''<'', CHR ''4'', d, CHR ''>'']"
  by (auto simp: StatusToSeverity_def statusSeverityMapping_def is_digit_def less_eq_char_def split: if_splits)

text \<open>What the raw encoder emits for a message that is not empty is recognised as already formatted,
  so that a second pass leaves it as it is.\<close>

theorem rawEncoder_formats_once:
  assumes "rawEncoder_Encode date host m r = Inr (m', bs)" and "m_Content m \<noteq> []"
    and "\<not> isRFC5424Formatted (m_Content m)"
  shows "isRFC5424Formatted bs \<and> rawEncoder_Encode date' host' (m'\<lparr>m_Content := bs\<rparr>) bs = Inr (m'\<lparr>m_Content := bs\<rparr>, bs)"
proof -
  from assms obtain status rest where bs: "bs = StatusToSeverity status @ ''0'' @ '' '' @ rest" "length rest \<ge> 2"
    by (auto simp: rawEncoder_Encode_def and_then_Inr_iff GetStatus_def Let_def split: option.splits if_splits)
  obtain d where d: "is_digit d" "StatusToSeverity status = [CHR ''<'', CHR ''4'', d, CHR ''>'']"
    using StatusToSeverity_cases by blast
  have "is_digit (CHR ''4'')" "is_digit (CHR ''0'')" by (simp_all add: is_digit_def less_eq_char_def)
  with bs d have "isRFC5424Formatted bs"
    by (simp add: isRFC5424Formatted_def rfc_at_def rfc_tail_def)
  then show ?thesis by (simp add: rawEncoder_Encode_def)
qed

theorem rawEncoder_formats_once_witness:
  "\<exists>m' bs. rawEncoder_Encode ''d'' ''h'' (sample_message ''hello'') ''hello'' = Inr (m', bs) \<and> isRFC5424Formatted bs"
proof -
  obtain m' bs where r: "rawEncoder_Encode ''d'' ''h'' (sample_message ''hello'') ''hello'' = Inr (m', bs)"
    using rawEncoder_total [of "sample_message ''hello''"]
    by (fastforce simp: sample_message_def NewLogMessage_def NewOrigin_def NewLogSource_def)
  have "m_Content (sample_message ''hello'') \<noteq> []" "\<not> isRFC5424Formatted (m_Content (sample_message ''hello''))"
    by (simp_all add: sample_message_def NewLogMessage_def isRFC5424Formatted_def)
  from rawEncoder_formats_once [OF r this] r show ?thesis by blast
qed

end
