(* ===== verification/Log_Sender.thy ===== *)
theory Log_Sender
  imports Log_Message
begin

text \<open>
  The sender, \<open>src/logs/sender\<close>: the message buffer (\<open>message_buffer.go\<close>), the serializers
  (\<open>serializer.go\<close>), the batch strategy with its concurrent sends (\<open>batch_strategy.go\<close>), the
  stream strategy (\<open>stream_strategy.go\<close>) and the retry loop (\<open>sender.go\<close>).

  The batch strategy is a step relation: its loop and the goroutines that send payloads
  interleave freely, \<open>climit\<close> is a semaphore, and what a destination answers is chosen by the
  environment.
\<close>

subsection \<open>The message buffer\<close>

record message_buffer =
  messageBuffer :: "message list"
  bufferCap :: nat
  contentSize :: int
  contentSizeLimit :: int

definition NewMessageBuffer :: "int \<Rightarrow> int \<Rightarrow> message_buffer go" where
  "NewMessageBuffer batchSizeLimit limit =
     (if batchSizeLimit < 0 then Inl MakeSliceLenOutOfRange
      else Inr \<lparr>messageBuffer = [], bufferCap = nat batchSizeLimit, contentSize = 0, contentSizeLimit = limit\<rparr>)"

definition AddMessage :: "message \<Rightarrow> message_buffer \<Rightarrow> message_buffer \<times> bool" where
  "AddMessage m p =
     (let size = int (length (m_Content m)) in
      if length (messageBuffer p) < bufferCap p \<and> contentSize p + size \<le> contentSizeLimit p then
        (p\<lparr>messageBuffer := messageBuffer p @ [m], contentSize := contentSize p + size\<rparr>, True)
      else (p, False))"

definition Buffer_Clear :: "message_buffer \<Rightarrow> message_buffer" where
  "Buffer_Clear p = p\<lparr>messageBuffer := [], contentSize := 0\<rparr>"

definition Buffer_IsFull :: "message_buffer \<Rightarrow> bool" where
  "Buffer_IsFull p \<longleftrightarrow> length (messageBuffer p) = bufferCap p \<or> contentSize p = contentSizeLimit p"

definition Buffer_IsEmpty :: "message_buffer \<Rightarrow> bool" where
  "Buffer_IsEmpty p \<longleftrightarrow> length (messageBuffer p) = 0"

subsection \<open>Serializers\<close>

definition lineSerializer_Serialize :: "message list \<Rightarrow> bytes" where
  "lineSerializer_Serialize messages = go_join (map m_Content messages) [CHR 0x0A]"

definition arraySerializer_Serialize :: "message list \<Rightarrow> bytes" where
  "arraySerializer_Serialize messages = ''['' @ go_join (map m_Content messages) '','' @ '']''"

subsection \<open>Sending a payload\<close>

datatype send_result = Sent | RetryableError | Canceled | OtherError

text \<open>
  \<open>Sender.send\<close>: the attempts on the main destination answer as the list says; \<open>None\<close> means that the loop
  is still retrying when the answers end. The second result is the number of payloads handed
  to the additional destinations.
\<close>

fun Sender_send :: "nat \<Rightarrow> send_result list \<Rightarrow> (send_result \<times> nat) option" where
  "Sender_send additionals [] = None"
| "Sender_send additionals (RetryableError # rs) = Sender_send additionals rs"
| "Sender_send additionals (Sent # rs) = Some (Sent, additionals)"
| "Sender_send additionals (Canceled # rs) = Some (Canceled, 0)"
| "Sender_send additionals (OtherError # rs) = Some (OtherError, 0)"

definition shouldStopSending :: "send_result \<Rightarrow> bool" where
  "shouldStopSending err \<longleftrightarrow> err = Canceled"

fun streamStrategy_Send :: "(message \<Rightarrow> send_result) \<Rightarrow> message list \<Rightarrow> message list" where
  "streamStrategy_Send send [] = []"
| "streamStrategy_Send send (m # ms) =
     (if shouldStopSending (send m) then [] else m # streamStrategy_Send send ms)"

subsection \<open>The batch strategy\<close>

text \<open>
  A job is a call of \<open>sendMessages\<close>: the messages of its payload, and after the answer the messages
  still to be put on the output channel. \<open>bs_received\<close>, \<open>bs_dropped\<close>, \<open>bs_canceled\<close> and
  \<open>bs_payloads\<close> record history.
\<close>

datatype job = Sending "message list" | Emitting "message list"

record batch_state =
  bs_buffer :: message_buffer
  climit :: nat
  bs_jobs :: "job list"
  bs_output :: "message list"
  bs_received :: "message list"
  bs_dropped :: "message list"
  bs_canceled :: "message list"
  bs_payloads :: "message list list"

definition NewBatchStrategy :: "int \<Rightarrow> int \<Rightarrow> int \<Rightarrow> batch_state go" where
  "NewBatchStrategy maxConcurrent maxBatchSize maxContentSize =
     and_then (NewMessageBuffer maxBatchSize maxContentSize)
       (\<lambda>b. Inr \<lparr>bs_buffer = b, climit = nat (if maxConcurrent < 0 then 0 else maxConcurrent), bs_jobs = [],
          bs_output = [], bs_received = [], bs_dropped = [], bs_canceled = [], bs_payloads = []\<rparr>)"

definition flushBuffer :: "batch_state \<Rightarrow> batch_state" where
  "flushBuffer s =
     (if Buffer_IsEmpty (bs_buffer s) then s
      else s\<lparr>bs_jobs := bs_jobs s @ [Sending (messageBuffer (bs_buffer s))],
             bs_payloads := bs_payloads s @ [messageBuffer (bs_buffer s)],
             bs_buffer := Buffer_Clear (bs_buffer s)\<rparr>)"

definition batch_processMessage :: "message \<Rightarrow> batch_state \<Rightarrow> batch_state" where
  "batch_processMessage m s =
     (let (b1, added) = AddMessage m (bs_buffer s);
          s1 = s\<lparr>bs_buffer := b1, bs_received := bs_received s @ [m]\<rparr>;
          s2 = (if \<not> added \<or> Buffer_IsFull b1 then flushBuffer s1 else s1) in
      if \<not> added then
        (let (b2, added2) = AddMessage m (bs_buffer s2) in
         if \<not> added2 then s2\<lparr>bs_buffer := b2, bs_dropped := bs_dropped s2 @ [m]\<rparr> else s2\<lparr>bs_buffer := b2\<rparr>)
      else s2)"

text \<open>
  Whether the loop may run: without concurrency it waits in \<open>sendMessages\<close> until its job is done; with
  concurrency a flush waits for a free slot of the semaphore.
\<close>

definition may_flush :: "batch_state \<Rightarrow> bool" where
  "may_flush s \<longleftrightarrow> (if climit s = 0 then bs_jobs s = [] else length (bs_jobs s) < climit s)"

definition loop_ready :: "batch_state \<Rightarrow> bool" where
  "loop_ready s \<longleftrightarrow> climit s > 0 \<or> bs_jobs s = []"

fun after_answer :: "send_result \<Rightarrow> message list \<Rightarrow> job list" where
  "after_answer r ms = (if shouldStopSending r then [] else [Emitting ms])"

inductive batch_step :: "batch_state \<Rightarrow> batch_state \<Rightarrow> bool" where
  receive: "loop_ready s \<Longrightarrow> s' = batch_processMessage m s \<Longrightarrow> length (bs_jobs s') > length (bs_jobs s) \<longrightarrow> may_flush s \<Longrightarrow>
    batch_step s s'"
| flush: "loop_ready s \<Longrightarrow> s' = flushBuffer s \<Longrightarrow> length (bs_jobs s') > length (bs_jobs s) \<longrightarrow> may_flush s \<Longrightarrow>
    batch_step s s'"
| answer: "bs_jobs s = js @ Sending ms # ks \<Longrightarrow> r \<noteq> RetryableError \<Longrightarrow>
    batch_step s (s\<lparr>bs_jobs := js @ after_answer r ms @ ks,
      bs_canceled := bs_canceled s @ (if shouldStopSending r then ms else [])\<rparr>)"
| emit: "bs_jobs s = js @ Emitting (m # ms) # ks \<Longrightarrow>
    batch_step s (s\<lparr>bs_jobs := js @ Emitting ms # ks, bs_output := bs_output s @ [m]\<rparr>)"
| finish: "bs_jobs s = js @ Emitting [] # ks \<Longrightarrow> batch_step s (s\<lparr>bs_jobs := js @ ks\<rparr>)"

subsection \<open>Invariants of the batch strategy\<close>

definition content_total :: "message list \<Rightarrow> int" where
  "content_total ms = sum_list (map (\<lambda>m. int (length (m_Content m))) ms)"

lemma content_total_simps [simp]:
  "content_total [] = 0" "content_total (ms @ ms') = content_total ms + content_total ms'"
  "content_total (m # ms) = int (length (m_Content m)) + content_total ms"
  by (simp_all add: content_total_def)

definition buffer_ok :: "message_buffer \<Rightarrow> bool" where
  "buffer_ok p \<longleftrightarrow> contentSize p = content_total (messageBuffer p) \<and> length (messageBuffer p) \<le> bufferCap p \<and>
     (messageBuffer p \<noteq> [] \<longrightarrow> contentSize p \<le> contentSizeLimit p)"

fun job_messages :: "job \<Rightarrow> message list" where
  "job_messages (Sending ms) = ms"
| "job_messages (Emitting ms) = ms"

definition jobs_messages :: "job list \<Rightarrow> message list" where
  "jobs_messages js = concat (map job_messages js)"

lemma jobs_messages_simps [simp]:
  "jobs_messages [] = []" "jobs_messages (j # js) = job_messages j @ jobs_messages js"
  "jobs_messages (js @ ks) = jobs_messages js @ jobs_messages ks"
  by (simp_all add: jobs_messages_def)

definition payload_ok :: "message_buffer \<Rightarrow> message list \<Rightarrow> bool" where
  "payload_ok b ms \<longleftrightarrow> ms \<noteq> [] \<and> length ms \<le> bufferCap b \<and> content_total ms \<le> contentSizeLimit b"

definition batch_inv :: "batch_state \<Rightarrow> bool" where
  "batch_inv s \<longleftrightarrow> buffer_ok (bs_buffer s) \<and>
     list_all (payload_ok (bs_buffer s)) (bs_payloads s) \<and>
     length (bs_jobs s) \<le> max 1 (climit s) \<and>
     mset (bs_received s) = mset (bs_output s) + mset (jobs_messages (bs_jobs s)) +
       mset (messageBuffer (bs_buffer s)) + mset (bs_dropped s) + mset (bs_canceled s) \<and>
     list_all (\<lambda>m. bufferCap (bs_buffer s) = 0 \<or> int (length (m_Content m)) > contentSizeLimit (bs_buffer s))
       (bs_dropped s)"

lemma AddMessage_cases:
  assumes "AddMessage m p = (p', added)" and "buffer_ok p"
  shows "buffer_ok p'" and "bufferCap p' = bufferCap p" and "contentSizeLimit p' = contentSizeLimit p"
    and "messageBuffer p' = (if added then messageBuffer p @ [m] else messageBuffer p)"
    and "\<not> added \<Longrightarrow> p' = p"
    and "messageBuffer p = [] \<Longrightarrow> \<not> added \<Longrightarrow> bufferCap p = 0 \<or> int (length (m_Content m)) > contentSizeLimit p"
  using assms by (auto simp: AddMessage_def buffer_ok_def Let_def split: if_splits)

lemma buffer_ok_Clear [simp]:
  "buffer_ok (Buffer_Clear p)" "messageBuffer (Buffer_Clear p) = []"
  "bufferCap (Buffer_Clear p) = bufferCap p" "contentSizeLimit (Buffer_Clear p) = contentSizeLimit p"
  by (simp_all add: Buffer_Clear_def buffer_ok_def)

lemma payload_ok_cong:
  "bufferCap b = bufferCap b' \<Longrightarrow> contentSizeLimit b = contentSizeLimit b' \<Longrightarrow> payload_ok b = payload_ok b'"
  by (intro ext) (simp add: payload_ok_def)

text \<open>A flush moves the whole buffer into one job.\<close>

lemma flushBuffer_fields:
  assumes "buffer_ok (bs_buffer s)"
  shows "messageBuffer (bs_buffer (flushBuffer s)) = []"
    and "buffer_ok (bs_buffer (flushBuffer s))"
    and "bufferCap (bs_buffer (flushBuffer s)) = bufferCap (bs_buffer s)"
    and "contentSizeLimit (bs_buffer (flushBuffer s)) = contentSizeLimit (bs_buffer s)"
    and "jobs_messages (bs_jobs (flushBuffer s)) = jobs_messages (bs_jobs s) @ messageBuffer (bs_buffer s)"
    and "list_all (payload_ok (bs_buffer s)) (bs_payloads s) \<Longrightarrow>
      list_all (payload_ok (bs_buffer s)) (bs_payloads (flushBuffer s))"
    and "climit (flushBuffer s) = climit s" "bs_output (flushBuffer s) = bs_output s"
      "bs_received (flushBuffer s) = bs_received s" "bs_dropped (flushBuffer s) = bs_dropped s"
      "bs_canceled (flushBuffer s) = bs_canceled s"
    and "length (bs_jobs (flushBuffer s)) = length (bs_jobs s) \<or>
      length (bs_jobs (flushBuffer s)) = Suc (length (bs_jobs s))"
  using assms by (auto simp: flushBuffer_def Buffer_IsEmpty_def Buffer_Clear_def buffer_ok_def payload_ok_def)


text \<open>The part of the invariant that does not speak of the semaphore.\<close>

definition batch_core :: "batch_state \<Rightarrow> bool" where
  "batch_core s \<longleftrightarrow> buffer_ok (bs_buffer s) \<and>
     list_all (payload_ok (bs_buffer s)) (bs_payloads s) \<and>
     mset (bs_received s) = mset (bs_output s) + mset (jobs_messages (bs_jobs s)) +
       mset (messageBuffer (bs_buffer s)) + mset (bs_dropped s) + mset (bs_canceled s) \<and>
     list_all (\<lambda>m. bufferCap (bs_buffer s) = 0 \<or> int (length (m_Content m)) > contentSizeLimit (bs_buffer s))
       (bs_dropped s)"

lemma batch_inv_core: "batch_inv s \<longleftrightarrow> batch_core s \<and> length (bs_jobs s) \<le> max 1 (climit s)"
  by (auto simp: batch_inv_def batch_core_def)

lemma flushBuffer_core: "batch_core s \<Longrightarrow> batch_core (flushBuffer s)"
  using flushBuffer_fields [of s] payload_ok_cong [of "bs_buffer (flushBuffer s)" "bs_buffer s"]
  by (simp add: batch_core_def)

text \<open>The state between the first attempt to add a message and the end of \<open>processMessage\<close>.\<close>

lemma add_received_core:
  assumes "batch_core s" and "AddMessage m (bs_buffer s) = (b1, True)"
  shows "batch_core (s\<lparr>bs_buffer := b1, bs_received := bs_received s @ [m]\<rparr>)"
proof -
  have ok: "buffer_ok (bs_buffer s)" using assms(1) by (simp add: batch_core_def)
  note a = AddMessage_cases [OF assms(2) ok]
  show ?thesis using assms(1) a payload_ok_cong [of b1 "bs_buffer s"] by (simp add: batch_core_def)
qed

lemma retry_core:
  assumes "batch_core s" and "messageBuffer (bs_buffer s) = []" and "AddMessage m (bs_buffer s) = (b2, added)"
  shows "batch_core (if \<not> added then s\<lparr>bs_buffer := b2, bs_received := bs_received s @ [m], bs_dropped := bs_dropped s @ [m]\<rparr>
     else s\<lparr>bs_buffer := b2, bs_received := bs_received s @ [m]\<rparr>)"
proof -
  have ok: "buffer_ok (bs_buffer s)" using assms(1) by (simp add: batch_core_def)
  note a = AddMessage_cases [OF assms(3) ok]
  show ?thesis using assms(1,2) a payload_ok_cong [of b2 "bs_buffer s"] by (auto simp: batch_core_def)
qed

lemma flushBuffer_received:
  "flushBuffer (s\<lparr>bs_received := r\<rparr>) = (flushBuffer s)\<lparr>bs_received := r\<rparr>"
  by (simp add: flushBuffer_def)

lemma batch_processMessage_core:
  assumes "batch_core s"
  shows "batch_core (batch_processMessage m s)"
proof -
  obtain b1 added where a1: "AddMessage m (bs_buffer s) = (b1, added)" by fastforce
  have ok: "buffer_ok (bs_buffer s)" using assms by (simp add: batch_core_def)
  show ?thesis
  proof (cases added)
    case True
    with a1 add_received_core [OF assms] flushBuffer_core show ?thesis
      by (simp add: batch_processMessage_def Let_def)
  next
    case False
    let ?f = "flushBuffer s"
    obtain b2 added2 where a2: "AddMessage m (bs_buffer ?f) = (b2, added2)" by fastforce
    have b1: "s\<lparr>bs_buffer := b1, bs_received := bs_received s @ [m]\<rparr> = s\<lparr>bs_received := bs_received s @ [m]\<rparr>"
      using AddMessage_cases(5) [OF a1 ok False] by simp
    have "batch_processMessage m s = (if \<not> added2
        then ?f\<lparr>bs_buffer := b2, bs_received := bs_received ?f @ [m], bs_dropped := bs_dropped ?f @ [m]\<rparr>
        else ?f\<lparr>bs_buffer := b2, bs_received := bs_received ?f @ [m]\<rparr>)"
      using a1 a2 False flushBuffer_fields [OF ok] by (simp add: batch_processMessage_def b1 flushBuffer_received)
    with retry_core [OF flushBuffer_core [OF assms] flushBuffer_fields(1) [OF ok] a2] show ?thesis by simp
  qed
qed

lemma batch_processMessage_jobs:
  assumes "buffer_ok (bs_buffer s)"
  shows "length (bs_jobs (batch_processMessage m s)) \<le> Suc (length (bs_jobs s)) \<and>
    climit (batch_processMessage m s) = climit s"
  using AddMessage_cases(1) [OF _ assms]
  by (auto simp: batch_processMessage_def Let_def flushBuffer_def split: prod.splits)

lemma batch_step_inv:
  assumes "batch_step s s'" and "batch_inv s"
  shows "batch_inv s'"
  using assms(1)
proof (cases rule: batch_step.cases)
  case (receive m)
  have core: "batch_core s" "buffer_ok (bs_buffer s)" using assms(2) by (simp_all add: batch_inv_core batch_core_def)
  have "length (bs_jobs s') \<le> max 1 (climit s)"
    using receive batch_processMessage_jobs [OF core(2), of m] assms(2)
    by (cases "length (bs_jobs s') > length (bs_jobs s)") (auto simp: batch_inv_core may_flush_def split: if_splits)
  with receive batch_processMessage_core [OF core(1), of m] batch_processMessage_jobs [OF core(2), of m]
  show ?thesis by (simp add: batch_inv_core)
next
  case flush
  have core: "batch_core s" "buffer_ok (bs_buffer s)" using assms(2) by (simp_all add: batch_inv_core batch_core_def)
  have "length (bs_jobs s') \<le> max 1 (climit s)"
    using flush flushBuffer_fields(12) [OF core(2)] assms(2)
    by (auto simp: batch_inv_core may_flush_def split: if_splits)
  with flush flushBuffer_core [OF core(1)] flushBuffer_fields(7) [OF core(2)] show ?thesis by (simp add: batch_inv_core)
qed (use assms(2) in \<open>auto simp: batch_inv_def\<close>)


lemma NewBatchStrategy_inv:
  assumes "NewBatchStrategy maxConcurrent maxBatchSize maxContentSize = Inr s0"
  shows "batch_inv s0" and "climit s0 = nat maxConcurrent" and "bufferCap (bs_buffer s0) = nat maxBatchSize"
    and "contentSizeLimit (bs_buffer s0) = maxContentSize"
  using assms
  by (auto simp: NewBatchStrategy_def NewMessageBuffer_def batch_inv_def buffer_ok_def and_then_Inr_iff
    split: if_splits)

lemma batch_step_consts:
  assumes "batch_step s s'"
  shows "climit s' = climit s \<and> bufferCap (bs_buffer s') = bufferCap (bs_buffer s) \<and>
    contentSizeLimit (bs_buffer s') = contentSizeLimit (bs_buffer s)"
  using assms
  by (cases rule: batch_step.cases)
    (auto simp: batch_processMessage_def flushBuffer_def Buffer_Clear_def AddMessage_def Let_def split: if_splits)

lemma batch_reachable:
  assumes "NewBatchStrategy maxConcurrent maxBatchSize maxContentSize = Inr s0" and "rtranclp batch_step s0 s"
  shows "batch_inv s \<and> climit s = nat maxConcurrent \<and> bufferCap (bs_buffer s) = nat maxBatchSize \<and>
    contentSizeLimit (bs_buffer s) = maxContentSize"
  using assms(2)
proof (induction rule: rtranclp_induct)
  case base
  from NewBatchStrategy_inv [OF assms(1)] show ?case by simp
next
  case (step s s')
  from step.IH batch_step_inv [OF step.hyps(2)] batch_step_consts [OF step.hyps(2)] show ?case by simp
qed

text \<open>C4: however the batch loop, its ticker and the concurrent sends interleave, every received message is
  exactly once on the output channel, in a payload under way, in the buffer, dropped as too
  large, or part of a canceled payload; every payload respects the batch and content limits,
  and no more sends run than the configured concurrency (one when there is none).\<close>

theorem BatchStrategy_conserves:
  assumes "NewBatchStrategy maxConcurrent maxBatchSize maxContentSize = Inr s0" and "rtranclp batch_step s0 s"
  shows "mset (bs_received s) = mset (bs_output s) + mset (jobs_messages (bs_jobs s)) +
      mset (messageBuffer (bs_buffer s)) + mset (bs_dropped s) + mset (bs_canceled s) \<and>
    length (bs_jobs s) \<le> max 1 (nat maxConcurrent) \<and>
    list_all (\<lambda>ms. ms \<noteq> [] \<and> length ms \<le> nat maxBatchSize \<and> content_total ms \<le> maxContentSize) (bs_payloads s) \<and>
    list_all (\<lambda>m. maxBatchSize = 0 \<or> int (length (m_Content m)) > maxContentSize) (bs_dropped s)"
proof -
  have "maxBatchSize \<ge> 0"
    using assms(1) by (auto simp: NewBatchStrategy_def NewMessageBuffer_def split: if_splits)
  then have "nat maxBatchSize = 0 \<longleftrightarrow> maxBatchSize = 0" by auto
  with batch_reachable [OF assms] show ?thesis
    by (auto simp: batch_inv_def payload_ok_def list_all_iff)
qed

theorem BatchStrategy_conserves_witness:
  "\<exists>s0 s m. NewBatchStrategy 0 2 10 = Inr s0 \<and> rtranclp batch_step s0 s \<and> bs_received s = [m] \<and>
     mset (bs_received s) = mset (bs_output s) + mset (jobs_messages (bs_jobs s)) +
       mset (messageBuffer (bs_buffer s)) + mset (bs_dropped s) + mset (bs_canceled s)"
proof -
  obtain s0 where s0: "NewBatchStrategy 0 2 10 = Inr s0" by (simp add: NewBatchStrategy_def NewMessageBuffer_def)
  let ?m = "sample_message ''abc''"
  let ?s = "batch_processMessage ?m s0"
  have e: "bs_received ?s = [?m]" "bs_jobs ?s = []" "loop_ready s0"
    using s0 by (auto simp: NewBatchStrategy_def NewMessageBuffer_def batch_processMessage_def AddMessage_def
      sample_message_def NewLogMessage_def Buffer_IsFull_def loop_ready_def Let_def)
  then have "rtranclp batch_step s0 ?s" by (intro r_into_rtranclp receive [of s0 ?s ?m]) auto
  with BatchStrategy_conserves [OF s0 this] s0 e(1) show ?thesis by blast
qed

subsection \<open>Order\<close>

definition fits :: "message_buffer \<Rightarrow> message \<Rightarrow> bool" where
  "fits b m \<longleftrightarrow> bufferCap b > 0 \<and> int (length (m_Content m)) \<le> contentSizeLimit b"

lemma content_total_nonneg: "0 \<le> content_total ms"
  by (induction ms) simp_all

lemma AddMessage_fits:
  assumes "AddMessage m p = (p', added)" and "buffer_ok p"
  shows "added \<Longrightarrow> fits p m" and "messageBuffer p = [] \<Longrightarrow> added \<longleftrightarrow> fits p m"
  using assms content_total_nonneg [of "messageBuffer p"]
  by (auto simp: AddMessage_def fits_def buffer_ok_def Let_def split: if_splits)

lemma flushBuffer_order:
  "concat (bs_payloads (flushBuffer s)) @ messageBuffer (bs_buffer (flushBuffer s)) =
     concat (bs_payloads s) @ messageBuffer (bs_buffer s)"
  by (simp add: flushBuffer_def Buffer_Clear_def)

lemma batch_processMessage_order:
  assumes "buffer_ok (bs_buffer s)"
  shows "concat (bs_payloads (batch_processMessage m s)) @ messageBuffer (bs_buffer (batch_processMessage m s)) =
     concat (bs_payloads s) @ messageBuffer (bs_buffer s) @ (if fits (bs_buffer s) m then [m] else []) \<and>
     bs_received (batch_processMessage m s) = bs_received s @ [m]"
proof -
  obtain b1 added where a1: "AddMessage m (bs_buffer s) = (b1, added)" by fastforce
  note c1 = AddMessage_cases [OF a1 assms]
  show ?thesis
  proof (cases added)
    case True
    with a1 c1 AddMessage_fits(1) [OF a1 assms]
      flushBuffer_order [of "s\<lparr>bs_buffer := b1, bs_received := bs_received s @ [m]\<rparr>"]
      flushBuffer_fields(9) [of "s\<lparr>bs_buffer := b1, bs_received := bs_received s @ [m]\<rparr>"]
    show ?thesis by (simp add: batch_processMessage_def Let_def)
  next
    case False
    let ?f = "flushBuffer s"
    note ff = flushBuffer_fields [OF assms]
    obtain b2 added2 where a2: "AddMessage m (bs_buffer ?f) = (b2, added2)" by fastforce
    note c2 = AddMessage_cases [OF a2 ff(2)]
    have fit: "added2 \<longleftrightarrow> fits (bs_buffer s) m"
      using AddMessage_fits(2) [OF a2 ff(2) ff(1)] ff(3,4) by (simp add: fits_def)
    have b1: "s\<lparr>bs_buffer := b1, bs_received := bs_received s @ [m]\<rparr> = s\<lparr>bs_received := bs_received s @ [m]\<rparr>"
      using c1(5) False by simp
    show ?thesis
      using a1 a2 False fit c2(4,5) ff(1,9) flushBuffer_order [of s]
      by (simp add: batch_processMessage_def b1 flushBuffer_received)
  qed
qed

lemma payload_order_filter:
  assumes "NewBatchStrategy maxConcurrent maxBatchSize maxContentSize = Inr s0" and "rtranclp batch_step s0 s"
  shows "concat (bs_payloads s) @ messageBuffer (bs_buffer s) =
    filter (\<lambda>m. maxBatchSize > 0 \<and> int (length (m_Content m)) \<le> maxContentSize) (bs_received s)"
  using assms(2)
proof (induction rule: rtranclp_induct)
  case base
  from assms(1) show ?case
    by (auto simp: NewBatchStrategy_def NewMessageBuffer_def and_then_Inr_iff split: if_splits)
next
  case (step s s')
  from batch_reachable [OF assms(1) step.hyps(1)] have b: "buffer_ok (bs_buffer s)"
    "bufferCap (bs_buffer s) = nat maxBatchSize" "contentSizeLimit (bs_buffer s) = maxContentSize"
    by (auto simp: batch_inv_def)
  from step.hyps(2) show ?case
  proof (cases rule: batch_step.cases)
    case (receive m)
    with batch_processMessage_order [OF b(1), of m] step.IH b(2,3) show ?thesis by (simp add: fits_def)
  next
    case flush
    with flushBuffer_order [of s] flushBuffer_fields(9) [OF b(1)] step.IH show ?thesis by simp
  qed (use step.IH in simp_all)
qed

text \<open>The payloads, in the order they are formed, followed by the buffer, are exactly the received
  messages that fit the limits, in the order they were received.\<close>

theorem BatchStrategy_payload_order:
  assumes "NewBatchStrategy maxConcurrent maxBatchSize maxContentSize = Inr s0" and "rtranclp batch_step s0 s"
  shows "concat (bs_payloads s) @ messageBuffer (bs_buffer s) =
    filter (\<lambda>m. maxBatchSize > 0 \<and> int (length (m_Content m)) \<le> maxContentSize) (bs_received s)"
  by (rule payload_order_filter [OF assms])

theorem BatchStrategy_payload_order_witness:
  "\<exists>s0 s m. NewBatchStrategy 3 1 2 = Inr s0 \<and> rtranclp batch_step s0 s \<and> bs_received s = [m] \<and>
     concat (bs_payloads s) @ messageBuffer (bs_buffer s) = []"
proof -
  obtain s0 where s0: "NewBatchStrategy 3 1 2 = Inr s0" by (simp add: NewBatchStrategy_def NewMessageBuffer_def)
  let ?m = "sample_message ''abc''"
  let ?s = "batch_processMessage ?m s0"
  have e: "bs_received ?s = [?m]" "bs_jobs ?s = []" "loop_ready s0"
    using s0 by (auto simp: NewBatchStrategy_def NewMessageBuffer_def batch_processMessage_def AddMessage_def
      sample_message_def NewLogMessage_def Buffer_IsFull_def loop_ready_def flushBuffer_def Buffer_IsEmpty_def Let_def)
  then have r: "rtranclp batch_step s0 ?s" by (intro r_into_rtranclp receive [of s0 ?s ?m]) auto
  have "concat (bs_payloads ?s) @ messageBuffer (bs_buffer ?s) = []"
    using BatchStrategy_payload_order [OF s0 r] e(1) by (simp add: sample_message_def NewLogMessage_def)
  with s0 r e(1) show ?thesis by blast
qed


text \<open>Without concurrency the output channel follows the payloads.\<close>

definition sequential :: "batch_state \<Rightarrow> bool" where
  "sequential s \<longleftrightarrow> climit s = 0 \<and> length (bs_jobs s) \<le> 1 \<and>
     (bs_canceled s = [] \<longrightarrow> bs_output s @ jobs_messages (bs_jobs s) = concat (bs_payloads s))"

lemma flushBuffer_sequential:
  assumes "sequential s" and "bs_jobs s = []"
  shows "sequential (flushBuffer s)"
  using assms by (simp add: sequential_def flushBuffer_def)

lemma sequential_cong:
  "climit s' = climit s \<Longrightarrow> bs_jobs s' = bs_jobs s \<Longrightarrow> bs_canceled s' = bs_canceled s \<Longrightarrow>
   bs_output s' = bs_output s \<Longrightarrow> bs_payloads s' = bs_payloads s \<Longrightarrow> sequential s' = sequential s"
  by (simp add: sequential_def)

lemma batch_processMessage_sequential:
  assumes "sequential s" and "bs_jobs s = []"
  shows "sequential (batch_processMessage m s)"
proof -
  obtain b1 added where a1: "AddMessage m (bs_buffer s) = (b1, added)" by fastforce
  let ?s1 = "s\<lparr>bs_buffer := b1, bs_received := bs_received s @ [m]\<rparr>"
  have "sequential ?s1" using assms(1) by (simp add: sequential_def)
  then have "sequential (flushBuffer ?s1)" "sequential ?s1" using flushBuffer_sequential [of ?s1] assms(2) by simp_all
  then show ?thesis
    using a1 by (simp add: batch_processMessage_def Let_def split_def sequential_def)
qed

lemma batch_step_sequential:
  assumes "batch_step s s'" and "sequential s"
  shows "sequential s'"
  using assms(1)
proof (cases rule: batch_step.cases)
  case (receive m)
  then have "bs_jobs s = []" using assms(2) by (simp add: loop_ready_def sequential_def)
  with batch_processMessage_sequential [OF assms(2) this] receive show ?thesis by simp
next
  case flush
  then have "bs_jobs s = []" using assms(2) by (simp add: loop_ready_def sequential_def)
  with flushBuffer_sequential [OF assms(2) this] flush show ?thesis by simp
next
  case (answer js ms ks r)
  with assms(2) show ?thesis by (auto simp: sequential_def)
next
  case (emit js m ms ks)
  with assms(2) show ?thesis by (auto simp: sequential_def)
next
  case (finish js ks)
  with assms(2) show ?thesis by (auto simp: sequential_def)
qed

text \<open>Without concurrent sends and as long as no send is canceled, the messages reach the output channel
  (and so the auditor) in the order they were received: the output is a prefix of the received
  messages that fit.\<close>

theorem BatchStrategy_output_order:
  assumes "NewBatchStrategy 0 maxBatchSize maxContentSize = Inr s0" and "rtranclp batch_step s0 s"
    and "bs_canceled s = []"
  shows "bs_output s @ jobs_messages (bs_jobs s) @ messageBuffer (bs_buffer s) =
    filter (\<lambda>m. maxBatchSize > 0 \<and> int (length (m_Content m)) \<le> maxContentSize) (bs_received s)"
proof -
  have s0: "sequential s0"
    using assms(1) by (auto simp: NewBatchStrategy_def NewMessageBuffer_def sequential_def and_then_Inr_iff split: if_splits)
  have "sequential s" using assms(2) s0 batch_step_sequential by (induction rule: rtranclp_induct) auto
  with assms(3) have "bs_output s @ jobs_messages (bs_jobs s) = concat (bs_payloads s)" by (simp add: sequential_def)
  moreover note payload_order_filter [OF assms(1,2)]
  ultimately show ?thesis by (metis append.assoc)
qed

theorem BatchStrategy_output_order_witness:
  "\<exists>s0 s m. NewBatchStrategy 0 2 10 = Inr s0 \<and> rtranclp batch_step s0 s \<and>
     bs_output s @ jobs_messages (bs_jobs s) @ messageBuffer (bs_buffer s) = [m]"
proof -
  obtain s0 where s0: "NewBatchStrategy 0 2 10 = Inr s0" by (simp add: NewBatchStrategy_def NewMessageBuffer_def)
  let ?m = "sample_message ''abc''"
  let ?s = "batch_processMessage ?m s0"
  have e: "bs_received ?s = [?m]" "bs_jobs ?s = []" "loop_ready s0" "bs_canceled ?s = []"
    using s0 by (auto simp: NewBatchStrategy_def NewMessageBuffer_def batch_processMessage_def AddMessage_def
      sample_message_def NewLogMessage_def Buffer_IsFull_def loop_ready_def Let_def)
  then have r: "rtranclp batch_step s0 ?s" by (intro r_into_rtranclp receive [of s0 ?s ?m]) auto
  from BatchStrategy_output_order [OF s0 r e(4)] e(1) s0 r show ?thesis
    by (auto simp: sample_message_def NewLogMessage_def)
qed

subsection \<open>Serialized payloads and retries\<close>



text \<open>Sending returns exactly when some attempt is answered otherwise than with a retryable error, with
  the first such answer; the additional destinations get the payload exactly when that answer
  is a success.\<close>

theorem Sender_send_first_final:
  "Sender_send additionals rs =
     (case dropWhile (\<lambda>r. r = RetryableError) rs of
        [] \<Rightarrow> None
      | r # _ \<Rightarrow> Some (r, if r = Sent then additionals else 0))"
  by (induction additionals rs rule: Sender_send.induct) auto

end
