(* ===== verification/Backoff_Policy.thy ===== *)
theory Backoff_Policy
  imports Go_Prelude Complex_Main
begin

text \<open>
  The back-off policy of the log destinations, \<open>src/pkg/backoff/backoff.go\<close>. Its floating point settings are rational numbers,
  without the rounding of \<open>float64\<close>; the random number is an argument. A policy whose settings have no logarithm (\<open>math.Log2\<close> of
  a number that is not positive, whose conversion to an integer Go leaves open) has no model.
\<close>

record policy =
  MinBackoffFactor :: rat
  BaseBackoffTime :: rat
  MaxBackoffTime :: rat
  RecoveryInterval :: int
  MaxErrors :: int

text \<open>\<open>math.Floor(math.Log2(x))\<close> for a positive number, by doubling and halving.\<close>

function floor_log2_up :: "rat \<Rightarrow> int" where
  "floor_log2_up x = (if x < 2 then 0 else 1 + floor_log2_up (x / 2))"
  by pat_completeness auto
termination
proof (relation "measure (\<lambda>x. nat \<lfloor>x\<rfloor>)")
  fix x :: rat assume x: "\<not> x < 2"
  then have "\<lfloor>x / 2\<rfloor> < \<lfloor>x\<rfloor>" by linarith
  moreover have "0 \<le> \<lfloor>x / 2\<rfloor>" using x by simp
  ultimately show "(x / 2, x) \<in> measure (\<lambda>x. nat \<lfloor>x\<rfloor>)" using x by simp
qed simp

function floor_log2 :: "rat \<Rightarrow> int" where
  "floor_log2 x = (if x \<le> 0 \<or> 1 \<le> x then floor_log2_up x else floor_log2 (2 * x) - 1)"
  by pat_completeness auto
termination
proof (relation "measure (\<lambda>x. nat \<lfloor>1 / x\<rfloor>)")
  fix x :: rat assume x: "\<not> (x \<le> 0 \<or> 1 \<le> x)"
  define y where "y = 1 / x"
  have y: "1 < y" "1 / (2 * x) = y / 2" using x by (simp_all add: y_def)
  have "1 \<le> \<lfloor>y\<rfloor>" using y(1) by simp
  moreover have "\<lfloor>y / 2\<rfloor> < 1" if "y < 2" using that by simp
  moreover have "\<lfloor>y / 2\<rfloor> < \<lfloor>y\<rfloor>" if "\<not> y < 2" using that by linarith
  ultimately have "\<lfloor>y / 2\<rfloor> < \<lfloor>y\<rfloor>" by linarith
  moreover have "0 \<le> \<lfloor>y / 2\<rfloor>" "0 \<le> \<lfloor>y\<rfloor>" using y(1) by simp_all
  ultimately show "(2 * x, x) \<in> measure (\<lambda>x. nat \<lfloor>1 / x\<rfloor>)" unfolding in_measure y(2) y_def[symmetric] by linarith
qed simp

declare floor_log2_up.simps [simp del] floor_log2.simps [simp del]

definition NewPolicy :: "rat \<Rightarrow> rat \<Rightarrow> rat \<Rightarrow> int \<Rightarrow> bool \<Rightarrow> policy" where
  "NewPolicy minBackoffFactor baseBackoffTime maxBackoffTime recoveryInterval recoveryReset =
     (let maxErrors = floor_log2 (maxBackoffTime / baseBackoffTime) + 1 in
      \<lparr>MinBackoffFactor = minBackoffFactor, BaseBackoffTime = baseBackoffTime, MaxBackoffTime = maxBackoffTime,
       RecoveryInterval = (if recoveryReset then maxErrors else recoveryInterval), MaxErrors = maxErrors\<rparr>)"

definition randomBetween :: "rat \<Rightarrow> rat \<Rightarrow> rat \<Rightarrow> rat" where
  "randomBetween r lo hi = r * (hi - lo) + lo"

definition backoff_seconds :: "policy \<Rightarrow> int \<Rightarrow> rat \<Rightarrow> rat" where
  "backoff_seconds b numErrors r =
     (if numErrors > 0 then
        (let backoffTime = BaseBackoffTime b * 2 ^ nat numErrors in
         if backoffTime > MaxBackoffTime b then MaxBackoffTime b
         else randomBetween r (backoffTime / MinBackoffFactor b) (min (MaxBackoffTime b) backoffTime))
      else 0)"

text \<open>The conversion to a duration truncates towards zero.\<close>

definition GetBackoffDuration :: "policy \<Rightarrow> int \<Rightarrow> rat \<Rightarrow> int" where
  "GetBackoffDuration b numErrors r =
     (let ns = backoff_seconds b numErrors r * 1000000000 in if ns < 0 then \<lceil>ns\<rceil> else \<lfloor>ns\<rfloor>)"

definition IncError :: "policy \<Rightarrow> int \<Rightarrow> int" where
  "IncError b numErrors = (if numErrors + 1 > MaxErrors b then MaxErrors b else numErrors + 1)"

definition DecError :: "policy \<Rightarrow> int \<Rightarrow> int" where
  "DecError b numErrors = (if numErrors - RecoveryInterval b < 0 then 0 else numErrors - RecoveryInterval b)"

subsection \<open>Bounds\<close>

lemma policy_bounds:
  assumes "0 \<le> n" and "n \<le> MaxErrors b" and "0 \<le> RecoveryInterval b"
  shows "0 \<le> IncError b n \<and> IncError b n \<le> MaxErrors b" and "0 \<le> DecError b n \<and> DecError b n \<le> MaxErrors b"
  using assms by (auto simp: IncError_def DecError_def)

lemma floor_log2_up_bounds: "1 \<le> x \<Longrightarrow> 0 \<le> floor_log2_up x \<and> 2 ^ nat (floor_log2_up x) \<le> x \<and> x < 2 * 2 ^ nat (floor_log2_up x)"
proof (induction x rule: floor_log2_up.induct)
  case (1 x)
  show ?case
  proof (cases "x < 2")
    case True
    then show ?thesis using "1.prems" by (simp add: floor_log2_up.simps)
  next
    case False
    define k where "k = floor_log2_up (x / 2)"
    have k: "0 \<le> k" "2 ^ nat k \<le> x / 2" "x / 2 < 2 * 2 ^ nat k" using "1.IH" False by (simp_all add: k_def)
    have "floor_log2_up x = 1 + k" using False by (simp add: floor_log2_up.simps[of x] k_def)
    moreover have "nat (1 + k) = Suc (nat k)" using k(1) by simp
    ultimately show ?thesis using k by (simp add: field_simps)
  qed
qed

text \<open>The number of errors at which the cap is reached: with one error less the time is still within the cap.\<close>

lemma NewPolicy_MaxErrors:
  assumes "0 < base" and "base \<le> top_time"
  shows "1 \<le> MaxErrors (NewPolicy f base top_time ri rr)"
    and "base * 2 ^ nat (MaxErrors (NewPolicy f base top_time ri rr)) > top_time"
    and "n < MaxErrors (NewPolicy f base top_time ri rr) \<Longrightarrow> base * 2 ^ nat n \<le> top_time"
proof -
  define k where "k = floor_log2 (top_time / base)"
  have x: "1 \<le> top_time / base" using assms by simp
  have "k = floor_log2_up (top_time / base)" using x by (simp add: k_def floor_log2.simps)
  with floor_log2_up_bounds[OF x] have k: "0 \<le> k" "2 ^ nat k \<le> top_time / base" "top_time / base < 2 * 2 ^ nat k" by simp_all
  have m: "MaxErrors (NewPolicy f base top_time ri rr) = k + 1" by (simp add: NewPolicy_def Let_def k_def)
  have s: "nat (k + 1) = Suc (nat k)" using k(1) by simp
  show "1 \<le> MaxErrors (NewPolicy f base top_time ri rr)" using m k(1) by simp
  show "base * 2 ^ nat (MaxErrors (NewPolicy f base top_time ri rr)) > top_time"
    using k(3) assms unfolding m s by (simp add: field_simps)
  assume "n < MaxErrors (NewPolicy f base top_time ri rr)"
  then have "nat n \<le> nat k" using m by simp
  then have "(2::rat) ^ nat n \<le> 2 ^ nat k" by (rule power_increasing) simp
  also have "\<dots> \<le> top_time / base" by (rule k(2))
  finally show "base * 2 ^ nat n \<le> top_time" using assms(1) by (simp add: field_simps)
qed

lemma backoff_seconds_bounds:
  assumes "0 < BaseBackoffTime b" and "1 \<le> MinBackoffFactor b" and "0 \<le> r" and "r \<le> 1" and "0 < n"
  shows "min (MaxBackoffTime b) (BaseBackoffTime b * 2 ^ nat n / MinBackoffFactor b) \<le> backoff_seconds b n r"
    and "backoff_seconds b n r \<le> MaxBackoffTime b"
proof -
  define t where "t = BaseBackoffTime b * 2 ^ nat n"
  have t: "0 < t" using assms(1) by (simp add: t_def)
  have low: "t / MinBackoffFactor b \<le> t" using assms(2) t by (simp add: divide_le_eq mult_le_cancel_left1)
  have between: "lo \<le> r * (hi - lo) + lo \<and> r * (hi - lo) + lo \<le> hi" if "lo \<le> hi" for lo hi :: rat
  proof
    show "lo \<le> r * (hi - lo) + lo" using assms(3) that by simp
    have "r * (hi - lo) \<le> 1 * (hi - lo)" using assms(4) that by (intro mult_right_mono) simp_all
    then show "r * (hi - lo) + lo \<le> hi" by simp
  qed
  show "min (MaxBackoffTime b) (BaseBackoffTime b * 2 ^ nat n / MinBackoffFactor b) \<le> backoff_seconds b n r"
    using between[OF low] assms(5) by (auto simp: backoff_seconds_def Let_def randomBetween_def min_def simp flip: t_def)
  show "backoff_seconds b n r \<le> MaxBackoffTime b"
    using between[OF low] assms(5) by (auto simp: backoff_seconds_def Let_def randomBetween_def min_def simp flip: t_def)
qed

end
