(* ===== verification/Log_Client.thy ===== *)
theory Log_Client
  imports Log_Sender Backoff_Policy
begin

text \<open>
  The log destinations, \<open>src/logs/client\<close>: the context they share (\<open>destinations_context.go\<close>), the TCP destination with its
  connection manager, prefixer and delimiters (\<open>tcp\<close>), the HTTP destination (\<open>http\<close>) with its resetting client
  (\<open>src/pkg/httpx/client.go\<close>) and the Kafka destination (\<open>kafka\<close>). The network is the environment: every attempt
  comes with what dialling, the handshake, the write or the request do.
\<close>

subsection \<open>The context of the destinations\<close>

text \<open>A context is a number; \<open>dc_canceled\<close> lists the cancelled ones.\<close>

record dest_context =
  dc_context :: "nat option"
  dc_cancel :: "nat option"
  dc_next :: nat
  dc_canceled :: "nat list"

definition NewDestinationsContext :: dest_context where
  "NewDestinationsContext = \<lparr>dc_context = None, dc_cancel = None, dc_next = 0, dc_canceled = []\<rparr>"

definition Context_Start :: "dest_context \<Rightarrow> dest_context" where
  "Context_Start dc = dc\<lparr>dc_context := Some (dc_next dc), dc_cancel := Some (dc_next dc), dc_next := dc_next dc + 1\<rparr>"

definition Context_Stop :: "dest_context \<Rightarrow> dest_context" where
  "Context_Stop dc =
     (case dc_cancel dc of
        None \<Rightarrow> dc
      | Some c \<Rightarrow> dc\<lparr>dc_canceled := c # dc_canceled dc, dc_cancel := None\<rparr>)"

definition context_done :: "dest_context \<Rightarrow> bool" where
  "context_done dc \<longleftrightarrow> (case dc_context dc of None \<Rightarrow> False | Some c \<Rightarrow> c \<in> set (dc_canceled dc))"

subsection \<open>Endpoints\<close>

text \<open>Durations are nanoseconds; the settings of the back-off are rational numbers.\<close>

record endpoint =
  ep_APIKey :: string
  ep_Addr :: string
  ep_Topic :: string
  ep_Host :: string
  ep_Port :: int
  ep_UseSSL :: bool
  ep_UseCompression :: bool
  ep_CompressionLevel :: int
  ep_ProxyAddress :: string
  ep_ConnectionResetInterval :: int
  ep_BackoffFactor :: rat
  ep_BackoffBase :: rat
  ep_BackoffMax :: rat
  ep_RecoveryInterval :: int
  ep_RecoveryReset :: bool
  ep_Version :: nat
  ep_TrackType :: string
  ep_Protocol :: string
  ep_Origin :: string

subsection \<open>TCP: the connection manager\<close>

text \<open>
  One round of the loop in \<open>NewConnection\<close>: whether the context is done when it is looked at, whether the SOCKS5 dialer,
  the dial and the handshake succeed, and the random number of the back-off before it.
\<close>

record dial_round =
  dr_done :: bool
  dr_socks :: bool
  dr_dial :: bool
  dr_handshake :: bool
  dr_rand :: nat

definition maxExpBackoffCount :: nat where
  "maxExpBackoffCount = 7"

definition conn_backoff :: "nat \<Rightarrow> nat \<Rightarrow> nat" where
  "conn_backoff retries0 random =
     (let retries = (if retries0 > maxExpBackoffCount then maxExpBackoffCount else retries0);
          backoffMax = 2 ^ retries;
          backoffMin = 2 ^ (retries - 1) in
      backoffMin + random mod (backoffMax - backoffMin))"

text \<open>
  The result is whether there is a connection, with the seconds of every back-off (each may be cut short by the context);
  \<open>None\<close> while the loop still tries.
\<close>

fun connect_loop :: "endpoint \<Rightarrow> nat \<Rightarrow> dial_round list \<Rightarrow> (bool \<times> nat list) option" where
  "connect_loop ep retries [] = None"
| "connect_loop ep retries (r # rs) =
     (let sleeps = (if retries > 0 then [conn_backoff retries (dr_rand r)] else []);
          again = map_option (\<lambda>(ok, more). (ok, sleeps @ more)) (connect_loop ep (retries + 1) rs) in
      if dr_done r then Some (False, sleeps)
      else if ep_ProxyAddress ep \<noteq> [] \<and> \<not> dr_socks r then again
      else if \<not> dr_dial r then again
      else if ep_UseSSL ep \<and> \<not> dr_handshake r then again
      else Some (True, sleeps))"

text \<open>A nil context panics in the first round.\<close>

definition NewConnection :: "endpoint \<Rightarrow> dest_context \<Rightarrow> dial_round list \<Rightarrow> ((bool \<times> nat list) option) go" where
  "NewConnection ep dc rounds =
     (if dc_context dc = None then Inl NilDereference
      else Inr (connect_loop ep 0 (map (\<lambda>r. if context_done dc then r\<lparr>dr_done := True\<rparr> else r) rounds)))"

definition ShouldReset :: "endpoint \<Rightarrow> int \<Rightarrow> int \<Rightarrow> bool" where
  "ShouldReset ep created now \<longleftrightarrow> ep_ConnectionResetInterval ep \<noteq> 0 \<and> now - created > ep_ConnectionResetInterval ep"

definition conn_address :: "endpoint \<Rightarrow> string" where
  "conn_address ep =
     (if CHR '':'' \<in> set (ep_Host ep) then ''['' @ ep_Host ep @ '']:'' else ep_Host ep @ '':'') @ FormatInt (ep_Port ep)"

text \<open>What the watcher of a connection reads; the result is whether it closes the connection, \<open>None\<close> while it waits.\<close>

datatype read_outcome = ReadByte | ReadClosed | ReadEOF | ReadError

fun handleServerClose :: "read_outcome list \<Rightarrow> bool option" where
  "handleServerClose [] = None"
| "handleServerClose (ReadByte # rs) = handleServerClose rs"
| "handleServerClose (ReadClosed # rs) = Some False"
| "handleServerClose (ReadEOF # rs) = Some True"
| "handleServerClose (ReadError # rs) = Some False"

subsection \<open>TCP: prefix and delimiters\<close>

definition prefixer_apply :: "bytes \<Rightarrow> bytes \<Rightarrow> bytes" where
  "prefixer_apply pre content = pre @ content"

definition be32 :: "32 word \<Rightarrow> bytes" where
  "be32 w = map (\<lambda>i. char_of (unat (drop_bit i w))) [24, 16, 8, 0]"

definition lengthPrefix_delimit :: "bytes \<Rightarrow> bytes" where
  "lengthPrefix_delimit content = be32 (of_nat (length content)) @ content"

definition lineBreak_delimit :: "bytes \<Rightarrow> bytes" where
  "lineBreak_delimit content = content @ [CHR 0x0A]"

definition NewDelimiter :: "bool \<Rightarrow> bytes \<Rightarrow> bytes" where
  "NewDelimiter useProto = (if useProto then lengthPrefix_delimit else lineBreak_delimit)"

subsection \<open>TCP: the destination\<close>

text \<open>A connection keeps what was written to it; \<open>td_conns\<close> are all connections the destination ever had.\<close>

record tcp_conn =
  tc_bytes :: bytes
  tc_open :: bool

record tcp_dest =
  td_endpoint :: endpoint
  td_prefix :: bytes
  td_useProto :: bool
  td_conn :: "nat option"
  td_connCreationTime :: int
  td_inputChan :: "bytes list option"
  td_conns :: "tcp_conn list"

definition NewTCPDestination :: "endpoint \<Rightarrow> bool \<Rightarrow> tcp_dest" where
  "NewTCPDestination ep useProto =
     \<lparr>td_endpoint = ep, td_prefix = ep_APIKey ep @ '' '', td_useProto = useProto, td_conn = None, td_connCreationTime = 0,
      td_inputChan = None, td_conns = []\<rparr>"

definition close_conn :: "tcp_dest \<Rightarrow> tcp_dest" where
  "close_conn d =
     (case td_conn d of
        None \<Rightarrow> d
      | Some i \<Rightarrow> d\<lparr>td_conns := (td_conns d)[i := (td_conns d ! i)\<lparr>tc_open := False\<rparr>]\<rparr>)"

definition CloseConnection :: "tcp_dest \<Rightarrow> tcp_dest" where
  "CloseConnection d = (close_conn d)\<lparr>td_conn := None\<rparr>"

text \<open>
  An attempt: the rounds of the connection manager, the clock when the connection is there and after the write, and what
  the write does: \<open>None\<close> for success, or the number of bytes that went out before it failed. The server may have closed
  the connection before the attempt.
\<close>

record send_try =
  st_serverClosed :: bool
  st_rounds :: "dial_round list"
  st_created :: int
  st_write :: "nat option"
  st_now :: int

definition conn_Write :: "bytes \<Rightarrow> nat option \<Rightarrow> tcp_conn \<Rightarrow> tcp_conn \<times> bool" where
  "conn_Write frame w c =
     (if \<not> tc_open c then (c, False)
      else
        (case w of
           None \<Rightarrow> (c\<lparr>tc_bytes := tc_bytes c @ frame\<rparr>, True)
         | Some n \<Rightarrow> (c\<lparr>tc_bytes := tc_bytes c @ take n frame\<rparr>, False)))"

definition write_frame :: "bytes \<Rightarrow> send_try \<Rightarrow> nat \<Rightarrow> tcp_dest \<Rightarrow> send_result \<times> tcp_dest" where
  "write_frame payload t i d =
     (let frame = NewDelimiter (td_useProto d) (prefixer_apply (td_prefix d) payload);
          (c, ok) = conn_Write frame (st_write t) (td_conns d ! i);
          d = d\<lparr>td_conns := (td_conns d)[i := c]\<rparr> in
      if \<not> ok then (RetryableError, CloseConnection d)
      else if ShouldReset (td_endpoint d) (td_connCreationTime d) (st_now t) then (Sent, CloseConnection d)
      else (Sent, d))"

definition TCP_Send :: "dest_context \<Rightarrow> bytes \<Rightarrow> send_try \<Rightarrow> tcp_dest \<Rightarrow> ((send_result \<times> tcp_dest) option) go" where
  "TCP_Send dc payload t d0 =
     (let d = (if st_serverClosed t then close_conn d0 else d0) in
      case td_conn d of
        Some i \<Rightarrow> Inr (Some (write_frame payload t i d))
      | None \<Rightarrow>
          and_then (NewConnection (td_endpoint d) dc (st_rounds t)) (\<lambda>r.
            case r of
              None \<Rightarrow> Inr None
            | Some (False, sleeps) \<Rightarrow> Inr (Some (Canceled, d))
            | Some (True, sleeps) \<Rightarrow>
                (let i = length (td_conns d) in
                 Inr (Some (write_frame payload t i
                   (d\<lparr>td_conn := Some i, td_connCreationTime := st_created t, td_conns := td_conns d @ [\<lparr>tc_bytes = [], tc_open = True\<rparr>]\<rparr>))))))"

text \<open>The loop of \<open>Sender.send\<close> on this destination, and the stream strategy over it.\<close>

fun tcp_send_loop :: "dest_context \<Rightarrow> bytes \<Rightarrow> send_try list \<Rightarrow> tcp_dest \<Rightarrow> ((send_result \<times> tcp_dest) option) go" where
  "tcp_send_loop dc payload [] d = Inr None"
| "tcp_send_loop dc payload (t # ts) d =
     and_then (TCP_Send dc payload t d) (\<lambda>r.
       case r of
         None \<Rightarrow> Inr None
       | Some (RetryableError, d') \<Rightarrow> tcp_send_loop dc payload ts d'
       | Some (e, d') \<Rightarrow> Inr (Some (e, d')))"

fun tcp_stream :: "dest_context \<Rightarrow> (bytes \<times> send_try list) list \<Rightarrow> tcp_dest \<Rightarrow> ((send_result list \<times> tcp_dest) option) go" where
  "tcp_stream dc [] d = Inr (Some ([], d))"
| "tcp_stream dc ((payload, ts) # ms) d =
     and_then (tcp_send_loop dc payload ts d) (\<lambda>r.
       case r of
         None \<Rightarrow> Inr None
       | Some (e, d') \<Rightarrow>
           if shouldStopSending e then Inr (Some ([e], d'))
           else and_then (tcp_stream dc ms d') (\<lambda>q. Inr (map_option (\<lambda>(es, d). (e # es, d)) q)))"

text \<open>In the background: a bounded channel that drops, and one attempt per payload.\<close>

definition TCP_SendAsync :: "nat \<Rightarrow> bytes \<Rightarrow> tcp_dest \<Rightarrow> tcp_dest" where
  "TCP_SendAsync chanSize payload d =
     (let q = (case td_inputChan d of None \<Rightarrow> [] | Some q \<Rightarrow> q) in
      d\<lparr>td_inputChan := Some (if length q < chanSize then q @ [payload] else q)\<rparr>)"

definition runAsync_step :: "dest_context \<Rightarrow> send_try \<Rightarrow> tcp_dest \<Rightarrow> (tcp_dest option) go" where
  "runAsync_step dc t d =
     (case td_inputChan d of
        Some (payload # q) \<Rightarrow> and_then (TCP_Send dc payload t (d\<lparr>td_inputChan := Some q\<rparr>)) (\<lambda>r. Inr (map_option snd r))
      | _ \<Rightarrow> Inr (Some d))"

definition TCP_Close :: "tcp_dest \<Rightarrow> tcp_dest" where
  "TCP_Close d = close_conn d"

subsection \<open>The connection manager\<close>

lemma conn_backoff_bounds:
  assumes "0 < n"
  shows "2 ^ (min n 7 - 1) \<le> conn_backoff n r" and "conn_backoff n r < 2 ^ min n 7"
proof -
  define m where "m = min n 7"
  obtain k where k: "m = Suc k" using assms by (cases m) (auto simp: m_def)
  have c: "conn_backoff n r = 2 ^ k + r mod 2 ^ k"
    using k by (simp add: conn_backoff_def maxExpBackoffCount_def Let_def m_def min_def split: if_splits)
  show "2 ^ (min n 7 - 1) \<le> conn_backoff n r" using k c by (simp flip: m_def)
  have "r mod 2 ^ k < 2 ^ k" by simp
  then show "conn_backoff n r < 2 ^ min n 7" using k c by (simp flip: m_def)
qed

text \<open>A round that ends the loop, and a round that gives a connection.\<close>

definition round_connects :: "endpoint \<Rightarrow> dial_round \<Rightarrow> bool" where
  "round_connects ep r \<longleftrightarrow> \<not> dr_done r \<and> (ep_ProxyAddress ep \<noteq> [] \<longrightarrow> dr_socks r) \<and> dr_dial r \<and> (ep_UseSSL ep \<longrightarrow> dr_handshake r)"

lemma connect_loop_round:
  "connect_loop ep k (r # rs) =
     (let sleeps = (if k > 0 then [conn_backoff k (dr_rand r)] else []) in
      if dr_done r then Some (False, sleeps) else if round_connects ep r then Some (True, sleeps)
      else map_option (\<lambda>(ok, more). (ok, sleeps @ more)) (connect_loop ep (k + 1) rs))"
  by (simp add: round_connects_def Let_def)

lemma connect_loop_returns:
  "(\<exists>ok sleeps. connect_loop ep k rs = Some (ok, sleeps)) \<longleftrightarrow> (\<exists>r \<in> set rs. dr_done r \<or> round_connects ep r)"
proof (induction rs arbitrary: k)
  case (Cons r rs)
  then show ?case unfolding connect_loop_round Let_def by force
qed simp

lemma connect_loop_connected:
  "connect_loop ep k rs = Some (ok, sleeps) \<Longrightarrow> \<forall>r \<in> set rs. \<not> dr_done r \<Longrightarrow> ok"
proof (induction rs arbitrary: k sleeps)
  case (Cons r rs)
  then show ?case unfolding connect_loop_round Let_def by (auto split: if_splits)
qed simp

lemma connect_loop_sleeps:
  "connect_loop ep k rs = Some (ok, sleeps) \<Longrightarrow> i < length sleeps \<Longrightarrow>
   (let n = min (max 1 k + i) 7 in 2 ^ (n - 1) \<le> sleeps ! i \<and> sleeps ! i < 2 ^ n)"
proof (induction rs arbitrary: k sleeps i)
  case (Cons r rs)
  let ?s = "if k > 0 then [conn_backoff k (dr_rand r)] else []"
  consider "sleeps = ?s" | more where "connect_loop ep (k + 1) rs = Some (ok, more)" "sleeps = ?s @ more"
    using Cons.prems(1) unfolding connect_loop_round Let_def by (auto split: if_splits)
  then show ?case
  proof cases
    case 1
    then have "0 < k" "i = 0" using Cons.prems(2) by (auto split: if_splits)
    with 1 show ?thesis using conn_backoff_bounds[of k "dr_rand r"] by (simp add: Let_def max_def)
  next
    case (2 more)
    show ?thesis
    proof (cases "k > 0")
      case True
      show ?thesis
      proof (cases i)
        case 0
        with True 2 show ?thesis using conn_backoff_bounds[of k "dr_rand r"] by (simp add: Let_def max_def)
      next
        case (Suc j)
        with True 2 Cons.prems(2) Cons.IH[OF 2(1), of j] show ?thesis by (simp add: Let_def max_def)
      qed
    next
      case False
      with 2 Cons.prems(2) Cons.IH[OF 2(1), of i] show ?thesis by (simp add: Let_def max_def)
    qed
  qed
qed simp

subsection \<open>Framing\<close>

text \<open>
  What a receiver can do with the bytes of a connection: frames come back one by one, and a frame that was cut short gives nothing.
\<close>

locale framing =
  fixes enc :: "bytes \<Rightarrow> bytes" and dec :: "bytes \<Rightarrow> bytes list" and frameable :: "bytes \<Rightarrow> bool"
  assumes dec_frame: "frameable p \<Longrightarrow> dec (enc p @ s) = p # dec s"
    and dec_cut: "frameable p \<Longrightarrow> n < length (enc p) \<Longrightarrow> dec (take n (enc p)) = []"
begin

lemma enc_nonempty: "frameable p \<Longrightarrow> enc p \<noteq> []"
proof
  assume p: "frameable p" "enc p = []"
  have "dec [] = p # dec []" using dec_frame[OF p(1), of "[]"] p(2) by simp
  then have "length (dec []) = Suc (length (dec []))" by (metis length_Cons)
  then show False by simp
qed

lemma dec_Nil: "frameable p \<Longrightarrow> dec [] = []"
  using dec_cut[of p 0] enc_nonempty by simp

lemma dec_frames: "list_all frameable ps \<Longrightarrow> dec (concat (map enc ps) @ s) = ps @ dec s"
  by (induction ps) (simp_all add: dec_frame)

text \<open>A write that fails after some bytes leaves at most one more frame, the whole one.\<close>

lemma dec_write:
  assumes "list_all frameable ps" and "frameable p"
  shows "dec (concat (map enc ps) @ take n (enc p)) = ps @ (if length (enc p) \<le> n then [p] else [])"
  using dec_frames[OF assms(1), of "take n (enc p)"] dec_cut[OF assms(2), of n] dec_frame[OF assms(2), of "[]"] dec_Nil[OF assms(2)]
  by (cases "length (enc p) \<le> n") simp_all

end

text \<open>The receivers of the two delimiters.\<close>

definition read_lines :: "bytes \<Rightarrow> bytes list" where
  "read_lines s = butlast (split_on (CHR 0x0A) s)"

function read_lengths :: "bytes \<Rightarrow> bytes list" where
  "read_lengths s =
     (let n = be_nat (take 4 s) in
      if length s < 4 \<or> length s < 4 + n then [] else take n (drop 4 s) # read_lengths (drop (4 + n) s))"
  by pat_completeness auto
termination by (relation "measure length") auto

declare read_lengths.simps [simp del]

definition line_frameable :: "bytes \<Rightarrow> bool" where
  "line_frameable p \<longleftrightarrow> CHR 0x0A \<notin> set p"

definition length_frameable :: "bytes \<Rightarrow> bool" where
  "length_frameable p \<longleftrightarrow> length p < 2 ^ 32"

lemma length_be32 [simp]: "length (be32 w) = 4"
  by (simp add: be32_def)

lemma be_nat_be32: "be_nat (be32 w) = unat w"
proof -
  have e: "unat (drop_bit k w) = unat w div 2 ^ k" for k by (simp add: unat_drop_bit_eq flip: drop_bit_eq_div)
  define n a b c where "n = unat w" and "a = n div 256" and "b = a div 256" and "c = b div 256"
  have "n < 4294967296" using unsigned_less[of w, where ?'a = nat] by (simp add: n_def)
  then have "c < 256" by (simp add: c_def b_def a_def less_mult_imp_div_less)
  moreover have "n div 65536 = b" "n div 16777216 = c" by (simp_all add: a_def b_def c_def flip: div_mult2_eq)
  moreover have "n = 256 * a + n mod 256" "a = 256 * b + a mod 256" "b = 256 * c + b mod 256"
    by (simp_all add: a_def b_def c_def)
  ultimately show ?thesis by (simp add: be32_def e flip: n_def a_def)
qed

interpretation line_framing: framing lineBreak_delimit read_lines line_frameable
proof
  show "read_lines (lineBreak_delimit p @ s) = p # read_lines s" if "line_frameable p" for p s
    using that split_on_append[of "CHR 0x0A" p s] split_on_nonempty[of "CHR 0x0A" s]
    by (simp add: read_lines_def lineBreak_delimit_def line_frameable_def)
  show "read_lines (take n (lineBreak_delimit p)) = []" if "line_frameable p" "n < length (lineBreak_delimit p)" for p n
  proof -
    have "CHR 0x0A \<notin> set (take n p)" using that(1) in_set_takeD[of "CHR 0x0A" n p] by (auto simp: line_frameable_def)
    with that(2) show ?thesis by (simp add: read_lines_def lineBreak_delimit_def split_on_plain)
  qed
qed

interpretation length_framing: framing lengthPrefix_delimit read_lengths length_frameable
proof
  have u: "unat (of_nat (length p) :: 32 word) = length p" if "length_frameable p" for p
    using that by (simp add: length_frameable_def unat_of_nat)
  show "read_lengths (lengthPrefix_delimit p @ s) = p # read_lengths s" if "length_frameable p" for p s
    by (subst read_lengths.simps) (simp add: lengthPrefix_delimit_def be_nat_be32 u[OF that] Let_def)
  show "read_lengths (take n (lengthPrefix_delimit p)) = []" if "length_frameable p" "n < length (lengthPrefix_delimit p)" for p n
    using that(2) by (subst read_lengths.simps, cases "n < 4") (auto simp: lengthPrefix_delimit_def be_nat_be32 u[OF that(1)] Let_def)
qed

subsection \<open>What a TCP server receives\<close>

definition read_frames :: "bool \<Rightarrow> bytes \<Rightarrow> bytes list" where
  "read_frames useProto = (if useProto then read_lengths else read_lines)"

definition can_frame :: "bool \<Rightarrow> bytes \<Rightarrow> bool" where
  "can_frame useProto = (if useProto then length_frameable else line_frameable)"

interpretation delimited: framing "NewDelimiter u" "read_frames u" "can_frame u" for u
  by (cases u) (simp_all add: NewDelimiter_def read_frames_def can_frame_def line_framing.framing_axioms length_framing.framing_axioms)

text \<open>The frames of all connections in the order they were opened, each with the prefix.\<close>

definition tcp_received :: "tcp_dest \<Rightarrow> bytes list" where
  "tcp_received d = concat (map (\<lambda>c. read_frames (td_useProto d) (tc_bytes c)) (td_conns d))"

text \<open>The current connection is the last one, and holds whole frames.\<close>

definition tcp_inv :: "tcp_dest \<Rightarrow> bool" where
  "tcp_inv d \<longleftrightarrow>
     (case td_conn d of
        None \<Rightarrow> True
      | Some i \<Rightarrow> \<exists>cs c fs. td_conns d = cs @ [c] \<and> i = length cs \<and> list_all (can_frame (td_useProto d)) fs \<and>
          tc_bytes c = concat (map (NewDelimiter (td_useProto d)) fs))"

lemma tcp_invI:
  assumes "td_conn d = Some (length cs)" and "td_conns d = cs @ [c]" and "list_all (can_frame (td_useProto d)) fs"
    and "tc_bytes c = concat (map (NewDelimiter (td_useProto d)) fs)"
  shows "tcp_inv d"
  unfolding tcp_inv_def using assms by auto

definition same_dest :: "tcp_dest \<Rightarrow> tcp_dest \<Rightarrow> bool" where
  "same_dest d d' \<longleftrightarrow> td_endpoint d' = td_endpoint d \<and> td_prefix d' = td_prefix d \<and> td_useProto d' = td_useProto d"

lemma same_dest_refl [simp]: "same_dest d d"
  by (simp add: same_dest_def)

lemma same_dest_trans: "same_dest a b \<Longrightarrow> same_dest b c \<Longrightarrow> same_dest a c"
  by (simp add: same_dest_def)

lemma close_conn_keeps:
  assumes "tcp_inv d"
  shows "tcp_inv (close_conn d)" and "tcp_received (close_conn d) = tcp_received d" and "same_dest d (close_conn d)"
    and "td_conn (close_conn d) = td_conn d"
  using assms by (auto simp: close_conn_def tcp_inv_def tcp_received_def same_dest_def nth_append split: option.splits)

lemma CloseConnection_keeps:
  assumes "td_conn d = Some (length cs)" and "td_conns d = cs @ [c]"
  shows "tcp_inv (CloseConnection d)" and "tcp_received (CloseConnection d) = tcp_received d" and "same_dest d (CloseConnection d)"
  using assms by (auto simp: CloseConnection_def close_conn_def tcp_inv_def tcp_received_def same_dest_def)

text \<open>One attempt on a connection: at most one more frame arrives, and exactly one when the attempt succeeds.\<close>

lemma write_frame_delivers:
  assumes inv: "tcp_inv d" and i: "td_conn d = Some i" and f: "can_frame (td_useProto d) (td_prefix d @ payload)"
    and w: "write_frame payload t i d = (e, d')"
  shows "tcp_inv d' \<and> same_dest d d' \<and> (e = Sent \<or> e = RetryableError) \<and>
    (\<exists>k. tcp_received d' = tcp_received d @ replicate k (td_prefix d @ payload) \<and> k \<le> 1 \<and> (e = Sent \<longrightarrow> k = 1))"
proof -
  let ?u = "td_useProto d" and ?p = "td_prefix d @ payload"
  obtain cs c fs where c: "td_conns d = cs @ [c]" "i = length cs" "list_all (can_frame ?u) fs" "tc_bytes c = concat (map (NewDelimiter ?u) fs)"
    using inv i by (auto simp: tcp_inv_def)
  obtain c' ok where c': "conn_Write (NewDelimiter ?u ?p) (st_write t) c = (c', ok)" by force
  define d1 where "d1 = d\<lparr>td_conns := cs @ [c']\<rparr>"
  have d1: "same_dest d d1" "td_conn d1 = Some (length cs)" "td_conns d1 = cs @ [c']" using i c by (simp_all add: d1_def same_dest_def)
  obtain k where k: "read_frames ?u (tc_bytes c') = fs @ replicate k ?p" "k \<le> 1" "ok \<Longrightarrow> k = 1"
  proof -
    show thesis
    proof (cases "tc_open c")
      case False
      then show thesis using c' c(3,4) delimited.dec_frames[OF c(3), of "[]"] delimited.dec_Nil[OF f]
        by (intro that[of 0]) (auto simp: conn_Write_def)
    next
      case True
      show thesis
      proof (cases "st_write t")
        case None
        then show thesis using True c' c(4) delimited.dec_write[OF c(3) f, of "length (NewDelimiter ?u ?p)"]
          by (intro that[of 1]) (auto simp: conn_Write_def)
      next
        case (Some n)
        then show thesis using True c' c(4) delimited.dec_write[OF c(3) f, of n]
          by (intro that[of "if length (NewDelimiter ?u ?p) \<le> n then 1 else 0"]) (auto simp: conn_Write_def split: if_splits)
      qed
    qed
  qed
  have "read_frames ?u (tc_bytes c) = fs" using delimited.dec_frames[OF c(3), of "[]"] delimited.dec_Nil[OF f] c(4) by simp
  then have r: "tcp_received d1 = tcp_received d @ replicate k ?p" using k(1) c(1) by (simp add: tcp_received_def d1_def)
  have inv1: "tcp_inv d1" if "ok"
  proof -
    have "tc_bytes c' = concat (map (NewDelimiter ?u) (fs @ [?p]))"
      using that c' c(4) by (auto simp: conn_Write_def split: if_splits option.splits)
    moreover have "list_all (can_frame ?u) (fs @ [?p])" using c(3) f by simp
    ultimately show ?thesis using d1 by (intro tcp_invI[of d1 cs c' "fs @ [?p]"]) (simp_all add: same_dest_def)
  qed
  have "write_frame payload t i d =
      (if \<not> ok then (RetryableError, CloseConnection d1)
       else if ShouldReset (td_endpoint d1) (td_connCreationTime d1) (st_now t) then (Sent, CloseConnection d1) else (Sent, d1))"
    using c c' by (simp add: write_frame_def prefixer_apply_def d1_def Let_def)
  with w have e: "e = (if ok then Sent else RetryableError)" and d': "d' = CloseConnection d1 \<or> ok \<and> d' = d1" by (auto split: if_splits)
  note close = CloseConnection_keeps[OF d1(2,3)]
  have "tcp_inv d'" "same_dest d d'" "tcp_received d' = tcp_received d1"
    using d' close inv1 d1(1) same_dest_trans[OF d1(1) close(3)] by auto
  then show ?thesis using e r k(2,3) by (cases ok) auto
qed

lemma tcp_inv_new_conn:
  "tcp_inv (d\<lparr>td_conn := Some (length (td_conns d)), td_connCreationTime := t, td_conns := td_conns d @ [\<lparr>tc_bytes = [], tc_open = True\<rparr>]\<rparr>)"
  unfolding tcp_inv_def by (auto intro!: exI[of _ "[]"])

text \<open>An attempt, on whatever connection it finds.\<close>

lemma TCP_Send_delivers:
  assumes inv: "tcp_inv d" and f: "can_frame (td_useProto d) (td_prefix d @ payload)"
    and s: "TCP_Send dc payload t d = Inr (Some (e, d'))"
  shows "tcp_inv d' \<and> same_dest d d' \<and> e \<noteq> OtherError \<and>
    (\<exists>k. tcp_received d' = tcp_received d @ replicate k (td_prefix d @ payload) \<and> k \<le> 1 \<and> (e = Sent \<longrightarrow> k = 1))"
proof -
  define d0 where "d0 = (if st_serverClosed t then close_conn d else d)"
  have d0: "tcp_inv d0" "tcp_received d0 = tcp_received d" "same_dest d d0" "td_conn d0 = td_conn d"
    using close_conn_keeps[OF inv] inv by (simp_all add: d0_def)
  have f0: "can_frame (td_useProto d0) (td_prefix d0 @ payload)" and p0: "td_prefix d0 = td_prefix d" using f d0(3) by (simp_all add: same_dest_def)
  show ?thesis
  proof (cases "td_conn d")
    case (Some i)
    with s d0(4) have w: "write_frame payload t i d0 = (e, d')" by (simp add: TCP_Send_def d0_def[symmetric] Let_def)
    from write_frame_delivers[OF d0(1) _ f0 w] Some d0 p0 same_dest_trans[OF d0(3)] show ?thesis by auto
  next
    case None
    obtain r where r: "NewConnection (td_endpoint d0) dc (st_rounds t) = Inr (Some r)"
      using s None d0(4) by (auto simp: TCP_Send_def d0_def[symmetric] Let_def and_then_Inr_iff split: option.splits)
    obtain ok sleeps where rr: "r = (ok, sleeps)" by force
    show ?thesis
    proof (cases ok)
      case False
      then have "e = Canceled" "d' = d0" using s None d0(4) r rr by (simp_all add: TCP_Send_def d0_def[symmetric] Let_def)
      with d0 show ?thesis by (auto intro: exI[of _ 0])
    next
      case True
      define d1 where "d1 = d0\<lparr>td_conn := Some (length (td_conns d0)), td_connCreationTime := st_created t,
        td_conns := td_conns d0 @ [\<lparr>tc_bytes = [], tc_open = True\<rparr>]\<rparr>"
      have d1: "tcp_inv d1" "td_conn d1 = Some (length (td_conns d0))" "same_dest d0 d1" "td_prefix d1 = td_prefix d0"
        using tcp_inv_new_conn[of d0] by (simp_all add: d1_def same_dest_def)
      have f1: "can_frame (td_useProto d1) (td_prefix d1 @ payload)" using f0 by (simp add: d1_def)
      have r1: "tcp_received d1 = tcp_received d0" using delimited.dec_Nil[OF f0] by (simp add: tcp_received_def d1_def)
      have w: "write_frame payload t (length (td_conns d0)) d1 = (e, d')"
        using s None d0(4) r rr True by (simp add: TCP_Send_def d0_def[symmetric] d1_def Let_def)
      from write_frame_delivers[OF d1(1,2) f1 w] r1 d0(2) d1(4) p0
      show ?thesis using same_dest_trans[OF d0(3) same_dest_trans[OF d1(3)]] by auto
    qed
  qed
qed

text \<open>An attempt with rounds enough for a connection, and one that then succeeds.\<close>

definition try_returns :: "endpoint \<Rightarrow> send_try \<Rightarrow> bool" where
  "try_returns ep t \<longleftrightarrow> (\<exists>r \<in> set (st_rounds t). dr_done r \<or> round_connects ep r)"

definition try_works :: "send_try \<Rightarrow> bool" where
  "try_works t \<longleftrightarrow> \<not> st_serverClosed t \<and> st_write t = None"

definition never_done :: "dest_context \<Rightarrow> send_try list \<Rightarrow> bool" where
  "never_done dc ts \<longleftrightarrow> \<not> context_done dc \<and> (\<forall>t \<in> set ts. \<forall>r \<in> set (st_rounds t). \<not> dr_done r)"

lemma NewConnection_returns:
  assumes "dc_context dc \<noteq> None" and "\<exists>r \<in> set rounds. dr_done r \<or> round_connects ep r"
  obtains ok sleeps where "NewConnection ep dc rounds = Inr (Some (ok, sleeps))"
    and "\<not> context_done dc \<Longrightarrow> \<forall>r \<in> set rounds. \<not> dr_done r \<Longrightarrow> ok"
proof -
  let ?rs = "map (\<lambda>r. if context_done dc then r\<lparr>dr_done := True\<rparr> else r) rounds"
  have "\<exists>r \<in> set ?rs. dr_done r \<or> round_connects ep r" using assms(2) by (cases "context_done dc") auto
  then obtain ok sleeps where c: "connect_loop ep 0 ?rs = Some (ok, sleeps)" using connect_loop_returns by blast
  show thesis
  proof (rule that)
    show "NewConnection ep dc rounds = Inr (Some (ok, sleeps))" using assms(1) c by (simp add: NewConnection_def)
    show "ok" if "\<not> context_done dc" "\<forall>r \<in> set rounds. \<not> dr_done r" using connect_loop_connected[OF c] that by simp
  qed
qed

lemma write_frame_result:
  assumes "i < length (td_conns d)"
  shows "fst (write_frame payload t i d) = (if tc_open (td_conns d ! i) \<and> st_write t = None then Sent else RetryableError)"
  using assms by (auto simp: write_frame_def conn_Write_def Let_def split: option.splits)

text \<open>The connection is open whenever the server has not closed it: the destination lets go of every connection it closes.\<close>

definition conn_open :: "tcp_dest \<Rightarrow> bool" where
  "conn_open d \<longleftrightarrow> (case td_conn d of None \<Rightarrow> True | Some i \<Rightarrow> i < length (td_conns d) \<and> tc_open (td_conns d ! i))"

lemma write_frame_conn_open:
  assumes "td_conn d = Some i" and "i < length (td_conns d)" and "write_frame payload t i d = (e, d')"
  shows "conn_open d'"
proof -
  obtain c ok where c: "conn_Write (NewDelimiter (td_useProto d) (prefixer_apply (td_prefix d) payload)) (st_write t) (td_conns d ! i) = (c, ok)" by force
  have o: "ok \<Longrightarrow> tc_open c" using c by (auto simp: conn_Write_def split: if_splits option.splits)
  have n: "td_conn (CloseConnection d1) = None" for d1 by (simp add: CloseConnection_def)
  show ?thesis using assms o n unfolding write_frame_def c Let_def by (auto simp: conn_open_def c split: if_splits)
qed

lemma TCP_Send_returns:
  assumes dc: "dc_context dc \<noteq> None" and t: "try_returns (td_endpoint d) t" and o: "conn_open d"
  shows "\<exists>e d'. TCP_Send dc payload t d = Inr (Some (e, d')) \<and> conn_open d' \<and> (try_works t \<longrightarrow> e \<noteq> RetryableError) \<and>
    (never_done dc [t] \<longrightarrow> e \<noteq> Canceled)"
proof -
  define d0 where "d0 = (if st_serverClosed t then close_conn d else d)"
  have d0: "td_endpoint d0 = td_endpoint d" "td_conn d0 = td_conn d" "length (td_conns d0) = length (td_conns d)"
    by (simp_all add: d0_def close_conn_def split: option.splits)
  show ?thesis
  proof (cases "td_conn d")
    case (Some i)
    obtain e d' where w: "write_frame payload t i d0 = (e, d')" by force
    have i: "i < length (td_conns d0)" using o Some d0 by (simp add: conn_open_def)
    have "try_works t \<Longrightarrow> tc_open (td_conns d0 ! i)" using o Some by (simp add: try_works_def d0_def conn_open_def)
    then have "try_works t \<longrightarrow> e \<noteq> RetryableError" "e \<noteq> Canceled"
      using write_frame_result[OF i, of payload t] w by (auto simp: try_works_def)
    moreover have "TCP_Send dc payload t d = Inr (Some (e, d'))" using Some d0(2) w by (simp add: TCP_Send_def d0_def[symmetric] Let_def)
    moreover have "conn_open d'" using write_frame_conn_open[OF _ i w] Some d0(2) by simp
    ultimately show ?thesis by blast
  next
    case None
    obtain ok sleeps where n: "NewConnection (td_endpoint d0) dc (st_rounds t) = Inr (Some (ok, sleeps))"
      and nd: "\<not> context_done dc \<Longrightarrow> \<forall>r \<in> set (st_rounds t). \<not> dr_done r \<Longrightarrow> ok"
      using NewConnection_returns[OF dc] t d0(1) by (metis try_returns_def)
    show ?thesis
    proof (cases ok)
      case False
      then have "TCP_Send dc payload t d = Inr (Some (Canceled, d0))" using n None d0(2) by (simp add: TCP_Send_def d0_def[symmetric] Let_def)
      moreover have "conn_open d0" using None d0(2) by (simp add: conn_open_def)
      moreover have "\<not> never_done dc [t]" using nd False by (auto simp: never_done_def)
      ultimately show ?thesis by simp
    next
      case True
      define d1 where "d1 = d0\<lparr>td_conn := Some (length (td_conns d0)), td_connCreationTime := st_created t,
        td_conns := td_conns d0 @ [\<lparr>tc_bytes = [], tc_open = True\<rparr>]\<rparr>"
      obtain e d' where w: "write_frame payload t (length (td_conns d0)) d1 = (e, d')" by force
      have i: "length (td_conns d0) < length (td_conns d1)" "tc_open (td_conns d1 ! length (td_conns d0))" by (simp_all add: d1_def)
      have "try_works t \<longrightarrow> e \<noteq> RetryableError" "e \<noteq> Canceled"
        using write_frame_result[OF i(1), of payload t] w i(2) by (auto simp: try_works_def)
      moreover have "TCP_Send dc payload t d = Inr (Some (e, d'))"
        using n True None d0(2) w by (simp add: TCP_Send_def d0_def[symmetric] d1_def Let_def)
      moreover have "conn_open d'" using write_frame_conn_open[OF _ i(1) w] by (simp add: d1_def)
      ultimately show ?thesis by blast
    qed
  qed
qed

text \<open>The loop over the attempts: a whole number of copies of the payload, at least one when it was sent.\<close>

lemma tcp_send_loop_delivers:
  assumes "dc_context dc \<noteq> None" and "tcp_inv d" and "conn_open d" and "can_frame (td_useProto d) (td_prefix d @ payload)"
    and "\<forall>t \<in> set ts. try_returns (td_endpoint d) t" and "\<exists>t \<in> set ts. try_works t"
  shows "\<exists>e d' k. tcp_send_loop dc payload ts d = Inr (Some (e, d')) \<and> tcp_inv d' \<and> conn_open d' \<and> same_dest d d' \<and>
    (e = Sent \<or> e = Canceled) \<and> tcp_received d' = tcp_received d @ replicate k (td_prefix d @ payload) \<and> k \<le> length ts \<and>
    (e = Sent \<longrightarrow> 1 \<le> k) \<and> (never_done dc ts \<longrightarrow> e = Sent)"
  using assms
proof (induction ts arbitrary: d)
  case (Cons t ts)
  obtain e d1 where s: "TCP_Send dc payload t d = Inr (Some (e, d1))" "conn_open d1" "try_works t \<Longrightarrow> e \<noteq> RetryableError"
    "never_done dc [t] \<Longrightarrow> e \<noteq> Canceled"
    using TCP_Send_returns[OF Cons.prems(1) _ Cons.prems(3), of t payload] Cons.prems(5) by auto
  from TCP_Send_delivers[OF Cons.prems(2,4) s(1)] obtain k where d1: "tcp_inv d1" "same_dest d d1" "e \<noteq> OtherError"
    "tcp_received d1 = tcp_received d @ replicate k (td_prefix d @ payload)" "k \<le> 1" "e = Sent \<Longrightarrow> k = 1" by blast
  show ?case
  proof (cases "e = RetryableError")
    case True
    have same: "td_useProto d1 = td_useProto d" "td_prefix d1 = td_prefix d" "td_endpoint d1 = td_endpoint d" using d1(2) by (simp_all add: same_dest_def)
    have "\<exists>t \<in> set ts. try_works t" using Cons.prems(6) s(3) True by auto
    then obtain e' d' k' where l: "tcp_send_loop dc payload ts d1 = Inr (Some (e', d'))" "tcp_inv d'" "conn_open d'" "same_dest d1 d'"
      "e' = Sent \<or> e' = Canceled" "tcp_received d' = tcp_received d1 @ replicate k' (td_prefix d @ payload)" "k' \<le> length ts"
      "e' = Sent \<longrightarrow> 1 \<le> k'" "never_done dc ts \<longrightarrow> e' = Sent"
      using Cons.IH[OF Cons.prems(1) d1(1) s(2)] Cons.prems(4,5) same by auto
    have "never_done dc (t # ts) \<Longrightarrow> never_done dc ts" by (simp add: never_done_def)
    moreover have "tcp_received d' = tcp_received d @ replicate (k + k') (td_prefix d @ payload)" using l(6) d1(4) by (simp add: replicate_add)
    moreover have "k + k' \<le> length (t # ts)" using d1(5) l(7) by simp
    ultimately show ?thesis using s(1) True l same_dest_trans[OF d1(2) l(4)]
      by (intro exI[of _ e'] exI[of _ d'] exI[of _ "k + k'"]) auto
  next
    case False
    have "never_done dc (t # ts) \<Longrightarrow> never_done dc [t]" by (simp add: never_done_def)
    moreover have "e = Sent \<or> e = Canceled" using False d1(3) by (cases e) simp_all
    moreover have "tcp_send_loop dc payload (t # ts) d = Inr (Some (e, d1))" using s(1) False by (cases e) simp_all
    ultimately show ?thesis using s(2,4) d1 by (intro exI[of _ e] exI[of _ d1] exI[of _ k]) auto
  qed
qed simp

definition frame_copies :: "bytes \<Rightarrow> nat list \<Rightarrow> (bytes \<times> send_try list) list \<Rightarrow> bytes list" where
  "frame_copies pre ks ms = concat (map2 (\<lambda>k (payload, ts). replicate k (pre @ payload)) ks ms)"

lemma tcp_stream_delivers:
  assumes "dc_context dc \<noteq> None" and "tcp_inv d" and "conn_open d"
    and "\<forall>(payload, ts) \<in> set ms. can_frame (td_useProto d) (td_prefix d @ payload) \<and>
      (\<forall>t \<in> set ts. try_returns (td_endpoint d) t) \<and> (\<exists>t \<in> set ts. try_works t)"
  shows "\<exists>es d' ks. tcp_stream dc ms d = Inr (Some (es, d')) \<and> length ks = length es \<and> length es \<le> length ms \<and>
    tcp_received d' = tcp_received d @ frame_copies (td_prefix d) ks ms \<and>
    (\<forall>i < length es. ks ! i \<le> length (snd (ms ! i)) \<and> (es ! i = Sent \<and> 1 \<le> ks ! i \<or> es ! i = Canceled \<and> Suc i = length es)) \<and>
    (es = [] \<or> last es = Sent \<longrightarrow> length es = length ms) \<and>
    ((\<forall>(payload, ts) \<in> set ms. never_done dc ts) \<longrightarrow> es = replicate (length ms) Sent)"
  using assms(2-)
proof (induction ms arbitrary: d)
  case (Cons m ms)
  obtain payload ts where m: "m = (payload, ts)" by force
  have pm: "can_frame (td_useProto d) (td_prefix d @ payload)" "\<forall>t \<in> set ts. try_returns (td_endpoint d) t" "\<exists>t \<in> set ts. try_works t"
    using Cons.prems(3) m by auto
  from tcp_send_loop_delivers[OF assms(1) Cons.prems(1,2) pm] obtain e d1 k where
    l: "tcp_send_loop dc payload ts d = Inr (Some (e, d1))" "tcp_inv d1" "conn_open d1" "same_dest d d1" "e = Sent \<or> e = Canceled"
      "tcp_received d1 = tcp_received d @ replicate k (td_prefix d @ payload)" "k \<le> length ts" "e = Sent \<longrightarrow> 1 \<le> k" "never_done dc ts \<longrightarrow> e = Sent"
    by blast
  show ?case
  proof (cases "e = Canceled")
    case True
    then show ?thesis using l m
      by (intro exI[of _ "[Canceled]"] exI[of _ d1] exI[of _ "[k]"]) (auto simp: shouldStopSending_def frame_copies_def)
  next
    case False
    then have e: "e = Sent" using l(5) by simp
    have same: "td_useProto d1 = td_useProto d" "td_prefix d1 = td_prefix d" "td_endpoint d1 = td_endpoint d" using l(4) by (simp_all add: same_dest_def)
    have "\<forall>(payload, ts) \<in> set ms. can_frame (td_useProto d1) (td_prefix d1 @ payload) \<and>
      (\<forall>t \<in> set ts. try_returns (td_endpoint d1) t) \<and> (\<exists>t \<in> set ts. try_works t)" using Cons.prems(3) same by simp
    from Cons.IH[OF l(2,3) this] obtain es d' ks where
      ih: "tcp_stream dc ms d1 = Inr (Some (es, d'))" "length ks = length es" "length es \<le> length ms"
        "tcp_received d' = tcp_received d1 @ frame_copies (td_prefix d1) ks ms"
        "\<forall>i < length es. ks ! i \<le> length (snd (ms ! i)) \<and> (es ! i = Sent \<and> 1 \<le> ks ! i \<or> es ! i = Canceled \<and> Suc i = length es)"
        "es = [] \<or> last es = Sent \<longrightarrow> length es = length ms"
        "(\<forall>(payload, ts) \<in> set ms. never_done dc ts) \<longrightarrow> es = replicate (length ms) Sent"
      by blast
    have "tcp_stream dc (m # ms) d = Inr (Some (e # es, d'))" using l(1) e m ih(1) by (simp add: shouldStopSending_def)
    moreover have "tcp_received d' = tcp_received d @ frame_copies (td_prefix d) (k # ks) (m # ms)"
      using ih(4) l(6) same m by (simp add: frame_copies_def)
    moreover have "(k # ks) ! i \<le> length (snd ((m # ms) ! i)) \<and>
        ((e # es) ! i = Sent \<and> 1 \<le> (k # ks) ! i \<or> (e # es) ! i = Canceled \<and> Suc i = length (e # es))" if "i < length (e # es)" for i
      using that ih(5) l(7,8) e m by (cases i) auto
    moreover have "e # es = [] \<or> last (e # es) = Sent \<longrightarrow> length (e # es) = length (m # ms)" using ih(6) by auto
    moreover have "(\<forall>(payload, ts) \<in> set (m # ms). never_done dc ts) \<longrightarrow> e # es = replicate (length (m # ms)) Sent" using ih(7) e by auto
    moreover have "length (k # ks) = length (e # es)" "length (e # es) \<le> length (m # ms)" using ih(2,3) by simp_all
    ultimately show ?thesis by (intro exI[of _ "e # es"] exI[of _ d'] exI[of _ "k # ks"]) blast
  qed
qed (simp add: frame_copies_def)


definition demo_round :: dial_round where
  "demo_round = \<lparr>dr_done = False, dr_socks = True, dr_dial = True, dr_handshake = True, dr_rand = 0\<rparr>"

definition demo_endpoint :: endpoint where
  "demo_endpoint = \<lparr>ep_APIKey = ''k'', ep_Addr = [], ep_Topic = ''t'', ep_Host = ''h'', ep_Port = 8848, ep_UseSSL = True,
     ep_UseCompression = False, ep_CompressionLevel = 0, ep_ProxyAddress = [], ep_ConnectionResetInterval = 0, ep_BackoffFactor = 2,
     ep_BackoffBase = 1, ep_BackoffMax = 120, ep_RecoveryInterval = 2, ep_RecoveryReset = False, ep_Version = 1, ep_TrackType = [],
     ep_Protocol = [], ep_Origin = []\<rparr>"

definition demo_try :: "nat option \<Rightarrow> send_try" where
  "demo_try w = \<lparr>st_serverClosed = False, st_rounds = [demo_round\<lparr>dr_dial := False\<rparr>, demo_round], st_created = 0, st_write = w, st_now = 0\<rparr>"


end
