(* ===== verification/Log_Intake.thy ===== *)
theory Log_Intake
  imports Log_Client
begin

text \<open>
  The HTTP destination, \<open>src/logs/client/http\<close>, with the resetting client of \<open>src/pkg/httpx/client.go\<close>, and the Kafka destination,
  \<open>src/logs/client/kafka\<close>. What the network answers is given with every attempt; gzip, the escaping of URLs, the JSON decoder of
  a payload and the configuration of the Kafka library are parameters.
\<close>

subsection \<open>Content encodings\<close>

datatype content_encoding = IdentityContentType | GzipContentEncoding int

definition NewGzipContentEncoding :: "int \<Rightarrow> content_encoding" where
  "NewGzipContentEncoding level = GzipContentEncoding (if level < 0 then 0 else if level > 9 then 9 else level)"

fun encoding_name :: "content_encoding \<Rightarrow> string" where
  "encoding_name IdentityContentType = ''identity''"
| "encoding_name (GzipContentEncoding level) = ''gzip''"

fun encode_payload :: "(int \<Rightarrow> bytes \<Rightarrow> bytes option) \<Rightarrow> content_encoding \<Rightarrow> bytes \<Rightarrow> bytes option" where
  "encode_payload gzip IdentityContentType payload = Some payload"
| "encode_payload gzip (GzipContentEncoding level) payload = gzip level payload"

definition buildContentEncoding :: "endpoint \<Rightarrow> content_encoding" where
  "buildContentEncoding ep = (if ep_UseCompression ep then NewGzipContentEncoding (ep_CompressionLevel ep) else IdentityContentType)"

subsection \<open>The resetting client\<close>

text \<open>\<open>hc_generation\<close> counts the clients made by the factory.\<close>

record reset_client =
  hc_resetInterval :: int
  hc_lastReset :: int
  hc_generation :: nat

definition NewResetClient :: "int \<Rightarrow> int \<Rightarrow> reset_client" where
  "NewResetClient resetInterval now = \<lparr>hc_resetInterval = resetInterval, hc_lastReset = now, hc_generation = 1\<rparr>"

definition checkReset :: "int \<Rightarrow> reset_client \<Rightarrow> reset_client" where
  "checkReset now c =
     (if hc_resetInterval c = 0 then c
      else if now - hc_lastReset c < hc_resetInterval c then c
      else c\<lparr>hc_lastReset := now, hc_generation := hc_generation c + 1\<rparr>)"

subsection \<open>The HTTP destination\<close>

record http_env =
  he_gzip :: "int \<Rightarrow> bytes \<Rightarrow> bytes option"
  he_escapeHost :: "string \<Rightarrow> string"
  he_escapePath :: "string \<Rightarrow> string"

record http_request =
  hr_url :: string
  hr_header :: "(string \<times> string) list"
  hr_body :: bytes

record http_dest =
  hd_url :: string
  hd_apiKey :: string
  hd_contentType :: string
  hd_contentEncoding :: content_encoding
  hd_client :: reset_client
  hd_climit :: nat
  hd_backoff :: policy
  hd_nbErrors :: int
  hd_blockedUntil :: int
  hd_protocol :: string
  hd_origin :: string

definition buildURL :: "http_env \<Rightarrow> endpoint \<Rightarrow> string" where
  "buildURL E ep =
     (let scheme = (if ep_UseSSL ep then ''https'' else ''http'');
          address = (if ep_Port ep \<noteq> 0 then ep_Host ep @ '':'' @ FormatInt (ep_Port ep) else ep_Host ep);
          path = (if ep_Version ep = 2 \<and> ep_TrackType ep \<noteq> [] then ''/api/v2/'' @ ep_TrackType ep else ''/v1/input'') in
      scheme @ ''://'' @ he_escapeHost E address @ he_escapePath E path)"

definition endpoint_policy :: "endpoint \<Rightarrow> policy" where
  "endpoint_policy ep =
     NewPolicy (ep_BackoffFactor ep) (ep_BackoffBase ep) (ep_BackoffMax ep) (ep_RecoveryInterval ep) (ep_RecoveryReset ep)"

text \<open>The zero time of \<open>blockedUntil\<close> is before every clock; here it is 0.\<close>

definition newHTTPDestination :: "http_env \<Rightarrow> endpoint \<Rightarrow> string \<Rightarrow> int \<Rightarrow> int \<Rightarrow> http_dest" where
  "newHTTPDestination E ep contentType now maxConcurrentBackgroundSends =
     \<lparr>hd_url = buildURL E ep, hd_apiKey = ep_APIKey ep, hd_contentType = contentType, hd_contentEncoding = buildContentEncoding ep,
      hd_client = NewResetClient (ep_ConnectionResetInterval ep) now,
      hd_climit = nat (if maxConcurrentBackgroundSends < 0 then 0 else maxConcurrentBackgroundSends),
      hd_backoff = endpoint_policy ep, hd_nbErrors = 0, hd_blockedUntil = 0, hd_protocol = ep_Protocol ep, hd_origin = ep_Origin ep\<rparr>"

definition request_header :: "http_dest \<Rightarrow> (string \<times> string) list" where
  "request_header d =
     [(''User-Agent'', ''categraf''), (''CATEGRAF-API-KEY'', hd_apiKey d), (''Content-Type'', hd_contentType d),
      (''Content-Encoding'', encoding_name (hd_contentEncoding d))] @
     (if hd_protocol d \<noteq> [] then [(''CATEGRAF-PROTOCOL'', hd_protocol d)] else []) @
     (if hd_origin d \<noteq> [] then [(''CATEGRAF-ORIGIN'', hd_origin d), (''CATEGRAF-ORIGIN-VERSION'', ''0.0.1'')] else [])"

text \<open>
  An attempt: whether the request can be built, what the client answers (an error, with whether the context is cancelled by then,
  or a response with its status code and whether its body can be read), the clocks at the start, at the request and at the
  end, and the random number of the back-off.
\<close>

datatype do_result = DoError bool | Response int bool

record http_try =
  ht_newRequest :: bool
  ht_do :: do_result
  ht_start :: int
  ht_reset :: int
  ht_end :: int
  ht_rand :: rat

fun classify_response :: "do_result \<Rightarrow> send_result" where
  "classify_response (DoError canceled) = (if canceled then Canceled else RetryableError)"
| "classify_response (Response code readable) =
     (if \<not> readable then OtherError
      else if code = 429 \<or> code \<ge> 500 then RetryableError
      else if code \<ge> 400 then OtherError
      else Sent)"

text \<open>The request that went out, if any. A nil context panics in \<open>WithContext\<close>.\<close>

definition unconditionalSend :: "http_env \<Rightarrow> dest_context \<Rightarrow> bytes \<Rightarrow> http_try \<Rightarrow> http_dest \<Rightarrow> (send_result \<times> http_request option \<times> http_dest) go" where
  "unconditionalSend E dc payload t d =
     (case encode_payload (he_gzip E) (hd_contentEncoding d) payload of
        None \<Rightarrow> Inr (OtherError, None, d)
      | Some body \<Rightarrow>
          if \<not> ht_newRequest t then Inr (OtherError, None, d)
          else if dc_context dc = None then Inl (ExplicitPanic ''nil context'')
          else
            Inr (classify_response (ht_do t), Some \<lparr>hr_url = hd_url d, hr_header = request_header d, hr_body = body\<rparr>,
              d\<lparr>hd_client := checkReset (ht_reset t) (hd_client d)\<rparr>))"

text \<open>
  \<open>Send\<close>; the first result is the time it waits for, if it waits at all (the context may cut the wait short). Waiting on a nil
  context panics as well.
\<close>

definition wait_until :: "http_try \<Rightarrow> http_dest \<Rightarrow> int option" where
  "wait_until t d = (if hd_blockedUntil d > ht_start t then Some (hd_blockedUntil d) else None)"

definition count_result :: "send_result \<Rightarrow> http_dest \<Rightarrow> http_dest" where
  "count_result e d =
     d\<lparr>hd_nbErrors := (if e = RetryableError then IncError (hd_backoff d) (hd_nbErrors d) else DecError (hd_backoff d) (hd_nbErrors d))\<rparr>"

definition HTTP_Send :: "http_env \<Rightarrow> dest_context \<Rightarrow> bytes \<Rightarrow> http_try \<Rightarrow> http_dest \<Rightarrow> (send_result \<times> http_request option \<times> http_dest) go" where
  "HTTP_Send E dc payload t d =
     (if wait_until t d \<noteq> None \<and> dc_context dc = None then Inl (ExplicitPanic ''cannot create context from nil parent'')
      else
        and_then (unconditionalSend E dc payload t d) (\<lambda>(e, req, d1).
          let d2 = count_result e d1 in
          Inr (e, req, d2\<lparr>hd_blockedUntil := ht_end t + GetBackoffDuration (hd_backoff d2) (hd_nbErrors d2) (ht_rand t)\<rparr>)))"

definition CheckConnectivity :: "http_env \<Rightarrow> endpoint \<Rightarrow> http_try \<Rightarrow> bool go" where
  "CheckConnectivity E ep t =
     and_then (unconditionalSend E (Context_Start NewDestinationsContext) [] t (newHTTPDestination E ep ''application/json'' (ht_start t) 0))
       (\<lambda>(e, req, d). Inr (e = Sent))"

text \<open>The attempts of \<open>Sender.send\<close> on an HTTP destination; \<open>None\<close> while it still retries.\<close>

fun http_send_loop :: "http_env \<Rightarrow> dest_context \<Rightarrow> bytes \<Rightarrow> http_try list \<Rightarrow> http_dest \<Rightarrow> ((send_result \<times> http_dest) option) go" where
  "http_send_loop E dc payload [] d = Inr None"
| "http_send_loop E dc payload (t # ts) d =
     and_then (HTTP_Send E dc payload t d) (\<lambda>(e, req, d').
       if e = RetryableError then http_send_loop E dc payload ts d' else Inr (Some (e, d')))"

subsection \<open>The HTTP destination in the background\<close>

text \<open>
  The payload channel, the payloads that are being sent, and those whose one attempt ended. The loop takes a payload
  when a slot of the semaphore is free, or without a semaphore when none is being sent.
\<close>

record http_async =
  ha_chan :: "bytes list"
  ha_sending :: "bytes list"
  ha_done :: "bytes list"
  ha_queued :: "bytes list"

definition new_http_async :: http_async where
  "new_http_async = \<lparr>ha_chan = [], ha_sending = [], ha_done = [], ha_queued = []\<rparr>"

inductive http_async_step :: "nat \<Rightarrow> nat \<Rightarrow> http_async \<Rightarrow> http_async \<Rightarrow> bool" for chanSize climit where
  queue: "length (ha_chan s) < chanSize \<Longrightarrow>
    http_async_step chanSize climit s (s\<lparr>ha_chan := ha_chan s @ [p], ha_queued := ha_queued s @ [p]\<rparr>)"
| take: "ha_chan s = p # q \<Longrightarrow> length (ha_sending s) < max 1 climit \<Longrightarrow>
    http_async_step chanSize climit s (s\<lparr>ha_chan := q, ha_sending := ha_sending s @ [p]\<rparr>)"
| finish: "ha_sending s = ps @ p # qs \<Longrightarrow>
    http_async_step chanSize climit s (s\<lparr>ha_sending := ps @ qs, ha_done := ha_done s @ [p]\<rparr>)"

subsection \<open>Kafka: messages and producers\<close>

record kafka_message =
  km_Topic :: string
  km_Key :: string
  km_Value :: bytes

datatype build_error = EmptyTopic | EmptyKey | EmptyValue

definition build :: "kafka_message \<Rightarrow> build_error + kafka_message" where
  "build m =
     (if length (km_Topic m) = 0 then Inl EmptyTopic
      else if length (km_Key m) = 0 then Inl EmptyKey
      else if length (km_Value m) = 0 then Inl EmptyValue
      else Inr m)"

text \<open>
  The asynchronous producer takes every message and reports errors only to its log; the synchronous one answers. \<open>kp_input\<close> are the
  messages handed to the library.
\<close>

datatype producer_type = AsyncProducer | SyncProducer

record kafka_producer =
  kp_type :: producer_type
  kp_input :: "kafka_message list"
  kp_counter :: int

definition producer_Send :: "kafka_message \<Rightarrow> bool \<Rightarrow> kafka_producer \<Rightarrow> bool \<times> kafka_producer" where
  "producer_Send m accepted p =
     (let p1 = p\<lparr>kp_input := kp_input p @ [m]\<rparr> in
      case kp_type p of
        AsyncProducer \<Rightarrow> (True, p1)
      | SyncProducer \<Rightarrow> (accepted, if accepted then p1\<lparr>kp_counter := kp_counter p1 + 1\<rparr> else p1))"

text \<open>What the success worker of the asynchronous producer does for each acknowledgement.\<close>

definition success_worker :: "kafka_producer \<Rightarrow> kafka_producer" where
  "success_worker p = p\<lparr>kp_counter := kp_counter p + 1\<rparr>"

subsection \<open>Kafka: the destination\<close>

record kafka_dest =
  kd_topic :: string
  kd_brokers :: "string list"
  kd_apiKey :: string
  kd_client :: kafka_producer
  kd_climit :: nat
  kd_backoff :: policy
  kd_nbErrors :: int
  kd_blockedUntil :: int

text \<open>
  The settings of the library that the destination writes. They are global: the first block runs only for the first
  destination. \<open>tls\<close> is what the client configuration gives, \<open>None\<close> for an error.
\<close>

datatype partitioner = RandomPartitioner | RoundRobinPartitioner | HashPartitioner

datatype codec = CompressionNone | CompressionGZIP | CompressionSnappy | CompressionLZ4 | CompressionZSTD

record sasl_config =
  sa_User :: string
  sa_Password :: string
  sa_Mechanism :: string
  sa_Version :: int
  sa_Handshake :: bool
  sa_AuthIdentity :: string
  sa_SCRAM :: "nat option"

record 'tls sarama_config =
  sc_Partitioner :: partitioner
  sc_ReturnSuccesses :: bool
  sc_ReturnErrors :: bool
  sc_ChannelBufferSize :: int
  sc_MaxOpenRequests :: int
  sc_WaitForAll :: bool
  sc_Compression :: codec
  sc_CompressionLevel :: int
  sc_Timeout :: int
  sc_TLS :: "'tls option"
  sc_SASL :: "sasl_config option"
  sc_Version :: string

record 'tls kafka_settings =
  ks_Config :: "'tls sarama_config option"
  ks_PartitionStrategy :: string
  ks_BatchConcurrence :: int
  ks_BatchMaxSize :: int
  ks_UseCompression :: bool
  ks_CompressionCodec :: string
  ks_CompressionLevel :: int
  ks_ClientTimeout :: int
  ks_SendWithTLS :: bool
  ks_SendType :: string
  ks_Sasl :: "sasl_config option"
  ks_KafkaVersion :: string

definition first_config :: "'tls sarama_config \<Rightarrow> 'tls kafka_settings \<Rightarrow> 'tls sarama_config" where
  "first_config defaults s =
     (let c = defaults\<lparr>sc_Partitioner :=
            (if ks_PartitionStrategy s = ''round_robin'' then RoundRobinPartitioner
             else if ks_PartitionStrategy s = ''hash'' then HashPartitioner
             else RandomPartitioner),
          sc_ReturnSuccesses := True, sc_ReturnErrors := True\<rparr> in
      if ks_BatchConcurrence s > 0 then
        c\<lparr>sc_ChannelBufferSize := (if ks_BatchMaxSize s > 256 then ks_BatchMaxSize s else 256),
          sc_MaxOpenRequests := ks_BatchConcurrence s, sc_WaitForAll := True\<rparr>
      else c)"

definition compression_codec :: "string \<Rightarrow> codec" where
  "compression_codec name =
     (if name = ''gzip'' then CompressionGZIP
      else if name = ''snappy'' then CompressionSnappy
      else if name = ''lz4'' then CompressionLZ4
      else if name = ''zstd'' then CompressionZSTD
      else CompressionNone)"

definition scram_client :: "sasl_config \<Rightarrow> sasl_config" where
  "scram_client sa =
     (if sa_Mechanism sa = ''SCRAM-SHA-256'' then sa\<lparr>sa_SCRAM := Some 256\<rparr>
      else if sa_Mechanism sa = ''SCRAM-SHA-512'' then sa\<lparr>sa_SCRAM := Some 512\<rparr>
      else sa)"

definition kafka_config :: "'tls sarama_config \<Rightarrow> string list \<Rightarrow> 'tls option \<Rightarrow> 'tls kafka_settings \<Rightarrow> 'tls sarama_config option" where
  "kafka_config defaults supported tls s =
     (let c0 = (case ks_Config s of None \<Rightarrow> first_config defaults s | Some c \<Rightarrow> c);
          c1 = (if ks_UseCompression s
                then c0\<lparr>sc_Compression := compression_codec (ks_CompressionCodec s), sc_CompressionLevel := ks_CompressionLevel s\<rparr> else c0);
          c2 = c1\<lparr>sc_Timeout := ks_ClientTimeout s * 1000000000\<rparr>;
          c3 = (if ks_SendWithTLS s \<and> ks_SendType s = ''kafka'' then map_option (\<lambda>x. c2\<lparr>sc_TLS := Some x\<rparr>) tls else Some c2) in
      map_option (\<lambda>c.
        (let c4 = (case ks_Sasl s of None \<Rightarrow> c | Some sa \<Rightarrow> c\<lparr>sc_SASL := Some (scram_client sa)\<rparr>) in
         if ks_KafkaVersion s \<noteq> [] \<and> ks_KafkaVersion s \<in> set supported then c4\<lparr>sc_Version := ks_KafkaVersion s\<rparr> else c4)) c3)"

text \<open>\<open>connect\<close> is whether the library reaches the brokers. The new settings are kept even when it does not.\<close>

definition newKafkaDestination ::
  "'tls sarama_config \<Rightarrow> string list \<Rightarrow> 'tls option \<Rightarrow> bool \<Rightarrow> endpoint \<Rightarrow> int \<Rightarrow> 'tls kafka_settings \<Rightarrow> (kafka_dest \<times> 'tls sarama_config) option" where
  "newKafkaDestination defaults supported tls connect ep maxConcurrentBackgroundSends s =
     (case kafka_config defaults supported tls s of
        None \<Rightarrow> None
      | Some c \<Rightarrow>
          if \<not> connect then None
          else
            Some (\<lparr>kd_topic = ep_Topic ep, kd_brokers = split_on (CHR '','') (ep_Addr ep), kd_apiKey = ep_APIKey ep,
              kd_client = \<lparr>kp_type = (if ks_BatchConcurrence s > 0 then AsyncProducer else SyncProducer), kp_input = [], kp_counter = 0\<rparr>,
              kd_climit = nat (if maxConcurrentBackgroundSends < 0 then 0 else maxConcurrentBackgroundSends),
              kd_backoff = endpoint_policy ep, kd_nbErrors = 0, kd_blockedUntil = 0\<rparr>, c))"

text \<open>\<open>kt_accepted\<close> is what a synchronous producer answers, \<open>kt_canceled\<close> whether the context is cancelled after the send.\<close>

record kafka_try =
  kt_accepted :: bool
  kt_canceled :: bool
  kt_start :: int
  kt_end :: int
  kt_rand :: rat

text \<open>\<open>decode\<close> is the topic and the key that the JSON decoder finds in a payload, empty where it finds none.\<close>

definition kafka_message_of :: "(bytes \<Rightarrow> string \<times> string) \<Rightarrow> bytes \<Rightarrow> kafka_dest \<Rightarrow> kafka_message" where
  "kafka_message_of decode payload d =
     (let (t, k) = decode payload in
      \<lparr>km_Topic = (if t \<noteq> [] then t else kd_topic d), km_Key = (if k \<noteq> [] then k else kd_apiKey d), km_Value = payload\<rparr>)"

definition kafka_unconditionalSend :: "(bytes \<Rightarrow> string \<times> string) \<Rightarrow> bytes \<Rightarrow> kafka_try \<Rightarrow> kafka_dest \<Rightarrow> send_result \<times> kafka_dest" where
  "kafka_unconditionalSend decode payload t d =
     (let (ok, p) = (case build (kafka_message_of decode payload d) of
            Inl e \<Rightarrow> (False, kd_client d)
          | Inr m \<Rightarrow> producer_Send m (kt_accepted t) (kd_client d)) in
      (if ok then Sent else if kt_canceled t then Canceled else RetryableError, d\<lparr>kd_client := p\<rparr>))"

definition Kafka_Send :: "(bytes \<Rightarrow> string \<times> string) \<Rightarrow> dest_context \<Rightarrow> bytes \<Rightarrow> kafka_try \<Rightarrow> kafka_dest \<Rightarrow> (send_result \<times> kafka_dest) go" where
  "Kafka_Send decode dc payload t d =
     (if kd_blockedUntil d > kt_start t \<and> dc_context dc = None then Inl (ExplicitPanic ''cannot create context from nil parent'')
      else
        (let (e, d1) = kafka_unconditionalSend decode payload t d in
         if dc_context dc = None \<and> e \<noteq> Sent then Inl NilDereference
         else
           (let n = (if e = RetryableError then IncError (kd_backoff d1) (kd_nbErrors d1) else DecError (kd_backoff d1) (kd_nbErrors d1)) in
            Inr (e, d1\<lparr>kd_nbErrors := n, kd_blockedUntil := kt_end t + GetBackoffDuration (kd_backoff d1) n (kt_rand t)\<rparr>))))"

fun kafka_send_loop :: "(bytes \<Rightarrow> string \<times> string) \<Rightarrow> dest_context \<Rightarrow> bytes \<Rightarrow> kafka_try list \<Rightarrow> kafka_dest \<Rightarrow> ((send_result \<times> kafka_dest) option) go" where
  "kafka_send_loop decode dc payload [] d = Inr None"
| "kafka_send_loop decode dc payload (t # ts) d =
     and_then (Kafka_Send decode dc payload t d) (\<lambda>(e, d').
       if e = RetryableError then kafka_send_loop decode dc payload ts d' else Inr (Some (e, d')))"

subsection \<open>The back-off of the HTTP destination\<close>

fun http_sends :: "http_env \<Rightarrow> dest_context \<Rightarrow> (bytes \<times> http_try) list \<Rightarrow> http_dest \<Rightarrow> (send_result list \<times> http_dest) go" where
  "http_sends E dc [] d = Inr ([], d)"
| "http_sends E dc ((payload, t) # xs) d =
     and_then (HTTP_Send E dc payload t d) (\<lambda>(e, req, d1). and_then (http_sends E dc xs d1) (\<lambda>(es, d2). Inr (e # es, d2)))"

definition backoff_ok :: "policy \<Rightarrow> bool" where
  "backoff_ok b \<longleftrightarrow> 0 < BaseBackoffTime b \<and> 1 \<le> MinBackoffFactor b \<and> 0 \<le> RecoveryInterval b \<and> 0 \<le> MaxErrors b \<and> 0 \<le> MaxBackoffTime b \<and>
     BaseBackoffTime b * 2 ^ nat (MaxErrors b) > MaxBackoffTime b"

lemma endpoint_policy_ok:
  assumes "0 < ep_BackoffBase ep" and "ep_BackoffBase ep \<le> ep_BackoffMax ep" and "1 \<le> ep_BackoffFactor ep" and "0 \<le> ep_RecoveryInterval ep"
  shows "backoff_ok (endpoint_policy ep)"
proof -
  note m = NewPolicy_MaxErrors[OF assms(1,2), where f = "ep_BackoffFactor ep" and ri = "ep_RecoveryInterval ep" and rr = "ep_RecoveryReset ep"]
  have "BaseBackoffTime (endpoint_policy ep) = ep_BackoffBase ep" "MinBackoffFactor (endpoint_policy ep) = ep_BackoffFactor ep"
    "MaxBackoffTime (endpoint_policy ep) = ep_BackoffMax ep"
    "RecoveryInterval (endpoint_policy ep) = (if ep_RecoveryReset ep then MaxErrors (endpoint_policy ep) else ep_RecoveryInterval ep)"
    by (simp_all add: endpoint_policy_def NewPolicy_def Let_def)
  with m(1,2) assms show ?thesis by (auto simp: backoff_ok_def endpoint_policy_def[symmetric])
qed

text \<open>The wait after an attempt, in nanoseconds.\<close>

definition wait_ok :: "policy \<Rightarrow> int \<Rightarrow> int \<Rightarrow> bool" where
  "wait_ok b n w \<longleftrightarrow> (n = 0 \<longrightarrow> w = 0) \<and> (n = MaxErrors b \<and> 0 < n \<longrightarrow> w = \<lfloor>MaxBackoffTime b * 1000000000\<rfloor>) \<and>
     (0 < n \<longrightarrow> \<lfloor>min (MaxBackoffTime b) (BaseBackoffTime b * 2 ^ nat n / MinBackoffFactor b) * 1000000000\<rfloor> \<le> w \<and>
       w \<le> \<lfloor>MaxBackoffTime b * 1000000000\<rfloor>)"

lemma GetBackoffDuration_ok:
  assumes b: "backoff_ok b" and r: "0 \<le> r" "r \<le> 1" and n: "0 \<le> n"
  shows "wait_ok b n (GetBackoffDuration b n r)"
proof (cases "0 < n")
  case True
  have base: "0 < BaseBackoffTime b" "1 \<le> MinBackoffFactor b" "0 \<le> MaxBackoffTime b" using b by (simp_all add: backoff_ok_def)
  note s = backoff_seconds_bounds[OF base(1,2) r True]
  have low: "0 \<le> min (MaxBackoffTime b) (BaseBackoffTime b * 2 ^ nat n / MinBackoffFactor b)" using base by simp
  then have "0 \<le> backoff_seconds b n r" using s(1) by (rule order_trans)
  then have d: "GetBackoffDuration b n r = \<lfloor>backoff_seconds b n r * 1000000000\<rfloor>" by (simp add: GetBackoffDuration_def Let_def)
  have "n = MaxErrors b \<Longrightarrow> backoff_seconds b n r = MaxBackoffTime b" using b True by (simp add: backoff_seconds_def backoff_ok_def Let_def)
  then show ?thesis using s True unfolding wait_ok_def d by (auto intro!: floor_mono)
next
  case False
  then show ?thesis using n by (simp add: wait_ok_def GetBackoffDuration_def backoff_seconds_def)
qed

definition count_step :: "policy \<Rightarrow> int \<Rightarrow> send_result \<Rightarrow> int" where
  "count_step b n e = (if e = RetryableError then IncError b n else DecError b n)"

text \<open>As many retryable errors in a row as the policy counts bring the counter to its maximum.\<close>

lemma count_retryable:
  assumes "0 \<le> n" and "n \<le> MaxErrors b"
  shows "foldl (count_step b) n (replicate k RetryableError) = min (n + int k) (MaxErrors b)"
  using assms
proof (induction k arbitrary: n)
  case (Suc k)
  have "foldl (count_step b) n (replicate (Suc k) RetryableError) = foldl (count_step b) (min (n + 1) (MaxErrors b)) (replicate k RetryableError)"
    by (simp add: count_step_def IncError_def min_def)
  also have "\<dots> = min (min (n + 1) (MaxErrors b) + int k) (MaxErrors b)" using Suc.prems by (intro Suc.IH) auto
  also have "\<dots> = min (n + int (Suc k)) (MaxErrors b)" by linarith
  finally show ?case .
qed simp

lemma count_bounds:
  "backoff_ok b \<Longrightarrow> 0 \<le> n \<Longrightarrow> n \<le> MaxErrors b \<Longrightarrow> 0 \<le> foldl (count_step b) n es \<and> foldl (count_step b) n es \<le> MaxErrors b"
proof (induction es arbitrary: n)
  case (Cons e es)
  have "0 \<le> count_step b n e \<and> count_step b n e \<le> MaxErrors b" using Cons.prems policy_bounds[of n b] by (auto simp: count_step_def backoff_ok_def)
  then show ?case using Cons.IH[of "count_step b n e"] Cons.prems(1) by simp
qed simp

lemma count_saturates:
  assumes "backoff_ok b" and "nat (MaxErrors b) \<le> length es" and "set (drop (length es - nat (MaxErrors b)) es) \<subseteq> {RetryableError}"
  shows "foldl (count_step b) 0 es = MaxErrors b"
proof -
  define k where "k = length es - nat (MaxErrors b)"
  have "\<forall>e \<in> set (drop k es). e = RetryableError" using assms(3) by (auto simp: k_def)
  then have "drop k es = replicate (length (drop k es)) RetryableError" by (rule replicate_length_same[symmetric])
  then have "es = take k es @ replicate (nat (MaxErrors b)) RetryableError" using assms(2) append_take_drop_id[of k es] by (simp add: k_def)
  then have "foldl (count_step b) 0 es = foldl (count_step b) (foldl (count_step b) 0 (take k es)) (replicate (nat (MaxErrors b)) RetryableError)"
    by (metis foldl_append)
  moreover have "0 \<le> MaxErrors b" using assms(1) by (simp add: backoff_ok_def)
  ultimately show ?thesis using count_retryable count_bounds[OF assms(1), of 0 "take k es"] by simp
qed

text \<open>The destination keeps its policy, counts the results, and blocks itself for the wait that the counter asks for.\<close>

lemma HTTP_Send_counts:
  assumes "dc_context dc \<noteq> None"
  obtains e req d' where "HTTP_Send E dc payload t d = Inr (e, req, d')" and "hd_backoff d' = hd_backoff d"
    and "hd_nbErrors d' = count_step (hd_backoff d) (hd_nbErrors d) e"
    and "hd_blockedUntil d' = ht_end t + GetBackoffDuration (hd_backoff d) (hd_nbErrors d') (ht_rand t)"
proof -
  obtain e req d1 where u: "unconditionalSend E dc payload t d = Inr (e, req, d1)" "hd_backoff d1 = hd_backoff d" "hd_nbErrors d1 = hd_nbErrors d"
  proof (cases "encode_payload (he_gzip E) (hd_contentEncoding d) payload")
    case None
    then show thesis using that by (simp add: unconditionalSend_def)
  next
    case (Some body)
    then show thesis using that assms by (cases "ht_newRequest t") (simp_all add: unconditionalSend_def)
  qed
  let ?d = "(count_result e d1)\<lparr>hd_blockedUntil := ht_end t + GetBackoffDuration (hd_backoff d)
    (count_step (hd_backoff d) (hd_nbErrors d) e) (ht_rand t)\<rparr>"
  show thesis by (rule that[of e req ?d]) (use assms u in \<open>simp_all add: HTTP_Send_def count_result_def count_step_def Let_def\<close>)
qed

lemma http_sends_counts:
  assumes "dc_context dc \<noteq> None"
  shows "\<exists>es d'. http_sends E dc xs d = Inr (es, d') \<and> length es = length xs \<and> hd_backoff d' = hd_backoff d \<and>
    hd_nbErrors d' = foldl (count_step (hd_backoff d)) (hd_nbErrors d) es \<and>
    (xs \<noteq> [] \<longrightarrow> hd_blockedUntil d' = ht_end (snd (last xs)) + GetBackoffDuration (hd_backoff d) (hd_nbErrors d') (ht_rand (snd (last xs))))"
proof (induction xs arbitrary: d)
  case (Cons x xs)
  obtain payload t where x: "x = (payload, t)" by force
  obtain e req d1 where s: "HTTP_Send E dc payload t d = Inr (e, req, d1)" "hd_backoff d1 = hd_backoff d"
    "hd_nbErrors d1 = count_step (hd_backoff d) (hd_nbErrors d) e"
    "hd_blockedUntil d1 = ht_end t + GetBackoffDuration (hd_backoff d) (hd_nbErrors d1) (ht_rand t)"
    using HTTP_Send_counts[OF assms, of E payload t d] by metis
  from Cons.IH[of d1] obtain es d' where r: "http_sends E dc xs d1 = Inr (es, d')" "length es = length xs" "hd_backoff d' = hd_backoff d1"
    "hd_nbErrors d' = foldl (count_step (hd_backoff d1)) (hd_nbErrors d1) es"
    "xs \<noteq> [] \<longrightarrow> hd_blockedUntil d' = ht_end (snd (last xs)) + GetBackoffDuration (hd_backoff d1) (hd_nbErrors d') (ht_rand (snd (last xs)))" by blast
  have "xs = [] \<Longrightarrow> d' = d1" using r(1) by simp
  then show ?case using s r x by (intro exI[of _ "e # es"] exI[of _ d']) (auto simp: last_ConsR)
qed simp


definition demo_http_env :: http_env where
  "demo_http_env = \<lparr>he_gzip = (\<lambda>level p. Some p), he_escapeHost = id, he_escapePath = id\<rparr>"

definition demo_http_try :: "int \<Rightarrow> http_try" where
  "demo_http_try code = \<lparr>ht_newRequest = True, ht_do = Response code True, ht_start = 0, ht_reset = 0, ht_end = 5, ht_rand = 0\<rparr>"


subsection \<open>Background sends\<close>

text \<open>Every payload that was queued is in the channel, being sent or done, and at most \<open>climit\<close> are being sent at a time.\<close>

definition async_inv :: "nat \<Rightarrow> nat \<Rightarrow> http_async \<Rightarrow> bool" where
  "async_inv chanSize limit s \<longleftrightarrow> mset (ha_queued s) = mset (ha_chan s) + mset (ha_sending s) + mset (ha_done s) \<and>
     length (ha_chan s) \<le> chanSize \<and> length (ha_sending s) \<le> max 1 limit"

lemma http_async_conserves:
  "(http_async_step chanSize limit)\<^sup>*\<^sup>* new_http_async s \<Longrightarrow> async_inv chanSize limit s"
proof (induction rule: rtranclp_induct)
  case (step s s')
  from step.hyps(2) step.IH show ?case by cases (auto simp: async_inv_def)
qed (simp add: async_inv_def new_http_async_def)

subsection \<open>Kafka\<close>

lemma build_cases:
  "(\<exists>m. build (kafka_message_of decode payload d) = Inr m) \<longleftrightarrow>
     \<not> (kd_topic d = [] \<and> fst (decode payload) = [] \<or> kd_apiKey d = [] \<and> snd (decode payload) = [] \<or> payload = [])"
  by (auto simp: build_def kafka_message_of_def split: prod.splits)

lemma kafka_message_of_cong:
  "kd_topic d' = kd_topic d \<Longrightarrow> kd_apiKey d' = kd_apiKey d \<Longrightarrow> kafka_message_of decode payload d' = kafka_message_of decode payload d"
  by (simp add: kafka_message_of_def split: prod.splits)

text \<open>An attempt keeps what a message is made of, and hands nothing over when the message cannot be built.\<close>

lemma Kafka_Send_cases:
  assumes "dc_context dc \<noteq> None"
  obtains e d' where "Kafka_Send decode dc payload t d = Inr (e, d')" and "kd_topic d' = kd_topic d" and "kd_apiKey d' = kd_apiKey d"
    and "\<And>m. build (kafka_message_of decode payload d) = Inr m \<Longrightarrow> kt_accepted t \<Longrightarrow> e = Sent"
    and "\<And>x. build (kafka_message_of decode payload d) = Inl x \<Longrightarrow>
      e = (if kt_canceled t then Canceled else RetryableError) \<and> kd_client d' = kd_client d"
proof -
  obtain e d1 where u: "kafka_unconditionalSend decode payload t d = (e, d1)" by force
  obtain ok p where o: "(case build (kafka_message_of decode payload d) of Inl e \<Rightarrow> (False, kd_client d)
      | Inr m \<Rightarrow> producer_Send m (kt_accepted t) (kd_client d)) = (ok, p)" by force
  have e: "e = (if ok then Sent else if kt_canceled t then Canceled else RetryableError)" and d1: "d1 = d\<lparr>kd_client := p\<rparr>"
    using u unfolding kafka_unconditionalSend_def o by simp_all
  have acc: "ok" if "build (kafka_message_of decode payload d) = Inr m" "kt_accepted t" for m
    using o that by (auto simp: producer_Send_def Let_def split: producer_type.splits)
  have rej: "\<not> ok \<and> p = kd_client d" if "build (kafka_message_of decode payload d) = Inl x" for x using o that by simp
  let ?n = "if e = RetryableError then IncError (kd_backoff d1) (kd_nbErrors d1) else DecError (kd_backoff d1) (kd_nbErrors d1)"
  let ?d = "d1\<lparr>kd_nbErrors := ?n, kd_blockedUntil := kt_end t + GetBackoffDuration (kd_backoff d1) ?n (kt_rand t)\<rparr>"
  have s: "Kafka_Send decode dc payload t d = Inr (e, ?d)" using assms u by (simp add: Kafka_Send_def Let_def)
  show thesis
    by (rule that[OF s]) (use d1 e acc rej in \<open>auto\<close>)
qed

lemma kafka_loop_stuck:
  assumes "dc_context dc \<noteq> None" and "build (kafka_message_of decode payload d) = Inl x" and "\<forall>t \<in> set ts. \<not> kt_canceled t"
  shows "kafka_send_loop decode dc payload ts d = Inr None"
  using assms(2,3)
proof (induction ts arbitrary: d)
  case (Cons t ts)
  obtain e d' where s: "Kafka_Send decode dc payload t d = Inr (e, d')" "kd_topic d' = kd_topic d" "kd_apiKey d' = kd_apiKey d"
    "\<And>x. build (kafka_message_of decode payload d) = Inl x \<Longrightarrow> e = (if kt_canceled t then Canceled else RetryableError) \<and> kd_client d' = kd_client d"
    using Kafka_Send_cases[OF assms(1), of decode payload t d] by metis
  have "e = RetryableError" using s(4)[OF Cons.prems(1)] Cons.prems(2) by simp
  moreover have "kafka_send_loop decode dc payload ts d' = Inr None"
    using Cons.IH[of d'] Cons.prems kafka_message_of_cong[OF s(2,3)] by simp
  ultimately show ?case using s(1) by simp
qed simp

text \<open>C40: on a started pipeline the sender never gets past a payload for Kafka, however often it tries and whatever the brokers answer until
  the pipeline is stopped, exactly when no topic is configured and the payload names none, or there is no key, or the payload is empty: an
  error in the configuration is reported as one of the network.\<close>

theorem Kafka_stuck_without_topic:
  assumes "dc_context dc \<noteq> None"
  shows "(\<forall>ts. (\<forall>t \<in> set ts. \<not> kt_canceled t) \<longrightarrow> kafka_send_loop decode dc payload ts d = Inr None) \<longleftrightarrow>
    kd_topic d = [] \<and> fst (decode payload) = [] \<or> kd_apiKey d = [] \<and> snd (decode payload) = [] \<or> payload = []"
proof (cases "build (kafka_message_of decode payload d)")
  case (Inl x)
  then have "\<not> (\<exists>m. build (kafka_message_of decode payload d) = Inr m)" by simp
  then show ?thesis using kafka_loop_stuck[OF assms Inl] unfolding build_cases by blast
next
  case (Inr m)
  let ?t = "\<lparr>kt_accepted = True, kt_canceled = False, kt_start = 0, kt_end = 0, kt_rand = 0\<rparr>"
  obtain e d' where s: "Kafka_Send decode dc payload ?t d = Inr (e, d')"
    "\<And>m. build (kafka_message_of decode payload d) = Inr m \<Longrightarrow> kt_accepted ?t \<Longrightarrow> e = Sent"
    using Kafka_Send_cases[OF assms, of decode payload ?t d] by metis
  have "kafka_send_loop decode dc payload [?t] d = Inr (Some (Sent, d'))" using s(1) s(2)[OF Inr] by simp
  then have "\<not> (\<forall>ts. (\<forall>t \<in> set ts. \<not> kt_canceled t) \<longrightarrow> kafka_send_loop decode dc payload ts d = Inr None)"
    by (auto intro!: exI[of _ "[?t]"])
  then show ?thesis using Inr build_cases[of decode payload d] by blast
qed

definition demo_kafka_dest :: kafka_dest where
  "demo_kafka_dest = \<lparr>kd_topic = [], kd_brokers = [''b:9092''], kd_apiKey = ''k'', kd_client = \<lparr>kp_type = SyncProducer, kp_input = [], kp_counter = 0\<rparr>,
     kd_climit = 0, kd_backoff = endpoint_policy demo_endpoint, kd_nbErrors = 0, kd_blockedUntil = 0\<rparr>"

theorem Kafka_stuck_without_topic_witness:
  "kafka_send_loop (\<lambda>p. ([], ''host/file'')) (Context_Start NewDestinationsContext) ''{}''
     (replicate 3 \<lparr>kt_accepted = True, kt_canceled = False, kt_start = 0, kt_end = 0, kt_rand = 0\<rparr>) demo_kafka_dest = Inr None"
proof -
  have dc: "dc_context (Context_Start NewDestinationsContext) \<noteq> None" by (simp add: Context_Start_def)
  have "kd_topic demo_kafka_dest = []" by (simp add: demo_kafka_dest_def)
  then show ?thesis
    using Kafka_stuck_without_topic[OF dc, of "\<lambda>p. ([], ''host/file'')" "''{}''" demo_kafka_dest] by simp
qed

end
