(* ===== verification/Log_Pipeline.thy ===== *)
theory Log_Pipeline
  imports Log_Intake
begin

text \<open>
  From the configuration to running pipelines: the settings with their defaults (\<open>src/config/logs.go\<close>), the endpoints built from them
  (\<open>src/agent/logs_endpoints.go\<close>), the choice of destination, strategy and encoder of a pipeline and the provider that hands out
  the input channels (\<open>src/logs/pipeline\<close>).
\<close>

subsection \<open>Settings\<close>

record logs_settings =
  ls_APIKey :: string
  ls_SendTo :: string
  ls_SendType :: string
  ls_UseCompression :: bool
  ls_CompressionLevel :: int
  ls_SendWithTLS :: bool
  ls_BatchWait :: int
  ls_RunPath :: string
  ls_OpenFilesLimit :: int
  ls_ScanPeriod :: int
  ls_FrameSize :: int
  ls_CollectContainerAll :: bool
  ls_Topic :: string
  ls_ChanSize :: int
  ls_Pipeline :: int
  ls_BatchMaxSize :: int
  ls_BatchMaxContentSize :: int
  ls_BatchConcurrence :: int
  ls_ProducerTimeout :: int
  ls_EnableCollectContainer :: bool

text \<open>The accessors write the default back into the settings.\<close>

definition GetLogRunPath :: "logs_settings \<Rightarrow> string \<times> logs_settings" where
  "GetLogRunPath s = (let s = (if length (ls_RunPath s) = 0 then s\<lparr>ls_RunPath := ''/opt/categraf/run''\<rparr> else s) in (ls_RunPath s, s))"

definition OpenLogsLimit :: "logs_settings \<Rightarrow> int \<times> logs_settings" where
  "OpenLogsLimit s = (let s = (if ls_OpenFilesLimit s = 0 then s\<lparr>ls_OpenFilesLimit := 100\<rparr> else s) in (ls_OpenFilesLimit s, s))"

definition FileScanPeriod :: "logs_settings \<Rightarrow> int \<times> logs_settings" where
  "FileScanPeriod s = (let s = (if ls_ScanPeriod s = 0 then s\<lparr>ls_ScanPeriod := 10\<rparr> else s) in (ls_ScanPeriod s, s))"

definition LogFrameSize :: "logs_settings \<Rightarrow> int \<times> logs_settings" where
  "LogFrameSize s = (let s = (if ls_FrameSize s = 0 then s\<lparr>ls_FrameSize := 9000\<rparr> else s) in (ls_FrameSize s, s))"

definition NumberOfPipelines :: "logs_settings \<Rightarrow> int \<times> logs_settings" where
  "NumberOfPipelines s = (let s = (if ls_Pipeline s = 0 then s\<lparr>ls_Pipeline := 4\<rparr> else s) in (ls_Pipeline s, s))"

definition ChanSize :: "logs_settings \<Rightarrow> int \<times> logs_settings" where
  "ChanSize s = (let s = (if ls_ChanSize s = 0 then s\<lparr>ls_ChanSize := 100\<rparr> else s) in (ls_ChanSize s, s))"

definition BatchMaxSize :: "logs_settings \<Rightarrow> int \<times> logs_settings" where
  "BatchMaxSize s =
     (let s1 = (if ls_BatchMaxSize s = 0 then s\<lparr>ls_BatchMaxSize := 100\<rparr> else s);
          s2 = (if ls_BatchMaxSize s1 < ls_ChanSize s1 then s1\<lparr>ls_BatchMaxSize := ls_ChanSize s1\<rparr> else s1) in
      (ls_BatchMaxSize s2, s2))"

definition BatchMaxContentSize :: "logs_settings \<Rightarrow> int \<times> logs_settings" where
  "BatchMaxContentSize s =
     (let s = (if ls_BatchMaxContentSize s = 0 then s\<lparr>ls_BatchMaxContentSize := 1000000\<rparr> else s) in (ls_BatchMaxContentSize s, s))"

definition ClientTimeout :: "logs_settings \<Rightarrow> int \<times> logs_settings" where
  "ClientTimeout s = (let s = (if ls_ProducerTimeout s = 0 then s\<lparr>ls_ProducerTimeout := 10\<rparr> else s) in (ls_ProducerTimeout s, s))"

text \<open>The version is compared byte by byte.\<close>

fun string_less :: "string \<Rightarrow> string \<Rightarrow> bool" where
  "string_less s [] = False"
| "string_less [] (d # t) = True"
| "string_less (c # s) (d # t) = ((of_char c :: nat) < of_char d \<or> c = d \<and> string_less s t)"

definition EnableCollectContainer :: "string \<Rightarrow> logs_settings \<Rightarrow> bool" where
  "EnableCollectContainer version s =
     (if string_less version ''v0.3.58'' then ls_CollectContainerAll s else ls_EnableCollectContainer s)"

subsection \<open>Addresses\<close>

text \<open>\<open>net.SplitHostPort\<close> of the standard library.\<close>

definition SplitHostPort :: "string \<Rightarrow> (string \<times> string) option" where
  "SplitHostPort hostport =
     (if CHR '':'' \<notin> set hostport then None
      else
        (let port = rev (takeWhile (\<lambda>c. c \<noteq> CHR '':'') (rev hostport));
             i = length hostport - length port - 1 in
         if hd hostport = CHR ''['' then
           (if CHR '']'' \<notin> set hostport then None
            else
              (let stop = length (takeWhile (\<lambda>c. c \<noteq> CHR '']'') hostport) in
               if stop + 1 \<noteq> i then None
               else if CHR ''['' \<in> set (drop 1 hostport) \<or> CHR '']'' \<in> set (drop (stop + 1) hostport) then None
               else Some (drop 1 (take stop hostport), port)))
         else
           (let host = take i hostport in
            if CHR '':'' \<in> set host then None
            else if CHR ''['' \<in> set hostport \<or> CHR '']'' \<in> set hostport then None
            else Some (host, port))))"

definition parseAddress :: "string \<Rightarrow> (string \<times> int) option" where
  "parseAddress address =
     (case SplitHostPort address of
        None \<Rightarrow> None
      | Some (host, portString) \<Rightarrow> (case ParseInt portString of None \<Rightarrow> None | Some port \<Rightarrow> Some (host, port)))"

subsection \<open>Endpoints\<close>

record endpoints =
  es_Main :: endpoint
  es_Additionals :: "endpoint list"
  es_UseProto :: bool
  es_Type :: string
  es_BatchWait :: int
  es_BatchMaxConcurrentSend :: int
  es_BatchMaxSize :: int
  es_BatchMaxContentSize :: int

definition intakeTrackType_const :: string where
  "intakeTrackType_const = ''logs''"

definition empty_endpoint :: endpoint where
  "empty_endpoint = \<lparr>ep_APIKey = [], ep_Addr = [], ep_Topic = [], ep_Host = [], ep_Port = 0, ep_UseSSL = False, ep_UseCompression = False,
     ep_CompressionLevel = 0, ep_ProxyAddress = [], ep_ConnectionResetInterval = 0, ep_BackoffFactor = 0, ep_BackoffBase = 0, ep_BackoffMax = 0,
     ep_RecoveryInterval = 0, ep_RecoveryReset = False, ep_Version = 0, ep_TrackType = [], ep_Protocol = [], ep_Origin = []\<rparr>"

definition NewEndpoints :: "endpoint \<Rightarrow> bool \<Rightarrow> string \<Rightarrow> logs_settings \<Rightarrow> endpoints \<times> logs_settings" where
  "NewEndpoints main useProto typ s =
     (let (size, s1) = BatchMaxSize s; (content, s2) = BatchMaxContentSize s1 in
      (\<lparr>es_Main = main, es_Additionals = [], es_UseProto = useProto, es_Type = typ, es_BatchWait = ls_BatchWait s * 1000000000,
        es_BatchMaxConcurrentSend = ls_BatchConcurrence s, es_BatchMaxSize = size, es_BatchMaxContentSize = content\<rparr>, s2))"

definition intake_main :: "logs_settings \<Rightarrow> endpoint" where
  "intake_main s =
     empty_endpoint\<lparr>ep_APIKey := TrimSpace (ls_APIKey s), ep_UseCompression := ls_UseCompression s, ep_CompressionLevel := ls_CompressionLevel s,
       ep_BackoffBase := 1, ep_BackoffMax := 120, ep_BackoffFactor := 2, ep_RecoveryInterval := 2\<rparr>"

datatype endpoint_error = AddressError | EmptySendTo

definition buildKafkaEndpoints :: "logs_settings \<Rightarrow> endpoint_error + endpoints \<times> logs_settings" where
  "buildKafkaEndpoints s =
     (let main = (intake_main s)\<lparr>ep_Addr := ls_SendTo s, ep_Topic := ls_Topic s, ep_Version := 2, ep_TrackType := intakeTrackType_const\<rparr> in
      if length (ls_SendTo s) \<noteq> 0 then
        (case parseAddress (hd (split_on (CHR '','') (ls_SendTo s))) of
           None \<Rightarrow> Inl AddressError
         | Some (host, port) \<Rightarrow> Inr (NewEndpoints (main\<lparr>ep_Host := host, ep_Port := port, ep_UseSSL := ls_SendWithTLS s\<rparr>) False ''kafka'' s))
      else Inl EmptySendTo)"

definition buildTCPEndpoints :: "logs_settings \<Rightarrow> endpoint_error + endpoints \<times> logs_settings" where
  "buildTCPEndpoints s =
     (let main = empty_endpoint\<lparr>ep_APIKey := ls_APIKey s, ep_UseSSL := ls_SendWithTLS s\<rparr> in
      if length (ls_SendTo s) \<noteq> 0 then
        (case parseAddress (ls_SendTo s) of
           None \<Rightarrow> Inl AddressError
         | Some (host, port) \<Rightarrow> Inr (NewEndpoints (main\<lparr>ep_Host := host, ep_Port := port\<rparr>) False ''tcp'' s))
      else Inr (NewEndpoints (main\<lparr>ep_Host := ''agent-tcp.logs.flashcat.cloud'', ep_Port := 8848\<rparr>) False ''tcp'' s))"

definition BuildHTTPEndpoints :: "string \<Rightarrow> string \<Rightarrow> string \<Rightarrow> logs_settings \<Rightarrow> endpoint_error + endpoints \<times> logs_settings" where
  "BuildHTTPEndpoints trackType protocol origin s =
     (let main = (if trackType \<noteq> []
            then (intake_main s)\<lparr>ep_Version := 2, ep_TrackType := trackType, ep_Protocol := protocol, ep_Origin := origin\<rparr>
            else (intake_main s)\<lparr>ep_Version := 1\<rparr>) in
      if length (ls_SendTo s) \<noteq> 0 then
        (case parseAddress (ls_SendTo s) of
           None \<Rightarrow> Inl AddressError
         | Some (host, port) \<Rightarrow> Inr (NewEndpoints (main\<lparr>ep_Host := host, ep_Port := port, ep_UseSSL := ls_SendWithTLS s\<rparr>) False ''http'' s))
      else Inr (NewEndpoints (main\<lparr>ep_Host := ls_SendTo s, ep_UseSSL := ls_SendWithTLS s\<rparr>) False ''http'' s))"

definition BuildEndpoints :: "string \<Rightarrow> string \<Rightarrow> string \<Rightarrow> logs_settings \<Rightarrow> endpoint_error + endpoints \<times> logs_settings" where
  "BuildEndpoints trackType protocol origin s =
     (if ls_SendType s = ''http'' then BuildHTTPEndpoints trackType protocol origin s
      else if ls_SendType s = ''tcp'' then buildTCPEndpoints s
      else if ls_SendType s = ''kafka'' then buildKafkaEndpoints s
      else buildTCPEndpoints s)"

subsection \<open>Pipelines\<close>

text \<open>\<open>connect\<close> is whether the Kafka destination of an endpoint can be made.\<close>

datatype dest_kind = HTTP_dest endpoint | Kafka_dest endpoint | TCP_dest endpoint bool

datatype strategy_kind = BatchStrategy_array int int int int | StreamStrategy

datatype encoder_kind = JSONEncoder | RawEncoder | ProtoEncoder

record pipeline =
  pl_main :: dest_kind
  pl_additionals :: "dest_kind list"
  pl_strategy :: strategy_kind
  pl_encoder :: encoder_kind

datatype pipeline_error = KafkaMainFailed | UnsupportedType

definition NewPipeline :: "(endpoint \<Rightarrow> bool) \<Rightarrow> endpoints \<Rightarrow> pipeline_error + pipeline" where
  "NewPipeline connect es =
     and_then
       (if es_Type es = ''http'' then
          Inr (HTTP_dest (es_Main es), map HTTP_dest (es_Additionals es),
            BatchStrategy_array (es_BatchWait es) (es_BatchMaxConcurrentSend es) (es_BatchMaxSize es) (es_BatchMaxContentSize es), JSONEncoder)
        else if es_Type es = ''kafka'' then
          (if \<not> connect (es_Main es) then Inl KafkaMainFailed
           else Inr (Kafka_dest (es_Main es), map Kafka_dest (filter connect (es_Additionals es)), StreamStrategy, JSONEncoder))
        else if es_Type es = ''tcp'' then
          Inr (TCP_dest (es_Main es) (es_UseProto es), map (\<lambda>e. TCP_dest e (es_UseProto es)) (es_Additionals es), StreamStrategy, RawEncoder)
        else Inl UnsupportedType)
       (\<lambda>(main, additionals, strategy, encoder).
          Inr \<lparr>pl_main = main, pl_additionals = additionals, pl_strategy = strategy,
            pl_encoder = (if es_UseProto es then ProtoEncoder else encoder)\<rparr>)"

subsection \<open>The provider of pipelines\<close>

text \<open>A channel is the position of its pipeline, the drop channel, or nil.\<close>

datatype pipe_chan = PipeInput nat | DropChan | NilChan

record pipe_provider =
  pp_pipelines :: "pipeline list"
  pp_current :: int
  pp_drop :: bool

definition new_pipe_provider :: pipe_provider where
  "new_pipe_provider = \<lparr>pp_pipelines = [], pp_current = 0, pp_drop = False\<rparr>"

text \<open>\<open>made\<close> are the results of \<open>NewPipeline\<close>, one for each of the configured number of pipelines.\<close>

definition pipe_Start :: "(pipeline_error + pipeline) list \<Rightarrow> pipe_provider \<Rightarrow> pipe_provider" where
  "pipe_Start made p =
     (let ps = pp_pipelines p @ concat (map (\<lambda>r. case r of Inl e \<Rightarrow> [] | Inr x \<Rightarrow> [x]) made) in
      p\<lparr>pp_pipelines := ps, pp_drop := (if ps = [] then True else pp_drop p)\<rparr>)"

definition pipe_Stop :: "pipe_provider \<Rightarrow> pipe_provider" where
  "pipe_Stop p = p\<lparr>pp_pipelines := [], pp_drop := False\<rparr>"

definition pipe_NextChan :: "pipe_provider \<Rightarrow> pipe_chan \<times> pipe_provider" where
  "pipe_NextChan p =
     (let pipelinesLen = length (pp_pipelines p) in
      if pipelinesLen = 0 then (if pp_drop p then DropChan else NilChan, p)
      else (let index = go_mod (pp_current p + 1) (int pipelinesLen) in (PipeInput (nat index), p\<lparr>pp_current := index\<rparr>)))"

fun next_chans :: "nat \<Rightarrow> pipe_provider \<Rightarrow> pipe_chan list \<times> pipe_provider" where
  "next_chans 0 p = ([], p)"
| "next_chans (Suc n) p = (let (c, p1) = pipe_NextChan p; (cs, p2) = next_chans n p1 in (c # cs, p2))"

subsection \<open>Round robin\<close>

lemma go_mod_nat: "go_mod (int a) (int n) = int (a mod n)"
  by (cases "a = 0"; cases "n = 0") (simp_all add: go_mod_def go_div_def sgn_if zmod_int minus_div_mult_eq_mod)

lemma next_chans_round_robin:
  assumes "pp_pipelines p \<noteq> []" and "pp_current p = int c"
  shows "next_chans n p = (map (\<lambda>i. PipeInput ((c + i) mod length (pp_pipelines p))) [1..<Suc n],
    p\<lparr>pp_current := (if n = 0 then int c else int ((c + n) mod length (pp_pipelines p)))\<rparr>)"
  using assms
proof (induction n arbitrary: p c)
  case (Suc n)
  let ?l = "length (pp_pipelines p)" and ?p = "p\<lparr>pp_current := int ((c + 1) mod length (pp_pipelines p))\<rparr>"
  have "pipe_NextChan p = (PipeInput ((c + 1) mod ?l), ?p)"
    using Suc.prems go_mod_nat[of "c + 1" ?l] by (simp add: pipe_NextChan_def add.commute Let_def)
  moreover have "next_chans n ?p = (map (\<lambda>i. PipeInput (((c + 1) mod ?l + i) mod ?l)) [1..<Suc n],
      ?p\<lparr>pp_current := (if n = 0 then int ((c + 1) mod ?l) else int (((c + 1) mod ?l + n) mod ?l))\<rparr>)"
    using Suc.IH[of ?p "(c + 1) mod ?l"] Suc.prems by simp
  moreover have "map (\<lambda>i. PipeInput ((c + i) mod ?l)) [1..<Suc (Suc n)] =
      PipeInput ((c + 1) mod ?l) # map (\<lambda>i. PipeInput (((c + 1) mod ?l + i) mod ?l)) [1..<Suc n]"
    by (subst upt_conv_Cons) (simp_all add: mod_add_left_eq map_Suc_upt[symmetric] comp_def del: upt_Suc)
  ultimately show ?case by (simp add: mod_add_left_eq del: upt_Suc)
qed simp

text \<open>As many calls in a row as there are pipelines give every input channel exactly once.\<close>

lemma next_chans_fair:
  assumes "pp_pipelines p \<noteq> []" and "pp_current p = int c"
  shows "distinct (fst (next_chans (length (pp_pipelines p)) p)) \<and>
    set (fst (next_chans (length (pp_pipelines p)) p)) = PipeInput ` {..<length (pp_pipelines p)}"
proof -
  let ?l = "length (pp_pipelines p)" and ?f = "\<lambda>i. (c + i) mod length (pp_pipelines p)"
  have l: "0 < ?l" using assms(1) by simp
  have less: "i = j" if "?f i = ?f j" "i \<le> j" "1 \<le> i" "j \<le> ?l" for i j
  proof -
    have "?l dvd (c + j) - (c + i)" using that(1,2) by (metis add_le_cancel_left mod_eq_dvd_iff_nat)
    then have "?l dvd j - i" by simp
    moreover have "j - i < ?l" using that(3,4) l by linarith
    ultimately have "j - i = 0" using nat_dvd_not_less by blast
    then show "i = j" using that(2) by simp
  qed
  have inj: "inj_on ?f {1..<Suc ?l}"
  proof (rule inj_onI)
    fix i j assume ij: "i \<in> {1..<Suc ?l}" "j \<in> {1..<Suc ?l}" "?f i = ?f j"
    show "i = j" using less[of i j] less[of j i] ij by (cases "i \<le> j") auto
  qed
  moreover have "?f ` {1..<Suc ?l} \<subseteq> {..<?l}" using l by auto
  ultimately have img: "?f ` {1..<Suc ?l} = {..<?l}" by (intro card_subset_eq) (simp_all add: card_image)
  have "fst (next_chans ?l p) = map PipeInput (map ?f [1..<Suc ?l])" using next_chans_round_robin[OF assms] by simp
  moreover have "distinct (map ?f [1..<Suc ?l])" using inj by (simp add: distinct_map del: upt_Suc)
  moreover have "set (map ?f [1..<Suc ?l]) = {..<?l}" using img by (simp del: upt_Suc)
  ultimately show ?thesis by (simp add: distinct_map inj_on_def del: upt_Suc map_map)
qed

text \<open>Whatever the settings, the endpoints have a type that the pipelines support.\<close>

lemma BuildEndpoints_supported:
  assumes "BuildEndpoints trackType protocol origin s = Inr (es, s')"
  shows "NewPipeline connect es \<noteq> Inl UnsupportedType"
  using assms by (auto simp: BuildEndpoints_def BuildHTTPEndpoints_def buildTCPEndpoints_def buildKafkaEndpoints_def NewEndpoints_def NewPipeline_def
    Let_def split: if_splits option.splits prod.splits)

subsection \<open>Addresses\<close>

lemma itoa_digits: "c \<in> set (itoa n) \<Longrightarrow> 48 \<le> (of_char c :: nat) \<and> (of_char c :: nat) \<le> 57"
proof (induction n rule: itoa.induct)
  case (1 n)
  have d: "(of_char (digit_char k) :: nat) = 48 + k" if "k < 10" for k by (rule of_char_digit[OF that])
  show ?case
  proof (cases "n < 10")
    case True
    then show ?thesis using "1.prems" d by (simp add: itoa.simps[of n])
  next
    case False
    then have "c \<in> set (itoa (n div 10)) \<or> c = digit_char (n mod 10)" using "1.prems" by (auto simp: itoa.simps[of n])
    then show ?thesis using "1.IH"[OF False] d[of "n mod 10"] by auto
  qed
qed

lemma FormatInt_plain: "CHR '':'' \<notin> set (FormatInt n) \<and> CHR ''['' \<notin> set (FormatInt n) \<and> CHR '']'' \<notin> set (FormatInt n)"
  using itoa_digits[of "CHR '':''"] itoa_digits[of "CHR ''[''"] itoa_digits[of "CHR '']''"] by (auto simp: FormatInt_def)

text \<open>
  The address that the connection manager dials is read back as the host and the port it was made of, for every host without a bracket:
  names, and IP addresses of both kinds.
\<close>

lemma parseAddress_conn_address:
  assumes "CHR ''['' \<notin> set (ep_Host ep)" and "CHR '']'' \<notin> set (ep_Host ep)" and "in_int64 (ep_Port ep)"
  shows "parseAddress (conn_address ep) = Some (ep_Host ep, ep_Port ep)"
proof -
  define p where "p = FormatInt (ep_Port ep)"
  have p: "CHR '':'' \<notin> set p" "CHR ''['' \<notin> set p" "CHR '']'' \<notin> set p" using FormatInt_plain[of "ep_Port ep"] by (simp_all add: p_def)
  have all: "takeWhile (\<lambda>c. c \<noteq> CHR '':'') (rev p) = rev p" using p(1) by (subst takeWhile_eq_all_conv) auto
  have port: "rev (takeWhile (\<lambda>c. c \<noteq> CHR '':'') (rev (a @ CHR '':'' # p))) = p" for a
    using takeWhile_tail[of "\<lambda>c. c \<noteq> CHR '':''" "CHR '':''" "rev p" "rev a"] all by simp
  have "SplitHostPort (conn_address ep) = Some (ep_Host ep, p)"
  proof (cases "CHR '':'' \<in> set (ep_Host ep)")
    case True
    have a: "conn_address ep = (''['' @ ep_Host ep @ '']'') @ CHR '':'' # p" using True by (simp add: conn_address_def p_def)
    have stop: "length (takeWhile (\<lambda>c. c \<noteq> CHR '']'') (conn_address ep)) = length (ep_Host ep) + 1"
      using assms(2) unfolding a by (simp add: takeWhile_append2 takeWhile_append)
    show ?thesis unfolding SplitHostPort_def stop Let_def unfolding a port using assms(1,2) p by simp
  next
    case False
    have a: "conn_address ep = ep_Host ep @ CHR '':'' # p" using False by (simp add: conn_address_def p_def)
    have h: "hd (conn_address ep) \<noteq> CHR ''[''" unfolding a using assms(1) by (cases "ep_Host ep") auto
    show ?thesis using h unfolding SplitHostPort_def Let_def unfolding a port using assms(1,2) p False by simp
  qed
  then show ?thesis using ParseInt_FormatInt[OF assms(3)] by (simp add: parseAddress_def p_def)
qed

text \<open>The comparison of versions as strings takes release 0.3.100 for an older one than 0.3.58.\<close>

lemma EnableCollectContainer_version:
  "EnableCollectContainer ''v0.3.100'' s = ls_CollectContainerAll s"
  by (simp add: EnableCollectContainer_def)

end
