(* ===== verification/Log_Decoder.thy ===== *)
theory Log_Decoder
  imports Go_Prelude
begin

text \<open>
  The decoder of the log pipeline: \<open>src/logs/decoder/decoder.go\<close> and
  \<open>src/logs/decoder/matcher.go\<close>. Chunks of raw bytes come in, lines with the number of raw
  bytes they account for go out to the line parser (the calls of \<open>lineParser.Handle\<close>, in
  order, are the list a definition returns).

  The locale \<open>end_line_matcher\<close> is the interface \<open>EndLineMatcher\<close>: whether a line ends depends
  only on the bytes collected since the last line. Inside it the index loop of
  \<open>decodeIncomingData\<close> is shown equal to an automaton that reads one byte at a time, which
  gives independence from the chunking and the byte accounting; \<open>NewLineMatcher\<close> and
  \<open>BytesSequenceMatcher\<close> interpret it.
\<close>

subsection \<open>End of line matchers\<close>

record matcher =
  Match :: "bytes \<Rightarrow> bytes \<Rightarrow> nat \<Rightarrow> nat \<Rightarrow> bool"
  SeparatorLen :: nat

definition newline :: char where "newline = CHR 0x0A"

definition NewLineMatcher :: matcher where
  "NewLineMatcher =
     \<lparr>Match = (\<lambda>exists appender start end'. appender ! end' = newline), SeparatorLen = 1\<rparr>"

text \<open>
  The two loops of \<open>BytesSequenceMatcher.Match\<close> compare backwards, from index \<open>hi\<close> of a buffer
  down to \<open>lo\<close>, with the sequence from \<open>seqIdx\<close> down; \<open>None\<close> is the early \<open>return false\<close>,
  \<open>Some\<close> the index the sequence is left at.
\<close>

function Match_back :: "bytes \<Rightarrow> int \<Rightarrow> int \<Rightarrow> bytes \<Rightarrow> int \<Rightarrow> int option" where
  "Match_back buf lo hi sequence seqIdx =
     (if seqIdx \<ge> 0 \<and> hi \<ge> lo then
        (if buf ! nat hi \<noteq> sequence ! nat seqIdx then None
         else Match_back buf lo (hi - 1) sequence (seqIdx - 1))
      else Some seqIdx)"
  by pat_completeness auto
termination
  by (relation "measure (\<lambda>(buf, lo, hi, sequence, seqIdx). nat (seqIdx + 1))") auto

declare Match_back.simps [simp del]

definition BytesSequence_Match :: "bytes \<Rightarrow> bytes \<Rightarrow> bytes \<Rightarrow> nat \<Rightarrow> nat \<Rightarrow> bool" where
  "BytesSequence_Match sequence exists appender start end' =
     (if int (length exists) + ((int end' + 1) - int start) < int (length sequence) then False
      else case Match_back appender (int start) (int end') sequence (int (length sequence) - 1) of
        None \<Rightarrow> False
      | Some seqIdx \<Rightarrow> Match_back exists 0 (int (length exists) - 1) sequence seqIdx \<noteq> None)"

definition NewBytesSequenceMatcher :: "bytes \<Rightarrow> matcher" where
  "NewBytesSequenceMatcher sequence =
     \<lparr>Match = BytesSequence_Match sequence, SeparatorLen = length sequence\<rparr>"

definition Utf16leEOL :: bytes where "Utf16leEOL = [newline, CHR 0x00]"

definition Utf16beEOL :: bytes where "Utf16beEOL = [CHR 0x00, newline]"

subsection \<open>The decoder\<close>

record decoded_input =
  di_content :: bytes
  di_rawDataLen :: nat

record decoder =
  linesDecoded :: nat
  d_matcher :: matcher
  lineBuffer :: bytes
  contentLenLimit :: nat
  d_rawDataLen :: nat

definition defaultContentLenLimit :: nat where "defaultContentLenLimit = 256 * 1000"

definition New_Decoder :: "nat \<Rightarrow> matcher \<Rightarrow> decoder" where
  "New_Decoder limit m =
     \<lparr>linesDecoded = 0, d_matcher = m, lineBuffer = [], contentLenLimit = limit, d_rawDataLen = 0\<rparr>"

definition sendLine :: "decoder \<Rightarrow> (decoder \<times> decoded_input) go" where
  "sendLine d =
     (let n = int (length (lineBuffer d)) - (int (SeparatorLen (d_matcher d)) - 1) in
      if n < 0 then Inl MakeSliceLenOutOfRange
      else
        (let content = take (nat n) (lineBuffer d @ replicate (nat n) (CHR 0x00)) in
         Inr (d\<lparr>lineBuffer := [], d_rawDataLen := 0, linesDecoded := linesDecoded d + 1\<rparr>,
              \<lparr>di_content = content, di_rawDataLen = d_rawDataLen d\<rparr>)))"

definition write_slice :: "decoder \<Rightarrow> bytes \<Rightarrow> nat \<Rightarrow> nat \<Rightarrow> decoder" where
  "write_slice d inBuf i j =
     d\<lparr>lineBuffer := lineBuffer d @ take (j - i) (drop i inBuf),
       d_rawDataLen := d_rawDataLen d + (j - i)\<rparr>"

function decode_loop ::
  "decoder \<Rightarrow> bytes \<Rightarrow> nat \<Rightarrow> nat \<Rightarrow> int \<Rightarrow> (decoder \<times> decoded_input list) go" where
  "decode_loop d inBuf i j maxj =
     (if j \<ge> length inBuf then Inr (write_slice d inBuf i j, [])
      else if int j = maxj then
        and_then (sendLine (write_slice d inBuf i j))
          (\<lambda>(d', out). and_then (decode_loop d' inBuf j (j + 1) (int j + int (contentLenLimit d)))
             (\<lambda>(d'', outs). Inr (d'', out # outs)))
      else if Match (d_matcher d) (lineBuffer d) inBuf i j then
        (let w = write_slice d inBuf i j in
         and_then (sendLine (w\<lparr>d_rawDataLen := d_rawDataLen w + 1\<rparr>))
          (\<lambda>(d', out). and_then (decode_loop d' inBuf (j + 1) (j + 1) (int (j + 1) + int (contentLenLimit d)))
             (\<lambda>(d'', outs). Inr (d'', out # outs))))
      else decode_loop d inBuf i (j + 1) maxj)"
  by pat_completeness auto
termination
  by (relation "measure (\<lambda>(d, inBuf, i, j, maxj). length inBuf - j)") auto

declare decode_loop.simps [simp del]

definition decodeIncomingData :: "decoder \<Rightarrow> bytes \<Rightarrow> (decoder \<times> decoded_input list) go" where
  "decodeIncomingData d inBuf =
     decode_loop d inBuf 0 0 (int (contentLenLimit d) - int (length (lineBuffer d)))"

text \<open>\<open>Decoder.run\<close>: the chunks of \<open>InputChan\<close> one after the other.\<close>

fun Decoder_run :: "decoder \<Rightarrow> bytes list \<Rightarrow> (decoder \<times> decoded_input list) go" where
  "Decoder_run d [] = Inr (d, [])"
| "Decoder_run d (c # cs) =
     and_then (decodeIncomingData d c)
       (\<lambda>(d', outs). and_then (Decoder_run d' cs) (\<lambda>(d'', outs'). Inr (d'', outs @ outs')))"

subsection \<open>Comparing backwards\<close>

fun cmp_back :: "bytes \<Rightarrow> bytes \<Rightarrow> bytes option" where
  "cmp_back (x # xs) (s # ss) = (if x \<noteq> s then None else cmp_back xs ss)"
| "cmp_back _ ss = Some ss"

lemma cmp_back_prefix:
  "cmp_back xs ss = (if prefix ss xs then Some [] else if prefix xs ss then Some (drop (length xs) ss) else None)"
  by (induction xs ss rule: cmp_back.induct) auto

lemma Match_back_cmp:
  assumes "0 \<le> lo" and "lo \<le> hi + 1" and "hi < int (length buf)" and "-1 \<le> k" and "k < int (length sequence)"
  shows "Match_back buf lo hi sequence k =
     map_option (\<lambda>r. int (length r) - 1)
       (cmp_back (rev (take (nat (hi + 1 - lo)) (drop (nat lo) buf))) (rev (take (nat (k + 1)) sequence)))"
  using assms
proof (induction buf lo hi sequence k rule: Match_back.induct)
  case (1 buf lo hi sequence k)
  show ?case
  proof (cases "k \<ge> 0 \<and> hi \<ge> lo")
    case True
    have seg: "take (nat (hi + 1 - lo)) (drop (nat lo) buf) =
        take (nat (hi - lo)) (drop (nat lo) buf) @ [buf ! nat hi]"
    proof -
      have "nat (hi + 1 - lo) = Suc (nat (hi - lo))" using True by linarith
      moreover have "nat (hi - lo) < length (drop (nat lo) buf)" using True "1.prems" by auto
      moreover have "drop (nat lo) buf ! nat (hi - lo) = buf ! nat hi"
      proof -
        have "nat lo + nat (hi - lo) = nat hi" using True "1.prems" by linarith
        with "1.prems" True show ?thesis by (simp add: nth_drop)
      qed
      ultimately show ?thesis by (simp add: take_Suc_conv_app_nth)
    qed
    have sq: "take (nat (k + 1)) sequence = take (nat k) sequence @ [sequence ! nat k]"
    proof -
      have "nat (k + 1) = Suc (nat k)" "nat k < length sequence" using True "1.prems" by auto
      then show ?thesis by (simp add: take_Suc_conv_app_nth)
    qed
    show ?thesis
      using "1" True by (simp add: Match_back.simps [of buf lo hi sequence k] seg sq)
  next
    case False
    then have "take (nat (hi + 1 - lo)) (drop (nat lo) buf) = [] \<or> take (nat (k + 1)) sequence = []"
      by auto
    moreover have "int (length (take (nat (k + 1)) sequence)) - 1 = k"
      using "1.prems" by auto
    ultimately show ?thesis
      using False by (auto simp: Match_back.simps [of buf lo hi sequence k] cmp_back_prefix)
  qed
qed

lemma cmp_back_twice:
  assumes "length ss \<le> length xs + length ys"
  shows "(case cmp_back xs ss of None \<Rightarrow> False | Some r \<Rightarrow> cmp_back ys r \<noteq> None) \<longleftrightarrow> prefix ss (xs @ ys)"
proof (cases "prefix ss xs")
  case True
  then show ?thesis by (simp add: cmp_back_prefix prefix_prefix)
next
  case ns: False
  show ?thesis
  proof (cases "prefix xs ss")
    case True
    then obtain r where r: "ss = xs @ r" by (auto simp: prefix_def)
    with assms have "length r \<le> length ys" by simp
    then have "prefix r ys \<or> prefix ys r \<longleftrightarrow> prefix r ys"
      by (auto simp: prefix_def)
    with r ns show ?thesis by (auto simp: cmp_back_prefix)
  next
    case False
    with ns show ?thesis by (auto simp: cmp_back_prefix prefix_append)
  qed
qed

lemma BytesSequence_Match_suffix:
  assumes "start \<le> end'" and "end' < length appender"
  shows "BytesSequence_Match sequence exists appender start end' \<longleftrightarrow>
     suffix sequence (exists @ take (end' + 1 - start) (drop start appender))"
proof -
  let ?seg = "take (end' + 1 - start) (drop start appender)"
  have len: "length ?seg = end' + 1 - start" using assms by simp
  have seg: "take (nat (int end' + 1 - int start)) (drop (nat (int start)) appender) = ?seg"
  proof -
    have "nat (int end' + 1 - int start) = end' + 1 - start" by linarith
    then show ?thesis by simp
  qed
  have m1: "Match_back appender (int start) (int end') sequence (int (length sequence) - 1) =
      map_option (\<lambda>r. int (length r) - 1) (cmp_back (rev ?seg) (rev sequence))"
    using assms seg by (subst Match_back_cmp) auto
  show ?thesis
  proof (cases "length exists + length ?seg < length sequence")
    case True
    then have "\<not> suffix sequence (exists @ ?seg)" by (auto dest: suffix_length_le)
    moreover have "int (length exists) + ((int end' + 1) - int start) < int (length sequence)"
      using True len assms(1) by linarith
    ultimately show ?thesis by (simp add: BytesSequence_Match_def)
  next
    case False
    have m2: "Match_back exists 0 (int (length exists) - 1) sequence (int (length r) - 1) =
        map_option (\<lambda>r. int (length r) - 1) (cmp_back (rev exists) r)"
      if "cmp_back (rev ?seg) (rev sequence) = Some r" for r
    proof -
      have "r = [] \<or> r = drop (length ?seg) (rev sequence)"
        using that by (auto simp: cmp_back_prefix split: if_splits)
      then have "length r \<le> length sequence" and "rev (take (length r) sequence) = r"
        by (auto simp: drop_rev)
      then show ?thesis by (subst Match_back_cmp) auto
    qed
    have "BytesSequence_Match sequence exists appender start end' \<longleftrightarrow>
        (case cmp_back (rev ?seg) (rev sequence) of None \<Rightarrow> False | Some r \<Rightarrow> cmp_back (rev exists) r \<noteq> None)"
    proof -
      have "\<not> int (length exists) + ((int end' + 1) - int start) < int (length sequence)"
        using False len assms(1) by linarith
      with m2 show ?thesis by (auto simp: BytesSequence_Match_def m1 split: option.splits)
    qed
    also have "\<dots> \<longleftrightarrow> prefix (rev sequence) (rev ?seg @ rev exists)"
      by (rule cmp_back_twice) (use False in simp)
    finally show ?thesis by (simp add: suffix_to_prefix)
  qed
qed

subsection \<open>The decoder one byte at a time\<close>

text \<open>\<open>ends\<close> tells whether the bytes collected so far, the last one included, end a line.\<close>

definition byte_step :: "(bytes \<Rightarrow> bool) \<Rightarrow> decoder \<Rightarrow> char \<Rightarrow> (decoder \<times> decoded_input list) go" where
  "byte_step ends d c =
     (let next = (\<lambda>d. d\<lparr>lineBuffer := lineBuffer d @ [c], d_rawDataLen := d_rawDataLen d + 1\<rparr>) in
      if length (lineBuffer d) = contentLenLimit d then
        and_then (sendLine d) (\<lambda>(d', out). Inr (next d', [out]))
      else if ends (lineBuffer d @ [c]) then
        and_then (sendLine (d\<lparr>d_rawDataLen := d_rawDataLen d + 1\<rparr>)) (\<lambda>(d', out). Inr (d', [out]))
      else Inr (next d, []))"

fun byte_run :: "(bytes \<Rightarrow> bool) \<Rightarrow> decoder \<Rightarrow> bytes \<Rightarrow> (decoder \<times> decoded_input list) go" where
  "byte_run ends d [] = Inr (d, [])"
| "byte_run ends d (c # cs) =
     and_then (byte_step ends d c)
       (\<lambda>(d', outs). and_then (byte_run ends d' cs) (\<lambda>(d'', outs'). Inr (d'', outs @ outs')))"

lemma byte_run_append:
  "byte_run ends d (xs @ ys) =
     and_then (byte_run ends d xs)
       (\<lambda>(d', outs). and_then (byte_run ends d' ys) (\<lambda>(d'', outs'). Inr (d'', outs @ outs')))"
proof (induction xs arbitrary: d)
  case Nil
  show ?case by (cases "byte_run ends d ys") auto
next
  case (Cons c xs)
  show ?case by (auto simp: Cons.IH and_then_def split: sum.splits prod.splits)
qed

lemma sendLine_fields:
  assumes "sendLine d = Inr (d', out)"
  shows "lineBuffer d' = []" "d_rawDataLen d' = 0" "d_matcher d' = d_matcher d"
    "contentLenLimit d' = contentLenLimit d" "linesDecoded d' = linesDecoded d + 1"
    "di_rawDataLen out = d_rawDataLen d"
  using assms by (auto simp: sendLine_def Let_def split: if_splits)

lemma write_slice_simps [simp]:
  "lineBuffer (write_slice d xs i j) = lineBuffer d @ take (j - i) (drop i xs)"
  "d_rawDataLen (write_slice d xs i j) = d_rawDataLen d + (j - i)"
  "d_matcher (write_slice d xs i j) = d_matcher d"
  "contentLenLimit (write_slice d xs i j) = contentLenLimit d"
  "linesDecoded (write_slice d xs i j) = linesDecoded d"
  by (simp_all add: write_slice_def)

lemma write_slice_same [simp]: "write_slice d xs i i = d"
  by (simp add: write_slice_def)

lemma write_slice_Suc:
  assumes "i \<le> j" and "j < length xs"
  shows "write_slice d xs i (Suc j) =
     (write_slice d xs i j)\<lparr>lineBuffer := lineBuffer (write_slice d xs i j) @ [xs ! j],
        d_rawDataLen := d_rawDataLen (write_slice d xs i j) + 1\<rparr>"
proof -
  have "take (Suc j - i) (drop i xs) = take (j - i) (drop i xs) @ [xs ! j]"
    using assms by (simp add: Suc_diff_le take_Suc_conv_app_nth)
  with assms show ?thesis by (simp add: write_slice_def Suc_diff_le)
qed

locale end_line_matcher =
  fixes m :: matcher and ends :: "bytes \<Rightarrow> bool"
  assumes match_law: "start \<le> end' \<Longrightarrow> end' < length appender \<Longrightarrow>
      Match m exists appender start end' \<longleftrightarrow> ends (exists @ take (end' + 1 - start) (drop start appender))"
    and separator_law: "ends s \<Longrightarrow> SeparatorLen m \<le> length s"
begin

lemma decode_loop_byte_run:
  assumes "d_matcher d = m" and "i \<le> j" and "j \<le> length xs"
    and "maxj = int i + int (contentLenLimit d) - int (length (lineBuffer d))"
  shows "decode_loop d xs i j maxj = byte_run ends (write_slice d xs i j) (drop j xs)"
  using assms
proof (induction d xs i j maxj rule: decode_loop.induct)
  case (1 d xs i j maxj)
  show ?case
  proof (cases "j < length xs")
    case False
    then show ?thesis by (simp add: decode_loop.simps [of d xs i j maxj])
  next
    case True
    let ?w = "write_slice d xs i j"
    have dr: "drop j xs = xs ! j # drop (Suc j) xs" using True by (simp add: Cons_nth_drop_Suc)
    have lim: "int j = maxj \<longleftrightarrow> length (lineBuffer ?w) = contentLenLimit ?w"
      using "1.prems" True by auto
    have mt: "Match (d_matcher d) (lineBuffer d) xs i j \<longleftrightarrow> ends (lineBuffer ?w @ [xs ! j])"
    proof -
      have "take (j + 1 - i) (drop i xs) = take (j - i) (drop i xs) @ [xs ! j]"
        using "1.prems" True by (simp add: Suc_diff_le take_Suc_conv_app_nth)
      with match_law [of i j xs "lineBuffer d"] "1.prems" True show ?thesis by simp
    qed
    consider (limit) "int j = maxj" | (match) "int j \<noteq> maxj" "Match (d_matcher d) (lineBuffer d) xs i j"
      | (other) "int j \<noteq> maxj" "\<not> Match (d_matcher d) (lineBuffer d) xs i j" by blast
    then show ?thesis
    proof cases
      case limit
      show ?thesis
      proof (cases "sendLine ?w")
        case (Inl e)
        with limit True lim show ?thesis
          by (simp add: decode_loop.simps [of d xs i j maxj] dr byte_step_def Let_def)
      next
        case (Inr r)
        obtain d' out where r: "r = (d', out)" by fastforce
        with Inr have s: "sendLine ?w = Inr (d', out)" by simp
        note fs = sendLine_fields [OF s]
        have "decode_loop d' xs j (j + 1) (int j + int (contentLenLimit d)) =
            byte_run ends (write_slice d' xs j (j + 1)) (drop (j + 1) xs)"
          using "1.IH"(1) [of d'] limit True "1.prems" fs by simp
        with limit True lim s fs show ?thesis
          by (simp add: decode_loop.simps [of d xs i j maxj] dr byte_step_def Let_def write_slice_Suc
            and_then_def split: sum.splits)
      qed
    next
      case match
      let ?w1 = "?w\<lparr>d_rawDataLen := d_rawDataLen ?w + 1\<rparr>"
      show ?thesis
      proof (cases "sendLine ?w1")
        case (Inl e)
        with match True lim mt show ?thesis
          by (simp add: decode_loop.simps [of d xs i j maxj] dr byte_step_def Let_def)
      next
        case (Inr r)
        obtain d' out where r: "r = (d', out)" by fastforce
        with Inr have s: "sendLine ?w1 = Inr (d', out)" by simp
        note fs = sendLine_fields [OF s]
        have "decode_loop d' xs (j + 1) (j + 1) (int (j + 1) + int (contentLenLimit d)) =
            byte_run ends d' (drop (j + 1) xs)"
          using "1.IH"(2) [of ?w d'] match True "1.prems" fs by simp
        with match True lim mt s fs show ?thesis
          by (simp add: decode_loop.simps [of d xs i j maxj] dr byte_step_def Let_def
            and_then_def split: sum.splits)
      qed
    next
      case other
      have "decode_loop d xs i (j + 1) maxj = byte_run ends (write_slice d xs i (j + 1)) (drop (j + 1) xs)"
        using "1.IH"(3) other True "1.prems" by simp
      with other True lim mt "1.prems"(2) show ?thesis
        by (simp add: decode_loop.simps [of d xs i j maxj] dr byte_step_def Let_def write_slice_Suc
          and_then_def split: sum.splits)
    qed
  qed
qed

lemma decodeIncomingData_byte_run:
  "d_matcher d = m \<Longrightarrow> decodeIncomingData d xs = byte_run ends d xs"
  by (simp add: decodeIncomingData_def decode_loop_byte_run)

end

subsection \<open>Bytes are accounted for, whatever the matcher\<close>

lemma byte_step_account:
  assumes "byte_step ends d c = Inr (d', outs)"
  shows "sum_list (map di_rawDataLen outs) + d_rawDataLen d' = d_rawDataLen d + 1"
    and "linesDecoded d' = linesDecoded d + length outs"
    and "d_matcher d' = d_matcher d" and "contentLenLimit d' = contentLenLimit d"
  using assms sendLine_fields
  by (auto simp: byte_step_def Let_def and_then_Inr_iff split: if_splits)

lemma byte_run_account:
  assumes "byte_run ends d xs = Inr (d', outs)"
  shows "sum_list (map di_rawDataLen outs) + d_rawDataLen d' = d_rawDataLen d + length xs \<and>
    linesDecoded d' = linesDecoded d + length outs \<and>
    d_matcher d' = d_matcher d \<and> contentLenLimit d' = contentLenLimit d"
  using assms
proof (induction xs arbitrary: d outs)
  case (Cons c xs)
  then obtain d1 o1 o2 where s: "byte_step ends d c = Inr (d1, o1)" "byte_run ends d1 xs = Inr (d', o2)"
    "outs = o1 @ o2"
    by (auto simp: and_then_Inr_iff)
  from byte_step_account [OF s(1)] Cons.IH [OF s(2)] s(3) show ?case by simp
qed simp

lemma take_copy: "n \<le> length xs \<Longrightarrow> take n (xs @ replicate k y) = take n xs"
  by simp

context end_line_matcher
begin

lemma Decoder_run_concat:
  "d_matcher d = m \<Longrightarrow> Decoder_run d cs = decodeIncomingData d (concat cs)"
proof (induction cs arbitrary: d)
  case (Cons c cs)
  have "Decoder_run d (c # cs) = and_then (byte_run ends d c)
      (\<lambda>(d', outs). and_then (Decoder_run d' cs) (\<lambda>(d'', outs'). Inr (d'', outs @ outs')))"
    using Cons.prems by (simp add: decodeIncomingData_byte_run)
  also have "\<dots> = and_then (byte_run ends d c)
      (\<lambda>(d', outs). and_then (byte_run ends d' (concat cs)) (\<lambda>(d'', outs'). Inr (d'', outs @ outs')))"
  proof (cases "byte_run ends d c")
    case (Inr r)
    obtain d1 o1 where r: "r = (d1, o1)" by fastforce
    with Inr Cons.prems byte_run_account [of ends d c d1 o1] have "d_matcher d1 = m" by simp
    with Inr r Cons.IH [of d1] show ?thesis by (simp add: decodeIncomingData_byte_run)
  qed simp
  also have "\<dots> = decodeIncomingData d (concat (c # cs))"
    using Cons.prems by (simp add: decodeIncomingData_byte_run byte_run_append)
  finally show ?case .
qed (simp add: decodeIncomingData_byte_run)

lemma byte_step_total:
  assumes "d_matcher d = m" and "0 < SeparatorLen m" and "SeparatorLen m \<le> contentLenLimit d"
    and "length (lineBuffer d) \<le> contentLenLimit d"
  shows "\<exists>d' outs. byte_step ends d c = Inr (d', outs) \<and> d_matcher d' = m \<and>
    contentLenLimit d' = contentLenLimit d \<and> length (lineBuffer d') \<le> contentLenLimit d \<and>
    (\<forall>out \<in> set outs. length (di_content out) \<le> contentLenLimit d)"
proof (cases "length (lineBuffer d) = contentLenLimit d")
  case True
  with assms show ?thesis by (auto simp: byte_step_def Let_def sendLine_def)
next
  case False
  show ?thesis
  proof (cases "ends (lineBuffer d @ [c])")
    case True
    with separator_law have "SeparatorLen m \<le> length (lineBuffer d) + 1" by fastforce
    with True False assms show ?thesis by (auto simp: byte_step_def Let_def sendLine_def)
  next
    case nm: False
    with False assms show ?thesis by (auto simp: byte_step_def Let_def)
  qed
qed

lemma byte_run_total:
  assumes "d_matcher d = m" and "0 < SeparatorLen m" and "SeparatorLen m \<le> contentLenLimit d"
    and "length (lineBuffer d) \<le> contentLenLimit d"
  shows "\<exists>d' outs. byte_run ends d xs = Inr (d', outs) \<and> length (lineBuffer d') \<le> contentLenLimit d \<and>
    (\<forall>out \<in> set outs. length (di_content out) \<le> contentLenLimit d)"
  using assms
proof (induction xs arbitrary: d)
  case (Cons c xs)
  from byte_step_total [OF Cons.prems, of c] obtain d1 o1 where s: "byte_step ends d c = Inr (d1, o1)"
    "d_matcher d1 = m" "contentLenLimit d1 = contentLenLimit d"
    "length (lineBuffer d1) \<le> contentLenLimit d" "\<forall>out \<in> set o1. length (di_content out) \<le> contentLenLimit d"
    by blast
  from Cons.IH [of d1] s Cons.prems(2,3) obtain d2 o2 where "byte_run ends d1 xs = Inr (d2, o2)"
    "length (lineBuffer d2) \<le> contentLenLimit d" "\<forall>out \<in> set o2. length (di_content out) \<le> contentLenLimit d"
    by auto
  with s show ?case by auto
qed auto

end

subsection \<open>The two matchers of the source\<close>

lemma take_segment_snoc:
  assumes "start \<le> end'" and "end' < length xs"
  shows "take (end' + 1 - start) (drop start xs) = take (end' - start) (drop start xs) @ [xs ! end']"
  using assms by (simp add: Suc_diff_le take_Suc_conv_app_nth)

definition ends_newline :: "bytes \<Rightarrow> bool" where
  "ends_newline s \<longleftrightarrow> s \<noteq> [] \<and> last s = newline"

interpretation nl: end_line_matcher NewLineMatcher ends_newline
proof unfold_locales
  fix start end' :: nat and appender exists :: bytes
  assume "start \<le> end'" "end' < length appender"
  then show "Match NewLineMatcher exists appender start end' \<longleftrightarrow>
      ends_newline (exists @ take (end' + 1 - start) (drop start appender))"
    by (simp only: take_segment_snoc) (simp add: NewLineMatcher_def ends_newline_def)
next
  fix s
  assume "ends_newline s"
  then show "SeparatorLen NewLineMatcher \<le> length s"
    by (cases s) (auto simp: NewLineMatcher_def ends_newline_def)
qed

interpretation bsm: end_line_matcher "NewBytesSequenceMatcher sequence" "suffix sequence" for sequence
  by unfold_locales
    (auto simp: NewBytesSequenceMatcher_def BytesSequence_Match_suffix dest: suffix_length_le)

definition source_matcher :: "matcher \<Rightarrow> bool" where
  "source_matcher m \<longleftrightarrow> m = NewLineMatcher \<or> (\<exists>sequence. m = NewBytesSequenceMatcher sequence)"

lemma source_matcher_ends:
  "source_matcher m \<Longrightarrow> \<exists>ends. end_line_matcher m ends"
  using nl.end_line_matcher_axioms bsm.end_line_matcher_axioms by (auto simp: source_matcher_def)

text \<open>C3: the lines a decoder emits, and the state it is left in, do not depend on how the input was
  cut into chunks: decoding the chunks one after the other is decoding their concatenation.\<close>

theorem Decoder_chunking:
  assumes "source_matcher (d_matcher d)"
  shows "Decoder_run d cs = decodeIncomingData d (concat cs)"
  using source_matcher_ends [OF assms] end_line_matcher.Decoder_run_concat by blast

theorem Decoder_chunking_witness:
  "Decoder_run (New_Decoder 8 (NewBytesSequenceMatcher Utf16leEOL)) [''ab'', [newline], [CHR 0x00, CHR ''c'']] =
   decodeIncomingData (New_Decoder 8 (NewBytesSequenceMatcher Utf16leEOL)) (''ab'' @ [newline, CHR 0x00, CHR ''c''])"
  using Decoder_chunking [of "New_Decoder 8 (NewBytesSequenceMatcher Utf16leEOL)"
      "[''ab'', [newline], [CHR 0x00, CHR ''c'']]"]
  by (auto simp: source_matcher_def New_Decoder_def)

text \<open>Every raw byte is accounted for exactly once: the raw lengths of the emitted lines plus the
  raw length still buffered are what was buffered before plus the bytes read, and the line
  counter grows by the number of emitted lines.\<close>

theorem Decoder_accounts_bytes:
  assumes "source_matcher (d_matcher d)" and "Decoder_run d cs = Inr (d', outs)"
  shows "sum_list (map di_rawDataLen outs) + d_rawDataLen d' = d_rawDataLen d + length (concat cs) \<and>
    linesDecoded d' = linesDecoded d + length outs"
proof -
  obtain ends where e: "end_line_matcher (d_matcher d) ends"
    using source_matcher_ends [OF assms(1)] by blast
  then have "byte_run ends d (concat cs) = Inr (d', outs)"
    using assms(2) end_line_matcher.Decoder_run_concat [OF e refl]
      end_line_matcher.decodeIncomingData_byte_run [OF e refl] by simp
  then show ?thesis using byte_run_account by blast
qed

text \<open>With a separator of at least one byte that is not longer than the line limit (256000 in the
  agent), decoding never panics and no emitted line exceeds the limit.\<close>

theorem Decoder_total_bounded:
  assumes "source_matcher (d_matcher d)" and "0 < SeparatorLen (d_matcher d)"
    and "SeparatorLen (d_matcher d) \<le> contentLenLimit d" and "length (lineBuffer d) \<le> contentLenLimit d"
  shows "\<exists>d' outs. Decoder_run d cs = Inr (d', outs) \<and> length (lineBuffer d') \<le> contentLenLimit d \<and>
    (\<forall>out \<in> set outs. length (di_content out) \<le> contentLenLimit d)"
proof -
  obtain ends where e: "end_line_matcher (d_matcher d) ends"
    using source_matcher_ends [OF assms(1)] by blast
  then show ?thesis
    using end_line_matcher.Decoder_run_concat [OF e refl] end_line_matcher.byte_run_total [OF e refl assms(2-4)]
      end_line_matcher.decodeIncomingData_byte_run [OF e refl] by simp
qed

theorem Decoder_total_bounded_witness:
  "\<exists>d' outs. Decoder_run (New_Decoder defaultContentLenLimit NewLineMatcher) [''ab'', [newline]] = Inr (d', outs) \<and>
     length (lineBuffer d') \<le> defaultContentLenLimit"
  using Decoder_total_bounded [of "New_Decoder defaultContentLenLimit NewLineMatcher" "[''ab'', [newline]]"]
  by (auto simp: source_matcher_def New_Decoder_def NewLineMatcher_def defaultContentLenLimit_def)

theorem Decoder_accounts_bytes_witness:
  "\<exists>d' outs. Decoder_run (New_Decoder 100 NewLineMatcher) [''ab'', [newline, CHR ''c'']] = Inr (d', outs) \<and>
     sum_list (map di_rawDataLen outs) + d_rawDataLen d' = 4"
proof -
  have sm: "source_matcher (d_matcher (New_Decoder 100 NewLineMatcher))"
    by (simp add: source_matcher_def New_Decoder_def)
  obtain d' outs where r: "Decoder_run (New_Decoder 100 NewLineMatcher) [''ab'', [newline, CHR ''c'']] = Inr (d', outs)"
    using nl.byte_run_total [of "New_Decoder 100 NewLineMatcher" "''ab'' @ [newline, CHR ''c'']"]
      nl.Decoder_run_concat [of "New_Decoder 100 NewLineMatcher" "[''ab'', [newline, CHR ''c'']]"]
      nl.decodeIncomingData_byte_run [of "New_Decoder 100 NewLineMatcher"]
    by (auto simp: New_Decoder_def NewLineMatcher_def)
  with Decoder_accounts_bytes [OF sm r] show ?thesis by (simp add: New_Decoder_def)
qed

subsection \<open>What a newline decoder emits\<close>

definition newline_decoder :: "nat \<Rightarrow> nat \<Rightarrow> bytes \<Rightarrow> decoder" where
  "newline_decoder limit n buf =
     \<lparr>linesDecoded = n, d_matcher = NewLineMatcher, lineBuffer = buf, contentLenLimit = limit,
      d_rawDataLen = length buf\<rparr>"

lemma New_Decoder_newline: "New_Decoder limit NewLineMatcher = newline_decoder limit 0 []"
  by (simp add: New_Decoder_def newline_decoder_def)

lemma byte_run_collect:
  assumes "newline \<notin> set xs" and "length buf + length xs \<le> limit"
  shows "byte_run ends_newline (newline_decoder limit n buf) xs = Inr (newline_decoder limit n (buf @ xs), [])"
  using assms
proof (induction xs arbitrary: buf)
  case (Cons x xs)
  then have "byte_step ends_newline (newline_decoder limit n buf) x = Inr (newline_decoder limit n (buf @ [x]), [])"
    by (auto simp: byte_step_def newline_decoder_def ends_newline_def Let_def)
  with Cons.IH [of "buf @ [x]"] Cons.prems show ?case by simp
qed (simp add: newline_decoder_def)

lemma byte_step_newline:
  assumes "length buf < limit"
  shows "byte_step ends_newline (newline_decoder limit n buf) newline =
     Inr (newline_decoder limit (Suc n) [], [\<lparr>di_content = buf, di_rawDataLen = length buf + 1\<rparr>])"
  using assms
  by (simp add: byte_step_def newline_decoder_def ends_newline_def Let_def sendLine_def NewLineMatcher_def)

lemma byte_run_line:
  assumes "newline \<notin> set l" and "length buf + length l < limit"
  shows "byte_run ends_newline (newline_decoder limit n buf) (l @ newline # xs) =
     and_then (byte_run ends_newline (newline_decoder limit (Suc n) []) xs)
       (\<lambda>(d, outs). Inr (d, \<lparr>di_content = buf @ l, di_rawDataLen = length (buf @ l) + 1\<rparr> # outs))"
  using assms
  by (simp add: byte_run_append byte_run_collect byte_step_newline)

lemma byte_run_lines:
  assumes "\<forall>l \<in> set ls. newline \<notin> set l \<and> length l < limit"
  shows "byte_run ends_newline (newline_decoder limit n []) (concat (map (\<lambda>l. l @ [newline]) ls) @ xs) =
     and_then (byte_run ends_newline (newline_decoder limit (n + length ls) []) xs)
       (\<lambda>(d, outs). Inr (d, map (\<lambda>l. \<lparr>di_content = l, di_rawDataLen = length l + 1\<rparr>) ls @ outs))"
  using assms
proof (induction ls arbitrary: n)
  case Nil
  show ?case by (simp add: and_then_def split: sum.splits)
next
  case (Cons l ls)
  then show ?case by (simp add: byte_run_line and_then_assoc split_def)
qed

lemma newline_decoder_run:
  "Decoder_run (New_Decoder limit NewLineMatcher) cs = byte_run ends_newline (newline_decoder limit 0 []) (concat cs)"
  using nl.Decoder_run_concat [of "newline_decoder limit 0 []" cs]
    nl.decodeIncomingData_byte_run [of "newline_decoder limit 0 []" "concat cs"]
  by (simp add: New_Decoder_newline) (simp add: newline_decoder_def)



text \<open>A line of exactly the limit is emitted when the byte after it is read, and that byte is
  not compared with the separator: when it is the newline that ends the line, the newline is
  kept and starts the content of the next line.\<close>

theorem Decoder_newline_after_limit:
  assumes "newline \<notin> set l" and "length l = limit" and "0 < limit"
    and "newline \<notin> set k" and "Suc (length k) < limit" and "concat cs = l @ newline # k @ [newline]"
  shows "Decoder_run (New_Decoder limit NewLineMatcher) cs =
     Inr (\<lparr>linesDecoded = 2, d_matcher = NewLineMatcher, lineBuffer = [], contentLenLimit = limit, d_rawDataLen = 0\<rparr>,
       [\<lparr>di_content = l, di_rawDataLen = limit\<rparr>,
        \<lparr>di_content = newline # k, di_rawDataLen = length k + 2\<rparr>])"
proof -
  have step: "byte_step ends_newline (newline_decoder limit 0 l) newline =
      Inr (newline_decoder limit 1 [newline], [\<lparr>di_content = l, di_rawDataLen = limit\<rparr>])"
    using assms(2,3) by (simp add: byte_step_def newline_decoder_def Let_def sendLine_def NewLineMatcher_def)
  have "byte_run ends_newline (newline_decoder limit 0 []) (l @ newline # k @ [newline]) =
      Inr (newline_decoder limit 2 [],
        [\<lparr>di_content = l, di_rawDataLen = limit\<rparr>, \<lparr>di_content = newline # k, di_rawDataLen = length k + 2\<rparr>])"
    using assms byte_run_line [of k "[newline]" limit 1 "[]"]
    by (simp add: byte_run_append [of _ _ l] byte_run_collect step numeral_2_eq_2)
  then show ?thesis
    unfolding newline_decoder_run assms(6) by (simp add: newline_decoder_def)
qed

theorem Decoder_newline_after_limit_witness:
  "Decoder_run (New_Decoder 3 NewLineMatcher) [''abc'' @ [newline] @ ''d'', [newline]] =
     Inr (\<lparr>linesDecoded = 2, d_matcher = NewLineMatcher, lineBuffer = [], contentLenLimit = 3, d_rawDataLen = 0\<rparr>,
       [\<lparr>di_content = ''abc'', di_rawDataLen = 3\<rparr>, \<lparr>di_content = newline # ''d'', di_rawDataLen = 3\<rparr>])"
  using Decoder_newline_after_limit [of "''abc''" 3 "''d''" "[''abc'' @ [newline] @ ''d'', [newline]]"]
  by (simp add: newline_def)

end
