(* ===== verification/Log_Handlers.thy ===== *)
theory Log_Handlers
  imports Log_Decoder
begin

text \<open>
  Line parsers and line handlers: \<open>src/logs/parser/parser.go\<close> and, of
  \<open>src/logs/decoder\<close>, \<open>line_parser.go\<close>, \<open>line_handler.go\<close>, \<open>single_line_handler.go\<close>,
  \<open>multiline_handler.go\<close> and \<open>auto_multiline_handler.go\<close>. A goroutine that reads a channel is a
  function from its state and one event (a line, the tick of the flush timer, the closing of
  its channel) to the new state and the messages it sends, in order. The wall clock and the
  race of a timer with a line are inputs of an event; the regular expression engine and the
  character set decoders are parameters.

  The locale \<open>raw_accounting\<close> is the contract a stage owes the tailer, which computes from
  \<open>RawDataLen\<close> the offset a restart continues from: no stage invents or loses raw bytes. All
  stages interpret it, and \<open>log_step\<close>, the interleaved run of the goroutines, inherits it.
\<close>

subsection \<open>Parsers\<close>

record dmessage =
  Content :: bytes
  Status :: string
  RawDataLen :: nat
  Timestamp :: string
  IngestionTimestamp :: int

definition NewMessage :: "int \<Rightarrow> bytes \<Rightarrow> string \<Rightarrow> nat \<Rightarrow> string \<Rightarrow> dmessage" where
  "NewMessage now content status rawDataLen timestamp =
     \<lparr>Content = content, Status = status, RawDataLen = rawDataLen, Timestamp = timestamp,
      IngestionTimestamp = now\<rparr>"

text \<open>
  A parser returns content, severity, timestamp and whether the line is partial. Its error is
  only logged by both callers and is left out; a panic is not.
\<close>

record parser =
  Parse :: "bytes \<Rightarrow> (bytes \<times> string \<times> string \<times> bool) go"
  SupportsPartialLine :: bool

definition NoopParser :: parser where
  "NoopParser = \<lparr>Parse = (\<lambda>msg. Inr (msg, [], [], False)), SupportsPartialLine = False\<rparr>"

datatype charset =
  UTF16_LittleEndian_UseBOM | UTF16_BigEndian_UseBOM | Charset_GBK | Charset_HZGB2312
  | Charset_GB18030 | Charset_Big5

fun parser_encoding :: "nat \<Rightarrow> charset option" where
  "parser_encoding e =
     (if e = 0 then Some UTF16_LittleEndian_UseBOM
      else if e = 1 then Some UTF16_BigEndian_UseBOM
      else if e = 5 \<or> e = 3 then Some Charset_GBK
      else if e = 4 then Some Charset_HZGB2312
      else if e = 2 then Some Charset_GB18030
      else if e = 6 then Some Charset_Big5
      else None)"

definition NewDecodingParser :: "(charset \<Rightarrow> bytes \<Rightarrow> bytes) \<Rightarrow> nat \<Rightarrow> parser go" where
  "NewDecodingParser transform_Bytes e =
     (case parser_encoding e of
        None \<Rightarrow> Inl NilDereference
      | Some enc \<Rightarrow>
          Inr \<lparr>Parse = (\<lambda>msg. Inr (transform_Bytes enc msg, [], [], False)), SupportsPartialLine = False\<rparr>)"

subsection \<open>The single line handler\<close>

definition truncatedFlag :: bytes where "truncatedFlag = ''...TRUNCATED...''"

definition escapedLineFeed :: bytes where "escapedLineFeed = [newline]"

record single_line_handler =
  s_shouldTruncate :: bool
  s_lineLimit :: nat

definition NewSingleLineHandler :: "nat \<Rightarrow> single_line_handler" where
  "NewSingleLineHandler lineLimit = \<lparr>s_shouldTruncate = False, s_lineLimit = lineLimit\<rparr>"

definition SingleLineHandler_process ::
  "single_line_handler \<Rightarrow> dmessage \<Rightarrow> single_line_handler \<times> dmessage" where
  "SingleLineHandler_process h message =
     (let isTruncated = s_shouldTruncate h;
          h1 = h\<lparr>s_shouldTruncate := False\<rparr>;
          c1 = TrimSpace (Content message);
          c2 = (if isTruncated then truncatedFlag @ c1 else c1) in
      if length c2 < s_lineLimit h1 then (h1, message\<lparr>Content := c2\<rparr>)
      else (h1\<lparr>s_shouldTruncate := True\<rparr>, message\<lparr>Content := c2 @ truncatedFlag\<rparr>))"

subsection \<open>The multi line handler\<close>

record multi_line_handler =
  newContentRe :: "bytes \<Rightarrow> bool"
  m_buffer :: bytes
  m_lineLimit :: nat
  m_shouldTruncate :: bool
  linesLen :: nat
  m_status :: string
  m_timestamp :: string
  m_count :: nat

definition NewMultiLineHandler :: "(bytes \<Rightarrow> bool) \<Rightarrow> nat \<Rightarrow> multi_line_handler" where
  "NewMultiLineHandler re lineLimit =
     \<lparr>newContentRe = re, m_buffer = [], m_lineLimit = lineLimit, m_shouldTruncate = False, linesLen = 0,
      m_status = [], m_timestamp = [], m_count = 0\<rparr>"

definition sendBuffer :: "int \<Rightarrow> multi_line_handler \<Rightarrow> multi_line_handler \<times> dmessage list" where
  "sendBuffer now h =
     (let content = TrimSpace (m_buffer h);
          outs = (if length content > 0 \<or> linesLen h > 0
                  then [NewMessage now content (m_status h) (linesLen h) (m_timestamp h)] else []) in
      (h\<lparr>m_buffer := [], linesLen := 0, m_shouldTruncate := False\<rparr>, outs))"

definition MultiLineHandler_process ::
  "int \<Rightarrow> multi_line_handler \<Rightarrow> dmessage \<Rightarrow> multi_line_handler \<times> dmessage list" where
  "MultiLineHandler_process now h message =
     (let (h1, outs1) = (if newContentRe h (Content message)
                         then sendBuffer now (h\<lparr>m_count := m_count h + 1\<rparr>) else (h, []));
          isTruncated = m_shouldTruncate h1;
          h2 = h1\<lparr>m_shouldTruncate := False, linesLen := linesLen h1 + RawDataLen message,
                  m_timestamp := Timestamp message, m_status := Status message\<rparr>;
          b1 = (if length (m_buffer h2) > 0 then m_buffer h2 @ escapedLineFeed else m_buffer h2);
          b2 = (if isTruncated then b1 @ truncatedFlag else b1);
          b3 = b2 @ Content message in
      if length b3 \<ge> m_lineLimit h2 then
        (let (h3, outs2) = sendBuffer now (h2\<lparr>m_buffer := b3 @ truncatedFlag\<rparr>) in
         (h3\<lparr>m_shouldTruncate := True\<rparr>, outs1 @ outs2))
      else (h2\<lparr>m_buffer := b3\<rparr>, outs1))"

subsection \<open>The handler that looks for a pattern\<close>

text \<open>
  The patterns are kept as their text; \<open>re_match\<close> is the regular expression engine. In the
  literals below a tilde stands for a backslash.
\<close>

definition re_text :: "string \<Rightarrow> string" where
  "re_text = map (\<lambda>c. if c = CHR ''~'' then CHR 0x5C else c)"

definition formatsToTry :: "string list" where
  "formatsToTry = map re_text
     [''^~d+-~d+-~d+T~d+:~d+:~d+(~.~d+)?(Z~d*:?~d*)?'',
      ''^[A-Za-z_]+ [A-Za-z_]+ +~d+ ~d+:~d+:~d+ ~d+'',
      ''^[A-Za-z_]+ [A-Za-z_]+ +~d+ ~d+:~d+:~d+( [A-Za-z_]+ ~d+)?'',
      ''^[A-Za-z_]+ [A-Za-z_]+ ~d+ ~d+:~d+:~d+ [~-~+]~d+ ~d+'',
      ''^~d+ [A-Za-z_]+ ~d+ ~d+:~d+ [A-Za-z_]+'',
      ''^~d+ [A-Za-z_]+ ~d+ ~d+:~d+ -~d+'',
      ''^[A-Za-z_]+, ~d+-[A-Za-z_]+-~d+ ~d+:~d+:~d+ [A-Za-z_]+'',
      ''^[A-Za-z_]+, ~d+ [A-Za-z_]+ ~d+ ~d+:~d+:~d+ [A-Za-z_]+'',
      ''^[A-Za-z_]+, ~d+ [A-Za-z_]+ ~d+ ~d+:~d+:~d+ -~d+'',
      ''^~d+-~d+-~d+[A-Za-z_]+~d+:~d+:~d+~.~d+[A-Za-z_]+~d+:~d+'',
      ''^~d+-~d+-~d+ ~d+:~d+:~d+(,~d+)?'',
      ''^[A-Za-z_]+ ~d+, ~d+ ~d+:~d+:~d+ (AM|PM)'']"

record scored_pattern =
  score :: nat
  pat :: string

datatype processing_func = ProcessAndTry | ProcessSingleLine

record auto_multiline_handler =
  multiLineHandler :: "multi_line_handler option"
  singleLineHandler :: "single_line_handler option"
  isRunning :: bool
  linesToAssess :: nat
  linesTested :: nat
  a_lineLimit :: nat
  scoredMatches :: "scored_pattern list"
  processsingFunc :: processing_func
  detectedPattern :: "string option"

definition NewAutoMultilineHandler ::
  "nat \<Rightarrow> nat \<Rightarrow> string list \<Rightarrow> string option \<Rightarrow> auto_multiline_handler" where
  "NewAutoMultilineHandler lineLimit toAssess additionalPatterns detected =
     \<lparr>multiLineHandler = None, singleLineHandler = Some (NewSingleLineHandler lineLimit),
      isRunning = True, linesToAssess = toAssess, linesTested = 0, a_lineLimit = lineLimit,
      scoredMatches = map (\<lambda>v. \<lparr>score = 0, pat = v\<rparr>) (additionalPatterns @ formatsToTry),
      processsingFunc = ProcessAndTry, detectedPattern = detected\<rparr>"

text \<open>
  \<open>sort.Slice\<close> on at most twelve elements is an insertion sort; the agent passes no additional
  patterns, so that there are twelve. An element moves left past every element with a
  strictly smaller score.
\<close>

fun insert_score :: "scored_pattern \<Rightarrow> scored_pattern list \<Rightarrow> scored_pattern list" where
  "insert_score x [] = [x]"
| "insert_score x (y # ys) = (if score x > score y then x # y # ys else y # insert_score x ys)"

definition sort_scores :: "scored_pattern list \<Rightarrow> scored_pattern list" where
  "sort_scores xs = fold insert_score xs []"

fun score_index :: "(string \<Rightarrow> bytes \<Rightarrow> bool) \<Rightarrow> bytes \<Rightarrow> nat \<Rightarrow> scored_pattern list \<Rightarrow> nat option" where
  "score_index re_match content i [] = None"
| "score_index re_match content i (p # ps) =
     (if re_match (pat p) content then Some i else score_index re_match content (Suc i) ps)"

definition score_line ::
  "(string \<Rightarrow> bytes \<Rightarrow> bool) \<Rightarrow> bytes \<Rightarrow> scored_pattern list \<Rightarrow> scored_pattern list" where
  "score_line re_match content ps =
     (case score_index re_match content 0 ps of
        None \<Rightarrow> ps
      | Some i \<Rightarrow>
          (let ps' = ps[i := (ps ! i)\<lparr>score := score (ps ! i) + 1\<rparr>] in
           if i \<noteq> 0 then sort_scores ps' else ps'))"

definition switchToMultilineHandler ::
  "(string \<Rightarrow> bytes \<Rightarrow> bool) \<Rightarrow> string \<Rightarrow> auto_multiline_handler \<Rightarrow> auto_multiline_handler" where
  "switchToMultilineHandler re_match r h =
     h\<lparr>isRunning := False, singleLineHandler := None,
       multiLineHandler := Some (NewMultiLineHandler (re_match r) (a_lineLimit h))\<rparr>"

text \<open>
  \<open>meets_threshold score tested\<close> is the comparison of floating point numbers
  \<open>float64(score) / float64(tested) >= matchThreshold\<close>; \<open>timeout\<close> tells whether the match
  timer had fired.
\<close>

definition processAndTry ::
  "(string \<Rightarrow> bytes \<Rightarrow> bool) \<Rightarrow> (nat \<Rightarrow> nat \<Rightarrow> bool) \<Rightarrow> bool \<Rightarrow> auto_multiline_handler \<Rightarrow> dmessage \<Rightarrow>
   (auto_multiline_handler \<times> dmessage) go" where
  "processAndTry re_match meets_threshold timeout h message =
     (case singleLineHandler h of
        None \<Rightarrow> Inl NilDereference
      | Some sh \<Rightarrow>
          (let (sh', message') = SingleLineHandler_process sh message;
               h1 = h\<lparr>singleLineHandler := Some sh',
                      scoredMatches := score_line re_match (Content message') (scoredMatches h),
                      linesTested := linesTested h + 1\<rparr> in
           if linesTested h1 \<ge> linesToAssess h1 \<or> timeout then
             (case scoredMatches h1 of
                [] \<Rightarrow> Inl IndexOutOfRange
              | topMatch # _ \<Rightarrow>
                  if meets_threshold (score topMatch) (linesTested h1)
                  then Inr (switchToMultilineHandler re_match (pat topMatch)
                              (h1\<lparr>detectedPattern := Some (pat topMatch)\<rparr>), message')
                  else Inr (h1\<lparr>processsingFunc := ProcessSingleLine\<rparr>, message'))
           else Inr (h1, message')))"

text \<open>
  One line read from the input channel: by the loop of the handler while it runs, by the
  multi line handler that took the channel over afterwards.
\<close>

definition AutoMultilineHandler_line ::
  "(string \<Rightarrow> bytes \<Rightarrow> bool) \<Rightarrow> (nat \<Rightarrow> nat \<Rightarrow> bool) \<Rightarrow> bool \<Rightarrow> int \<Rightarrow> auto_multiline_handler \<Rightarrow> dmessage \<Rightarrow>
   (auto_multiline_handler \<times> dmessage list) go" where
  "AutoMultilineHandler_line re_match meets_threshold timeout now h line =
     (if isRunning h then
        (case processsingFunc h of
           ProcessAndTry \<Rightarrow>
             and_then (processAndTry re_match meets_threshold timeout h line) (\<lambda>(h', m). Inr (h', [m]))
         | ProcessSingleLine \<Rightarrow>
             (case singleLineHandler h of
                None \<Rightarrow> Inl NilDereference
              | Some sh \<Rightarrow>
                  (let (sh', m) = SingleLineHandler_process sh line in
                   Inr (h\<lparr>singleLineHandler := Some sh'\<rparr>, [m]))))
      else
        (case multiLineHandler h of
           None \<Rightarrow> Inl NilDereference
         | Some mh \<Rightarrow>
             (let (mh', outs) = MultiLineHandler_process now mh line in
              Inr (h\<lparr>multiLineHandler := Some mh'\<rparr>, outs))))"

subsection \<open>Handlers as stages\<close>

datatype 'a event = Line 'a | Tick | Close

record circumstances =
  now :: int
  timer_fired :: bool

datatype line_handler =
    SingleLine single_line_handler
  | MultiLine multi_line_handler
  | AutoMultiLine auto_multiline_handler

fun MultiLineHandler_run_step ::
  "int \<Rightarrow> multi_line_handler \<Rightarrow> dmessage event \<Rightarrow> multi_line_handler \<times> dmessage list" where
  "MultiLineHandler_run_step t h (Line message) = MultiLineHandler_process t h message"
| "MultiLineHandler_run_step t h Tick = sendBuffer t h"
| "MultiLineHandler_run_step t h Close = sendBuffer t h"

fun SingleLineHandler_run_step ::
  "single_line_handler \<Rightarrow> dmessage event \<Rightarrow> single_line_handler \<times> dmessage list" where
  "SingleLineHandler_run_step h (Line message) =
     (let (h', m) = SingleLineHandler_process h message in (h', [m]))"
| "SingleLineHandler_run_step h e = (h, [])"

definition AutoMultilineHandler_run_step ::
  "(string \<Rightarrow> bytes \<Rightarrow> bool) \<Rightarrow> (nat \<Rightarrow> nat \<Rightarrow> bool) \<Rightarrow> circumstances \<Rightarrow> auto_multiline_handler \<Rightarrow>
   dmessage event \<Rightarrow> (auto_multiline_handler \<times> dmessage list) go" where
  "AutoMultilineHandler_run_step re_match meets_threshold c h e =
     (case e of
        Line message \<Rightarrow> AutoMultilineHandler_line re_match meets_threshold (timer_fired c) (now c) h message
      | _ \<Rightarrow>
          (if isRunning h then Inr (h, [])
           else case multiLineHandler h of
             None \<Rightarrow> Inl NilDereference
           | Some mh \<Rightarrow>
               (let (mh', outs) = MultiLineHandler_run_step (now c) mh e in
                Inr (h\<lparr>multiLineHandler := Some mh'\<rparr>, outs))))"

definition LineHandler_step ::
  "(string \<Rightarrow> bytes \<Rightarrow> bool) \<Rightarrow> (nat \<Rightarrow> nat \<Rightarrow> bool) \<Rightarrow> line_handler \<Rightarrow> circumstances \<times> dmessage event \<Rightarrow>
   (line_handler \<times> dmessage list) go" where
  "LineHandler_step re_match meets_threshold h ce =
     (case ce of (c, e) \<Rightarrow>
       (case h of
          SingleLine s \<Rightarrow> (let (s', outs) = SingleLineHandler_run_step s e in Inr (SingleLine s', outs))
        | MultiLine m \<Rightarrow> (let (m', outs) = MultiLineHandler_run_step (now c) m e in Inr (MultiLine m', outs))
        | AutoMultiLine a \<Rightarrow>
            and_then (AutoMultilineHandler_run_step re_match meets_threshold c a e)
              (\<lambda>(a', outs). Inr (AutoMultiLine a', outs))))"

subsection \<open>Line parsers as stages\<close>

record multi_line_parser =
  l_buffer :: bytes
  l_parser :: parser
  l_rawDataLen :: nat
  l_lineLimit :: nat
  l_status :: string
  l_timestamp :: string

definition NewMultiLineParser :: "parser \<Rightarrow> nat \<Rightarrow> multi_line_parser" where
  "NewMultiLineParser p lineLimit =
     \<lparr>l_buffer = [], l_parser = p, l_rawDataLen = 0, l_lineLimit = lineLimit, l_status = [], l_timestamp = []\<rparr>"

definition SingleLineParser_process :: "int \<Rightarrow> parser \<Rightarrow> decoded_input \<Rightarrow> dmessage go" where
  "SingleLineParser_process t p input =
     and_then (Parse p (di_content input))
       (\<lambda>(content, status, timestamp, _). Inr (NewMessage t content status (di_rawDataLen input) timestamp))"

definition MultiLineParser_sendLine :: "int \<Rightarrow> multi_line_parser \<Rightarrow> multi_line_parser \<times> dmessage list" where
  "MultiLineParser_sendLine t p =
     (p\<lparr>l_buffer := [], l_rawDataLen := 0\<rparr>,
      if length (l_buffer p) > 0 \<or> l_rawDataLen p > 0
      then [NewMessage t (l_buffer p) (l_status p) (l_rawDataLen p) (l_timestamp p)] else [])"

definition MultiLineParser_process ::
  "int \<Rightarrow> multi_line_parser \<Rightarrow> decoded_input \<Rightarrow> (multi_line_parser \<times> dmessage list) go" where
  "MultiLineParser_process t p input =
     and_then (Parse (l_parser p) (di_content input))
       (\<lambda>(content, status, timestamp, partial).
          let p' = p\<lparr>l_rawDataLen := l_rawDataLen p + di_rawDataLen input, l_timestamp := timestamp,
                     l_status := status, l_buffer := l_buffer p @ content\<rparr> in
          Inr (if \<not> partial \<or> length (l_buffer p') \<ge> l_lineLimit p' then MultiLineParser_sendLine t p'
               else (p', [])))"

datatype line_parser = SingleLineP parser | MultiLineP multi_line_parser

fun LineParser_step :: "line_parser \<Rightarrow> int \<times> decoded_input event \<Rightarrow> (line_parser \<times> dmessage list) go" where
  "LineParser_step (SingleLineP p) (t, Line input) =
     and_then (SingleLineParser_process t p input) (\<lambda>m. Inr (SingleLineP p, [m]))"
| "LineParser_step (SingleLineP p) (t, _) = Inr (SingleLineP p, [])"
| "LineParser_step (MultiLineP p) (t, Line input) =
     and_then (MultiLineParser_process t p input) (\<lambda>(p', outs). Inr (MultiLineP p', outs))"
| "LineParser_step (MultiLineP p) (t, _) =
     (let (p', outs) = MultiLineParser_sendLine t p in Inr (MultiLineP p', outs))"

subsection \<open>The contract of a stage\<close>

fun stage_run :: "('s \<Rightarrow> 'i \<Rightarrow> ('s \<times> 'o list) go) \<Rightarrow> 's \<Rightarrow> 'i list \<Rightarrow> ('s \<times> 'o list) go" where
  "stage_run step s [] = Inr (s, [])"
| "stage_run step s (i # is) =
     and_then (step s i)
       (\<lambda>(s', outs). and_then (stage_run step s' is) (\<lambda>(s'', outs'). Inr (s'', outs @ outs')))"

fun event_raw :: "('a \<Rightarrow> nat) \<Rightarrow> 'a event \<Rightarrow> nat" where
  "event_raw raw (Line x) = raw x"
| "event_raw raw Tick = 0"
| "event_raw raw Close = 0"

locale raw_accounting =
  fixes step :: "'s \<Rightarrow> 'i \<Rightarrow> ('s \<times> 'o list) go" and ok :: "'s \<Rightarrow> bool"
    and pending :: "'s \<Rightarrow> nat" and in_raw :: "'i \<Rightarrow> nat" and out_raw :: "'o \<Rightarrow> nat"
  assumes step_law: "ok s \<Longrightarrow> \<exists>s' outs. step s i = Inr (s', outs) \<and> ok s' \<and>
      sum_list (map out_raw outs) + pending s' = pending s + in_raw i"
begin

lemma step_accountD:
  "ok s \<Longrightarrow> step s i = Inr (s', outs) \<Longrightarrow>
     ok s' \<and> sum_list (map out_raw outs) + pending s' = pending s + in_raw i"
  using step_law [of s i] by auto

lemma run_law:
  "ok s \<Longrightarrow> \<exists>s' outs. stage_run step s is = Inr (s', outs) \<and> ok s' \<and>
     sum_list (map out_raw outs) + pending s' = pending s + sum_list (map in_raw is)"
proof (induction "is" arbitrary: s)
  case (Cons i "is")
  from step_law [OF Cons.prems, of i] obtain s1 o1 where s1: "step s i = Inr (s1, o1)" "ok s1"
    "sum_list (map out_raw o1) + pending s1 = pending s + in_raw i" by blast
  from Cons.IH [OF s1(2)] obtain s2 o2 where "stage_run step s1 is = Inr (s2, o2)" "ok s2"
    "sum_list (map out_raw o2) + pending s2 = pending s1 + sum_list (map in_raw is)" by blast
  with s1 show ?case by auto
qed auto

end

lemma SingleLineHandler_process_raw:
  "SingleLineHandler_process h m = (h', m') \<Longrightarrow> RawDataLen m' = RawDataLen m"
  by (auto simp: SingleLineHandler_process_def Let_def split: if_splits)

lemma sendBuffer_raw:
  "sendBuffer t h = (h', outs) \<Longrightarrow> sum_list (map RawDataLen outs) = linesLen h \<and> linesLen h' = 0"
  by (auto simp: sendBuffer_def Let_def NewMessage_def split: if_splits)

lemma MultiLineHandler_process_raw:
  assumes "MultiLineHandler_process t h m = (h', outs)"
  shows "sum_list (map RawDataLen outs) + linesLen h' = linesLen h + RawDataLen m"
  using assms
  by (cases "newContentRe h (Content m)")
    (auto simp: MultiLineHandler_process_def Let_def split: if_splits prod.splits dest!: sendBuffer_raw)

lemma MultiLineHandler_run_step_raw:
  "MultiLineHandler_run_step t h e = (h', outs) \<Longrightarrow>
     sum_list (map RawDataLen outs) + linesLen h' = linesLen h + event_raw RawDataLen e"
  by (cases e) (auto dest: MultiLineHandler_process_raw sendBuffer_raw)

lemma SingleLineHandler_run_step_raw:
  "SingleLineHandler_run_step h e = (h', outs) \<Longrightarrow>
     sum_list (map RawDataLen outs) = event_raw RawDataLen e"
  by (cases e) (auto split: prod.splits dest: SingleLineHandler_process_raw)

definition auto_ok :: "auto_multiline_handler \<Rightarrow> bool" where
  "auto_ok h \<longleftrightarrow> scoredMatches h \<noteq> [] \<and>
     (if isRunning h then singleLineHandler h \<noteq> None else multiLineHandler h \<noteq> None)"

fun handler_ok :: "line_handler \<Rightarrow> bool" where
  "handler_ok (AutoMultiLine a) = auto_ok a"
| "handler_ok _ = True"

fun handler_pending :: "line_handler \<Rightarrow> nat" where
  "handler_pending (SingleLine s) = 0"
| "handler_pending (MultiLine m) = linesLen m"
| "handler_pending (AutoMultiLine a) =
     (if isRunning a then 0 else case multiLineHandler a of None \<Rightarrow> 0 | Some m \<Rightarrow> linesLen m)"

fun parser_pending :: "line_parser \<Rightarrow> nat" where
  "parser_pending (SingleLineP p) = 0"
| "parser_pending (MultiLineP p) = l_rawDataLen p"

subsection \<open>The scores of the patterns\<close>

definition scores_desc :: "scored_pattern list \<Rightarrow> bool" where
  "scores_desc ps \<longleftrightarrow> sorted_wrt (\<lambda>p q. score q \<le> score p) ps"

lemma mset_insert_score [simp]: "mset (insert_score x ps) = add_mset x (mset ps)"
  by (induction x ps rule: insert_score.induct) auto

lemma set_insert_score [simp]: "set (insert_score x ps) = insert x (set ps)"
  by (induction x ps rule: insert_score.induct) auto

lemma insert_score_desc: "scores_desc ps \<Longrightarrow> scores_desc (insert_score x ps)"
  by (induction x ps rule: insert_score.induct) (fastforce simp: scores_desc_def)+

lemma fold_insert_score:
  "scores_desc acc \<Longrightarrow> scores_desc (fold insert_score ps acc) \<and> mset (fold insert_score ps acc) = mset ps + mset acc"
  by (induction ps arbitrary: acc) (auto simp: insert_score_desc)

lemma sort_scores_desc [simp]: "scores_desc (sort_scores ps)"
  and mset_sort_scores [simp]: "mset (sort_scores ps) = mset ps"
  using fold_insert_score [of "[]" ps] by (auto simp: sort_scores_def scores_desc_def)

lemma score_index_SomeD:
  "score_index re content k ps = Some i \<Longrightarrow>
     \<exists>d. i = k + d \<and> d < length ps \<and> re (pat (ps ! d)) content"
proof (induction ps arbitrary: k)
  case (Cons p ps)
  show ?case
  proof (cases "re (pat p) content")
    case False
    with Cons obtain d where "i = Suc k + d" "d < length ps" "re (pat (ps ! d)) content" by fastforce
    then show ?thesis by (intro exI [of _ "Suc d"]) simp
  qed (use Cons.prems in auto)
qed simp

lemma length_sort_scores [simp]: "length (sort_scores ps) = length ps"
  using mset_sort_scores [of ps] by (rule mset_eq_length)

lemma length_score_line [simp]: "length (score_line re content ps) = length ps"
  by (simp add: score_line_def Let_def split: option.splits)

lemma score_line_desc:
  assumes "scores_desc ps"
  shows "scores_desc (score_line re content ps)"
proof (cases "score_index re content 0 ps")
  case None
  with assms show ?thesis by (simp add: score_line_def)
next
  case (Some i)
  show ?thesis
  proof (cases "i = 0")
    case True
    with assms Some show ?thesis
      by (cases ps) (auto simp: score_line_def scores_desc_def le_SucI)
  next
    case False
    with Some show ?thesis by (simp add: score_line_def Let_def)
  qed
qed

lemma map_pat_update:
  "i < length ps \<Longrightarrow> map pat (ps[i := (ps ! i)\<lparr>score := n\<rparr>]) = map pat ps"
  by (metis list_update_id map_update nth_map scored_pattern.select_convs(2) scored_pattern.surjective
      scored_pattern.update_convs(1))

lemma pats_score_line: "mset (map pat (score_line re content ps)) = mset (map pat ps)"
proof (cases "score_index re content 0 ps")
  case None
  then show ?thesis by (simp add: score_line_def)
next
  case (Some i)
  let ?ps = "ps[i := (ps ! i)\<lparr>score := score (ps ! i) + 1\<rparr>]"
  have "i < length ps" using score_index_SomeD [OF Some] by auto
  then have "mset (map pat ?ps) = mset (map pat ps)" by (simp only: map_pat_update)
  moreover have "mset (map pat (sort_scores ?ps)) = mset (map pat ?ps)"
    using mset_sort_scores [of ?ps] by (metis mset_map)
  moreover have "score_line re content ps = (if i \<noteq> 0 then sort_scores ?ps else ?ps)"
    using Some by (simp add: score_line_def Let_def)
  ultimately show ?thesis by presburger
qed

subsection \<open>Every stage accounts for its raw bytes\<close>

lemma score_line_nonempty: "ps \<noteq> [] \<Longrightarrow> score_line re content ps \<noteq> []"
  by (metis length_0_conv length_score_line)

lemma processAndTry_eq:
  fixes re h m'
  assumes "singleLineHandler h = Some sh" and "SingleLineHandler_process sh m = (sh', m')"
    and "scoredMatches h \<noteq> []"
  defines "qs \<equiv> score_line re (Content m') (scoredMatches h)"
  defines "h1 \<equiv> h\<lparr>singleLineHandler := Some sh', scoredMatches := qs, linesTested := linesTested h + 1\<rparr>"
  shows "processAndTry re mt timeout h m =
      Inr (if linesTested h + 1 \<ge> linesToAssess h \<or> timeout then
             if mt (score (hd qs)) (linesTested h + 1)
             then switchToMultilineHandler re (pat (hd qs)) (h1\<lparr>detectedPattern := Some (pat (hd qs))\<rparr>)
             else h1\<lparr>processsingFunc := ProcessSingleLine\<rparr>
           else h1, m')"
proof -
  have "qs \<noteq> []" using score_line_nonempty [OF assms(3)] by (simp add: qs_def)
  then obtain q qs' where "qs = q # qs'" by (cases qs) auto
  with assms(1,2) show ?thesis by (simp add: processAndTry_def h1_def Let_def flip: qs_def)
qed

lemma processAndTry_ok:
  assumes "auto_ok h" and "isRunning h"
  shows "\<exists>h' m'. processAndTry re mt timeout h m = Inr (h', m') \<and> auto_ok h' \<and> RawDataLen m' = RawDataLen m \<and>
    handler_pending (AutoMultiLine h') = 0"
proof -
  obtain sh where sh: "singleLineHandler h = Some sh" "scoredMatches h \<noteq> []" using assms by (auto simp: auto_ok_def)
  obtain sh' m' where p: "SingleLineHandler_process sh m = (sh', m')" by fastforce
  show ?thesis
    unfolding processAndTry_eq [OF sh(1) p sh(2)]
    using assms SingleLineHandler_process_raw [OF p] score_line_nonempty [OF sh(2)]
    by (simp add: auto_ok_def switchToMultilineHandler_def NewMultiLineHandler_def)
qed

lemma AutoMultilineHandler_step_ok:
  assumes "auto_ok h"
  shows "\<exists>h' outs. AutoMultilineHandler_run_step re mt c h e = Inr (h', outs) \<and> auto_ok h' \<and>
    sum_list (map RawDataLen outs) + handler_pending (AutoMultiLine h') =
    handler_pending (AutoMultiLine h) + event_raw RawDataLen e"
proof (cases "isRunning h")
  case False
  then obtain mh where mh: "multiLineHandler h = Some mh" using assms by (auto simp: auto_ok_def)
  obtain mh' outs where s: "MultiLineHandler_run_step (now c) mh e = (mh', outs)" by fastforce
  have "AutoMultilineHandler_run_step re mt c h e = Inr (h\<lparr>multiLineHandler := Some mh'\<rparr>, outs)"
    using False mh s
    by (cases e) (simp_all add: AutoMultilineHandler_run_step_def AutoMultilineHandler_line_def)
  with False mh assms MultiLineHandler_run_step_raw [OF s] show ?thesis
    by (auto simp: auto_ok_def)
next
  case True
  then obtain sh where sh: "singleLineHandler h = Some sh" using assms by (auto simp: auto_ok_def)
  show ?thesis
  proof (cases e)
    case (Line m)
    obtain sh' m' where p: "SingleLineHandler_process sh m = (sh', m')" by fastforce
    show ?thesis
    proof (cases "processsingFunc h")
      case ProcessAndTry
      obtain h' m2 where "processAndTry re mt (timer_fired c) h m = Inr (h', m2)" "auto_ok h'"
        "RawDataLen m2 = RawDataLen m" "handler_pending (AutoMultiLine h') = 0"
        using processAndTry_ok [OF assms True, of re mt "timer_fired c" m] by blast
      with Line True ProcessAndTry show ?thesis
        by (simp add: AutoMultilineHandler_run_step_def AutoMultilineHandler_line_def)
    next
      case ProcessSingleLine
      with Line True sh p SingleLineHandler_process_raw [OF p] assms show ?thesis
        by (auto simp: AutoMultilineHandler_run_step_def AutoMultilineHandler_line_def auto_ok_def)
    qed
  qed (use True assms in \<open>auto simp: AutoMultilineHandler_run_step_def\<close>)
qed

interpretation handler: raw_accounting "LineHandler_step re_match meets_threshold" handler_ok handler_pending
  "\<lambda>ce. event_raw RawDataLen (snd ce)" RawDataLen for re_match meets_threshold
proof unfold_locales
  fix h and i :: "circumstances \<times> dmessage event"
  assume ok: "handler_ok h"
  obtain c e where i: "i = (c, e)" by fastforce
  show "\<exists>s' outs. LineHandler_step re_match meets_threshold h i = Inr (s', outs) \<and> handler_ok s' \<and>
      sum_list (map RawDataLen outs) + handler_pending s' = handler_pending h + event_raw RawDataLen (snd i)"
  proof (cases h)
    case (SingleLine s)
    obtain s' outs where "SingleLineHandler_run_step s e = (s', outs)" by fastforce
    with SingleLine i SingleLineHandler_run_step_raw [of s e] show ?thesis by (simp add: LineHandler_step_def)
  next
    case (MultiLine m)
    obtain m' outs where "MultiLineHandler_run_step (now c) m e = (m', outs)" by fastforce
    with MultiLine i MultiLineHandler_run_step_raw [of "now c" m e] show ?thesis by (simp add: LineHandler_step_def)
  next
    case (AutoMultiLine a)
    with ok have "auto_ok a" by simp
    from AutoMultilineHandler_step_ok [OF this, of re_match meets_threshold c e] AutoMultiLine i
    show ?thesis by (auto simp: LineHandler_step_def simp del: handler_pending.simps)
  qed
qed

lemma MultiLineParser_sendLine_raw:
  "MultiLineParser_sendLine t p = (p', outs) \<Longrightarrow>
     sum_list (map RawDataLen outs) = l_rawDataLen p \<and> l_rawDataLen p' = 0"
  by (auto simp: MultiLineParser_sendLine_def NewMessage_def split: if_splits)

lemma MultiLineParser_process_raw:
  "MultiLineParser_process t p input = Inr (p', outs) \<Longrightarrow>
     sum_list (map RawDataLen outs) + l_rawDataLen p' = l_rawDataLen p + di_rawDataLen input \<and>
     l_parser p' = l_parser p"
  by (auto simp: MultiLineParser_process_def MultiLineParser_sendLine_def NewMessage_def Let_def and_then_Inr_iff
    split: if_splits)

definition parser_total :: "parser \<Rightarrow> bool" where
  "parser_total p \<longleftrightarrow> (\<forall>msg. \<exists>r. Parse p msg = Inr r)"

fun line_parser_ok :: "line_parser \<Rightarrow> bool" where
  "line_parser_ok (SingleLineP p) = parser_total p"
| "line_parser_ok (MultiLineP p) = parser_total (l_parser p)"

lemma MultiLineParser_process_total:
  assumes "parser_total (l_parser p)"
  shows "\<exists>p' outs. MultiLineParser_process t p input = Inr (p', outs)"
proof -
  obtain r where "Parse (l_parser p) (di_content input) = Inr r" using assms unfolding parser_total_def by blast
  then show ?thesis by (cases r) (simp add: MultiLineParser_process_def MultiLineParser_sendLine_def Let_def)
qed

lemma SingleLineParser_process_total:
  assumes "parser_total p"
  shows "\<exists>m. SingleLineParser_process t p input = Inr m \<and> RawDataLen m = di_rawDataLen input"
proof -
  obtain r where "Parse p (di_content input) = Inr r" using assms unfolding parser_total_def by blast
  then show ?thesis by (cases r) (simp add: SingleLineParser_process_def NewMessage_def)
qed

interpretation parser: raw_accounting LineParser_step line_parser_ok parser_pending
  "\<lambda>te. event_raw di_rawDataLen (snd te)" RawDataLen
proof unfold_locales
  fix p :: line_parser and te :: "int \<times> decoded_input event"
  assume ok: "line_parser_ok p"
  obtain t e where te: "te = (t, e)" by fastforce
  show "\<exists>s' outs. LineParser_step p te = Inr (s', outs) \<and> line_parser_ok s' \<and>
      sum_list (map RawDataLen outs) + parser_pending s' = parser_pending p + event_raw di_rawDataLen (snd te)"
  proof (cases p)
    case (SingleLineP q)
    show ?thesis
    proof (cases e)
      case (Line input)
      obtain m where "SingleLineParser_process t q input = Inr m" "RawDataLen m = di_rawDataLen input"
        using SingleLineParser_process_total ok SingleLineP by fastforce
      with ok SingleLineP Line te show ?thesis by simp
    qed (use ok SingleLineP te in simp_all)
  next
    case (MultiLineP q)
    show ?thesis
    proof (cases e)
      case (Line input)
      obtain q' outs where q: "MultiLineParser_process t q input = Inr (q', outs)"
        using MultiLineParser_process_total ok MultiLineP by fastforce
      with MultiLineParser_process_raw [OF q] ok MultiLineP Line te show ?thesis by simp
    qed (use ok MultiLineP te in \<open>simp_all add: MultiLineParser_sendLine_def NewMessage_def\<close>)
  qed
qed

subsection \<open>What the multi line handler emits\<close>

lemma newline_space: "prefix [newline] (newline # s)" and newline_space_mem: "[newline] \<in> set space_encodings"
  by (simp_all add: newline_def space_encodings_def)

lemma find_newline: "find (\<lambda>p. p \<noteq> [] \<and> prefix p (newline # s)) space_encodings = Some [newline]"
  by (simp add: newline_def space_encodings_def)

lemma TrimSpace_newline: "TrimSpace (newline # s) = TrimSpace s"
  by (simp add: TrimSpace_def trim_left_def trim_prefixes.simps [of _ "newline # s"] find_newline)

lemma TrimSpace_newlines: "TrimSpace (replicate k newline @ s) = TrimSpace s"
  by (induction k) (simp_all add: TrimSpace_newline)

definition append_line :: "bytes \<Rightarrow> bytes \<Rightarrow> bytes" where
  "append_line b c = (if b \<noteq> [] then b @ escapedLineFeed else b) @ c"

lemma append_line_join:
  assumes "go_join cs escapedLineFeed = replicate k newline @ b" and "cs \<noteq> []"
  shows "\<exists>k'. go_join (cs @ [c]) escapedLineFeed = replicate k' newline @ append_line b c"
proof (cases "b = []")
  case True
  with assms have "go_join (cs @ [c]) escapedLineFeed = replicate (Suc k) newline @ c"
    by (simp add: go_join_snoc escapedLineFeed_def flip: replicate_append_same)
  with True show ?thesis by (intro exI [of _ "Suc k"]) (simp add: append_line_def)
next
  case False
  with assms show ?thesis by (auto simp: append_line_def go_join_snoc)
qed

lemma fold_append_line_join:
  assumes "go_join cs0 escapedLineFeed = replicate k newline @ b" and "cs0 \<noteq> []"
  shows "\<exists>k'. go_join (cs0 @ cs) escapedLineFeed = replicate k' newline @ fold (\<lambda>c b. append_line b c) cs b"
  using assms
proof (induction cs arbitrary: cs0 k b)
  case (Cons c cs)
  from append_line_join [OF Cons.prems] obtain k' where
    "go_join (cs0 @ [c]) escapedLineFeed = replicate k' newline @ append_line b c" by blast
  from Cons.IH [OF this] show ?case by simp
qed auto

text \<open>The handler while it collects: one line is added to the buffer and nothing is sent.\<close>

lemma MultiLineHandler_collects:
  assumes "\<not> newContentRe h (Content m)" and "\<not> m_shouldTruncate h"
    and "length (append_line (m_buffer h) (Content m)) < m_lineLimit h"
  shows "MultiLineHandler_process t h m =
     (h\<lparr>m_buffer := append_line (m_buffer h) (Content m), linesLen := linesLen h + RawDataLen m,
        m_timestamp := Timestamp m, m_status := Status m\<rparr>, [])"
  using assms by (cases h) (auto simp: MultiLineHandler_process_def append_line_def Let_def)

lemma length_append_line: "length b \<le> length (append_line b c)"
  by (simp add: append_line_def)

lemma length_fold_append_line: "length b \<le> length (fold (\<lambda>c b. append_line b c) cs b)"
proof (induction cs arbitrary: b)
  case (Cons c cs)
  from Cons.IH [of "append_line b c"] length_append_line [of b c] show ?case by simp
qed simp

lemma MultiLineHandler_collects_run:
  assumes "\<forall>m \<in> set ms. \<not> newContentRe h (Content m)" and "\<not> m_shouldTruncate h"
    and "length (fold (\<lambda>c b. append_line b c) (map Content ms) (m_buffer h)) < m_lineLimit h"
  shows "stage_run (LineHandler_step re mt) (MultiLine h) (map (\<lambda>m. (c, Line m)) ms) =
     Inr (MultiLine (h\<lparr>m_buffer := fold (\<lambda>c b. append_line b c) (map Content ms) (m_buffer h),
        linesLen := linesLen h + sum_list (map RawDataLen ms),
        m_timestamp := (if ms = [] then m_timestamp h else Timestamp (last ms)),
        m_status := (if ms = [] then m_status h else Status (last ms))\<rparr>), [])"
  using assms
proof (induction ms arbitrary: h)
  case (Cons m ms)
  let ?h = "h\<lparr>m_buffer := append_line (m_buffer h) (Content m), linesLen := linesLen h + RawDataLen m,
        m_timestamp := Timestamp m, m_status := Status m\<rparr>"
  have "length (append_line (m_buffer h) (Content m)) < m_lineLimit h"
    using Cons.prems(3) length_fold_append_line [of "append_line (m_buffer h) (Content m)" "map Content ms"]
    by simp
  with Cons.prems have "MultiLineHandler_process (now c) h m = (?h, [])"
    by (simp add: MultiLineHandler_collects)
  then show ?case
    using Cons.IH [of ?h] Cons.prems
    by (simp add: LineHandler_step_def add.assoc)
qed simp

lemma stage_run_append:
  "stage_run step s (xs @ ys) =
     and_then (stage_run step s xs)
       (\<lambda>(s', outs). and_then (stage_run step s' ys) (\<lambda>(s'', outs'). Inr (s'', outs @ outs')))"
proof (induction xs arbitrary: s)
  case Nil
  show ?case by (cases "stage_run step s ys") auto
next
  case (Cons x xs)
  show ?case
  proof (cases "step s x")
    case (Inr r)
    then show ?thesis
      by (cases "stage_run step (fst r) xs") (auto simp: Cons.IH and_then_assoc split_def)
  qed simp
qed



subsection \<open>What pattern detection decides\<close>

text \<open>The state of detection: the scores are in order, and the decision was taken on the first of them.\<close>

definition detection_ok :: "(nat \<Rightarrow> nat \<Rightarrow> bool) \<Rightarrow> string list \<Rightarrow> auto_multiline_handler \<Rightarrow> bool" where
  "detection_ok mt pats h \<longleftrightarrow> auto_ok h \<and> scores_desc (scoredMatches h) \<and>
     mset (map pat (scoredMatches h)) = mset pats \<and>
     sum_list (map score (scoredMatches h)) \<le> linesTested h \<and>
     (isRunning h \<and> processsingFunc h = ProcessAndTry \<longrightarrow> linesTested h < max 1 (linesToAssess h)) \<and>
     linesTested h \<le> max 1 (linesToAssess h) \<and>
     (if isRunning h then detectedPattern h = None
      else detectedPattern h = Some (pat (hd (scoredMatches h))) \<and>
        mt (score (hd (scoredMatches h))) (linesTested h))"

lemma sum_list_score_update:
  "i < length ps \<Longrightarrow>
     sum_list (map score (ps[i := (ps ! i)\<lparr>score := score (ps ! i) + 1\<rparr>])) = Suc (sum_list (map score ps))"
proof (induction ps arbitrary: i)
  case (Cons p ps)
  then show ?case by (cases i) auto
qed simp

lemma sum_list_score_line: "sum_list (map score (score_line re content ps)) \<le> Suc (sum_list (map score ps))"
proof (cases "score_index re content 0 ps")
  case None
  then show ?thesis by (simp add: score_line_def)
next
  case (Some i)
  let ?ps = "ps[i := (ps ! i)\<lparr>score := score (ps ! i) + 1\<rparr>]"
  have "i < length ps" using score_index_SomeD [OF Some] by auto
  then have "sum_list (map score ?ps) = Suc (sum_list (map score ps))" by (rule sum_list_score_update)
  moreover have "sum_list (map score (sort_scores ?ps)) = sum_list (map score ?ps)"
    using mset_sort_scores [of ?ps] by (metis mset_map sum_mset_sum_list)
  moreover have "score_line re content ps = (if i \<noteq> 0 then sort_scores ?ps else ?ps)"
    using Some by (simp add: score_line_def Let_def)
  ultimately show ?thesis by (metis le_refl)
qed

lemma processAndTry_detection:
  assumes "detection_ok mt pats h" and "isRunning h" and "processsingFunc h = ProcessAndTry"
    and "processAndTry re mt timeout h m = Inr (h', m')"
  shows "detection_ok mt pats h' \<and> linesToAssess h' = linesToAssess h"
proof -
  obtain sh where sh: "singleLineHandler h = Some sh" "scoredMatches h \<noteq> []"
    using assms(1,2) by (auto simp: detection_ok_def auto_ok_def)
  obtain sh' m1 where p: "SingleLineHandler_process sh m = (sh', m1)" by fastforce
  let ?qs = "score_line re (Content m1) (scoredMatches h)"
  have "mset (map pat ?qs) = mset pats"
    using assms(1) pats_score_line [of re "Content m1" "scoredMatches h"] by (simp add: detection_ok_def)
  moreover have "scores_desc ?qs" "sum_list (map score ?qs) \<le> Suc (linesTested h)" "?qs \<noteq> []"
    using assms(1) sum_list_score_line [of re "Content m1" "scoredMatches h"] score_line_nonempty [OF sh(2)]
    by (auto simp: detection_ok_def score_line_desc)
  moreover note assms(1-3) assms(4) [symmetric]
  ultimately show ?thesis
    unfolding processAndTry_eq [OF sh(1) p sh(2)]
    by (auto simp: detection_ok_def auto_ok_def switchToMultilineHandler_def max_def split: if_splits)
qed

lemma AutoMultilineHandler_detection:
  assumes "detection_ok mt pats h" and "AutoMultilineHandler_run_step re mt c h e = Inr (h', outs)"
  shows "detection_ok mt pats h' \<and> linesToAssess h' = linesToAssess h"
proof (cases "isRunning h \<and> processsingFunc h = ProcessAndTry \<and> (\<exists>m. e = Line m)")
  case True
  with assms processAndTry_detection [OF assms(1)] show ?thesis
    by (auto simp: AutoMultilineHandler_run_step_def AutoMultilineHandler_line_def and_then_Inr_iff)
next
  case False
  with assms show ?thesis
    by (cases "processsingFunc h"; cases e)
      (auto simp: AutoMultilineHandler_run_step_def AutoMultilineHandler_line_def detection_ok_def auto_ok_def
        split: if_splits option.splits prod.splits)
qed

lemma AutoMultilineHandler_detection_run:
  assumes "stage_run (LineHandler_step re mt) (AutoMultiLine h) ces = Inr (h', outs)" and "detection_ok mt pats h"
  shows "\<exists>a. h' = AutoMultiLine a \<and> detection_ok mt pats a \<and> linesToAssess a = linesToAssess h"
  using assms
proof (induction ces arbitrary: h outs)
  case (Cons ce ces)
  obtain c e where ce: "ce = (c, e)" by fastforce
  with Cons.prems(1) obtain h1 o1 o2 where s: "AutoMultilineHandler_run_step re mt c h e = Inr (h1, o1)"
    "stage_run (LineHandler_step re mt) (AutoMultiLine h1) ces = Inr (h', o2)"
    by (auto simp: LineHandler_step_def [of re mt "AutoMultiLine h"] and_then_Inr_iff)
  from AutoMultilineHandler_detection [OF Cons.prems(2) s(1)] Cons.IH [OF s(2)] show ?case by auto
qed auto

lemma fresh_patterns:
  "sum_list (map score (map (\<lambda>v. \<lparr>score = 0, pat = v\<rparr>) xs)) = 0"
  "scores_desc (map (\<lambda>v. \<lparr>score = 0, pat = v\<rparr>) xs)"
  "map pat (map (\<lambda>v. \<lparr>score = 0, pat = v\<rparr>) xs) = xs"
  by (induction xs) (auto simp: scores_desc_def)

lemma NewAutoMultilineHandler_detection:
  "detection_ok mt (extra @ formatsToTry) (NewAutoMultilineHandler limit n extra None)"
proof -
  have "extra @ formatsToTry \<noteq> []" by (simp add: formatsToTry_def)
  then show ?thesis
    using fresh_patterns(2) [of "extra @ formatsToTry"]
    unfolding detection_ok_def auto_ok_def NewAutoMultilineHandler_def auto_multiline_handler.select_convs fresh_patterns
    by (simp add: less_max_iff_disj)
qed

text \<open>Automatic multi line detection never panics, tests at most the configured number of lines,
  and switches to multi line handling exactly with a pattern whose score is the largest of all
  patterns and meets the threshold; until then no pattern is published.\<close>

theorem AutoMultiline_detects_best:
  "\<exists>h outs. stage_run (LineHandler_step re_match meets_threshold)
        (AutoMultiLine (NewAutoMultilineHandler limit toAssess extra None)) ces = Inr (AutoMultiLine h, outs) \<and>
     linesTested h \<le> max 1 toAssess \<and>
     mset (map pat (scoredMatches h)) = mset (extra @ formatsToTry) \<and>
     (if isRunning h then detectedPattern h = None
      else \<exists>p. p \<in> set (scoredMatches h) \<and> detectedPattern h = Some (pat p) \<and>
        meets_threshold (score p) (linesTested h) \<and> score p = Max (score ` set (scoredMatches h)))"
proof -
  let ?h0 = "NewAutoMultilineHandler limit toAssess extra None"
  note d0 = NewAutoMultilineHandler_detection [of meets_threshold extra limit toAssess]
  then have "handler_ok (AutoMultiLine ?h0)" by (simp add: detection_ok_def)
  from handler.run_law [OF this, of re_match meets_threshold ces] obtain h' outs
    where r: "stage_run (LineHandler_step re_match meets_threshold) (AutoMultiLine ?h0) ces = Inr (h', outs)" by blast
  from AutoMultilineHandler_detection_run [OF r d0] obtain a where a: "h' = AutoMultiLine a"
    "detection_ok meets_threshold (extra @ formatsToTry) a" "linesToAssess a = toAssess"
    by (auto simp: NewAutoMultilineHandler_def)
  obtain p ps where ps: "scoredMatches a = p # ps"
    using a(2) by (auto simp: detection_ok_def auto_ok_def neq_Nil_conv)
  then have "Max (score ` set (scoredMatches a)) = score p"
    using a(2) by (intro Max_eqI) (auto simp: detection_ok_def scores_desc_def)
  with a r ps show ?thesis by (auto simp: detection_ok_def)
qed

end
