(* ===== verification/Log_Auditor.thy ===== *)
theory Log_Auditor
  imports Log_Message
begin

text \<open>
  The auditor, \<open>src/logs/auditor/auditor.go\<close> and \<open>api.go\<close>: the registry of committed offsets, its
  file on disk and its life cycle. \<open>json.Marshal\<close> and \<open>json.Unmarshal\<close> on the registry are
  parameters; \<open>None\<close> is an error. The locale \<open>offset_registry\<close> is the interface
  \<open>Registry\<close> the tailers use, interpreted by the auditor.
\<close>

record registry_entry =
  LastUpdated :: int
  e_Offset :: string
  e_TailingMode :: string

type_synonym registry = "string \<rightharpoonup> registry_entry"

record json_registry =
  j_Version :: nat
  j_Registry :: registry

record auditor =
  a_registry :: registry
  entryTTL :: int
  registryFile :: "bytes option"

definition registryAPIVersion :: nat where "registryAPIVersion = 2"

definition New_Auditor :: "bytes option \<Rightarrow> int \<Rightarrow> auditor" where
  "New_Auditor disk ttl = \<lparr>a_registry = Map.empty, entryTTL = ttl, registryFile = disk\<rparr>"

definition GetOffset :: "auditor \<Rightarrow> string \<Rightarrow> string" where
  "GetOffset a identifier = (case a_registry a identifier of None \<Rightarrow> [] | Some entry \<Rightarrow> e_Offset entry)"

definition GetTailingMode :: "auditor \<Rightarrow> string \<Rightarrow> string" where
  "GetTailingMode a identifier = (case a_registry a identifier of None \<Rightarrow> [] | Some entry \<Rightarrow> e_TailingMode entry)"

definition updateRegistry :: "int \<Rightarrow> string \<Rightarrow> string \<Rightarrow> string \<Rightarrow> auditor \<Rightarrow> auditor" where
  "updateRegistry now identifier offset mode a =
     (if identifier = [] then a
      else a\<lparr>a_registry := (a_registry a)(identifier \<mapsto>
             \<lparr>LastUpdated = now, e_Offset = offset, e_TailingMode = mode\<rparr>)\<rparr>)"

definition cleanupRegistry :: "int \<Rightarrow> auditor \<Rightarrow> auditor" where
  "cleanupRegistry now a =
     (let expireBefore = now - entryTTL a in
      a\<lparr>a_registry := (\<lambda>path. case a_registry a path of
           None \<Rightarrow> None
         | Some entry \<Rightarrow> if LastUpdated entry < expireBefore then None else Some entry)\<rparr>)"

definition marshalRegistry :: "(json_registry \<Rightarrow> bytes option) \<Rightarrow> registry \<Rightarrow> bytes option" where
  "marshalRegistry json_Marshal r = json_Marshal \<lparr>j_Version = registryAPIVersion, j_Registry = r\<rparr>"

text \<open>\<open>writable\<close>: whether \<open>os.WriteFile\<close> succeeds; its failure is only logged.\<close>

definition flushRegistry :: "(json_registry \<Rightarrow> bytes option) \<Rightarrow> bool \<Rightarrow> auditor \<Rightarrow> auditor" where
  "flushRegistry json_Marshal writable a =
     (case marshalRegistry json_Marshal (a_registry a) of
        None \<Rightarrow> a
      | Some mr \<Rightarrow> if writable then a\<lparr>registryFile := Some mr\<rparr> else a)"

text \<open>
  The registry is first unmarshalled into a generic map, only for its error, and then into a
  \<open>JSONRegistry\<close>, whose version is not looked at.
\<close>

definition unmarshalRegistry ::
  "(bytes \<Rightarrow> bool) \<Rightarrow> (bytes \<Rightarrow> json_registry option) \<Rightarrow> bytes \<Rightarrow> registry option" where
  "unmarshalRegistry json_is_object json_Unmarshal b =
     (if \<not> json_is_object b then None else map_option j_Registry (json_Unmarshal b))"

definition recoverRegistry ::
  "(bytes \<Rightarrow> bool) \<Rightarrow> (bytes \<Rightarrow> json_registry option) \<Rightarrow> auditor \<Rightarrow> registry" where
  "recoverRegistry json_is_object json_Unmarshal a =
     (case registryFile a of
        None \<Rightarrow> Map.empty
      | Some mr \<Rightarrow>
          (case unmarshalRegistry json_is_object json_Unmarshal mr of None \<Rightarrow> Map.empty | Some r \<Rightarrow> r))"

definition Auditor_Start ::
  "(bytes \<Rightarrow> bool) \<Rightarrow> (bytes \<Rightarrow> json_registry option) \<Rightarrow> int \<Rightarrow> auditor \<Rightarrow> auditor" where
  "Auditor_Start json_is_object json_Unmarshal now a =
     cleanupRegistry now (a\<lparr>a_registry := recoverRegistry json_is_object json_Unmarshal a\<rparr>)"

definition Auditor_Stop :: "(json_registry \<Rightarrow> bytes option) \<Rightarrow> bool \<Rightarrow> int \<Rightarrow> auditor \<Rightarrow> auditor" where
  "Auditor_Stop json_Marshal writable now a = flushRegistry json_Marshal writable (cleanupRegistry now a)"

datatype audit_event = Audit int message | CleanupTick int | FlushTick bool

text \<open>The events the loop \<open>run\<close> selects; a message without origin or configuration is a nil dereference.\<close>

definition audit_step :: "(json_registry \<Rightarrow> bytes option) \<Rightarrow> auditor \<Rightarrow> audit_event \<Rightarrow> auditor go" where
  "audit_step json_Marshal a e =
     (case e of
        Audit now msg \<Rightarrow>
          (case m_Origin msg of
             None \<Rightarrow> Inl NilDereference
           | Some o' \<Rightarrow> and_then (origin_config o')
               (\<lambda>c. Inr (updateRegistry now (o_Identifier o') (Offset o') (TailingMode c) a)))
      | CleanupTick now \<Rightarrow> Inr (cleanupRegistry now a)
      | FlushTick writable \<Rightarrow> Inr (flushRegistry json_Marshal writable a))"

definition Auditor_run :: "(json_registry \<Rightarrow> bytes option) \<Rightarrow> auditor \<Rightarrow> audit_event list \<Rightarrow> auditor go" where
  "Auditor_run json_Marshal a evs = foldM (audit_step json_Marshal) a evs"

subsection \<open>The registry as the tailers see it\<close>

locale offset_registry =
  fixes get :: "'r \<Rightarrow> string \<Rightarrow> string" and update :: "string \<Rightarrow> string \<Rightarrow> 'r \<Rightarrow> 'r"
  assumes get_update: "identifier \<noteq> [] \<Longrightarrow> get (update identifier offset r) k =
      (if k = identifier then offset else get r k)"
    and update_untracked: "update [] offset r = r"
begin

lemma last_update_wins:
  assumes "identifier \<noteq> []" and "\<forall>(k, off) \<in> set later. k \<noteq> identifier"
  shows "get (fold (\<lambda>(k, off). update k off) later (update identifier offset r)) identifier = offset"
proof -
  have "get (fold (\<lambda>(k, off). update k off) later s) identifier = get s identifier" for s
    using assms(2)
  proof (induction later arbitrary: s)
    case (Cons e later)
    obtain k off where e: "e = (k, off)" by fastforce
    with Cons show ?case by (cases "k = []") (auto simp: update_untracked get_update)
  qed simp
  with assms(1) show ?thesis by (simp add: get_update)
qed

end

interpretation auditor_registry: offset_registry GetOffset "\<lambda>identifier offset. updateRegistry now identifier offset mode"
  for now mode
  by unfold_locales (auto simp: GetOffset_def updateRegistry_def)

lemma registry_updateRegistry:
  "a_registry (updateRegistry now identifier offset mode a) k =
     (if identifier \<noteq> [] \<and> k = identifier then Some \<lparr>LastUpdated = now, e_Offset = offset, e_TailingMode = mode\<rparr>
      else a_registry a k)"
  by (simp add: updateRegistry_def)

lemma registry_cleanupRegistry:
  "a_registry (cleanupRegistry now a) k = Some e \<longleftrightarrow> a_registry a k = Some e \<and> now - entryTTL a \<le> LastUpdated e"
  by (auto simp: cleanupRegistry_def Let_def split: option.splits)

lemma flushRegistry_fields [simp]:
  "a_registry (flushRegistry jm w a) = a_registry a" "entryTTL (flushRegistry jm w a) = entryTTL a"
  by (auto simp: flushRegistry_def split: option.splits)

lemma cleanupRegistry_fields [simp]:
  "entryTTL (cleanupRegistry now a) = entryTTL a" "registryFile (cleanupRegistry now a) = registryFile a"
  by (simp_all add: cleanupRegistry_def Let_def)

lemma updateRegistry_fields [simp]:
  "entryTTL (updateRegistry now i off m a) = entryTTL a"
  by (simp add: updateRegistry_def)

lemma audit_step_TTL: "audit_step jm a e = Inr a' \<Longrightarrow> entryTTL a' = entryTTL a"
  by (auto simp: audit_step_def and_then_Inr_iff split: audit_event.splits option.splits)

text \<open>An event that keeps an entry: no other commit for its identifier, no cleanup after its expiry.\<close>

definition keeps_entry :: "string \<Rightarrow> int \<Rightarrow> audit_event \<Rightarrow> bool" where
  "keeps_entry identifier expiry e =
     (case e of
        Audit now msg \<Rightarrow> (case m_Origin msg of None \<Rightarrow> True | Some o' \<Rightarrow> o_Identifier o' \<noteq> identifier)
      | CleanupTick now \<Rightarrow> now \<le> expiry
      | FlushTick writable \<Rightarrow> True)"

lemma audit_step_keeps:
  assumes "audit_step jm a ev = Inr a'" and "a_registry a identifier = Some e"
    and "keeps_entry identifier (LastUpdated e + entryTTL a) ev"
  shows "a_registry a' identifier = Some e"
  using assms
  by (auto simp: audit_step_def keeps_entry_def and_then_Inr_iff registry_updateRegistry registry_cleanupRegistry
    split: audit_event.splits option.splits)

lemma Auditor_run_keeps:
  assumes "Auditor_run jm a evs = Inr a'" and "a_registry a identifier = Some e"
    and "list_all (keeps_entry identifier (LastUpdated e + entryTTL a)) evs"
  shows "a_registry a' identifier = Some e \<and> entryTTL a' = entryTTL a"
  using assms
proof (induction evs arbitrary: a)
  case (Cons ev evs)
  then obtain a1 where a1: "audit_step jm a ev = Inr a1" "Auditor_run jm a1 evs = Inr a'"
    by (auto simp: Auditor_run_def and_then_Inr_iff)
  from Cons.IH [OF a1(2)] audit_step_keeps [OF a1(1) Cons.prems(2)] audit_step_TTL [OF a1(1)] Cons.prems(3)
  show ?case by simp
qed (simp add: Auditor_run_def)

lemma restart_recovers:
  assumes "json_Marshal \<lparr>j_Version = registryAPIVersion, j_Registry = r\<rparr> = Some mr"
    and "json_is_object mr" and "json_Unmarshal mr = Some \<lparr>j_Version = registryAPIVersion, j_Registry = r\<rparr>"
    and "a_registry (cleanupRegistry stop a) = r"
  shows "a_registry (Auditor_Start json_is_object json_Unmarshal start
       (Auditor_Stop json_Marshal True stop a)) k = Some e \<longleftrightarrow>
     r k = Some e \<and> start - entryTTL a \<le> LastUpdated e"
proof -
  have "Auditor_Stop json_Marshal True stop a = (cleanupRegistry stop a)\<lparr>registryFile := Some mr\<rparr>"
    using assms(1,4) by (simp add: Auditor_Stop_def flushRegistry_def marshalRegistry_def)
  then have "recoverRegistry json_is_object json_Unmarshal (Auditor_Stop json_Marshal True stop a) = r"
    using assms(2,3) by (simp add: recoverRegistry_def unmarshalRegistry_def)
  then show ?thesis
    using \<open>Auditor_Stop json_Marshal True stop a = (cleanupRegistry stop a)\<lparr>registryFile := Some mr\<rparr>\<close>
    by (simp add: Auditor_Start_def registry_cleanupRegistry)
qed

lemma auditor_restart:
  fixes start stop :: int
  assumes "m_Origin msg = Some o'" and "src_Config (LogSource o') = Some c" and "o_Identifier o' \<noteq> []"
    and "Auditor_run json_Marshal a (Audit t msg # later) = Inr a'"
    and "list_all (keeps_entry (o_Identifier o') (t + entryTTL a)) later"
    and "stop \<le> t + entryTTL a"
    and "json_Marshal \<lparr>j_Version = registryAPIVersion, j_Registry = a_registry (cleanupRegistry stop a')\<rparr> = Some mr"
    and "json_is_object mr"
    and "json_Unmarshal mr = Some \<lparr>j_Version = registryAPIVersion, j_Registry = a_registry (cleanupRegistry stop a')\<rparr>"
  defines "b \<equiv> Auditor_Start json_is_object json_Unmarshal start (Auditor_Stop json_Marshal True stop a')"
  shows "GetOffset b (o_Identifier o') = (if start \<le> t + entryTTL a then Offset o' else []) \<and>
    GetTailingMode b (o_Identifier o') = (if start \<le> t + entryTTL a then TailingMode c else [])"
proof -
  let ?e = "\<lparr>LastUpdated = t, e_Offset = Offset o', e_TailingMode = TailingMode c\<rparr>"
  let ?a1 = "updateRegistry t (o_Identifier o') (Offset o') (TailingMode c) a"
  have "Auditor_run json_Marshal ?a1 later = Inr a'" "a_registry ?a1 (o_Identifier o') = Some ?e"
    using assms(1-4) by (simp_all add: Auditor_run_def audit_step_def origin_config_def registry_updateRegistry)
  from Auditor_run_keeps [OF this] assms(5)
  have a': "a_registry a' (o_Identifier o') = Some ?e" "entryTTL a' = entryTTL a" by simp_all
  then have cl: "a_registry (cleanupRegistry stop a') (o_Identifier o') = Some ?e"
    using assms(6) by (simp add: registry_cleanupRegistry)
  have e: "a_registry b (o_Identifier o') = Some e \<longleftrightarrow>
      a_registry (cleanupRegistry stop a') (o_Identifier o') = Some e \<and> start - entryTTL a \<le> LastUpdated e" for e
    unfolding b_def
    using restart_recovers [of json_Marshal "a_registry (cleanupRegistry stop a')" mr json_is_object json_Unmarshal
        stop a' start "o_Identifier o'" e] assms(7-9) a'(2) by simp
  show ?thesis
  proof (cases "start \<le> t + entryTTL a")
    case True
    with e [of ?e] cl show ?thesis by (simp add: GetOffset_def GetTailingMode_def)
  next
    case False
    have "a_registry b (o_Identifier o') \<noteq> Some e" for e
      using e [of e] cl False by auto
    then have "a_registry b (o_Identifier o') = None" by (meson not_Some_eq)
    with False show ?thesis by (simp add: GetOffset_def GetTailingMode_def)
  qed
qed

text \<open>The last offset committed for an identifier survives any later events for other identifiers, the
  cleanups that come before it expires, and a stop and restart of the agent, provided the
  registry file can be written and JSON reads back what it wrote: after the restart the
  auditor answers that offset and its tailing mode; when the restart comes after the entry
  expired it answers the empty text.\<close>

theorem Auditor_restart_keeps_offset:
  fixes start stop :: int
  assumes "m_Origin msg = Some o'" and "src_Config (LogSource o') = Some c" and "o_Identifier o' \<noteq> []"
    and "Auditor_run json_Marshal a (Audit t msg # later) = Inr a'"
    and "list_all (keeps_entry (o_Identifier o') (t + entryTTL a)) later"
    and "stop \<le> t + entryTTL a"
    and "json_Marshal \<lparr>j_Version = registryAPIVersion, j_Registry = a_registry (cleanupRegistry stop a')\<rparr> = Some mr"
    and "json_is_object mr"
    and "json_Unmarshal mr = Some \<lparr>j_Version = registryAPIVersion, j_Registry = a_registry (cleanupRegistry stop a')\<rparr>"
  defines "b \<equiv> Auditor_Start json_is_object json_Unmarshal start (Auditor_Stop json_Marshal True stop a')"
  shows "GetOffset b (o_Identifier o') = (if start \<le> t + entryTTL a then Offset o' else []) \<and>
    GetTailingMode b (o_Identifier o') = (if start \<le> t + entryTTL a then TailingMode c else [])"
  unfolding b_def using assms(1-9) by (intro auditor_restart)

definition sample_committed :: message where
  "sample_committed =
     NewLogMessage ''x'' (Some ((NewOrigin (NewLogSource 1 ''a'' (Some sample_config)))
       \<lparr>o_Identifier := ''file:/var/log/a.log'', Offset := ''42''\<rparr>)) [] 0"

theorem Auditor_restart_keeps_offset_witness:
  "\<exists>a' json_Marshal json_Unmarshal. Auditor_run json_Marshal (New_Auditor None 100) [Audit 5 sample_committed, FlushTick True] = Inr a' \<and>
     GetOffset (Auditor_Start (\<lambda>_. True) json_Unmarshal 30 (Auditor_Stop json_Marshal True 20 a')) ''file:/var/log/a.log'' = ''42''"
proof -
  let ?o = "(NewOrigin (NewLogSource 1 ''a'' (Some sample_config)))\<lparr>o_Identifier := ''file:/var/log/a.log'', Offset := ''42''\<rparr>"
  let ?jm = "\<lambda>r :: json_registry. Some ([] :: bytes)"
  have fs: "m_Origin sample_committed = Some ?o" "src_Config (LogSource ?o) = Some sample_config" "o_Identifier ?o \<noteq> []"
    by (simp_all add: sample_committed_def NewLogMessage_def NewOrigin_def NewLogSource_def)
  then obtain a' where r: "Auditor_run ?jm (New_Auditor None 100) [Audit 5 sample_committed, FlushTick True] = Inr a'"
    by (simp add: Auditor_run_def audit_step_def origin_config_def)
  let ?ju = "\<lambda>b :: bytes. Some \<lparr>j_Version = registryAPIVersion, j_Registry = a_registry (cleanupRegistry 20 a')\<rparr>"
  have "GetOffset (Auditor_Start (\<lambda>_. True) ?ju 30 (Auditor_Stop ?jm True 20 a')) ''file:/var/log/a.log'' = ''42''"
    using Auditor_restart_keeps_offset [of sample_committed ?o sample_config ?jm "New_Auditor None 100" 5 "[FlushTick True]" a' 20
        "[]" "\<lambda>_. True" ?ju 30] fs r
    by (simp add: keeps_entry_def New_Auditor_def)
  with r show ?thesis by blast
qed

end
