(* ===== verification/Log_Tailer.thy ===== *)
theory Log_Tailer
  imports Log_Handlers Log_Auditor
begin

text \<open>
  The file tailer, \<open>src/logs/input/file/tailer.go\<close>, \<open>tailer_nix.go\<close> and \<open>position.go\<close>, with the
  choice of parser and handler (\<open>NewDecoderFromSourceWithPattern\<close>, and
  \<open>NewDecoderWithEndLineMatcher\<close> of \<open>src/logs/decoder/decoder.go\<close>) and the parsers of
  \<open>src/logs/input/kubernetes\<close> (\<open>parser.go\<close>, \<open>json_parser.go\<close>). \<open>tail_step\<close> is the interleaved run of
  the goroutines of one tailer: reader, decoder, line parser, line handler and forwarder,
  connected by channels.
\<close>

subsection \<open>Container log parsers\<close>

text \<open>\<open>bytes.SplitN(s, sep, n)\<close> for a separator of one byte and \<open>n > 0\<close>.\<close>

fun SplitN :: "bytes \<Rightarrow> char \<Rightarrow> nat \<Rightarrow> bytes list" where
  "SplitN s sep (Suc (Suc n)) =
     (if sep \<in> set s
      then takeWhile (\<lambda>c. c \<noteq> sep) s # SplitN (tl (dropWhile (\<lambda>c. c \<noteq> sep) s)) sep (Suc n)
      else [s])"
| "SplitN s sep n = [s]"

definition numberOfComponents :: nat where "numberOfComponents = 4"

definition k8s_getStatus :: "bytes \<Rightarrow> string" where
  "k8s_getStatus streamType =
     (if streamType = ''stdout'' then StatusInfo else if streamType = ''stderr'' then StatusError else StatusInfo)"

definition k8s_parse :: "bytes \<Rightarrow> bytes \<times> string \<times> string \<times> string" where
  "k8s_parse msg =
     (let components = SplitN msg (CHR '' '') numberOfComponents in
      if length components < numberOfComponents - 1 then (msg, StatusInfo, [], [])
      else
        (let content = (if length components > numberOfComponents - 1 then components ! 3 else []) in
         (content, k8s_getStatus (components ! 1), components ! 0, components ! 2)))"

definition k8s_isPartial :: "string \<Rightarrow> bool" where "k8s_isPartial flag \<longleftrightarrow> flag = ''P''"

definition k8s_Parser :: parser where
  "k8s_Parser =
     \<lparr>Parse = (\<lambda>msg. let (content, status, timestamp, flag) = k8s_parse msg in
                Inr (content, status, timestamp, k8s_isPartial flag)),
      SupportsPartialLine = True\<rparr>"

record log_line =
  ll_Log :: string
  ll_Stream :: string
  ll_Time :: string

text \<open>
  \<open>json_Unmarshal\<close> into a pointer to a \<open>logLine\<close>: \<open>None\<close> is an error, \<open>Some None\<close> the nil pointer that the
  JSON text \<open>null\<close> gives.
\<close>

definition jsonParser_Parse ::
  "(bytes \<Rightarrow> log_line option option) \<Rightarrow> bytes \<Rightarrow> (bytes \<times> string \<times> string \<times> bool) go" where
  "jsonParser_Parse json_Unmarshal data =
     (case json_Unmarshal data of
        None \<Rightarrow> Inr (data, StatusInfo, [], False)
      | Some None \<Rightarrow> Inl NilDereference
      | Some (Some l) \<Rightarrow>
          (let status = (if ll_Stream l = ''stderr'' then StatusError
                         else if ll_Stream l = ''stdout'' then StatusInfo else []);
               content = ll_Log l in
           if length content > 0 then
             (if last content = newline then Inr (butlast content, status, ll_Time l, False)
              else Inr (content, status, ll_Time l, True))
           else Inr (content, status, ll_Time l, False)))"

definition JSONParser :: "(bytes \<Rightarrow> log_line option option) \<Rightarrow> parser" where
  "JSONParser json_Unmarshal = \<lparr>Parse = jsonParser_Parse json_Unmarshal, SupportsPartialLine = True\<rparr>"

subsection \<open>Choosing parser, matcher and handler\<close>

text \<open>
  \<open>strings.ToLower\<close>, exact for a comparison with an ASCII text: beside the letters, the only code
  points with an ASCII lower case are the Kelvin sign and the dotted capital I.
\<close>

fun ToLower :: "string \<Rightarrow> string" where
  "ToLower [] = []"
| "ToLower (a # s) =
     (if a = CHR 0xE2 \<and> take 2 s = [CHR 0x84, CHR 0xAA] then CHR ''k'' # ToLower (drop 2 s)
      else if a = CHR 0xC4 \<and> take 1 s = [CHR 0xB0] then CHR ''i'' # ToLower (drop 1 s)
      else (if CHR ''A'' \<le> a \<and> a \<le> CHR ''Z'' then char_of (of_char a + 32 :: nat) else a) # ToLower s)"

record environment =
  env_transform :: "charset \<Rightarrow> bytes \<Rightarrow> bytes"
  env_json :: "bytes \<Rightarrow> log_line option option"
  env_match :: "string \<Rightarrow> bytes \<Rightarrow> bool"
  env_threshold :: "nat \<Rightarrow> nat \<Rightarrow> bool"

definition choose_parser :: "environment \<Rightarrow> log_source \<Rightarrow> logs_config \<Rightarrow> (parser \<times> matcher) go" where
  "choose_parser env source c =
     (if sourceType source = ''kubernetes'' then
        Inr (if containerdFlg source = ''Y'' then k8s_Parser else JSONParser (env_json env), NewLineMatcher)
      else
        (let enc = ToLower (c_Encoding c);
             decoding = (\<lambda>e m. and_then (NewDecodingParser (env_transform env) e) (\<lambda>p. Inr (p, m))) in
         if enc = ''utf-16-be'' then decoding 1 (NewBytesSequenceMatcher Utf16beEOL)
         else if enc = ''utf-16-le'' then decoding 0 (NewBytesSequenceMatcher Utf16leEOL)
         else if enc = ''gb18030'' then decoding 2 NewLineMatcher
         else if enc = ''hz-gb2312'' then decoding 4 NewLineMatcher
         else if enc = ''gbk'' \<or> enc = ''gb2312'' then decoding 5 NewLineMatcher
         else if enc = ''big5'' then decoding 6 NewLineMatcher
         else Inr (NoopParser, NewLineMatcher)))"

definition buildAutoMultilineHandlerFromConfig :: "nat \<Rightarrow> logs_config \<Rightarrow> string option \<Rightarrow> auto_multiline_handler" where
  "buildAutoMultilineHandlerFromConfig lineLimit c detected =
     NewAutoMultilineHandler lineLimit
       (if AutoMultiLineSampleSize c \<le> 0 then 500 else nat (AutoMultiLineSampleSize c)) [] detected"

text \<open>
  The last multi line rule of the source decides; its handler shares the counter registered
  with the source. A rule whose expression was not compiled gives a handler that panics on
  its first line; here this is the result of the construction.
\<close>

definition NewDecoderWithEndLineMatcher ::
  "environment \<Rightarrow> log_source \<Rightarrow> logs_config \<Rightarrow> parser \<Rightarrow> matcher \<Rightarrow> string option \<Rightarrow>
   (decoder \<times> line_parser \<times> line_handler \<times> log_source) go" where
  "NewDecoderWithEndLineMatcher env source c p m multiLinePattern =
     (let lineLimit = defaultContentLenLimit;
          rules = filter (\<lambda>r. r_Type r = MultiLine_type) (ProcessingRules c);
          source' = (if rules \<noteq> [] \<and> GetInfo ''MultiLine matches'' source = None
                     then RegisterInfo (NewCountInfo ''MultiLine matches'') source else source);
          handler =
            (if rules \<noteq> [] then
               and_then (regex_ptr (last rules))
                 (\<lambda>re. Inr (MultiLine (NewMultiLineHandler (env_match env re) lineLimit)))
             else if AutoMultiLine c then
               Inr (case multiLinePattern of
                      Some re \<Rightarrow> MultiLine (NewMultiLineHandler (env_match env re) lineLimit)
                    | None \<Rightarrow> Log_Handlers.AutoMultiLine (buildAutoMultilineHandlerFromConfig lineLimit c None))
             else Inr (SingleLine (NewSingleLineHandler lineLimit)));
          lineParser = (if SupportsPartialLine p then MultiLineP (NewMultiLineParser p lineLimit) else SingleLineP p) in
      and_then handler (\<lambda>h. Inr (New_Decoder lineLimit m, lineParser, h, source')))"

definition NewDecoderFromSourceWithPattern ::
  "environment \<Rightarrow> log_source \<Rightarrow> string option \<Rightarrow> (decoder \<times> line_parser \<times> line_handler \<times> log_source) go" where
  "NewDecoderFromSourceWithPattern env source multiLinePattern =
     (case src_Config source of
        None \<Rightarrow> Inl NilDereference
      | Some c \<Rightarrow> and_then (choose_parser env source c)
          (\<lambda>(p, m). NewDecoderWithEndLineMatcher env source c p m multiLinePattern))"

subsection \<open>The tailer\<close>

record tailer =
  readOffset :: int
  decodedOffset :: int
  bytesRead :: int
  t_Path :: string
  IsWildcardPath :: bool
  t_Source :: log_source
  t_tags :: "string list"
  providerTags :: "string list"
  didFileRotate :: bool

definition Tailer_Identifier :: "tailer \<Rightarrow> string" where
  "Tailer_Identifier t = ''file:'' @ t_Path t"

definition buildTailerTags :: "(string \<Rightarrow> string) \<Rightarrow> (string \<Rightarrow> string) \<Rightarrow> tailer \<Rightarrow> string list" where
  "buildTailerTags filepath_Base filepath_Dir t =
     [''filename:'' @ filepath_Base (t_Path t)] @
     (if IsWildcardPath t then [''dirname:'' @ filepath_Dir (t_Path t)] else [])"

definition NewTailer :: "string \<Rightarrow> bool \<Rightarrow> log_source \<Rightarrow> tailer" where
  "NewTailer path wildcard source =
     \<lparr>readOffset = 0, decodedOffset = 0, bytesRead = 0, t_Path = path, IsWildcardPath = wildcard,
      t_Source = source, t_tags = [], providerTags = [], didFileRotate = False\<rparr>"

datatype whence = SeekStart | SeekEnd

text \<open>\<open>Seek\<close> on a file of \<open>fsize\<close> bytes; a negative position is an error, which gives zero and is ignored.\<close>

definition Tailer_setup ::
  "(string \<Rightarrow> string) \<Rightarrow> (string \<Rightarrow> string) \<Rightarrow> int \<Rightarrow> int \<Rightarrow> whence \<Rightarrow> tailer \<Rightarrow> tailer" where
  "Tailer_setup filepath_Base filepath_Dir fsize offset wh t =
     (let ret = max 0 (case wh of SeekStart \<Rightarrow> offset | SeekEnd \<Rightarrow> fsize + offset) in
      t\<lparr>t_tags := buildTailerTags filepath_Base filepath_Dir t, readOffset := ret, decodedOffset := ret\<rparr>)"

definition shouldTrackOffset :: "tailer \<Rightarrow> bool" where
  "shouldTrackOffset t \<longleftrightarrow> \<not> didFileRotate t"

definition forwardMessage :: "tailer \<Rightarrow> dmessage \<Rightarrow> tailer \<times> message list" where
  "forwardMessage t output =
     (let offset = (if shouldTrackOffset t then decodedOffset t + int (RawDataLen output) else 0);
          identifier = (if shouldTrackOffset t then Tailer_Identifier t else []);
          o' = (NewOrigin (t_Source t))\<lparr>o_Identifier := identifier, Offset := FormatInt offset,
                 o_tags := t_tags t @ providerTags t\<rparr> in
      (t\<lparr>decodedOffset := offset\<rparr>,
       if length (Content output) = 0 then []
       else [NewLogMessage (Content output) (Some o') (Status output) (IngestionTimestamp output)]))"

definition Tailer_read :: "nat \<Rightarrow> tailer \<Rightarrow> tailer" where
  "Tailer_read n t = t\<lparr>readOffset := readOffset t + int n, bytesRead := bytesRead t + int n\<rparr>"

definition StopAfterFileRotation :: "tailer \<Rightarrow> tailer" where
  "StopAfterFileRotation t = t\<lparr>didFileRotate := True, t_Source := RemoveInput (t_Path t) (t_Source t)\<rparr>"

text \<open>The position a tailer starts from.\<close>

definition Position :: "(string \<Rightarrow> string) \<Rightarrow> string \<Rightarrow> tailing_mode \<Rightarrow> int \<times> whence \<times> bool" where
  "Position registry_GetOffset identifier mode =
     (let value = registry_GetOffset identifier in
      if mode = ForceBeginning then (0, SeekStart, False)
      else if mode = ForceEnd then (0, SeekEnd, False)
      else if value \<noteq> [] then
        (case ParseInt value of
           Some offset \<Rightarrow> (offset, SeekStart, False)
         | None \<Rightarrow> (0, if mode = End then SeekEnd else SeekStart, True))
      else if mode = Beginning then (0, SeekStart, False)
      else (0, SeekEnd, False))"


subsection \<open>The goroutines of a tailer\<close>

text \<open>
  \<open>tp_lines\<close>, \<open>tp_msgs\<close> and \<open>tp_outs\<close> are what has been sent on a channel and not yet been received;
  \<open>tp_sent\<close> is what the tailer put on its output channel. The flags say which goroutines still
  run: the decoder stops when its input channel is closed, the line parser when the decoder
  is done, the handler when the parser is done.
\<close>

record tail_pipe =
  tp_decoder :: decoder
  tp_lines :: "decoded_input list"
  tp_parser :: line_parser
  tp_msgs :: "dmessage list"
  tp_handler :: line_handler
  tp_outs :: "dmessage list"
  tp_tailer :: tailer
  tp_sent :: "message list"
  decoder_open :: bool
  parser_open :: bool
  handler_open :: bool

definition start_pipe :: "decoder \<Rightarrow> line_parser \<Rightarrow> line_handler \<Rightarrow> tailer \<Rightarrow> tail_pipe" where
  "start_pipe d p h t =
     \<lparr>tp_decoder = d, tp_lines = [], tp_parser = p, tp_msgs = [], tp_handler = h, tp_outs = [], tp_tailer = t,
      tp_sent = [], decoder_open = True, parser_open = True, handler_open = True\<rparr>"

inductive tail_step :: "environment \<Rightarrow> tail_pipe \<Rightarrow> tail_pipe \<Rightarrow> bool" for env where
  read: "decoder_open s \<Longrightarrow> 0 < length chunk \<Longrightarrow> length chunk \<le> 4096 \<Longrightarrow>
    decodeIncomingData (tp_decoder s) chunk = Inr (d', ls) \<Longrightarrow>
    tail_step env s (s\<lparr>tp_decoder := d', tp_lines := tp_lines s @ ls, tp_tailer := Tailer_read (length chunk) (tp_tailer s)\<rparr>)"
| stop: "decoder_open s \<Longrightarrow> tail_step env s (s\<lparr>decoder_open := False\<rparr>)"
| parse_line: "parser_open s \<Longrightarrow> tp_lines s = l # ls \<Longrightarrow> LineParser_step (tp_parser s) (t, Line l) = Inr (p', ms) \<Longrightarrow>
    tail_step env s (s\<lparr>tp_lines := ls, tp_parser := p', tp_msgs := tp_msgs s @ ms\<rparr>)"
| parse_tick: "parser_open s \<Longrightarrow> LineParser_step (tp_parser s) (t, Tick) = Inr (p', ms) \<Longrightarrow>
    tail_step env s (s\<lparr>tp_parser := p', tp_msgs := tp_msgs s @ ms\<rparr>)"
| parse_close: "parser_open s \<Longrightarrow> \<not> decoder_open s \<Longrightarrow> tp_lines s = [] \<Longrightarrow>
    LineParser_step (tp_parser s) (t, Close) = Inr (p', ms) \<Longrightarrow>
    tail_step env s (s\<lparr>tp_parser := p', tp_msgs := tp_msgs s @ ms, parser_open := False\<rparr>)"
| handle_msg: "handler_open s \<Longrightarrow> tp_msgs s = m # ms \<Longrightarrow>
    LineHandler_step (env_match env) (env_threshold env) (tp_handler s) (c, Line m) = Inr (h', os) \<Longrightarrow>
    tail_step env s (s\<lparr>tp_msgs := ms, tp_handler := h', tp_outs := tp_outs s @ os\<rparr>)"
| handle_tick: "handler_open s \<Longrightarrow>
    LineHandler_step (env_match env) (env_threshold env) (tp_handler s) (c, Tick) = Inr (h', os) \<Longrightarrow>
    tail_step env s (s\<lparr>tp_handler := h', tp_outs := tp_outs s @ os\<rparr>)"
| handle_close: "handler_open s \<Longrightarrow> \<not> parser_open s \<Longrightarrow> tp_msgs s = [] \<Longrightarrow>
    LineHandler_step (env_match env) (env_threshold env) (tp_handler s) (c, Close) = Inr (h', os) \<Longrightarrow>
    tail_step env s (s\<lparr>tp_handler := h', tp_outs := tp_outs s @ os, handler_open := False\<rparr>)"
| forward: "tp_outs s = out # os \<Longrightarrow> forwardMessage (tp_tailer s) out = (t', ms) \<Longrightarrow>
    tail_step env s (s\<lparr>tp_outs := os, tp_tailer := t', tp_sent := tp_sent s @ ms\<rparr>)"

subsection \<open>Offsets\<close>

definition in_flight :: "tail_pipe \<Rightarrow> nat" where
  "in_flight s = sum_list (map RawDataLen (tp_outs s)) + handler_pending (tp_handler s) +
     sum_list (map RawDataLen (tp_msgs s)) + parser_pending (tp_parser s) +
     sum_list (map di_rawDataLen (tp_lines s)) + d_rawDataLen (tp_decoder s)"

definition tail_inv :: "tail_pipe \<Rightarrow> bool" where
  "tail_inv s \<longleftrightarrow> source_matcher (d_matcher (tp_decoder s)) \<and> line_parser_ok (tp_parser s) \<and> handler_ok (tp_handler s) \<and>
     readOffset (tp_tailer s) = decodedOffset (tp_tailer s) + int (in_flight s) \<and>
     \<not> didFileRotate (tp_tailer s) \<and>
     (\<not> parser_open s \<longrightarrow> \<not> decoder_open s \<and> tp_lines s = [] \<and> parser_pending (tp_parser s) = 0) \<and>
     (\<not> handler_open s \<longrightarrow> \<not> parser_open s \<and> tp_msgs s = [] \<and> handler_pending (tp_handler s) = 0)"

lemma parser_close_pending:
  "LineParser_step p (t, Close) = Inr (p', ms) \<Longrightarrow> parser_pending p' = 0"
  by (cases p) (auto simp: MultiLineParser_sendLine_def)

lemma handler_close_pending:
  assumes "LineHandler_step re mt h (c, Close) = Inr (h', os)" and "handler_ok h"
  shows "handler_pending h' = 0"
proof (cases h)
  case (AutoMultiLine a)
  with assms show ?thesis
    by (auto simp: LineHandler_step_def AutoMultilineHandler_run_step_def sendBuffer_def auto_ok_def and_then_Inr_iff
      Let_def split: if_splits option.splits)
qed (use assms in \<open>auto simp: LineHandler_step_def sendBuffer_def Let_def\<close>)

lemma decode_account:
  assumes "decodeIncomingData d chunk = Inr (d', ls)" and "source_matcher (d_matcher d)"
  shows "sum_list (map di_rawDataLen ls) + d_rawDataLen d' = d_rawDataLen d + length chunk \<and> d_matcher d' = d_matcher d"
proof -
  obtain ends where "end_line_matcher (d_matcher d) ends" using source_matcher_ends [OF assms(2)] by blast
  with assms(1) have "byte_run ends d chunk = Inr (d', ls)"
    using end_line_matcher.decodeIncomingData_byte_run by fastforce
  from byte_run_account [OF this] show ?thesis by simp
qed

lemma forwardMessage_fields:
  assumes "forwardMessage t out = (t', ms)" and "\<not> didFileRotate t"
  shows "decodedOffset t' = decodedOffset t + int (RawDataLen out)" "readOffset t' = readOffset t"
    "\<not> didFileRotate t'" "t_Path t' = t_Path t"
    "list_all (\<lambda>m. \<exists>o'. m_Origin m = Some o' \<and> o_Identifier o' = Tailer_Identifier t \<and>
       Offset o' = FormatInt (decodedOffset t')) ms"
  using assms by (auto simp: forwardMessage_def shouldTrackOffset_def NewLogMessage_def Let_def)

lemma tail_step_inv:
  assumes "tail_step env s s'" and "tail_inv s"
  shows "tail_inv s'"
  using assms(1)
proof (cases rule: tail_step.cases)
  case (read chunk d' ls)
  with assms(2) decode_account [OF read(5)] show ?thesis
    by (auto simp: tail_inv_def in_flight_def Tailer_read_def)
next
  case (parse_line l ls t p' ms)
  with assms(2) parser.step_accountD [OF _ parse_line(4)] show ?thesis
    by (auto simp: tail_inv_def in_flight_def)
next
  case (parse_tick t p' ms)
  with assms(2) parser.step_accountD [OF _ parse_tick(3)] show ?thesis
    by (auto simp: tail_inv_def in_flight_def)
next
  case (parse_close t p' ms)
  with assms(2) parser.step_accountD [OF _ parse_close(5)] parser_close_pending [OF parse_close(5)] show ?thesis
    by (auto simp: tail_inv_def in_flight_def)
next
  case (handle_msg m ms c h' os)
  with assms(2) handler.step_accountD [OF _ handle_msg(4)] show ?thesis
    by (auto simp: tail_inv_def in_flight_def)
next
  case (handle_tick c h' os)
  with assms(2) handler.step_accountD [OF _ handle_tick(3)] show ?thesis
    by (auto simp: tail_inv_def in_flight_def)
next
  case (handle_close c h' os)
  with assms(2) handler.step_accountD [OF _ handle_close(5)] handler_close_pending [OF handle_close(5)] show ?thesis
    by (auto simp: tail_inv_def in_flight_def)
next
  case (forward out os t' ms)
  with assms(2) forwardMessage_fields [OF forward(3)] show ?thesis
    by (auto simp: tail_inv_def in_flight_def)
qed (use assms(2) in \<open>auto simp: tail_inv_def in_flight_def\<close>)


lemma parser_total_source:
  "parser_total NoopParser" "parser_total k8s_Parser"
  "NewDecodingParser tr e = Inr p \<Longrightarrow> parser_total p"
  "(\<And>b. js b \<noteq> Some None) \<Longrightarrow> parser_total (JSONParser js)"
proof -
  have "Parse NoopParser msg = Inr (msg, [], [], False)" for msg by (simp add: NoopParser_def)
  then show "parser_total NoopParser" unfolding parser_total_def by blast
  have "\<exists>r. Parse k8s_Parser msg = Inr r" for msg
    by (cases "k8s_parse msg") (simp add: k8s_Parser_def)
  then show "parser_total k8s_Parser" unfolding parser_total_def by blast
  show "parser_total p" if np: "NewDecodingParser tr e = Inr p"
  proof -
    obtain enc where "Parse p = (\<lambda>msg. Inr (tr enc msg, [], [], False))"
      using np by (auto simp: NewDecodingParser_def split: option.splits)
    then show ?thesis unfolding parser_total_def by metis
  qed
  assume a: "\<And>b. js b \<noteq> Some None"
  have "\<exists>r. jsonParser_Parse js b = Inr r" for b
    using a [of b] by (cases "js b") (auto simp: jsonParser_Parse_def Let_def)
  then show "parser_total (JSONParser js)" unfolding parser_total_def JSONParser_def by simp
qed

definition no_json_null :: "environment \<Rightarrow> log_source \<Rightarrow> bool" where
  "no_json_null env source \<longleftrightarrow>
     sourceType source = ''kubernetes'' \<and> containerdFlg source \<noteq> ''Y'' \<longrightarrow> (\<forall>b. env_json env b \<noteq> Some None)"

lemma choose_parser_ok:
  assumes "choose_parser env source c = Inr (p, m)" and "no_json_null env source"
  shows "parser_total p \<and> source_matcher m"
  using assms parser_total_source
  by (auto simp: choose_parser_def source_matcher_def no_json_null_def and_then_Inr_iff Let_def split: if_splits)

lemma NewDecoderFromSource_ok:
  assumes "NewDecoderFromSourceWithPattern env source pattern = Inr (d, p, h, source')" and "no_json_null env source"
  shows "source_matcher (d_matcher d)" and "d_rawDataLen d = 0" and "line_parser_ok p" and "parser_pending p = 0"
    and "handler_ok h" and "handler_pending h = 0"
proof -
  obtain c p0 m0 where c: "choose_parser env source c = Inr (p0, m0)"
    "NewDecoderWithEndLineMatcher env source c p0 m0 pattern = Inr (d, p, h, source')"
    using assms(1) by (auto simp: NewDecoderFromSourceWithPattern_def and_then_Inr_iff split: option.splits)
  note ok = choose_parser_ok [OF c(1) assms(2)]
  have auto: "auto_ok (buildAutoMultilineHandlerFromConfig lim c None)" "isRunning (buildAutoMultilineHandlerFromConfig lim c None)" for lim
    by (auto simp: auto_ok_def buildAutoMultilineHandlerFromConfig_def NewAutoMultilineHandler_def formatsToTry_def)
  have "source_matcher (d_matcher d) \<and> d_rawDataLen d = 0 \<and> line_parser_ok p \<and> parser_pending p = 0"
    using c(2) ok by (auto simp: NewDecoderWithEndLineMatcher_def New_Decoder_def NewMultiLineParser_def and_then_Inr_iff Let_def)
  moreover have "handler_ok h \<and> handler_pending h = 0"
    using c(2) auto
    by (auto simp: NewDecoderWithEndLineMatcher_def and_then_Inr_iff NewMultiLineHandler_def Let_def
      split: if_splits option.splits)
  ultimately show "source_matcher (d_matcher d)" and "d_rawDataLen d = 0" and "line_parser_ok p"
    and "parser_pending p = 0" and "handler_ok h" and "handler_pending h = 0" by blast+
qed

definition sent_offsets :: "int \<Rightarrow> tail_pipe \<Rightarrow> bool" where
  "sent_offsets start s \<longleftrightarrow> (\<exists>offs. map (\<lambda>m. map_option Offset (m_Origin m)) (tp_sent s) = map (Some \<circ> FormatInt) offs \<and>
     sorted (start # offs @ [decodedOffset (tp_tailer s)]))"

lemma forward_sent_offsets:
  assumes "sent_offsets start s" and "forwardMessage (tp_tailer s) out = (t', ms)" and "\<not> didFileRotate (tp_tailer s)"
  shows "sent_offsets start (s\<lparr>tp_outs := os, tp_tailer := t', tp_sent := tp_sent s @ ms\<rparr>)"
proof -
  obtain offs where o: "map (\<lambda>m. map_option Offset (m_Origin m)) (tp_sent s) = map (Some \<circ> FormatInt) offs"
    "sorted (start # offs @ [decodedOffset (tp_tailer s)])" using assms(1) by (auto simp: sent_offsets_def)
  note f = forwardMessage_fields [OF assms(2,3)]
  have ms: "map (\<lambda>m. map_option Offset (m_Origin m)) ms = replicate (length ms) (Some (FormatInt (decodedOffset t')))"
    using f(5) by (induction ms) auto
  have "sorted (start # (offs @ replicate (length ms) (decodedOffset t')) @ [decodedOffset t'])"
    using o(2) f(1) by (auto simp: sorted_append)
  with o(1) ms show ?thesis
    unfolding sent_offsets_def by (intro exI [of _ "offs @ replicate (length ms) (decodedOffset t')"]) (simp add: map_replicate_const)
qed

lemma tail_step_sent:
  assumes "tail_step env s s'" and "tail_inv s" and "sent_offsets start s"
  shows "sent_offsets start s'"
  using assms(1)
proof (cases rule: tail_step.cases)
  case (forward out os t' ms)
  with forward_sent_offsets [OF assms(3) forward(3)] assms(2) show ?thesis by (simp add: tail_inv_def)
qed (use assms(3) in \<open>simp_all add: sent_offsets_def Tailer_read_def\<close>)

lemma tail_reachable:
  assumes "NewDecoderFromSourceWithPattern env source pattern = Inr (d, p, h, source')" and "no_json_null env source"
    and "readOffset t = decodedOffset t" and "\<not> didFileRotate t"
    and "rtranclp (tail_step env) (start_pipe d p h t) s"
  shows "tail_inv s \<and> sent_offsets (decodedOffset t) s"
  using assms(5)
proof (induction rule: rtranclp_induct)
  case base
  from NewDecoderFromSource_ok [OF assms(1,2)] assms(3,4) show ?case
    by (simp add: tail_inv_def start_pipe_def in_flight_def sent_offsets_def)
next
  case (step s s')
  from step.IH tail_step_inv [OF step.hyps(2)] tail_step_sent [OF step.hyps(2)] show ?case by blast
qed

text \<open>C2: in every interleaving of reader, decoder, parser, handler and forwarder, the bytes read from the file are
  exactly the bytes whose offset was passed on plus the raw bytes still in flight; the
  forwarded messages carry non-decreasing offsets between the start and the decoded offset;
  and once the stages have shut down, the only bytes not accounted for are those of the last,
  unfinished line, so that a restart reads that line again from its first byte.\<close>

theorem Tailer_offsets:
  assumes "NewDecoderFromSourceWithPattern env source pattern = Inr (d, p, h, source')" and "no_json_null env source"
    and "readOffset t = decodedOffset t" and "\<not> didFileRotate t"
    and "rtranclp (tail_step env) (start_pipe d p h t) s"
  shows "readOffset (tp_tailer s) = decodedOffset (tp_tailer s) + int (in_flight s) \<and>
    (\<exists>offs. map (\<lambda>m. map_option Offset (m_Origin m)) (tp_sent s) = map (Some \<circ> FormatInt) offs \<and>
       sorted (decodedOffset t # offs @ [decodedOffset (tp_tailer s)])) \<and>
    (\<not> handler_open s \<and> tp_outs s = [] \<longrightarrow>
       readOffset (tp_tailer s) = decodedOffset (tp_tailer s) + int (d_rawDataLen (tp_decoder s)))"
  using tail_reachable [OF assms] by (auto simp: tail_inv_def sent_offsets_def in_flight_def)

definition sample_tail_env :: environment where
  "sample_tail_env = \<lparr>env_transform = (\<lambda>_ b. b), env_json = (\<lambda>_. None), env_match = (\<lambda>_ _. False), env_threshold = (\<lambda>_ _. False)\<rparr>"

definition sample_source :: log_source where
  "sample_source = NewLogSource 1 ''a'' (Some sample_config)"

lemma sample_decoder:
  "NewDecoderFromSourceWithPattern sample_tail_env sample_source None =
     Inr (New_Decoder defaultContentLenLimit NewLineMatcher, SingleLineP NoopParser,
          SingleLine (NewSingleLineHandler defaultContentLenLimit), sample_source)"
  by (simp add: NewDecoderFromSourceWithPattern_def sample_source_def sample_config_def NewLogSource_def
      choose_parser_def NewDecoderWithEndLineMatcher_def NoopParser_def rule_types Let_def)

lemma sample_read:
  assumes "s0 = start_pipe (New_Decoder defaultContentLenLimit NewLineMatcher) p h t"
  shows "\<exists>s. tail_step env s0 s \<and> readOffset (tp_tailer s) = readOffset t + 3"
proof -
  let ?d = "New_Decoder defaultContentLenLimit NewLineMatcher"
  let ?chunk = "''ab'' @ [newline]"
  obtain d' ls where r: "decodeIncomingData ?d ?chunk = Inr (d', ls)"
    using nl.byte_run_total [of ?d ?chunk] nl.decodeIncomingData_byte_run [of ?d]
    by (auto simp: New_Decoder_def NewLineMatcher_def defaultContentLenLimit_def)
  have "decoder_open s0" "decodeIncomingData (tp_decoder s0) ?chunk = Inr (d', ls)" "tp_tailer s0 = t"
    using assms r by (simp_all add: start_pipe_def)
  from tail_step.read [OF this(1) _ _ this(2), of env] this(3) show ?thesis
    by (auto simp: Tailer_read_def intro!: exI)
qed

theorem Tailer_offsets_witness:
  "\<exists>s. rtranclp (tail_step sample_tail_env) (start_pipe (New_Decoder defaultContentLenLimit NewLineMatcher) (SingleLineP NoopParser)
       (SingleLine (NewSingleLineHandler defaultContentLenLimit)) (NewTailer ''a'' False sample_source)) s \<and>
     readOffset (tp_tailer s) = 3 \<and> readOffset (tp_tailer s) = decodedOffset (tp_tailer s) + int (in_flight s)"
proof -
  let ?s0 = "start_pipe (New_Decoder defaultContentLenLimit NewLineMatcher) (SingleLineP NoopParser)
       (SingleLine (NewSingleLineHandler defaultContentLenLimit)) (NewTailer ''a'' False sample_source)"
  obtain s where s: "tail_step sample_tail_env ?s0 s" "readOffset (tp_tailer s) = readOffset (NewTailer ''a'' False sample_source) + 3"
    using sample_read [OF refl] by blast
  have "readOffset (tp_tailer s) = decodedOffset (tp_tailer s) + int (in_flight s)"
    using Tailer_offsets [OF sample_decoder _ _ _ r_into_rtranclp [of "tail_step sample_tail_env", OF s(1)]]
    by (auto simp: no_json_null_def sample_tail_env_def NewTailer_def)
  moreover have "readOffset (tp_tailer s) = 3" using s(2) by (simp add: NewTailer_def)
  ultimately show ?thesis using r_into_rtranclp [of "tail_step sample_tail_env", OF s(1)] by blast
qed


subsection \<open>Stopping\<close>

lemma drain_lines:
  assumes "tail_inv s" and "parser_open s"
  shows "\<exists>s'. rtranclp (tail_step env) s s' \<and> tail_inv s' \<and> tp_lines s' = [] \<and> parser_open s' \<and>
    decoder_open s' = decoder_open s \<and> handler_open s' = handler_open s"
  using assms
proof (induction "tp_lines s" arbitrary: s)
  case Nil
  then show ?case by (intro exI [of _ s]) simp
next
  case (Cons l ls)
  obtain p' ms where p: "LineParser_step (tp_parser s) (0, Line l) = Inr (p', ms)"
    using parser.step_law [of "tp_parser s" "(0, Line l)"] Cons.prems(1) by (auto simp: tail_inv_def)
  let ?s1 = "s\<lparr>tp_lines := ls, tp_parser := p', tp_msgs := tp_msgs s @ ms\<rparr>"
  have st: "tail_step env s ?s1" by (rule parse_line [OF Cons.prems(2) Cons.hyps(2) [symmetric] p])
  from Cons.hyps(1) [of ?s1] tail_step_inv [OF st Cons.prems(1)] Cons.prems(2) obtain s' where
    "rtranclp (tail_step env) ?s1 s'" "tail_inv s'" "tp_lines s' = []" "parser_open s'"
    "decoder_open s' = decoder_open s" "handler_open s' = handler_open s" by auto
  with st show ?case by (meson converse_rtranclp_into_rtranclp)
qed

lemma drain_msgs:
  assumes "tail_inv s" and "handler_open s"
  shows "\<exists>s'. rtranclp (tail_step env) s s' \<and> tail_inv s' \<and> tp_msgs s' = [] \<and> handler_open s' \<and>
    decoder_open s' = decoder_open s \<and> parser_open s' = parser_open s"
  using assms
proof (induction "tp_msgs s" arbitrary: s)
  case Nil
  then show ?case by (intro exI [of _ s]) simp
next
  case (Cons m ms)
  let ?c = "\<lparr>now = 0, timer_fired = False\<rparr>"
  obtain h' os where h: "LineHandler_step (env_match env) (env_threshold env) (tp_handler s) (?c, Line m) = Inr (h', os)"
    using handler.step_law [of "tp_handler s" "env_match env" "env_threshold env" "(?c, Line m)"] Cons.prems(1)
    by (auto simp: tail_inv_def)
  let ?s1 = "s\<lparr>tp_msgs := ms, tp_handler := h', tp_outs := tp_outs s @ os\<rparr>"
  have st: "tail_step env s ?s1" by (rule handle_msg [OF Cons.prems(2) Cons.hyps(2) [symmetric] h])
  from Cons.hyps(1) [of ?s1] tail_step_inv [OF st Cons.prems(1)] Cons.prems(2) obtain s' where
    "rtranclp (tail_step env) ?s1 s'" "tail_inv s'" "tp_msgs s' = []" "handler_open s'"
    "decoder_open s' = decoder_open s" "parser_open s' = parser_open s" by auto
  with st show ?case by (meson converse_rtranclp_into_rtranclp)
qed

lemma drain_outs:
  "\<exists>s'. rtranclp (tail_step env) s s' \<and> tp_outs s' = [] \<and> handler_open s' = handler_open s"
proof (induction "tp_outs s" arbitrary: s)
  case Nil
  then show ?case by (intro exI [of _ s]) simp
next
  case (Cons out os)
  obtain t' ms where f: "forwardMessage (tp_tailer s) out = (t', ms)" by fastforce
  let ?s1 = "s\<lparr>tp_outs := os, tp_tailer := t', tp_sent := tp_sent s @ ms\<rparr>"
  have st: "tail_step env s ?s1" by (rule forward [OF Cons.hyps(2) [symmetric] f])
  from Cons.hyps(1) [of ?s1] obtain s' where
    "rtranclp (tail_step env) ?s1 s'" "tp_outs s' = []" "handler_open s' = handler_open s" by auto
  with st show ?case by (meson converse_rtranclp_into_rtranclp)
qed

lemma close_parser:
  assumes "tail_inv s" and "\<not> decoder_open s"
  shows "\<exists>s'. rtranclp (tail_step env) s s' \<and> tail_inv s' \<and> \<not> parser_open s'"
proof (cases "parser_open s")
  case True
  from drain_lines [OF assms(1) True] obtain s1 where s1: "rtranclp (tail_step env) s s1" "tail_inv s1"
    "tp_lines s1 = []" "parser_open s1" "\<not> decoder_open s1" using assms(2) by auto
  obtain p' ms where p: "LineParser_step (tp_parser s1) (0, Close) = Inr (p', ms)"
    using parser.step_law [of "tp_parser s1" "(0, Close)"] s1(2) by (auto simp: tail_inv_def)
  from parse_close [OF s1(4,5,3) p] have st: "tail_step env s1
      (s1\<lparr>tp_parser := p', tp_msgs := tp_msgs s1 @ ms, parser_open := False\<rparr>)" by simp
  from tail_step_inv [OF st s1(2)] st s1(1) show ?thesis
    by (intro exI [of _ "s1\<lparr>tp_parser := p', tp_msgs := tp_msgs s1 @ ms, parser_open := False\<rparr>"]) auto
qed (use assms in auto)

lemma close_handler:
  assumes "tail_inv s" and "\<not> parser_open s"
  shows "\<exists>s'. rtranclp (tail_step env) s s' \<and> tail_inv s' \<and> \<not> handler_open s'"
proof (cases "handler_open s")
  case True
  let ?c = "\<lparr>now = 0, timer_fired = False\<rparr>"
  from drain_msgs [OF assms(1) True] obtain s1 where s1: "rtranclp (tail_step env) s s1" "tail_inv s1"
    "tp_msgs s1 = []" "handler_open s1" "\<not> parser_open s1" using assms(2) by auto
  obtain h' os where h: "LineHandler_step (env_match env) (env_threshold env) (tp_handler s1) (?c, Close) = Inr (h', os)"
    using handler.step_law [of "tp_handler s1" "env_match env" "env_threshold env" "(?c, Close)"] s1(2)
    by (auto simp: tail_inv_def)
  from handle_close [OF s1(4,5,3) h] have st: "tail_step env s1
      (s1\<lparr>tp_handler := h', tp_outs := tp_outs s1 @ os, handler_open := False\<rparr>)" by simp
  from tail_step_inv [OF st s1(2)] st s1(1) show ?thesis
    by (intro exI [of _ "s1\<lparr>tp_handler := h', tp_outs := tp_outs s1 @ os, handler_open := False\<rparr>"]) auto
qed (use assms in auto)



text \<open>A container log line that is the JSON text null, for which the JSON decoder reports success and leaves
  the nil pointer, makes the line parser panic; every other outcome of the decoder is parsed.\<close>

theorem JSONParser_panics_on_null:
  "(\<exists>r. Parse (JSONParser json_Unmarshal) data = Inr r) = (json_Unmarshal data \<noteq> Some None)"
  by (cases "json_Unmarshal data") (auto simp: JSONParser_def jsonParser_Parse_def Let_def split: option.splits)

text \<open>A CRI log line with timestamp, stream, flag and content is parsed into these fields; the content may
  hold blanks, and the line is partial exactly when the flag is P.\<close>

theorem k8s_Parser_fields:
  assumes "CHR '' '' \<notin> set ts" and "CHR '' '' \<notin> set stream" and "CHR '' '' \<notin> set flag"
  shows "Parse k8s_Parser (ts @ '' '' @ stream @ '' '' @ flag @ '' '' @ content) =
    Inr (content, if stream = ''stderr'' then ''error'' else ''info'', ts, flag = ''P'')"
proof -
  have split: "SplitN (a @ CHR '' '' # s) (CHR '' '') (Suc (Suc n)) = a # SplitN s (CHR '' '') (Suc n)"
    if sp: "CHR '' '' \<notin> set a" for a s n
  proof -
    have "takeWhile (\<lambda>c. c \<noteq> CHR '' '') (a @ CHR '' '' # s) = a"
      "dropWhile (\<lambda>c. c \<noteq> CHR '' '') (a @ CHR '' '' # s) = CHR '' '' # s"
      using sp by (induction a) auto
    then show ?thesis by simp
  qed
  have "SplitN (ts @ '' '' @ stream @ '' '' @ flag @ '' '' @ content) (CHR '' '') 4 = [ts, stream, flag, content]"
    using assms split [of ts _ 2] split [of stream _ 1] split [of flag _ 0] by (simp add: numeral_eq_Suc)
  then show ?thesis
    by (simp add: k8s_Parser_def k8s_parse_def numberOfComponents_def k8s_isPartial_def k8s_getStatus_def
      StatusInfo_def StatusError_def Let_def)
qed

theorem k8s_Parser_fields_witness:
  "Parse k8s_Parser ''2018Z stderr P This is my message'' = Inr (''This is my message'', ''error'', ''2018Z'', True)"
  using k8s_Parser_fields [of "''2018Z''" "''stderr''" "''P''" "''This is my message''"] by simp

end
