(* ===== verification/Log_Files.thy ===== *)
theory Log_Files
  imports Log_Config
begin

text \<open>
  Which files are tailed: \<open>src/logs/input/file/file_provider.go\<close> with the date patterns of
  \<open>src/logs/util/date_format.go\<close>, on Unix, where \<open>filepath.ToSlash\<close> is the identity. The part of the file system a walk
  sees is a tree; pattern matching, globbing, symbolic links and the formatting of times
  are parameters. Warnings and the status shown to the user are left out.
\<close>

subsection \<open>Date patterns\<close>

definition dateFormatMappings :: "(string \<times> string) list" where
  "dateFormatMappings =
     [(''yyyy'', ''2006''), (''yy'', ''06''), (''MM'', ''01''), (''M'', ''1''), (''dd'', ''02''), (''d'', ''2''),
      (''HH'', ''15''), (''H'', ''15''), (''hh'', ''03''), (''mm'', ''04''), (''m'', ''4''), (''ss'', ''05''), (''s'', ''5''),
      (''ISO8601'', ''2006-01-02T15:04:05.000Z''), (''YYYY'', ''2006''), (''YY'', ''06''),
      (''-'', ''-''), (''.'', ''.''), (''/'', ''/''), (''_'', ''_''), ('' '', '' ''), ('':'', '':'')]"

definition convertJodaToGoFormat :: "string \<Rightarrow> string" where
  "convertJodaToGoFormat jodaFormat = foldl (\<lambda>r (joda, go). ReplaceAll joda go r) jodaFormat dateFormatMappings"

text \<open>The expression of \<open>datePatternRegex\<close> at the start of a text: the pattern in braces and what follows.\<close>

definition date_match :: "string \<Rightarrow> (string \<times> string) option" where
  "date_match s =
     (if prefix ''%{+'' s then
        (let body = takeWhile (\<lambda>c. c \<noteq> CHR ''}'') (drop 3 s); rest = drop (3 + length body) s in
         if body \<noteq> [] \<and> rest \<noteq> [] then Some (body, tl rest) else None)
      else None)"

fun ContainsDatePattern :: "string \<Rightarrow> bool" where
  "ContainsDatePattern [] \<longleftrightarrow> False"
| "ContainsDatePattern (c # s) \<longleftrightarrow> date_match (c # s) \<noteq> None \<or> ContainsDatePattern s"

text \<open>\<open>Format\<close>: the current time, in UTC or not, printed with a layout.\<close>

record clock =
  c_Format :: "bool \<Rightarrow> string \<Rightarrow> string"
  c_millis :: nat

definition pad3 :: "nat \<Rightarrow> string" where
  "pad3 n = replicate (3 - length (itoa n)) (CHR ''0'') @ itoa n"

definition expand_one :: "clock \<Rightarrow> string \<Rightarrow> string" where
  "expand_one now pattern0 =
     (let utc = sublist ''ISO8601'' pattern0;
          pattern = ReplaceAll ''SSS'' ''_XXX_'' pattern0;
          formatted = c_Format now utc (convertJodaToGoFormat pattern) in
      ReplaceAll ''_XXX_'' (pad3 (c_millis now)) formatted)"

lemma date_match_shorter: "date_match s = Some (body, rest) \<Longrightarrow> length rest < length s"
  by (auto simp: date_match_def Let_def split: if_splits)

function ExpandDatePattern :: "clock \<Rightarrow> string \<Rightarrow> string" where
  "ExpandDatePattern now [] = []"
| "ExpandDatePattern now (c # s) =
     (case date_match (c # s) of
        Some (body, rest) \<Rightarrow> expand_one now body @ ExpandDatePattern now rest
      | None \<Rightarrow> c # ExpandDatePattern now s)"
  by pat_completeness auto
termination
  by (relation "measure (\<lambda>(now, s). length s)") (auto dest: date_match_shorter)

lemma ExpandDatePattern_plain: "\<not> ContainsDatePattern s \<Longrightarrow> ExpandDatePattern now s = s"
  by (induction s) (auto split: option.splits)

subsection \<open>Files\<close>

record log_file =
  f_Path :: string
  f_IsWildcardPath :: bool
  f_Source :: "log_source option"

definition NewFile :: "string \<Rightarrow> log_source \<Rightarrow> bool \<Rightarrow> log_file" where
  "NewFile path source wildcard = \<lparr>f_Path = path, f_IsWildcardPath = wildcard, f_Source = Some source\<rparr>"

definition GetScanKey :: "log_file \<Rightarrow> string" where
  "GetScanKey f =
     (case f_Source f of
        None \<Rightarrow> f_Path f
      | Some src \<Rightarrow>
          (case src_Config src of
             None \<Rightarrow> f_Path f
           | Some c \<Rightarrow> if c_Identifier c \<noteq> [] then f_Path f @ ''/'' @ c_Identifier c else f_Path f))"

record provider =
  filesLimit :: int
  maxTraverseLimit :: int
  maxDepthLimit :: int

definition MaxTraverseLimit :: "int \<Rightarrow> int" where
  "MaxTraverseLimit configured = (if configured \<le> 0 then 100000 else configured)"

definition MaxDepthLimit :: "int \<Rightarrow> int" where
  "MaxDepthLimit configured = (if configured \<le> 0 then 15 else configured)"

definition NewProvider :: "int \<Rightarrow> int \<Rightarrow> int \<Rightarrow> int \<Rightarrow> int \<Rightarrow> provider" where
  "NewProvider configuredTraverse configuredDepth limit traverse depth =
     \<lparr>filesLimit = limit,
      maxTraverseLimit = (if traverse \<le> 0 then MaxTraverseLimit configuredTraverse else traverse),
      maxDepthLimit = (if depth \<le> 0 then MaxDepthLimit configuredDepth else depth)\<rparr>"

subsection \<open>Walking a tree\<close>

datatype walk_error = ErrMaxTraverse | ErrPermission | ErrNotExist | OtherIOError string

datatype fs_node = FileNode string | DirNode string "fs_node list" "walk_error option"

fun node_name :: "fs_node \<Rightarrow> string" where
  "node_name (FileNode n) = n"
| "node_name (DirNode n children read_error) = n"

datatype walk_return = WalkOn | SkipDir | WalkFail walk_error

type_synonym walk_state = "int \<times> string list"

record file_env =
  os_Stat_ok :: "string \<Rightarrow> bool"
  filepath_Glob :: "string \<Rightarrow> string list option"
  os_Lstat :: "string \<Rightarrow> walk_error + fs_node"
  doublestar_Match :: "string \<Rightarrow> string \<Rightarrow> bool option"
  doublestar_SplitBase :: "string \<Rightarrow> string"
  filepath_Clean :: "string \<Rightarrow> string"
  os_Readlink :: "string \<Rightarrow> string option"
  filepath_Join :: "string \<Rightarrow> string \<Rightarrow> string"
  HOST_MOUNT_PREFIX :: string
  fe_now :: clock

definition walk_fn ::
  "file_env \<Rightarrow> provider \<Rightarrow> string \<Rightarrow> nat \<Rightarrow> string \<Rightarrow> bool \<Rightarrow> walk_error option \<Rightarrow> walk_state \<Rightarrow> walk_state \<times> walk_return" where
  "walk_fn env p pattern depth path is_dir err st =
     (let n = fst st + 1; paths = snd st in
      if n > maxTraverseLimit p then ((n, paths), WalkFail ErrMaxTraverse)
      else
        (case err of
           Some e \<Rightarrow> if e = ErrPermission then ((n, paths), WalkOn) else ((n, paths), WalkFail e)
         | None \<Rightarrow>
             if is_dir then
               (if depth \<noteq> 0 \<and> int depth > maxDepthLimit p then ((n, paths), SkipDir) else ((n, paths), WalkOn))
             else if doublestar_Match env pattern path = Some True then ((n, paths @ [path]), WalkOn)
             else ((n, paths), WalkOn)))"

text \<open>\<open>filepath.WalkDir\<close>: a directory is visited before its entries; when it cannot be read it is visited again with the error.\<close>

fun walkDir :: "file_env \<Rightarrow> provider \<Rightarrow> string \<Rightarrow> nat \<Rightarrow> string \<Rightarrow> fs_node \<Rightarrow> walk_state \<Rightarrow> walk_state \<times> walk_return"
and walkDirs :: "file_env \<Rightarrow> provider \<Rightarrow> string \<Rightarrow> nat \<Rightarrow> string \<Rightarrow> fs_node list \<Rightarrow> walk_state \<Rightarrow> walk_state \<times> walk_return" where
  "walkDir env p pattern depth path (FileNode name) st = walk_fn env p pattern depth path False None st"
| "walkDir env p pattern depth path (DirNode name children read_error) st =
     (let (st1, r1) = walk_fn env p pattern depth path True None st in
      case r1 of
        SkipDir \<Rightarrow> (st1, WalkOn)
      | WalkFail e \<Rightarrow> (st1, WalkFail e)
      | WalkOn \<Rightarrow>
          (let (st2, r2) = (if read_error = None then (st1, WalkOn)
                            else walk_fn env p pattern depth path True read_error st1) in
           case r2 of
             SkipDir \<Rightarrow> (st2, WalkOn)
           | WalkFail e \<Rightarrow> (st2, WalkFail e)
           | WalkOn \<Rightarrow> walkDirs env p pattern (Suc depth) path children st2))"
| "walkDirs env p pattern depth path [] st = (st, WalkOn)"
| "walkDirs env p pattern depth path (c # cs) st =
     (let (st1, r1) = walkDir env p pattern depth (filepath_Join env path (node_name c)) c st in
      case r1 of
        WalkOn \<Rightarrow> walkDirs env p pattern depth path cs st1
      | SkipDir \<Rightarrow> (st1, WalkOn)
      | WalkFail e \<Rightarrow> (st1, WalkFail e))"

definition doublestarWalk :: "file_env \<Rightarrow> provider \<Rightarrow> string \<Rightarrow> walk_error + string list" where
  "doublestarWalk env p pattern =
     (let base0 = doublestar_SplitBase env pattern;
          base = filepath_Clean env (if base0 = [] then ''.'' else base0);
          (st, r) = (case os_Lstat env base of
                       Inl e \<Rightarrow> walk_fn env p pattern 0 base False (Some e) (0, [])
                     | Inr node \<Rightarrow> walkDir env p pattern 0 base node (0, [])) in
      case r of
        WalkFail ErrMaxTraverse \<Rightarrow> Inr (snd st)
      | WalkFail ErrNotExist \<Rightarrow> Inr []
      | WalkFail e \<Rightarrow> Inl e
      | _ \<Rightarrow> Inr (snd st))"

subsection \<open>Collecting files\<close>

definition hasDoublestar :: "string \<Rightarrow> bool" where
  "hasDoublestar pattern \<longleftrightarrow>
     sublist ''/**/'' pattern \<or> prefix ''**/'' pattern \<or> suffix ''/**'' pattern \<or> pattern = ''**''"

definition filepath_Base :: "string \<Rightarrow> string" where
  "filepath_Base path =
     (if path = [] then ''.''
      else
        (let b = takeWhile (\<lambda>c. c \<noteq> CHR ''/'') (dropWhile (\<lambda>c. c = CHR ''/'') (rev path)) in
         if b = [] then ''/'' else rev b))"

text \<open>\<open>sort.SliceStable\<close> with a test for a greater key: descending, equal keys in the order they had.\<close>

definition SliceStable_desc :: "('a \<Rightarrow> string) \<Rightarrow> 'a list \<Rightarrow> 'a list" where
  "SliceStable_desc key xs = rev (sort_key key (rev xs))"

definition expand_exclude :: "clock \<Rightarrow> string \<Rightarrow> string" where
  "expand_exclude now pattern = (if ContainsDatePattern pattern then ExpandDatePattern now pattern else pattern)"

definition is_excluded :: "file_env \<Rightarrow> string list \<Rightarrow> string \<Rightarrow> bool" where
  "is_excluded env excludes path \<longleftrightarrow> list_ex (\<lambda>e. doublestar_Match env e path = Some True) excludes"

definition resolve_path :: "file_env \<Rightarrow> string \<Rightarrow> string" where
  "resolve_path env path =
     (if HOST_MOUNT_PREFIX env \<noteq> [] then
        (case os_Readlink env path of None \<Rightarrow> path | Some pt \<Rightarrow> filepath_Join env (HOST_MOUNT_PREFIX env) pt)
      else path)"

datatype collect_error = MalformedOrWalkFailed string | NoMatch string | FileMissing string

definition searchFiles :: "file_env \<Rightarrow> provider \<Rightarrow> string \<Rightarrow> log_source \<Rightarrow> logs_config \<Rightarrow> collect_error + log_file list" where
  "searchFiles env p pattern source c =
     (case (if hasDoublestar pattern then (case doublestarWalk env p pattern of Inl e \<Rightarrow> None | Inr ps \<Rightarrow> Some ps)
            else filepath_Glob env pattern) of
        None \<Rightarrow> Inl (MalformedOrWalkFailed pattern)
      | Some paths0 \<Rightarrow>
          if length paths0 = 0 then Inl (NoMatch pattern)
          else
            (let paths = SliceStable_desc filepath_Base (rev paths0);
                 excludes = map (expand_exclude (fe_now env)) (ExcludePaths c) in
             Inr (map (\<lambda>path. NewFile (resolve_path env path) source True)
                   (filter (\<lambda>path. \<not> is_excluded env excludes path) paths))))"

definition CollectFiles :: "file_env \<Rightarrow> provider \<Rightarrow> log_source \<Rightarrow> (collect_error + log_file list) go" where
  "CollectFiles env p source =
     (case src_Config source of
        None \<Rightarrow> Inl NilDereference
      | Some c \<Rightarrow>
          (let path = (if ContainsDatePattern (c_Path c) then ExpandDatePattern (fe_now env) (c_Path c) else c_Path c) in
           Inr (if os_Stat_ok env path then Inr [NewFile path source False]
                else if ContainsWildcard path then searchFiles env p path source c
                else Inl (FileMissing path))))"

fun FilesToTail_loop :: "file_env \<Rightarrow> provider \<Rightarrow> log_source list \<Rightarrow> log_file list \<Rightarrow> log_file list go" where
  "FilesToTail_loop env p [] filesToTail = Inr filesToTail"
| "FilesToTail_loop env p (source # srcs) filesToTail =
     and_then (CollectFiles env p source)
       (\<lambda>r. case r of
          Inl e \<Rightarrow> FilesToTail_loop env p srcs filesToTail
        | Inr files \<Rightarrow>
            FilesToTail_loop env p srcs
              (filesToTail @ take (nat (filesLimit p - int (length filesToTail))) files))"

definition FilesToTail :: "file_env \<Rightarrow> provider \<Rightarrow> log_source list \<Rightarrow> log_file list go" where
  "FilesToTail env p srcs = FilesToTail_loop env p srcs []"


subsection \<open>What a walk finds\<close>

text \<open>The entries of a tree without read errors in the order a walk visits them, directories below the depth limit not entered.\<close>

fun visits :: "file_env \<Rightarrow> int \<Rightarrow> nat \<Rightarrow> string \<Rightarrow> fs_node \<Rightarrow> (string \<times> bool) list"
and visits_all :: "file_env \<Rightarrow> int \<Rightarrow> nat \<Rightarrow> string \<Rightarrow> fs_node list \<Rightarrow> (string \<times> bool) list" where
  "visits env lim depth path (FileNode name) = [(path, False)]"
| "visits env lim depth path (DirNode name children read_error) =
     (path, True) # (if depth \<noteq> 0 \<and> int depth > lim then [] else visits_all env lim (Suc depth) path children)"
| "visits_all env lim depth path [] = []"
| "visits_all env lim depth path (c # cs) =
     visits env lim depth (filepath_Join env path (node_name c)) c @ visits_all env lim depth path cs"

fun readable :: "fs_node \<Rightarrow> bool" where
  "readable (FileNode name) \<longleftrightarrow> True"
| "readable (DirNode name children read_error) \<longleftrightarrow> read_error = None \<and> list_all readable children"

definition selected :: "file_env \<Rightarrow> string \<Rightarrow> (string \<times> bool) list \<Rightarrow> string list" where
  "selected env pattern vs = map fst (filter (\<lambda>(path, is_dir). \<not> is_dir \<and> doublestar_Match env pattern path = Some True) vs)"

lemma selected_simps [simp]:
  "selected env pattern [] = []"
  "selected env pattern ((path, True) # vs) = selected env pattern vs"
  "selected env pattern ((path, False) # vs) =
     (if doublestar_Match env pattern path = Some True then [path] else []) @ selected env pattern vs"
  "selected env pattern (vs @ ws) = selected env pattern vs @ selected env pattern ws"
  by (simp_all add: selected_def)

definition walked :: "file_env \<Rightarrow> provider \<Rightarrow> string \<Rightarrow> (string \<times> bool) list \<Rightarrow> walk_state \<Rightarrow> walk_state \<times> walk_return" where
  "walked env p pattern vs st =
     (if fst st + int (length vs) \<le> maxTraverseLimit p
      then ((fst st + int (length vs), snd st @ selected env pattern vs), WalkOn)
      else ((maxTraverseLimit p + 1, snd st @ selected env pattern (take (nat (maxTraverseLimit p - fst st)) vs)),
            WalkFail ErrMaxTraverse))"

lemma walked_Nil: "fst st \<le> maxTraverseLimit p \<Longrightarrow> walked env p pattern [] st = (st, WalkOn)"
  by (cases st) (simp add: walked_def)

lemma walked_append:
  assumes "fst st \<le> maxTraverseLimit p"
  shows "walked env p pattern (vs @ ws) st =
    (case walked env p pattern vs st of
       (st', WalkOn) \<Rightarrow> walked env p pattern ws st' | r \<Rightarrow> r)"
proof (cases "fst st + int (length vs) \<le> maxTraverseLimit p")
  case True
  then have "nat (maxTraverseLimit p - fst st) - length vs = nat (maxTraverseLimit p - (fst st + int (length vs)))"
    "length vs \<le> nat (maxTraverseLimit p - fst st)"
    by linarith+
  with True show ?thesis by (auto simp: walked_def algebra_simps)
next
  case False
  then have "nat (maxTraverseLimit p - fst st) - length vs = 0" by linarith
  with False show ?thesis by (auto simp: walked_def)
qed

lemma walk_fn_visit:
  assumes "fst st \<le> maxTraverseLimit p"
  shows "walk_fn env p pattern depth path False None st = walked env p pattern [(path, False)] st"
    and "walk_fn env p pattern depth path True None st =
      (case walked env p pattern [(path, True)] st of
         (st', WalkOn) \<Rightarrow> (st', if depth \<noteq> 0 \<and> int depth > maxDepthLimit p then SkipDir else WalkOn) | r \<Rightarrow> r)"
proof -
  have e: "fst st = maxTraverseLimit p \<or> fst st + 1 \<le> maxTraverseLimit p" using assms by linarith
  show "walk_fn env p pattern depth path False None st = walked env p pattern [(path, False)] st"
    using e by (auto simp: walk_fn_def walked_def Let_def)
  show "walk_fn env p pattern depth path True None st =
      (case walked env p pattern [(path, True)] st of
         (st', WalkOn) \<Rightarrow> (st', if depth \<noteq> 0 \<and> int depth > maxDepthLimit p then SkipDir else WalkOn) | r \<Rightarrow> r)"
    using e by (auto simp: walk_fn_def walked_def Let_def)
qed

lemma walked_bounded:
  "walked env p pattern vs st = (st', WalkOn) \<Longrightarrow> fst st' \<le> maxTraverseLimit p"
  by (auto simp: walked_def split: if_splits)

lemma walked_no_skip: "walked env p pattern vs st \<noteq> (st', SkipDir)"
  by (auto simp: walked_def)

lemma walk_all_visits:
  assumes "\<And>c depth path st. c \<in> set cs \<Longrightarrow> fst st \<le> maxTraverseLimit p \<Longrightarrow>
      walkDir env p pattern depth path c st = walked env p pattern (visits env (maxDepthLimit p) depth path c) st"
    and "fst st \<le> maxTraverseLimit p"
  shows "walkDirs env p pattern depth path cs st = walked env p pattern (visits_all env (maxDepthLimit p) depth path cs) st"
  using assms
proof (induction cs arbitrary: st)
  case (Cons c cs)
  let ?path = "filepath_Join env path (node_name c)"
  obtain st1 r1 where w: "walked env p pattern (visits env (maxDepthLimit p) depth ?path c) st = (st1, r1)" by fastforce
  then have d: "walkDir env p pattern depth ?path c st = (st1, r1)" using Cons.prems by simp
  have v: "walked env p pattern (visits_all env (maxDepthLimit p) depth path (c # cs)) st =
      (case r1 of WalkOn \<Rightarrow> walked env p pattern (visits_all env (maxDepthLimit p) depth path cs) st1 | _ \<Rightarrow> (st1, r1))"
    using walked_append [OF Cons.prems(2)] w by (simp split: walk_return.splits)
  show ?case
  proof (cases r1)
    case WalkOn
    with w have b: "fst st1 \<le> maxTraverseLimit p" using walked_bounded by blast
    from Cons.IH [OF Cons.prems(1) b] have
      "walkDirs env p pattern depth path cs st1 = walked env p pattern (visits_all env (maxDepthLimit p) depth path cs) st1"
      by simp
    with d v WalkOn show ?thesis by simp
  next
    case SkipDir
    with w walked_no_skip show ?thesis by blast
  next
    case (WalkFail e)
    with d v show ?thesis by simp
  qed
qed (simp add: walked_Nil)

lemma walk_visits:
  "readable node \<Longrightarrow> fst st \<le> maxTraverseLimit p \<Longrightarrow>
     walkDir env p pattern depth path node st = walked env p pattern (visits env (maxDepthLimit p) depth path node) st"
proof (induction node arbitrary: depth path st)
  case (FileNode name)
  then show ?case by (simp add: walk_fn_visit)
next
  case (DirNode name children read_error)
  note lim = DirNode.prems(2)
  obtain st1 r1 where w: "walked env p pattern [(path, True)] st = (st1, r1)" by fastforce
  define deep where "deep \<longleftrightarrow> depth \<noteq> 0 \<and> int depth > maxDepthLimit p"
  let ?rest = "visits_all env (maxDepthLimit p) (Suc depth) path children"
  have f: "walk_fn env p pattern depth path True None st =
      (case r1 of WalkOn \<Rightarrow> (st1, if deep then SkipDir else WalkOn) | _ \<Rightarrow> (st1, r1))"
    unfolding walk_fn_visit(2) [OF lim] w deep_def by (cases r1) simp_all
  have "visits env (maxDepthLimit p) depth path (DirNode name children read_error) =
      [(path, True)] @ (if deep then [] else ?rest)" by (simp add: deep_def)
  then have v: "walked env p pattern (visits env (maxDepthLimit p) depth path (DirNode name children read_error)) st =
      (case r1 of WalkOn \<Rightarrow> walked env p pattern (if deep then [] else ?rest) st1 | _ \<Rightarrow> (st1, r1))"
    by (cases r1) (simp_all only: walked_append [OF lim] w prod.case walk_return.case)
  show ?case
  proof (cases r1)
    case WalkOn
    with w have b: "fst st1 \<le> maxTraverseLimit p" using walked_bounded by blast
    have "walkDirs env p pattern (Suc depth) path children st1 = walked env p pattern ?rest st1"
      by (rule walk_all_visits) (use DirNode b in \<open>auto simp: list_all_iff\<close>)
    with f v WalkOn DirNode.prems(1) b show ?thesis by (simp add: walked_Nil)
  next
    case SkipDir
    with w walked_no_skip show ?thesis by blast
  next
    case (WalkFail e)
    with f v show ?thesis by simp
  qed
qed

text \<open>A walk over a readable tree returns exactly the matching files among the entries it may visit, in the order of the tree: the first
  \<open>maxTraverseLimit\<close> entries of the tree with the directories below the depth limit left unentered. So
  the limits bound the work, and within them no match is missed.\<close>

theorem doublestarWalk_selects:
  assumes "os_Lstat env base = Inr node" and "readable node" and "0 \<le> maxTraverseLimit p"
    and "base = filepath_Clean env (if doublestar_SplitBase env pattern = [] then ''.'' else doublestar_SplitBase env pattern)"
  shows "doublestarWalk env p pattern =
    Inr (selected env pattern (take (nat (maxTraverseLimit p)) (visits env (maxDepthLimit p) 0 base node)))"
proof -
  have "walkDir env p pattern 0 base node (0, []) = walked env p pattern (visits env (maxDepthLimit p) 0 base node) (0, [])"
    using assms(2,3) by (intro walk_visits) simp_all
  with assms show ?thesis by (auto simp: doublestarWalk_def Let_def walked_def)
qed

definition sample_tree :: fs_node where
  "sample_tree = DirNode ''logs'' [FileNode ''a.log'', DirNode ''d'' [FileNode ''b.log'', FileNode ''c.txt''] None] None"

definition sample_file_env :: file_env where
  "sample_file_env = \<lparr>os_Stat_ok = (\<lambda>_. False), filepath_Glob = (\<lambda>_. Some [''/l/2017.log'', ''/l/2018.log'']),
     os_Lstat = (\<lambda>_. Inr sample_tree), doublestar_Match = (\<lambda>pat s. Some (take 4 (rev s) = ''gol.'')), doublestar_SplitBase = (\<lambda>_. ''/logs''),
     filepath_Clean = id, os_Readlink = (\<lambda>_. None), filepath_Join = (\<lambda>a b. a @ ''/'' @ b), HOST_MOUNT_PREFIX = [],
     fe_now = \<lparr>c_Format = (\<lambda>utc layout. layout), c_millis = 7\<rparr>\<rparr>"

theorem doublestarWalk_selects_witness:
  "doublestarWalk sample_file_env (NewProvider 0 0 10 4 3) ''/logs/**/*.log'' = Inr [''/logs/a.log'', ''/logs/d/b.log'']"
proof -
  let ?p = "NewProvider 0 0 10 4 3"
  have "visits sample_file_env 3 0 ''/logs'' sample_tree =
      [(''/logs'', True), (''/logs/a.log'', False), (''/logs/d'', True), (''/logs/d/b.log'', False), (''/logs/d/c.txt'', False)]"
    by (simp add: sample_file_env_def sample_tree_def)
  moreover have "maxTraverseLimit ?p = 4" "maxDepthLimit ?p = 3" by (simp_all add: NewProvider_def)
  moreover have "doublestarWalk sample_file_env ?p ''/logs/**/*.log'' = Inr (selected sample_file_env ''/logs/**/*.log''
      (take (nat (maxTraverseLimit ?p)) (visits sample_file_env (maxDepthLimit ?p) 0 ''/logs'' sample_tree)))"
    by (rule doublestarWalk_selects) (simp_all add: sample_file_env_def sample_tree_def NewProvider_def)
  moreover have "nat 4 = 4" by simp
  ultimately show ?thesis by (simp add: sample_file_env_def)
qed

subsection \<open>Which files, and in which order\<close>

definition newer :: "string \<Rightarrow> string \<Rightarrow> bool" where
  "newer p q \<longleftrightarrow> filepath_Base p > filepath_Base q \<or> filepath_Base p = filepath_Base q \<and> p \<ge> q"

lemma newer_trans: "newer p q \<Longrightarrow> newer q r \<Longrightarrow> newer p r"
  unfolding newer_def by (metis less_trans order_trans)

lemma insort_newer:
  assumes "sorted_wrt (\<lambda>q p. newer p q) ys" and "list_all (\<lambda>y. x \<le> y) ys"
  shows "sorted_wrt (\<lambda>q p. newer p q) (insort_key filepath_Base x ys)"
  using assms
proof (induction ys)
  case (Cons y ys)
  show ?case
  proof (cases "filepath_Base x \<le> filepath_Base y")
    case True
    then have y: "newer y x" using Cons.prems(2) by (auto simp: newer_def)
    then have "\<forall>z \<in> set ys. newer z x" using Cons.prems(1) newer_trans by auto
    with True y Cons.prems(1) show ?thesis by simp
  next
    case False
    then have "newer x y" by (simp add: newer_def not_le)
    with False Cons show ?thesis by (simp add: set_insort_key)
  qed
qed simp

lemma sort_newer: "sorted xs \<Longrightarrow> sorted_wrt (\<lambda>q p. newer p q) (sort_key filepath_Base xs)"
  by (induction xs) (auto simp: list_all_iff intro: insort_newer)

definition collected :: "file_env \<Rightarrow> provider \<Rightarrow> log_source \<Rightarrow> log_file list" where
  "collected env p source = (case CollectFiles env p source of Inr (Inr files) \<Rightarrow> files | _ \<Rightarrow> [])"

lemma CollectFiles_total: "src_Config source \<noteq> None \<Longrightarrow> \<exists>r. CollectFiles env p source = Inr r"
  by (auto simp: CollectFiles_def Let_def)

lemma FilesToTail_loop_take:
  assumes "list_all (\<lambda>s. src_Config s \<noteq> None) srcs"
  shows "FilesToTail_loop env p srcs (take (nat (filesLimit p)) done) =
    Inr (take (nat (filesLimit p)) (done @ concat (map (collected env p) srcs)))"
  using assms
proof (induction srcs arbitrary: \<open>done\<close>)
  case (Cons source srcs)
  then obtain r where r: "CollectFiles env p source = Inr r" using CollectFiles_total [of source env p] by auto
  have n: "nat (filesLimit p - int (min (length done) (nat (filesLimit p)))) = nat (filesLimit p) - length done"
    by linarith
  show ?case
  proof (cases r)
    case (Inl e)
    with r Cons show ?thesis by (simp add: collected_def)
  next
    case (Inr files)
    with r Cons.IH [of "done @ files"] Cons.prems show ?thesis by (simp add: collected_def n)
  qed
qed simp

text \<open>The provider returns the files of its sources one source after the other, cut at the limit on open files; the files of a
  wildcard come with the greatest file name first, and with the greater path first among
  equal names, so that the cut keeps the newest of files named by date.\<close>

theorem FilesToTail_newest_first:
  assumes "list_all (\<lambda>s. src_Config s \<noteq> None) srcs"
  shows "FilesToTail env p srcs = Inr (take (nat (filesLimit p)) (concat (map (collected env p) srcs))) \<and>
    (HOST_MOUNT_PREFIX env = [] \<longrightarrow> \<not> hasDoublestar pattern \<longrightarrow> filepath_Glob env pattern = Some paths \<longrightarrow> sorted paths \<longrightarrow>
      searchFiles env p pattern source c = Inr files \<longrightarrow> sorted_wrt newer (map f_Path files))"
proof (intro conjI impI)
  show "FilesToTail env p srcs = Inr (take (nat (filesLimit p)) (concat (map (collected env p) srcs)))"
    using FilesToTail_loop_take [OF assms, of env p "[]"] by (simp add: FilesToTail_def)
next
  assume "HOST_MOUNT_PREFIX env = []" and "\<not> hasDoublestar pattern" and "filepath_Glob env pattern = Some paths"
    and s: "sorted paths" and "searchFiles env p pattern source c = Inr files"
  then obtain P where "map f_Path files = filter P (rev (sort_key filepath_Base paths))"
    by (auto simp: searchFiles_def SliceStable_desc_def resolve_path_def NewFile_def Let_def comp_def split: if_splits)
  moreover have "sorted_wrt newer (rev (sort_key filepath_Base paths))"
    using sort_newer [OF s] by (simp add: sorted_wrt_rev)
  ultimately show "sorted_wrt newer (map f_Path files)" by (simp add: sorted_wrt_filter)
qed

definition sample_wildcard :: log_source where
  "sample_wildcard = NewLogSource 3 ''w'' (Some (sample_config\<lparr>c_Path := ''/l/*.log''\<rparr>))"

lemma sample_wildcard_files:
  "collected sample_file_env p sample_wildcard =
     [NewFile ''/l/2018.log'' sample_wildcard True, NewFile ''/l/2017.log'' sample_wildcard True]"
proof -
  have "\<not> ContainsDatePattern ''/l/*.log''" by (simp add: date_match_def)
  moreover have "\<not> hasDoublestar ''/l/*.log''"
    by (simp add: hasDoublestar_def sublist_code suffix_to_prefix)
  moreover have "SliceStable_desc filepath_Base [''/l/2018.log'', ''/l/2017.log''] = [''/l/2018.log'', ''/l/2017.log'']"
    by (simp add: SliceStable_desc_def filepath_Base_def Let_def)
  ultimately show ?thesis
    by (simp add: collected_def CollectFiles_def searchFiles_def sample_wildcard_def sample_config_def sample_file_env_def
      NewLogSource_def ContainsWildcard_def is_excluded_def resolve_path_def Let_def)
qed

theorem FilesToTail_newest_first_witness:
  "FilesToTail sample_file_env (NewProvider 0 0 3 4 3) [sample_wildcard, sample_wildcard] =
     Inr [NewFile ''/l/2018.log'' sample_wildcard True, NewFile ''/l/2017.log'' sample_wildcard True,
          NewFile ''/l/2018.log'' sample_wildcard True]"
proof -
  have "list_all (\<lambda>s. src_Config s \<noteq> None) [sample_wildcard, sample_wildcard]"
    by (simp add: sample_wildcard_def NewLogSource_def)
  from conjunct1 [OF FilesToTail_newest_first [OF this]] show ?thesis
    by (simp add: sample_wildcard_files NewProvider_def)
qed

text \<open>
  A directory that disappears between being listed and being read makes the walk report success with no
  file at all, although matching files were found: its error is taken for that of a missing base.
\<close>

lemma doublestarWalk_vanished_directory:
  assumes "os_Lstat env base = Inr (DirNode d [FileNode name, DirNode gone children (Some ErrNotExist)] None)"
    and "4 \<le> maxTraverseLimit p" and "1 \<le> maxDepthLimit p"
    and "base = filepath_Clean env (if doublestar_SplitBase env pattern = [] then ''.'' else doublestar_SplitBase env pattern)"
  shows "doublestarWalk env p pattern = Inr []"
  using assms by (simp add: doublestarWalk_def walk_fn_def Let_def)

end
