(* ===== verification/Log_Scanner.thy ===== *)
theory Log_Scanner
  imports Log_Tailer Log_Files "HOL-Library.AList"
begin

text \<open>
  The scanner, \<open>src/logs/input/file/scanner.go\<close> (with \<open>rotate_nix.go\<close>, \<open>Tailer.Start\<close> and \<open>Tailer.Stop\<close> of \<open>tailer.go\<close>, and
  \<open>NextPipelineChan\<close> of \<open>src/logs/pipeline/provider.go\<close>): it starts a tailer for each file to tail, restarts it
  when the file was rotated, and stops it when the file is no longer wanted. Every call of the
  model gets the file system and the registry as it finds them (\<open>scan_env\<close>). A tailer has a number \<open>st_id\<close>,
  given when it starts, and the scanner remembers the tailers it stopped or left to finish a
  rotated file, which the code hands to goroutines.
\<close>

subsection \<open>State\<close>

record scan_tailer =
  st_id :: nat
  st_file :: log_file
  st_tailer :: tailer
  st_osFile :: "string \<times> nat"
  st_shouldStop :: bool
  st_output :: "nat option"
  st_pattern :: "string option"

record scanner =
  activeSources :: "log_source list"
  tailingLimit :: int
  fileProvider :: provider
  s_tailers :: "(string \<times> scan_tailer) list"
  validatePodContainerID :: bool
  s_pipelines :: nat
  currentPipelineIndex :: nat
  s_nextId :: nat
  s_stopped :: "scan_tailer list"
  s_rotated :: "scan_tailer list"

text \<open>
  \<open>os_Open\<close>: opening an absolute path, with the handle and the size; \<open>path_Stat\<close>: opening a name and asking for its
  identity and size (\<open>None\<close> when it cannot be opened); \<open>handle_Stat\<close>: the same of an open handle.
\<close>

record scan_env =
  se_files :: file_env
  filepath_Abs :: "string \<Rightarrow> string option"
  filepath_Dir :: "string \<Rightarrow> string"
  os_Open :: "string \<Rightarrow> (nat \<times> int) option"
  path_Stat :: "string \<Rightarrow> (nat \<times> int) option option"
  handle_Stat :: "nat \<Rightarrow> (nat \<times> int) option"
  registry_GetOffset :: "string \<Rightarrow> string"
  registry_GetTailingMode :: "string \<Rightarrow> string"
  container_links :: "(string \<rightharpoonup> string) option"

definition NewScanner :: "int \<Rightarrow> provider \<Rightarrow> bool \<Rightarrow> nat \<Rightarrow> scanner" where
  "NewScanner limit p validate pipelines =
     \<lparr>activeSources = [], tailingLimit = limit, fileProvider = p, s_tailers = [], validatePodContainerID = validate,
      s_pipelines = pipelines, currentPipelineIndex = 0, s_nextId = 0, s_stopped = [], s_rotated = []\<rparr>"

subsection \<open>Rotation\<close>

definition DidRotate :: "scan_env \<Rightarrow> string \<times> nat \<Rightarrow> int \<Rightarrow> bool option" where
  "DidRotate env f lastReadOffset =
     (case path_Stat env (fst f) of
        None \<Rightarrow> None
      | Some None \<Rightarrow> None
      | Some (Some fi1) \<Rightarrow>
          (case handle_Stat env (snd f) of
             None \<Rightarrow> Some True
           | Some fi2 \<Rightarrow> Some (fst fi1 \<noteq> fst fi2 \<or> snd fi1 < lastReadOffset)))"

subsection \<open>The container of a file\<close>

definition filepath_Ext :: "string \<Rightarrow> string" where
  "filepath_Ext path =
     (let e = takeWhile (\<lambda>c. c \<noteq> CHR ''.'' \<and> c \<noteq> CHR ''/'') (rev path); rest = drop (length e) (rev path) in
      if rest \<noteq> [] \<and> hd rest = CHR ''.'' then CHR ''.'' # rev e else [])"

definition TrimSuffix :: "string \<Rightarrow> string \<Rightarrow> string" where
  "TrimSuffix s suf = (if suffix suf s then take (length s - length suf) s else s)"

definition rxContainerID :: "string \<Rightarrow> bool" where
  "rxContainerID s \<longleftrightarrow> length s = 64 \<and> list_all (\<lambda>c. c \<in> set ''0123456789abcdefABCDEF'') s"

definition shouldIgnore :: "scan_env \<Rightarrow> log_file \<Rightarrow> bool" where
  "shouldIgnore env f =
     (case Option.bind (f_Source f) src_Config of
        None \<Rightarrow> False
      | Some c \<Rightarrow>
          (case container_links env of
             None \<Rightarrow> False
           | Some infos \<Rightarrow>
               (let base = filepath_Base (case infos (f_Path f) of None \<Rightarrow> [] | Some l \<Rightarrow> l);
                    ext = filepath_Ext base;
                    containerIDFromFilename =
                      (if CHR ''-'' \<in> set base
                       then TrimSuffix (rev (takeWhile (\<lambda>c. c \<noteq> CHR ''-'') (rev base))) ext else []) in
                if containerIDFromFilename = [] \<or> \<not> rxContainerID containerIDFromFilename then False
                else c_Identifier c \<noteq> [] \<and>
                  TrimSpace (ToLower containerIDFromFilename) \<noteq> TrimSpace (ToLower (c_Identifier c)))))"

subsection \<open>Starting and stopping tailers\<close>

definition NextPipelineChan :: "scanner \<Rightarrow> scanner \<times> nat option" where
  "NextPipelineChan s =
     (if s_pipelines s = 0 then (s, None)
      else (let index = (currentPipelineIndex s + 1) mod s_pipelines s in
            (s\<lparr>currentPipelineIndex := index\<rparr>, Some index)))"

text \<open>A tailer as \<open>createTailer\<close> and \<open>createRotatedTailer\<close> build it; a file without source is a nil dereference.\<close>

definition createTailer :: "log_file \<Rightarrow> nat option \<Rightarrow> string option \<Rightarrow> scan_tailer go" where
  "createTailer f out pattern =
     (case f_Source f of
        None \<Rightarrow> Inl NilDereference
      | Some src \<Rightarrow>
          Inr \<lparr>st_id = 0, st_file = f, st_tailer = NewTailer (f_Path f) (f_IsWildcardPath f) src, st_osFile = ([], 0),
               st_shouldStop = False, st_output = out, st_pattern = pattern\<rparr>)"

definition Tailer_Start :: "scan_env \<Rightarrow> int \<Rightarrow> whence \<Rightarrow> scan_tailer \<Rightarrow> scan_tailer option" where
  "Tailer_Start env offset wh t =
     (case filepath_Abs env (f_Path (st_file t)) of
        None \<Rightarrow> None
      | Some fullpath \<Rightarrow>
          (case os_Open env fullpath of
             None \<Rightarrow> None
           | Some (h, fsize) \<Rightarrow>
               (let t' = Tailer_setup filepath_Base (filepath_Dir env) fsize offset wh (st_tailer t) in
                Some (t\<lparr>st_osFile := (fullpath, h),
                        st_tailer := t'\<lparr>t_Source := AddInput (t_Path t') (t_Source t')\<rparr>\<rparr>))))"

definition Tailer_Stop :: "scan_tailer \<Rightarrow> scan_tailer" where
  "Tailer_Stop t =
     t\<lparr>st_tailer := (st_tailer t)\<lparr>didFileRotate := False,
         t_Source := RemoveInput (t_Path (st_tailer t)) (t_Source (st_tailer t))\<rparr>\<rparr>"

definition register_tailer :: "scan_tailer \<Rightarrow> scanner \<Rightarrow> scanner" where
  "register_tailer t s =
     s\<lparr>s_tailers := AList.update (GetScanKey (st_file t)) (t\<lparr>st_id := s_nextId s\<rparr>) (s_tailers s), s_nextId := s_nextId s + 1\<rparr>"

definition handleTailingModeChange :: "scan_env \<Rightarrow> string \<Rightarrow> tailing_mode \<Rightarrow> tailing_mode" where
  "handleTailingModeChange env tailerID currentTailingMode =
     (if currentTailingMode = ForceBeginning \<or> currentTailingMode = ForceEnd then currentTailingMode
      else
        (let previousMode = fst (TailingModeFromString (registry_GetTailingMode env tailerID)) in
         if previousMode \<noteq> currentTailingMode then
           (if currentTailingMode = Beginning then Beginning else ForceEnd)
         else currentTailingMode))"

definition startNewTailer :: "scan_env \<Rightarrow> log_file \<Rightarrow> tailing_mode \<Rightarrow> scanner \<Rightarrow> (scanner \<times> bool) go" where
  "startNewTailer env f m s =
     (if validatePodContainerID s \<and>
         (case f_Source f of None \<Rightarrow> False | Some src \<Rightarrow> sourceType src = ''kubernetes'' \<or> sourceType src = ''docker'') \<and>
         shouldIgnore env f
      then Inr (s, False)
      else
        (let (s1, out) = NextPipelineChan s in
         and_then (createTailer f out None)
           (\<lambda>t. let mode = handleTailingModeChange env (Tailer_Identifier (st_tailer t)) m;
                    (offset, wh, failed) = Position (registry_GetOffset env) (Tailer_Identifier (st_tailer t)) mode in
                case Tailer_Start env offset wh t of
                  None \<Rightarrow> Inr (s1, False)
                | Some t' \<Rightarrow> Inr (register_tailer t' s1, True))))"

definition stopTailer :: "scan_tailer \<Rightarrow> scanner \<Rightarrow> scanner" where
  "stopTailer t s =
     s\<lparr>s_tailers := AList.delete (GetScanKey (st_file t)) (s_tailers s), s_stopped := s_stopped s @ [Tailer_Stop t]\<rparr>"

text \<open>The old tailer is marked as rotated before the new one is built; when the new one does not start, the map still holds the old one.\<close>

definition restartTailerAfterFileRotation ::
  "scan_env \<Rightarrow> scan_tailer \<Rightarrow> log_file \<Rightarrow> scanner \<Rightarrow> (scanner \<times> bool) go" where
  "restartTailerAfterFileRotation env t f s =
     (let old = t\<lparr>st_tailer := StopAfterFileRotation (st_tailer t)\<rparr>;
          s1 = s\<lparr>s_tailers := AList.update (GetScanKey f) old (s_tailers s)\<rparr> in
      and_then (createTailer f (st_output t) (st_pattern t))
        (\<lambda>new. case Tailer_Start env 0 SeekStart new of
           None \<Rightarrow> Inr (s1, False)
         | Some new' \<Rightarrow> Inr ((register_tailer new' s1)\<lparr>s_rotated := s_rotated s1 @ [old]\<rparr>, True)))"

subsection \<open>Scanning\<close>

type_synonym scan_state = "scanner \<times> int \<times> string set"

definition scan_file :: "scan_env \<Rightarrow> scan_state \<Rightarrow> log_file \<Rightarrow> scan_state go" where
  "scan_file env st f =
     (let (s, tailersLen, filesTailed) = st; key = GetScanKey f in
      case map_of (s_tailers s) key of
        None \<Rightarrow>
          if tailersLen \<ge> tailingLimit s then Inr (s, tailersLen, filesTailed)
          else
            and_then (startNewTailer env f Beginning s)
              (\<lambda>(s', succeeded). Inr (if succeeded then (s', tailersLen + 1, insert key filesTailed)
                                        else (s', tailersLen, filesTailed)))
      | Some t \<Rightarrow>
          if st_shouldStop t then Inr (s, tailersLen, filesTailed)
          else
            (case DidRotate env (st_osFile t) (readOffset (st_tailer t)) of
               None \<Rightarrow> Inr (s, tailersLen, filesTailed)
             | Some False \<Rightarrow> Inr (s, tailersLen, insert key filesTailed)
             | Some True \<Rightarrow>
                 and_then (restartTailerAfterFileRotation env t f s)
                   (\<lambda>(s', succeeded). Inr (s', tailersLen, if succeeded then insert key filesTailed else filesTailed))))"

definition stop_unselected :: "string set \<Rightarrow> scanner \<Rightarrow> scanner" where
  "stop_unselected filesTailed s =
     foldl (\<lambda>s (k, t). if GetScanKey (st_file t) \<in> filesTailed then s else stopTailer t s) s (s_tailers s)"

definition scan :: "scan_env \<Rightarrow> scanner \<Rightarrow> scanner go" where
  "scan env s =
     and_then (FilesToTail (se_files env) (fileProvider s) (activeSources s))
       (\<lambda>files. and_then (foldM (scan_file env) (s, int (length (s_tailers s)), {}) files)
          (\<lambda>(s', _, filesTailed). Inr (stop_unselected filesTailed s')))"

fun launch_files :: "scan_env \<Rightarrow> logs_config \<Rightarrow> log_file list \<Rightarrow> scanner \<Rightarrow> scanner go" where
  "launch_files env c [] s = Inr s"
| "launch_files env c (f # fs) s =
     (if int (length (s_tailers s)) \<ge> tailingLimit s then Inr s
      else if map_of (s_tailers s) (GetScanKey f) \<noteq> None then launch_files env c fs s
      else
        (let mode = (if c_Identifier c \<noteq> [] then Beginning else fst (TailingModeFromString (TailingMode c))) in
         and_then (startNewTailer env f mode s) (\<lambda>(s', _). launch_files env c fs s')))"

definition launchTailers :: "scan_env \<Rightarrow> log_source \<Rightarrow> scanner \<Rightarrow> scanner go" where
  "launchTailers env source s =
     and_then (CollectFiles (se_files env) (fileProvider s) source)
       (\<lambda>r. case r of
          Inl e \<Rightarrow> Inr s
        | Inr files \<Rightarrow>
            (case src_Config source of None \<Rightarrow> Inl NilDereference | Some c \<Rightarrow> launch_files env c files s))"

definition addSource :: "scan_env \<Rightarrow> log_source \<Rightarrow> scanner \<Rightarrow> scanner go" where
  "addSource env source s = launchTailers env source (s\<lparr>activeSources := activeSources s @ [source]\<rparr>)"

definition removeSource :: "log_source \<Rightarrow> scanner \<Rightarrow> scanner" where
  "removeSource source s = s\<lparr>activeSources := fst (remove_first (src_id source) (activeSources s))\<rparr>"

definition Scanner_cleanup :: "scanner \<Rightarrow> scanner" where
  "Scanner_cleanup s = foldl (\<lambda>s (k, t). stopTailer t s) s (s_tailers s)"

text \<open>\<open>TailerDone\<close>: the forwarder of a tailer has ended and set \<open>shouldStop\<close>; \<open>TailerRead\<close>: its reader has advanced.\<close>

datatype scan_event = AddedSource log_source | RemovedSource log_source | ScanTick | StopScanner
  | TailerDone nat | TailerRead nat nat

definition change_tailer :: "nat \<Rightarrow> (scan_tailer \<Rightarrow> scan_tailer) \<Rightarrow> scanner \<Rightarrow> scanner" where
  "change_tailer n f s = s\<lparr>s_tailers := map (\<lambda>(k, t). (k, if st_id t = n then f t else t)) (s_tailers s)\<rparr>"

fun scanner_step :: "scanner \<Rightarrow> scan_env \<times> scan_event \<Rightarrow> scanner go" where
  "scanner_step s (env, AddedSource source) = addSource env source s"
| "scanner_step s (env, RemovedSource source) = Inr (removeSource source s)"
| "scanner_step s (env, ScanTick) = scan env s"
| "scanner_step s (env, StopScanner) = Inr (Scanner_cleanup s)"
| "scanner_step s (env, TailerDone n) = Inr (change_tailer n (\<lambda>t. t\<lparr>st_shouldStop := True\<rparr>) s)"
| "scanner_step s (env, TailerRead n k) = Inr (change_tailer n (\<lambda>t. t\<lparr>st_tailer := Tailer_read k (st_tailer t)\<rparr>) s)"


subsection \<open>Association lists of tailers\<close>

lemma update_new: "map_of al k = None \<Longrightarrow> AList.update k v al = al @ [(k, v)]"
  by (induction al) (auto split: if_splits)

lemma update_mset:
  assumes "distinct (map fst al)" and "map_of al k = Some t"
  shows "add_mset (f t) (mset (map (f \<circ> snd) (AList.update k v al))) = add_mset (f v) (mset (map (f \<circ> snd) al))"
  using assms by (induction al) (auto simp: add_mset_commute map_of_eq_None_iff)

lemma exchange_mset:
  "add_mset a X' = add_mset n X \<Longrightarrow> X + S + R = N \<Longrightarrow> X' + S + add_mset a R = add_mset n (N :: 'a multiset)"
  by (metis union_mset_add_mset_left union_mset_add_mset_right)

lemma update_length_old: "map_of al k = Some t \<Longrightarrow> length (AList.update k v al) = length al"
  by (induction al) (auto split: if_splits)

lemma keys_update_old: "map_of al k = Some t \<Longrightarrow> map fst (AList.update k v al) = map fst al"
  by (induction al) (auto split: if_splits)

lemma update_all:
  assumes "list_all (\<lambda>(k, t). P k t) al" and "P k v"
  shows "list_all (\<lambda>(k, t). P k t) (AList.update k v al)"
  using assms by (induction al) auto

subsection \<open>The invariant\<close>

abbreviation tailer_ids :: "scanner \<Rightarrow> nat list" where
  "tailer_ids s \<equiv> map (st_id \<circ> snd) (s_tailers s)"

definition tailers_ok :: "scanner \<Rightarrow> bool" where
  "tailers_ok s \<longleftrightarrow> distinct (map fst (s_tailers s)) \<and> list_all (\<lambda>(k, t). GetScanKey (st_file t) = k) (s_tailers s) \<and>
     mset (tailer_ids s) + mset (map st_id (s_stopped s)) + mset (map st_id (s_rotated s)) = mset [0..<s_nextId s]"

definition scanner_inv :: "scanner \<Rightarrow> bool" where
  "scanner_inv s \<longleftrightarrow> tailers_ok s \<and> int (length (s_tailers s)) \<le> max 0 (tailingLimit s) \<and>
     list_all (\<lambda>src. src_Config src \<noteq> None) (activeSources s)"

definition touches :: "string \<Rightarrow> scanner \<Rightarrow> scanner \<Rightarrow> bool" where
  "touches key s s' \<longleftrightarrow> activeSources s' = activeSources s \<and> tailingLimit s' = tailingLimit s \<and>
     fileProvider s' = fileProvider s \<and> (\<forall>k. k \<noteq> key \<longrightarrow> map_of (s_tailers s') k = map_of (s_tailers s) k)"

lemma NextPipelineChan_frame:
  assumes "NextPipelineChan s = (s1, out)"
  shows "s_tailers s1 = s_tailers s" "s_stopped s1 = s_stopped s" "s_rotated s1 = s_rotated s" "s_nextId s1 = s_nextId s"
    "activeSources s1 = activeSources s" "tailingLimit s1 = tailingLimit s" "fileProvider s1 = fileProvider s"
  using assms by (auto simp: NextPipelineChan_def Let_def split: if_splits)

lemma register_new:
  assumes "tailers_ok s" and "map_of (s_tailers s) (GetScanKey (st_file t)) = None"
  shows "tailers_ok (register_tailer t s)" "length (s_tailers (register_tailer t s)) = length (s_tailers s) + 1"
  using assms by (simp_all add: tailers_ok_def register_tailer_def update_new map_of_eq_None_iff [symmetric])

lemma register_touches: "touches (GetScanKey (st_file t)) s (register_tailer t s)"
  by (simp add: touches_def register_tailer_def update_conv')

lemma register_old:
  assumes "tailers_ok s" and "map_of (s_tailers s) (GetScanKey (st_file t)) = Some t0"
  shows "tailers_ok ((register_tailer t s)\<lparr>s_rotated := s_rotated s @ [t0\<lparr>st_tailer := x\<rparr>]\<rparr>)"
    "length (s_tailers (register_tailer t s)) = length (s_tailers s)"
proof -
  let ?k = "GetScanKey (st_file t)"
  define al where "al = AList.update ?k (t\<lparr>st_id := s_nextId s\<rparr>) (s_tailers s)"
  have "add_mset (st_id t0) (mset (map (st_id \<circ> snd) al)) = add_mset (s_nextId s) (mset (tailer_ids s))"
    using assms update_mset [of "s_tailers s" ?k t0 st_id "t\<lparr>st_id := s_nextId s\<rparr>"] by (simp add: tailers_ok_def al_def)
  then have "mset (map (st_id \<circ> snd) al) + mset (map st_id (s_stopped s)) + mset (map st_id (s_rotated s @ [t0\<lparr>st_tailer := x\<rparr>])) =
      mset [0..<s_nextId s + 1]"
    using assms(1) exchange_mset [of "st_id t0" "mset (map (st_id \<circ> snd) al)" "s_nextId s" "mset (tailer_ids s)"
      "mset (map st_id (s_stopped s))" "mset (map st_id (s_rotated s))"]
    by (simp add: tailers_ok_def)
  moreover have "distinct (map fst al)" using assms by (simp add: tailers_ok_def al_def keys_update_old)
  moreover have "list_all (\<lambda>(k, t). GetScanKey (st_file t) = k) al"
    unfolding al_def by (rule update_all) (use assms(1) in \<open>simp_all add: tailers_ok_def\<close>)
  ultimately show "tailers_ok ((register_tailer t s)\<lparr>s_rotated := s_rotated s @ [t0\<lparr>st_tailer := x\<rparr>]\<rparr>)"
    by (simp add: tailers_ok_def register_tailer_def al_def)
qed (use assms in \<open>simp_all add: register_tailer_def update_length_old\<close>)

lemma Tailer_Start_fields:
  "Tailer_Start env off wh t = Some t' \<Longrightarrow> st_file t' = st_file t \<and> st_shouldStop t' = st_shouldStop t"
  by (auto simp: Tailer_Start_def Let_def split: option.splits)

lemma createTailer_Some:
  "f_Source f \<noteq> None \<Longrightarrow> \<exists>t. createTailer f out re = Inr t \<and> st_file t = f"
  by (auto simp: createTailer_def)

lemma startNewTailer_law:
  assumes "tailers_ok s" and "map_of (s_tailers s) (GetScanKey f) = None" and "f_Source f \<noteq> None"
  shows "\<exists>s' ok. startNewTailer env f m s = Inr (s', ok) \<and> tailers_ok s' \<and> touches (GetScanKey f) s s' \<and>
    length (s_tailers s') = length (s_tailers s) + (if ok then 1 else 0)"
proof (cases "validatePodContainerID s \<and>
    (case f_Source f of None \<Rightarrow> False | Some src \<Rightarrow> sourceType src = ''kubernetes'' \<or> sourceType src = ''docker'') \<and> shouldIgnore env f")
  case True
  then have "startNewTailer env f m s = Inr (s, False)" by (simp add: startNewTailer_def)
  moreover have "touches (GetScanKey f) s s" by (simp add: touches_def)
  ultimately show ?thesis using assms(1) by auto
next
  case False
  obtain s1 out where n: "NextPipelineChan s = (s1, out)" by fastforce
  note fr = NextPipelineChan_frame [OF n]
  obtain t where t: "createTailer f out None = Inr t" "st_file t = f" using createTailer_Some [OF assms(3)] by blast
  obtain off wh bad where p: "Position (registry_GetOffset env) (Tailer_Identifier (st_tailer t))
      (handleTailingModeChange env (Tailer_Identifier (st_tailer t)) m) = (off, wh, bad)" by (metis prod_cases3)
  have s1: "tailers_ok s1" "map_of (s_tailers s1) (GetScanKey f) = None" using assms fr by (simp_all add: tailers_ok_def)
  have e: "startNewTailer env f m s =
      (case Tailer_Start env off wh t of None \<Rightarrow> Inr (s1, False) | Some t' \<Rightarrow> Inr (register_tailer t' s1, True))"
    unfolding startNewTailer_def if_not_P [OF False] using n t p by (simp add: Let_def)
  show ?thesis
  proof (cases "Tailer_Start env off wh t")
    case None
    with e s1 fr show ?thesis by (auto simp: touches_def)
  next
    case (Some t')
    then have f: "st_file t' = f" using Tailer_Start_fields t(2) by blast
    with register_new [of s1 t'] s1 fr register_touches [of t' s1] e Some show ?thesis by (auto simp: touches_def)
  qed
qed

lemma restart_law:
  assumes "tailers_ok s" and "map_of (s_tailers s) (GetScanKey f) = Some t" and "f_Source f \<noteq> None"
  shows "\<exists>s' ok. restartTailerAfterFileRotation env t f s = Inr (s', ok) \<and> tailers_ok s' \<and> touches (GetScanKey f) s s' \<and>
    length (s_tailers s') = length (s_tailers s)"
proof -
  let ?old = "t\<lparr>st_tailer := StopAfterFileRotation (st_tailer t)\<rparr>" and ?k = "GetScanKey f"
  define s1 where "s1 = s\<lparr>s_tailers := AList.update ?k ?old (s_tailers s)\<rparr>"
  have k: "GetScanKey (st_file t) = ?k"
    using assms(1) map_of_SomeD [OF assms(2)] by (auto simp: tailers_ok_def list_all_iff)
  have "add_mset (st_id t) (mset (map (st_id \<circ> snd) (AList.update ?k ?old (s_tailers s)))) = add_mset (st_id t) (mset (tailer_ids s))"
    using update_mset [of "s_tailers s" ?k t st_id ?old] assms by (simp add: tailers_ok_def)
  then have "mset (tailer_ids s1) = mset (tailer_ids s)" by (simp add: s1_def)
  moreover have "list_all (\<lambda>(k, t). GetScanKey (st_file t) = k) (s_tailers s1)"
    unfolding s1_def using assms(1) k by (auto simp: tailers_ok_def intro!: update_all)
  ultimately have s1: "tailers_ok s1" "length (s_tailers s1) = length (s_tailers s)" "touches ?k s s1"
    "map_of (s_tailers s1) ?k = Some ?old"
    using assms(1,2) by (simp_all add: tailers_ok_def s1_def keys_update_old update_length_old touches_def update_conv')
  obtain new where new: "createTailer f (st_output t) (st_pattern t) = Inr new" "st_file new = f"
    using createTailer_Some [OF assms(3)] by blast
  have e: "restartTailerAfterFileRotation env t f s = (case Tailer_Start env 0 SeekStart new of None \<Rightarrow> Inr (s1, False)
      | Some new' \<Rightarrow> Inr ((register_tailer new' s1)\<lparr>s_rotated := s_rotated s1 @ [?old]\<rparr>, True))"
    by (simp only: restartTailerAfterFileRotation_def Let_def s1_def [symmetric] new(1) and_then_simps)
  show ?thesis
  proof (cases "Tailer_Start env 0 SeekStart new")
    case None
    with e s1 show ?thesis by auto
  next
    case (Some new')
    then have f: "st_file new' = f" using Tailer_Start_fields new(2) by blast
    have "touches ?k s ((register_tailer new' s1)\<lparr>s_rotated := s_rotated s1 @ [?old]\<rparr>)"
      using register_touches [of new' s1] s1(3) f by (simp add: touches_def)
    moreover have "tailers_ok ((register_tailer new' s1)\<lparr>s_rotated := s_rotated s1 @ [?old]\<rparr>)"
      using register_old(1) [of s1 new' ?old "st_tailer ?old"] s1 f by simp
    moreover have "length (s_tailers (register_tailer new' s1)) = length (s_tailers s)"
      using register_old(2) [of s1 new' ?old] s1 f by simp
    ultimately show ?thesis using e Some by auto
  qed
qed

subsection \<open>One scan\<close>

text \<open>What holds between the files of a scan: the count of tailers is exact and only listed files are selected.\<close>

fun scan_ok :: "scan_state \<Rightarrow> bool" where
  "scan_ok (s, n, filesTailed) \<longleftrightarrow> tailers_ok s \<and> n = int (length (s_tailers s)) \<and> n \<le> max 0 (tailingLimit s)"

fun same_frame :: "string \<Rightarrow> scan_state \<Rightarrow> scan_state \<Rightarrow> bool" where
  "same_frame key (s, n, sel) (s', n', sel') \<longleftrightarrow> touches key s s' \<and> sel \<subseteq> sel' \<and> sel' \<subseteq> insert key sel"

lemma scan_file_law:
  assumes "scan_ok st" and "f_Source f \<noteq> None"
  shows "\<exists>st'. scan_file env st f = Inr st' \<and> scan_ok st' \<and> same_frame (GetScanKey f) st st'"
proof -
  obtain s n sel where st: "st = (s, n, sel)" by (cases st) auto
  have refl: "same_frame (GetScanKey f) (s, n, sel) (s, n, sel)" "touches (GetScanKey f) s s" by (auto simp: touches_def)
  show ?thesis
  proof (cases "map_of (s_tailers s) (GetScanKey f)")
    case None
    show ?thesis
    proof (cases "n \<ge> tailingLimit s")
      case True
      with None st assms(1) refl show ?thesis by (auto simp: scan_file_def)
    next
      case False
      from startNewTailer_law [OF _ None assms(2), of env Beginning] assms(1) st obtain s' ok where
        r: "startNewTailer env f Beginning s = Inr (s', ok)" "tailers_ok s'" "touches (GetScanKey f) s s'"
        "length (s_tailers s') = length (s_tailers s) + (if ok then 1 else 0)" by auto
      with None st assms(1) False show ?thesis by (cases ok) (auto simp: scan_file_def touches_def)
    qed
  next
    case (Some t)
    show ?thesis
    proof (cases "\<not> st_shouldStop t \<and> DidRotate env (st_osFile t) (readOffset (st_tailer t)) = Some True")
      case False
      let ?sel = "if st_shouldStop t \<or> DidRotate env (st_osFile t) (readOffset (st_tailer t)) = None then sel else insert (GetScanKey f) sel"
      have "scan_file env st f = Inr (s, n, ?sel)"
        using False Some st by (auto simp: scan_file_def Let_def split: option.splits bool.splits)
      moreover have "same_frame (GetScanKey f) (s, n, sel) (s, n, ?sel)" using refl(2) by auto
      ultimately show ?thesis using st assms(1) by auto
    next
      case True
      from restart_law [OF _ Some assms(2), of env] assms(1) st obtain s' ok where
        "restartTailerAfterFileRotation env t f s = Inr (s', ok)" "tailers_ok s'" "touches (GetScanKey f) s s'"
        "length (s_tailers s') = length (s_tailers s)" by auto
      with True Some st assms(1) show ?thesis by (cases ok) (auto simp: scan_file_def touches_def)
    qed
  qed
qed

definition keeps_reading :: "scan_env \<Rightarrow> scan_tailer \<Rightarrow> bool" where
  "keeps_reading env t \<longleftrightarrow> \<not> st_shouldStop t \<and> DidRotate env (st_osFile t) (readOffset (st_tailer t)) = Some False"

lemma scan_files_law:
  assumes "scan_ok st" and "list_all (\<lambda>f. f_Source f \<noteq> None) files"
  shows "\<exists>s' n' sel'. foldM (scan_file env) st files = Inr (s', n', sel') \<and> scan_ok (s', n', sel') \<and>
    sel' \<subseteq> snd (snd st) \<union> GetScanKey ` set files \<and> snd (snd st) \<subseteq> sel' \<and>
    activeSources s' = activeSources (fst st) \<and> tailingLimit s' = tailingLimit (fst st) \<and>
    (map_of (s_tailers (fst st)) k = Some t \<longrightarrow> keeps_reading env t \<longrightarrow>
       map_of (s_tailers s') k = Some t \<and> (k \<in> GetScanKey ` set files \<longrightarrow> k \<in> sel'))"
  using assms
proof (induction files arbitrary: st)
  case Nil
  then show ?case by (cases st) auto
next
  case (Cons f files)
  obtain s n sel where st: "st = (s, n, sel)" by (cases st) auto
  from scan_file_law [OF Cons.prems(1), of f env] Cons.prems(2) obtain s1 n1 sel1 where
    f: "scan_file env st f = Inr (s1, n1, sel1)" "scan_ok (s1, n1, sel1)" "touches (GetScanKey f) s s1"
      "sel \<subseteq> sel1" "sel1 \<subseteq> insert (GetScanKey f) sel"
    by (auto simp: st)
  have keep: "map_of (s_tailers s1) k = Some t \<and> (k = GetScanKey f \<longrightarrow> k \<in> sel1)"
    if "map_of (s_tailers s) k = Some t" "keeps_reading env t"
  proof (cases "k = GetScanKey f")
    case True
    then show ?thesis using f(1) that by (auto simp: scan_file_def st keeps_reading_def)
  qed (use f(3) that in \<open>simp add: touches_def\<close>)
  from Cons.IH [OF f(2)] Cons.prems(2) obtain s' n' sel' where
    r: "foldM (scan_file env) (s1, n1, sel1) files = Inr (s', n', sel')" "scan_ok (s', n', sel')"
      "sel' \<subseteq> sel1 \<union> GetScanKey ` set files" "sel1 \<subseteq> sel'" "activeSources s' = activeSources s1"
      "tailingLimit s' = tailingLimit s1"
      "map_of (s_tailers s1) k = Some t \<longrightarrow> keeps_reading env t \<longrightarrow>
         map_of (s_tailers s') k = Some t \<and> (k \<in> GetScanKey ` set files \<longrightarrow> k \<in> sel')"
    by auto
  have "foldM (scan_file env) st (f # files) = Inr (s', n', sel')" using f(1) r(1) by simp
  moreover have "sel' \<subseteq> snd (snd st) \<union> GetScanKey ` set (f # files)" "snd (snd st) \<subseteq> sel'"
    using r(3,4) f(4,5) st by auto
  moreover have "activeSources s' = activeSources (fst st)" "tailingLimit s' = tailingLimit (fst st)"
    using r(5,6) f(3) st by (simp_all add: touches_def)
  moreover have "map_of (s_tailers (fst st)) k = Some t \<longrightarrow> keeps_reading env t \<longrightarrow>
      map_of (s_tailers s') k = Some t \<and> (k \<in> GetScanKey ` set (f # files) \<longrightarrow> k \<in> sel')"
    using r(4,7) keep st by auto
  ultimately show ?case using r(2) by blast
qed

lemma stop_loop:
  assumes "list_all (\<lambda>(k, t). GetScanKey (st_file t) = k) xs"
  shows "foldl (\<lambda>s (k, t). if GetScanKey (st_file t) \<in> sel then s else stopTailer t s) s xs =
    s\<lparr>s_tailers := filter (\<lambda>(k, t). k \<in> sel \<or> k \<notin> fst ` set xs) (s_tailers s),
      s_stopped := s_stopped s @ map (Tailer_Stop \<circ> snd) (filter (\<lambda>(k, t). k \<notin> sel) xs)\<rparr>"
  using assms
proof (induction xs arbitrary: s)
  case (Cons x xs)
  obtain k t where x: "x = (k, t)" by fastforce
  have "filter (\<lambda>(k', t). k' \<in> sel \<or> k' \<notin> fst ` set xs) (AList.delete k (s_tailers s)) =
      filter (\<lambda>(k', t). k' \<in> sel \<or> k' \<notin> insert k (fst ` set xs)) (s_tailers s)" if "k \<notin> sel"
    using that by (auto simp: AList.delete_eq intro!: filter_cong)
  moreover have "filter (\<lambda>(k', t). k' \<in> sel \<or> k' \<notin> fst ` set xs) (s_tailers s) =
      filter (\<lambda>(k', t). k' \<in> sel \<or> k' \<notin> insert k (fst ` set xs)) (s_tailers s)" if "k \<in> sel"
    using that by (auto intro!: filter_cong)
  ultimately show ?case using Cons by (auto simp: x stopTailer_def)
qed simp

lemma stop_unselected_law:
  assumes "tailers_ok s"
  shows "stop_unselected sel s =
    s\<lparr>s_tailers := filter (\<lambda>(k, t). k \<in> sel) (s_tailers s),
      s_stopped := s_stopped s @ map (Tailer_Stop \<circ> snd) (filter (\<lambda>(k, t). k \<notin> sel) (s_tailers s))\<rparr>"
    and "tailers_ok (stop_unselected sel s)"
proof -
  have "filter (\<lambda>(k, t). k \<in> sel \<or> k \<notin> fst ` set (s_tailers s)) (s_tailers s) = filter (\<lambda>(k, t). k \<in> sel) (s_tailers s)"
    by (force intro!: filter_cong)
  then show e: "stop_unselected sel s =
      s\<lparr>s_tailers := filter (\<lambda>(k, t). k \<in> sel) (s_tailers s),
        s_stopped := s_stopped s @ map (Tailer_Stop \<circ> snd) (filter (\<lambda>(k, t). k \<notin> sel) (s_tailers s))\<rparr>"
    using stop_loop [of "s_tailers s" sel s] assms by (simp add: stop_unselected_def tailers_ok_def)
  have split: "mset (map h (filter (\<lambda>(k, t). k \<in> sel) xs)) + mset (map h (filter (\<lambda>(k, t). k \<notin> sel) xs)) = mset (map h xs)"
    for h :: "string \<times> scan_tailer \<Rightarrow> nat" and xs
    by (induction xs) auto
  let ?in = "filter (\<lambda>(k, t). k \<in> sel) (s_tailers s)" and ?out = "filter (\<lambda>(k, t). k \<notin> sel) (s_tailers s)"
  have ids: "map st_id (map (Tailer_Stop \<circ> snd) xs) = map (st_id \<circ> snd) xs" for xs :: "(string \<times> scan_tailer) list"
    by (simp add: Tailer_Stop_def)
  have "mset (map (st_id \<circ> snd) ?in) + mset (map st_id (s_stopped s @ map (Tailer_Stop \<circ> snd) ?out)) + mset (map st_id (s_rotated s)) =
      (mset (map (st_id \<circ> snd) ?in) + mset (map (st_id \<circ> snd) ?out)) + mset (map st_id (s_stopped s)) + mset (map st_id (s_rotated s))"
    unfolding map_append ids mset_append by (simp only: ac_simps)
  also have "\<dots> = mset [0..<s_nextId s]" unfolding split using assms by (simp add: tailers_ok_def)
  finally have "mset (map (st_id \<circ> snd) ?in) + mset (map st_id (s_stopped s @ map (Tailer_Stop \<circ> snd) ?out)) +
      mset (map st_id (s_rotated s)) = mset [0..<s_nextId s]" .
  moreover have "distinct (map fst ?in)" "list_all (\<lambda>(k, t). GetScanKey (st_file t) = k) ?in"
    using assms by (auto simp: tailers_ok_def list_all_iff distinct_map_filter)
  ultimately show "tailers_ok (stop_unselected sel s)" by (simp add: e tailers_ok_def)
qed

lemma CollectFiles_sources:
  "CollectFiles env p source = Inr (Inr files) \<Longrightarrow> list_all (\<lambda>f. f_Source f \<noteq> None) files"
  by (auto simp: CollectFiles_def searchFiles_def NewFile_def Let_def list_all_iff split: option.splits if_splits)

lemma FilesToTail_files:
  assumes "list_all (\<lambda>src. src_Config src \<noteq> None) srcs"
  shows "\<exists>files. FilesToTail env p srcs = Inr files \<and> list_all (\<lambda>f. f_Source f \<noteq> None) files"
proof -
  have "list_all (\<lambda>f. f_Source f \<noteq> None) (collected env p src)" for src
    using CollectFiles_sources [of env p src] by (auto simp: collected_def split: sum.splits)
  then have "list_all (\<lambda>f. f_Source f \<noteq> None) (take n (concat (map (collected env p) srcs)))" for n
    by (auto simp: list_all_iff dest!: in_set_takeD)
  with FilesToTail_loop_take [OF assms, of env p "[]"] show ?thesis by (simp add: FilesToTail_def)
qed

lemma scan_law:
  assumes "scanner_inv s"
  shows "\<exists>files s'. FilesToTail (se_files env) (fileProvider s) (activeSources s) = Inr files \<and> scan env s = Inr s' \<and>
    scanner_inv s' \<and> tailingLimit s' = tailingLimit s \<and> fst ` set (s_tailers s') \<subseteq> GetScanKey ` set files \<and>
    (map_of (s_tailers s) k = Some t \<longrightarrow> keeps_reading env t \<longrightarrow> k \<in> GetScanKey ` set files \<longrightarrow> map_of (s_tailers s') k = Some t)"
proof -
  obtain files where f: "FilesToTail (se_files env) (fileProvider s) (activeSources s) = Inr files"
    "list_all (\<lambda>f. f_Source f \<noteq> None) files"
    using FilesToTail_files assms by (fastforce simp: scanner_inv_def)
  have "scan_ok (s, int (length (s_tailers s)), {})" using assms by (simp add: scanner_inv_def)
  from scan_files_law [OF this f(2), of env k t] obtain s1 n1 sel where
    r: "foldM (scan_file env) (s, int (length (s_tailers s)), {}) files = Inr (s1, n1, sel)" "scan_ok (s1, n1, sel)"
      "sel \<subseteq> GetScanKey ` set files" "activeSources s1 = activeSources s" "tailingLimit s1 = tailingLimit s"
      "map_of (s_tailers s) k = Some t \<longrightarrow> keeps_reading env t \<longrightarrow>
         map_of (s_tailers s1) k = Some t \<and> (k \<in> GetScanKey ` set files \<longrightarrow> k \<in> sel)"
    by auto
  let ?s = "stop_unselected sel s1"
  have ok: "tailers_ok s1" using r(2) by simp
  note e = stop_unselected_law(1) [OF ok, of sel]
  have "length (s_tailers ?s) \<le> length (s_tailers s1)" by (simp add: e)
  then have "int (length (s_tailers ?s)) \<le> max 0 (tailingLimit s)" using r(2,5) by simp
  moreover have "tailingLimit ?s = tailingLimit s" "activeSources ?s = activeSources s" using r(4,5) by (simp_all add: e)
  ultimately have "scanner_inv ?s" "tailingLimit ?s = tailingLimit s"
    using assms stop_unselected_law(2) [OF ok, of sel] by (simp_all add: scanner_inv_def)
  moreover have "fst ` set (s_tailers ?s) \<subseteq> GetScanKey ` set files" using r(3) by (auto simp: e)
  moreover have "map_of (s_tailers ?s) k = Some t" if "map_of (s_tailers s1) k = Some t" "k \<in> sel"
    using that by (auto simp: e intro!: map_of_filter_in)
  moreover have "scan env s = Inr ?s" using f(1) r(1) by (simp add: scan_def)
  ultimately show ?thesis using f(1) r(6) by blast
qed

lemma launch_files_law:
  assumes "scanner_inv s" and "list_all (\<lambda>f. f_Source f \<noteq> None) files"
  shows "\<exists>s'. launch_files env c files s = Inr s' \<and> scanner_inv s' \<and> tailingLimit s' = tailingLimit s"
  using assms
proof (induction files arbitrary: s)
  case (Cons f files)
  show ?case
  proof (cases "int (length (s_tailers s)) \<ge> tailingLimit s \<or> map_of (s_tailers s) (GetScanKey f) \<noteq> None")
    case True
    with Cons show ?thesis by auto
  next
    case False
    let ?m = "if c_Identifier c \<noteq> [] then Beginning else fst (TailingModeFromString (TailingMode c))"
    from startNewTailer_law [of s f env ?m] False Cons.prems obtain s1 ok where
      r: "startNewTailer env f ?m s = Inr (s1, ok)" "tailers_ok s1" "touches (GetScanKey f) s s1"
        "length (s_tailers s1) = length (s_tailers s) + (if ok then 1 else 0)"
      by (auto simp: scanner_inv_def)
    then have "scanner_inv s1" "tailingLimit s1 = tailingLimit s"
      using False Cons.prems(1) by (auto simp: scanner_inv_def touches_def)
    with Cons.IH [of s1] Cons.prems(2) r(1) False show ?thesis by (auto simp: Let_def)
  qed
qed simp

lemma addSource_law:
  assumes "scanner_inv s" and "src_Config source \<noteq> None"
  shows "\<exists>s'. addSource env source s = Inr s' \<and> scanner_inv s' \<and> tailingLimit s' = tailingLimit s"
proof -
  let ?s = "s\<lparr>activeSources := activeSources s @ [source]\<rparr>"
  have inv: "scanner_inv ?s" using assms by (simp add: scanner_inv_def tailers_ok_def)
  obtain c where c: "src_Config source = Some c" using assms(2) by auto
  obtain r where r: "CollectFiles (se_files env) (fileProvider s) source = Inr r"
    using CollectFiles_total [OF assms(2)] by blast
  show ?thesis
  proof (cases r)
    case (Inl e)
    with r inv show ?thesis by (simp add: addSource_def launchTailers_def)
  next
    case (Inr files)
    with r launch_files_law [OF inv CollectFiles_sources, of "se_files env" "fileProvider s" source files env c] c
    show ?thesis by (simp add: addSource_def launchTailers_def)
  qed
qed

lemma remove_first_all: "list_all P srcs \<Longrightarrow> list_all P (fst (remove_first n srcs))"
  by (induction srcs) (auto simp: Let_def split_def)

lemma change_tailer_law:
  assumes "scanner_inv s" and "\<And>t. st_id (f t) = st_id t \<and> st_file (f t) = st_file t"
  shows "scanner_inv (change_tailer n f s)" "tailingLimit (change_tailer n f s) = tailingLimit s"
proof -
  define al where "al = map (\<lambda>(k, t). (k, if st_id t = n then f t else t)) (s_tailers s)"
  have "map fst al = map fst (s_tailers s)" using assms(2) by (auto simp: al_def)
  moreover have "map (st_id \<circ> snd) al = tailer_ids s" using assms(2) by (auto simp: al_def)
  then have "mset (map (st_id \<circ> snd) al) = mset (tailer_ids s)" by (rule arg_cong)
  moreover have "list_all (\<lambda>(k, t). GetScanKey (st_file t) = k) al"
    using assms by (auto simp: al_def scanner_inv_def tailers_ok_def list_all_iff)
  moreover have "change_tailer n f s = s\<lparr>s_tailers := al\<rparr>" "length al = length (s_tailers s)"
    by (simp_all add: change_tailer_def al_def)
  ultimately show "scanner_inv (change_tailer n f s)"
    using assms(1) by (simp add: scanner_inv_def tailers_ok_def)
qed (simp add: change_tailer_def)

fun event_ok :: "scan_env \<times> scan_event \<Rightarrow> bool" where
  "event_ok (env, AddedSource source) \<longleftrightarrow> src_Config source \<noteq> None"
| "event_ok _ \<longleftrightarrow> True"

lemma scanner_step_law:
  assumes "scanner_inv s" and "event_ok ev"
  shows "\<exists>s'. scanner_step s ev = Inr s' \<and> scanner_inv s' \<and> tailingLimit s' = tailingLimit s"
proof (cases "(s, ev)" rule: scanner_step.cases)
  case (1 s env source)
  with addSource_law assms show ?thesis by simp
next
  case (2 s env source)
  with assms show ?thesis by (simp add: removeSource_def scanner_inv_def tailers_ok_def remove_first_all)
next
  case (3 s env)
  with scan_law [OF assms(1), of env "[]" undefined] show ?thesis by auto
next
  case (4 s env)
  have "Scanner_cleanup s = stop_unselected {} s" by (simp add: Scanner_cleanup_def stop_unselected_def)
  with 4 assms stop_unselected_law [of s "{}"] show ?thesis by (auto simp: scanner_inv_def)
next
  case (5 s env n)
  with assms change_tailer_law [of s "\<lambda>t. t\<lparr>st_shouldStop := True\<rparr>" n] show ?thesis by simp
next
  case (6 s env n k)
  with assms change_tailer_law [of s "\<lambda>t. t\<lparr>st_tailer := Tailer_read k (st_tailer t)\<rparr>" n] show ?thesis by simp
qed


text \<open>After a scan only files that are still to be tailed have a tailer, and a tailer that is running on such a file which did
  not rotate is kept as it is, not restarted.\<close>

theorem scan_keeps_and_stops:
  assumes "scanner_inv s"
  shows "\<exists>files s'. FilesToTail (se_files env) (fileProvider s) (activeSources s) = Inr files \<and> scan env s = Inr s' \<and>
    fst ` set (s_tailers s') \<subseteq> GetScanKey ` set files \<and>
    (map_of (s_tailers s) k = Some t \<longrightarrow> keeps_reading env t \<longrightarrow> k \<in> GetScanKey ` set files \<longrightarrow> map_of (s_tailers s') k = Some t)"
  using scan_law [OF assms, of env k t] by blast

definition sample_scan_env :: scan_env where
  "sample_scan_env = \<lparr>se_files = sample_file_env, filepath_Abs = Some, filepath_Dir = id, os_Open = (\<lambda>_. Some (1, 10)),
     path_Stat = (\<lambda>_. Some (Some (1, 10))), handle_Stat = (\<lambda>h. Some (h, 10)), registry_GetOffset = (\<lambda>_. []),
     registry_GetTailingMode = (\<lambda>_. []), container_links = None\<rparr>"


definition sample_scanner :: scanner where
  "sample_scanner = (NewScanner 5 (NewProvider 0 0 5 4 3) False 2)\<lparr>activeSources := [sample_wildcard], s_nextId := 1,
     s_tailers := [(''/l/2018.log'', \<lparr>st_id = 0, st_file = NewFile ''/l/2018.log'' sample_wildcard True,
       st_tailer = NewTailer ''/l/2018.log'' True sample_wildcard, st_osFile = (''/l/2018.log'', 1), st_shouldStop = False,
       st_output = Some 1, st_pattern = None\<rparr>)]\<rparr>"

theorem scan_keeps_and_stops_witness:
  "\<exists>s'. scan sample_scan_env sample_scanner = Inr s' \<and>
     map_of (s_tailers s') ''/l/2018.log'' = map_of (s_tailers sample_scanner) ''/l/2018.log''"
proof -
  let ?p = "NewProvider 0 0 5 4 3"
  have k: "GetScanKey (NewFile path sample_wildcard True) = path" for path
    by (simp add: GetScanKey_def NewFile_def sample_wildcard_def NewLogSource_def sample_config_def)
  have inv: "scanner_inv sample_scanner"
    by (simp add: scanner_inv_def tailers_ok_def sample_scanner_def NewScanner_def k)
      (simp add: sample_wildcard_def NewLogSource_def)
  obtain t where t: "map_of (s_tailers sample_scanner) ''/l/2018.log'' = Some t" by (simp add: sample_scanner_def)
  then have "keeps_reading sample_scan_env t"
    by (auto simp: sample_scanner_def keeps_reading_def DidRotate_def sample_scan_env_def NewTailer_def)
  have "list_all (\<lambda>src. src_Config src \<noteq> None) [sample_wildcard]" by (simp add: sample_wildcard_def NewLogSource_def)
  from FilesToTail_loop_take [OF this, of sample_file_env ?p "[]"]
  have f: "FilesToTail (se_files sample_scan_env) (fileProvider sample_scanner) (activeSources sample_scanner) =
      Inr [NewFile ''/l/2018.log'' sample_wildcard True, NewFile ''/l/2017.log'' sample_wildcard True]"
    by (simp add: FilesToTail_def sample_scan_env_def sample_scanner_def NewScanner_def sample_wildcard_files)
      (simp add: NewProvider_def)
  from scan_keeps_and_stops [OF inv, of sample_scan_env "''/l/2018.log''" t] f t \<open>keeps_reading sample_scan_env t\<close>
  show ?thesis by (auto simp: k)
qed

text \<open>
  The tailer a scan starts reads on from the registered offset, whatever the tailing mode was. A file whose restart after a
  rotation failed is started this way by the next scan: it is then read from the offset of the old file.
\<close>

lemma startNewTailer_offset:
  assumes "\<not> validatePodContainerID s" and "f_Source f = Some src" and "filepath_Abs env (f_Path f) = Some fullpath"
    and "os_Open env fullpath = Some (h, fsize)" and "registry_GetOffset env (''file:'' @ f_Path f) = FormatInt n"
    and "in_int64 n" and "0 \<le> n"
  shows "\<exists>s' t. startNewTailer env f Beginning s = Inr (s', True) \<and> map_of (s_tailers s') (GetScanKey f) = Some t \<and>
    readOffset (st_tailer t) = n \<and> decodedOffset (st_tailer t) = n \<and> shouldTrackOffset (st_tailer t)"
proof -
  obtain s1 out where n: "NextPipelineChan s = (s1, out)" by fastforce
  have m: "handleTailingModeChange env i Beginning = Beginning" for i by (simp add: handleTailingModeChange_def Let_def)
  have p: "Position (registry_GetOffset env) (''file:'' @ f_Path f) Beginning = (n, SeekStart, False)"
    using assms(5-7) FormatInt_nonempty [of n] by (simp add: Position_def Let_def ParseInt_FormatInt)
  from assms n m p show ?thesis
    by (simp add: startNewTailer_def createTailer_def Tailer_Identifier_def NewTailer_def Tailer_Start_def Tailer_setup_def
      register_tailer_def update_conv' shouldTrackOffset_def Let_def)
qed

end
