(* ===== verification/Input_Provider.thy ===== *)
theory Input_Provider
  imports Go_Prelude "HOL-Library.AList"
begin

text \<open>
  Where the agent gets the configuration of its inputs: \<open>src/inputs/provider_manager.go\<close>, \<open>local_provider.go\<close>,
  \<open>http_provider.go\<close>, the sets of \<open>src/pkg/set\<close> and the formats of \<open>src/pkg/cfg/cfg.go\<close>. Maps are association lists, whose
  order is the one in which the runtime visits them; every theorem is about all orders. The answer of the
  server (decoded), the directory listings and \<open>strings.ToLower\<close> are parameters; requests are not modelled.
\<close>

subsection \<open>Names of inputs\<close>

definition inputFilePrefix :: string where
  "inputFilePrefix = ''input.''"

definition FormatInputName :: "string \<Rightarrow> string \<Rightarrow> string" where
  "FormatInputName provider inputKey = provider @ ''.'' @ inputKey"

text \<open>\<open>strings.SplitN(name, ".", 2)\<close>.\<close>

definition SplitN2 :: "string \<Rightarrow> string list" where
  "SplitN2 name =
     (if CHR ''.'' \<in> set name then [takeWhile (\<lambda>c. c \<noteq> CHR ''.'') name, tl (dropWhile (\<lambda>c. c \<noteq> CHR ''.'') name)] else [name])"

definition ParseInputName :: "string \<Rightarrow> string \<times> string" where
  "ParseInputName name =
     (case SplitN2 name of [] \<Rightarrow> ([], []) | [x] \<Rightarrow> ([], x) | x # y # _ \<Rightarrow> (x, y))"

lemma ParseInputName_Format:
  assumes "CHR ''.'' \<notin> set provider"
  shows "ParseInputName (FormatInputName provider inputKey) = (provider, inputKey)"
proof -
  have "takeWhile (\<lambda>c. c \<noteq> CHR ''.'') (provider @ CHR ''.'' # inputKey) = provider"
    "dropWhile (\<lambda>c. c \<noteq> CHR ''.'') (provider @ CHR ''.'' # inputKey) = CHR ''.'' # inputKey"
    using assms by (auto simp: takeWhile_append dropWhile_append)
  then show ?thesis by (simp add: ParseInputName_def FormatInputName_def SplitN2_def)
qed

lemma FormatInputName_inj [simp]: "FormatInputName p j = FormatInputName p k \<longleftrightarrow> j = k"
  by (simp add: FormatInputName_def)

subsection \<open>Configurations\<close>

datatype config_format = YamlFormat | TomlFormat | JsonFormat | OtherFormat string

record config_with_format =
  cf_Config :: string
  cf_Format :: config_format
  cf_checkSum :: string

definition SetCheckSum :: "string \<Rightarrow> config_with_format \<Rightarrow> config_with_format" where
  "SetCheckSum csum c = c\<lparr>cf_checkSum := csum\<rparr>"

definition HasSuffix :: "string \<Rightarrow> string \<Rightarrow> bool" where
  "HasSuffix s suf = suffix suf s"

definition GuessFormat :: "string \<Rightarrow> config_format" where
  "GuessFormat fpath =
     (if HasSuffix fpath ''.json'' then JsonFormat
      else if HasSuffix fpath ''.yaml'' \<or> HasSuffix fpath ''.yml'' then YamlFormat
      else TomlFormat)"

text \<open>What \<open>LoadConfigs\<close> hands to the configuration loader: the texts of each format, in the order of the loaders; \<open>None\<close> where no loader is added.\<close>

definition append_text :: "config_format \<Rightarrow> string \<Rightarrow> config_with_format list \<Rightarrow> string" where
  "append_text f sep cs = concat (map (\<lambda>c. if cf_Format c = f then sep @ cf_Config c else []) cs)"

definition loader_text :: "string \<Rightarrow> string option" where
  "loader_text s = (if length s \<noteq> 0 then Some s else None)"

definition LoadConfigs :: "config_with_format list \<Rightarrow> (config_format \<times> string option) list" where
  "LoadConfigs cs =
     [(TomlFormat, loader_text (append_text TomlFormat [CHR 0x0A, CHR 0x0A] cs)),
      (YamlFormat, loader_text (append_text YamlFormat [] cs)),
      (JsonFormat, loader_text (append_text JsonFormat [] cs))]"

subsection \<open>Sets\<close>

type_synonym key_set = "string list"

definition Set_Add :: "string \<Rightarrow> key_set \<Rightarrow> key_set" where
  "Set_Add k s = (if k \<in> set s then s else s @ [k])"

definition NewWithLoad :: "(string \<times> 'v) list \<Rightarrow> key_set" where
  "NewWithLoad m = foldl (\<lambda>s k. Set_Add k s) [] (map fst m)"

definition count_up :: "(string \<times> nat) list \<Rightarrow> string \<Rightarrow> (string \<times> nat) list" where
  "count_up r k = AList.update k (Suc (case map_of r k of None \<Rightarrow> 0 | Some n \<Rightarrow> n)) r"

definition Set_Diff :: "key_set \<Rightarrow> key_set \<Rightarrow> key_set \<times> key_set \<times> key_set" where
  "Set_Diff src dst =
     (let rec1 = foldl count_up (foldl count_up [] src) dst;
          inter = foldl (\<lambda>s (k, v). if v = 2 then Set_Add k s else s) [] rec1;
          dels = foldl (\<lambda>s k. if k \<in> set inter then s else Set_Add k s) [] dst;
          adds = foldl (\<lambda>s k. if k \<in> set inter then s else Set_Add k s) [] src in
      (adds, inter, dels))"

subsection \<open>The local provider\<close>

record local_provider =
  lp_configDir :: string
  lp_inputNames :: "string list"

definition newLocalProvider :: "string \<Rightarrow> local_provider" where
  "newLocalProvider dir = \<lparr>lp_configDir = dir, lp_inputNames = []\<rparr>"

text \<open>\<open>dirs\<close> is what \<open>file.DirsUnder\<close> returns for the directory of the configuration, \<open>None\<close> an error.\<close>

definition Local_LoadConfig :: "string list option \<Rightarrow> local_provider \<Rightarrow> local_provider \<times> bool option" where
  "Local_LoadConfig dirs lp =
     (case dirs of
        None \<Rightarrow> (lp, None)
      | Some ds \<Rightarrow> (lp\<lparr>lp_inputNames := map (drop (length inputFilePrefix)) (filter (prefix inputFilePrefix) ds)\<rparr>, Some False))"

fun read_files :: "(string \<Rightarrow> string option) \<Rightarrow> string list \<Rightarrow> config_with_format list option" where
  "read_files ReadBytes [] = Some []"
| "read_files ReadBytes (f # fs) =
     (if \<not> (HasSuffix f ''.yaml'' \<or> HasSuffix f ''.yml'' \<or> HasSuffix f ''.json'' \<or> HasSuffix f ''.toml'') then read_files ReadBytes fs
      else
        (case ReadBytes f of
           None \<Rightarrow> None
         | Some c \<Rightarrow> map_option (\<lambda>rest. \<lparr>cf_Config = c, cf_Format = GuessFormat f, cf_checkSum = []\<rparr> # rest) (read_files ReadBytes fs)))"

text \<open>\<open>None\<close> is an error. \<open>files\<close> lists the directory of the input and \<open>ReadBytes\<close> reads a file of it.\<close>

definition Local_GetInputConfig ::
  "(string \<Rightarrow> string list option) \<Rightarrow> (string \<Rightarrow> string \<Rightarrow> string option) \<Rightarrow> string \<Rightarrow> local_provider \<Rightarrow> config_with_format list option" where
  "Local_GetInputConfig files ReadBytes inputKey lp =
     (if inputKey \<notin> set (lp_inputNames lp) then Some []
      else
        (case files (inputFilePrefix @ inputKey) of
           None \<Rightarrow> None
         | Some fs \<Rightarrow> read_files (ReadBytes (inputFilePrefix @ inputKey)) fs))"

subsection \<open>The cache of the HTTP provider\<close>

type_synonym inner_cache = "(string \<times> (string \<times> config_with_format) list) list"

definition cache_put :: "string \<Rightarrow> config_with_format \<Rightarrow> inner_cache \<Rightarrow> inner_cache" where
  "cache_put inputName c ic =
     AList.update inputName (AList.update (cf_checkSum c) c (case map_of ic inputName of None \<Rightarrow> [] | Some m \<Rightarrow> m)) ic"

definition cache_del :: "string \<Rightarrow> string \<Rightarrow> inner_cache \<Rightarrow> inner_cache" where
  "cache_del inputName csum ic =
     (if length csum = 0 then AList.delete inputName ic
      else (case map_of ic inputName of None \<Rightarrow> ic | Some m \<Rightarrow> AList.update inputName (AList.delete csum m) ic))"

definition cache_put_all :: "string \<Rightarrow> config_with_format list \<Rightarrow> inner_cache \<Rightarrow> inner_cache" where
  "cache_put_all inputName cs ic = foldl (\<lambda>ic c. cache_put inputName c ic) ic cs"

subsection \<open>The HTTP provider\<close>

type_synonym config_map = "(string \<times> (string \<times> config_with_format) list) list"

record http_provider =
  hp_configMap :: config_map
  hp_version :: string
  hp_cache :: inner_cache
  hp_add :: inner_cache
  hp_del :: inner_cache

definition newHTTPProvider :: http_provider where
  "newHTTPProvider = \<lparr>hp_configMap = [], hp_version = [], hp_cache = [], hp_add = [], hp_del = []\<rparr>"

text \<open>The decoded answer: a configuration may be nil.\<close>

record http_response =
  hr_Version :: string
  hr_Configs :: "(string \<times> (string \<times> config_with_format option) list) list"

definition TrimPrefix :: "string \<Rightarrow> string \<Rightarrow> string" where
  "TrimPrefix s p = (if prefix p s then drop (length p) s else s)"

definition input_key :: "(string \<Rightarrow> string) \<Rightarrow> string \<Rightarrow> string" where
  "input_key lower k = TrimPrefix (lower k) inputFilePrefix"

definition set_sums :: "string \<Rightarrow> config_map \<Rightarrow> (string \<times> config_with_format option) list \<Rightarrow> config_map go" where
  "set_sums lk = foldM (\<lambda>newCfg (kk, vv). case vv of
       None \<Rightarrow> Inl NilDereference
     | Some c \<Rightarrow> Inr (AList.update lk (AList.update kk (SetCheckSum kk c) (the (map_of newCfg lk))) newCfg))"

definition doReq_configs :: "(string \<Rightarrow> string) \<Rightarrow> http_response \<Rightarrow> config_map go" where
  "doReq_configs lower r =
     foldM (\<lambda>newCfg (k, m).
         let lk = input_key lower k in
         set_sums lk (case map_of newCfg lk of None \<Rightarrow> AList.update lk [] newCfg | Some _ \<Rightarrow> newCfg) m)
       [] (hr_Configs r)"

definition new_cache :: "config_map \<Rightarrow> inner_cache" where
  "new_cache newConfigs = foldl (\<lambda>ic (k, m). cache_put_all k (map snd m) ic) [] newConfigs"

definition diff_key :: "inner_cache \<Rightarrow> inner_cache \<times> inner_cache \<Rightarrow> string \<times> (string \<times> config_with_format) list \<Rightarrow> inner_cache \<times> inner_cache" where
  "diff_key old acc entry =
     (case (acc, entry) of ((adds, dels), (inputKey, configMap)) \<Rightarrow>
       (case map_of old inputKey of
          Some oldConfigMap \<Rightarrow>
            (case Set_Diff (NewWithLoad configMap) (NewWithLoad oldConfigMap) of
               (a, _, d) \<Rightarrow> (cache_put_all inputKey (map (\<lambda>s. the (map_of configMap s)) a) adds,
                            cache_put_all inputKey (map (\<lambda>s. the (map_of oldConfigMap s)) d) dels))
        | None \<Rightarrow> (cache_put_all inputKey (map snd configMap) adds, dels)))"

definition gone_key :: "inner_cache \<Rightarrow> inner_cache \<Rightarrow> string \<times> (string \<times> config_with_format) list \<Rightarrow> inner_cache" where
  "gone_key new dels entry =
     (case entry of (inputKey, configMap) \<Rightarrow>
        case map_of new inputKey of Some _ \<Rightarrow> dels | None \<Rightarrow> cache_put_all inputKey (map snd configMap) dels)"

definition caculateDiff :: "config_map \<Rightarrow> http_provider \<Rightarrow> http_provider" where
  "caculateDiff newConfigs hp =
     (let cache = new_cache newConfigs;
          (adds, dels1) = foldl (diff_key (hp_cache hp)) ([], []) cache;
          dels = foldl (gone_key cache) dels1 (hp_cache hp) in
      hp\<lparr>hp_add := adds, hp_del := dels,
         hp_cache := (if length adds + length dels > 0 then cache else hp_cache hp)\<rparr>)"

text \<open>\<open>resp\<close> is the answer of the server, \<open>None\<close> a failed request. The flag tells a change; \<open>None\<close> is an error.\<close>

definition HTTP_LoadConfig :: "(string \<Rightarrow> string) \<Rightarrow> http_response option \<Rightarrow> http_provider \<Rightarrow> (http_provider \<times> bool option) go" where
  "HTTP_LoadConfig lower resp hp =
     (case resp of
        None \<Rightarrow> Inr (hp, None)
      | Some r \<Rightarrow>
          and_then (doReq_configs lower r) (\<lambda>configs.
            if hr_Version r = hp_version hp \<or> hr_Version r = [] then Inr (hp, Some False)
            else
              (let configs' = filter (\<lambda>(k, v). length v \<noteq> 0) configs;
                   hp1 = caculateDiff configs' hp;
                   changed = length (hp_add hp1) + length (hp_del hp1) > 0 in
               Inr (if changed then hp1\<lparr>hp_configMap := configs', hp_version := hr_Version r\<rparr> else hp1, Some changed))))"

definition serviceInput :: "string \<Rightarrow> bool" where
  "serviceInput inputKey \<longleftrightarrow> inputKey = ''zabbix''"

definition HTTP_GetInputs :: "http_provider \<Rightarrow> string list" where
  "HTTP_GetInputs hp = map fst (hp_configMap hp)"

definition HTTP_GetInputConfig :: "string \<Rightarrow> http_provider \<Rightarrow> config_with_format list" where
  "HTTP_GetInputConfig inputKey hp = (case map_of (hp_configMap hp) inputKey of Some m \<Rightarrow> map snd m | None \<Rightarrow> [])"

text \<open>\<open>load\<close> is \<open>LoadSingleConfig\<close> on a clone of the input, \<open>None\<close> an error.\<close>

definition HTTP_LoadInputConfig :: "(config_with_format \<Rightarrow> 'i option) \<Rightarrow> config_with_format list \<Rightarrow> (string \<times> 'i) list" where
  "HTTP_LoadInputConfig load cs =
     foldl (\<lambda>m c. case load c of None \<Rightarrow> m | Some i \<Rightarrow> AList.update (cf_checkSum c) i m) [] cs"

subsection \<open>The providers in use\<close>

text \<open>\<open>newHTTPProvider\<close> fails on a bad URL or TLS configuration (\<open>http_ok\<close>); \<open>None\<close> is that error.\<close>

definition NewProvider :: "(string \<Rightarrow> string) \<Rightarrow> bool \<Rightarrow> string list \<Rightarrow> string list option go" where
  "NewProvider lower http_ok names =
     foldM (\<lambda>acc p. case acc of
         None \<Rightarrow> Inr None
       | Some ps \<Rightarrow>
           (let name = lower p in
            if name \<in> set ps then Inr (Some ps)
            else if name = ''http'' then Inr (if http_ok then Some (ps @ [name]) else None)
            else if name = ''local'' then Inr (Some (ps @ [name]))
            else Inl (ExplicitPanic (''unsupported input provider: '' @ name))))
       (Some []) (if length names = 0 then [''local''] else names)"

subsection \<open>Caches as maps\<close>

definition cview :: "(string \<times> (string \<times> 'c) list) list \<Rightarrow> string \<Rightarrow> string \<Rightarrow> 'c option" where
  "cview ic k s = (case map_of ic k of None \<Rightarrow> None | Some m \<Rightarrow> map_of m s)"

definition inner_ok :: "(string \<times> config_with_format) list \<Rightarrow> bool" where
  "inner_ok m \<longleftrightarrow> m \<noteq> [] \<and> distinct (map fst m) \<and> (\<forall>(s, c) \<in> set m. cf_checkSum c = s)"

definition cache_ok :: "inner_cache \<Rightarrow> bool" where
  "cache_ok ic \<longleftrightarrow> distinct (map fst ic) \<and> (\<forall>(k, m) \<in> set ic. inner_ok m)"

lemma cache_ok_Nil [simp]: "cache_ok []"
  by (simp add: cache_ok_def)

lemma cview_Nil [simp]: "cview [] k s = None"
  by (simp add: cview_def)

lemma cache_ok_inner: "cache_ok ic \<Longrightarrow> map_of ic k = Some m \<Longrightarrow> inner_ok m"
  by (auto simp: cache_ok_def dest: map_of_SomeD)

lemma set_AList_update: "set (AList.update k v al) \<subseteq> insert (k, v) (set al)"
  by (induction al) auto

lemma AList_update_nonempty [simp]: "AList.update k v al \<noteq> []"
  by (cases al) auto

lemma distinct_AList_update: "distinct (map fst al) \<Longrightarrow> distinct (map fst (AList.update k v al))"
  by (simp add: distinct_update)

lemma inner_ok_update:
  assumes "m = [] \<or> inner_ok m"
  shows "inner_ok (AList.update (cf_checkSum c) c m)"
  using assms set_AList_update[of "cf_checkSum c" c m]
  by (auto simp: inner_ok_def distinct_AList_update)

lemma cache_ok_put: "cache_ok ic \<Longrightarrow> cache_ok (cache_put k c ic)"
  unfolding cache_put_def cache_ok_def
proof (intro conjI ballI)
  assume ic: "distinct (map fst ic) \<and> (\<forall>(k, m) \<in> set ic. inner_ok m)"
  let ?m = "AList.update (cf_checkSum c) c (case map_of ic k of None \<Rightarrow> [] | Some m \<Rightarrow> m)"
  show "distinct (map fst (AList.update k ?m ic))" using ic by (simp add: distinct_AList_update)
  have "inner_ok ?m"
    by (rule inner_ok_update) (use ic in \<open>auto split: option.splits dest!: map_of_SomeD\<close>)
  then show "case x of (k, m) \<Rightarrow> inner_ok m" if "x \<in> set (AList.update k ?m ic)" for x
    using that set_AList_update[of k ?m ic] ic by auto
qed

lemma cview_put: "cview (cache_put k c ic) j s = (if j = k \<and> s = cf_checkSum c then Some c else cview ic j s)"
  by (auto simp: cview_def cache_put_def update_conv' split: option.splits)

lemma cache_ok_put_all: "cache_ok ic \<Longrightarrow> cache_ok (cache_put_all k cs ic)"
  unfolding cache_put_all_def by (induction cs arbitrary: ic) (simp_all add: cache_ok_put)

lemma cview_put_all:
  "cview (cache_put_all k cs ic) j s =
     (if j = k then (case map_of (rev (map (\<lambda>c. (cf_checkSum c, c)) cs)) s of None \<Rightarrow> cview ic k s | Some c \<Rightarrow> Some c) else cview ic j s)"
proof (induction cs rule: rev_induct)
  case (snoc c cs)
  have "cache_put_all k (cs @ [c]) ic = cache_put k c (cache_put_all k cs ic)" by (simp add: cache_put_all_def)
  then show ?case using snoc by (cases "j = k") (simp_all add: cview_put)
qed (simp add: cache_put_all_def)

lemma inner_ok_pairs:
  assumes "\<forall>(s, c) \<in> set m. cf_checkSum c = s"
  shows "map (\<lambda>c. (cf_checkSum c, c)) (map snd m) = m"
  using assms by (induction m) auto

lemma map_of_rev_distinct: "distinct (map fst m) \<Longrightarrow> map_of (rev m) = map_of m"
  by (rule map_of_eqI) (auto simp: rev_map[symmetric] map_of_eq_Some_iff)

lemma cview_put_inner:
  assumes "inner_ok m"
  shows "cview (cache_put_all k (map snd m) ic) j s = (if j = k then (case map_of m s of None \<Rightarrow> cview ic k s | Some c \<Rightarrow> Some c) else cview ic j s)"
proof -
  have "map (\<lambda>c. (cf_checkSum c, c)) (map snd m) = m" using assms by (intro inner_ok_pairs) (simp add: inner_ok_def)
  then show ?thesis using assms unfolding cview_put_all by (simp add: map_of_rev_distinct inner_ok_def)
qed

lemma cview_Cons: "cview ((k, m) # ic) j s = (if j = k then map_of m s else cview ic j s)"
  by (simp add: cview_def)

lemma cview_notin: "k \<notin> fst ` set ic \<Longrightarrow> cview ic k s = None"
  by (simp add: cview_def split: option.split) (metis map_of_eq_None_iff option.distinct(1))

text \<open>Folding over the entries of a cache that all have distinct keys.\<close>

lemma fold_put_view:
  assumes "distinct (map fst cm)" and "\<forall>(k, m) \<in> set cm. inner_ok m"
  shows "cview (foldl (\<lambda>ic (k, m). if P k then cache_put_all k (map snd m) ic else ic) ic cm) j s =
           (if P j then (case cview cm j s of None \<Rightarrow> cview ic j s | Some c \<Rightarrow> Some c) else cview ic j s)"
  using assms
proof (induction cm arbitrary: ic)
  case (Cons e cm)
  obtain k m where e: "e = (k, m)" by fastforce
  have ok: "inner_ok m" using Cons.prems(2) e by simp
  have "k \<notin> fst ` set cm" using Cons.prems(1) e by simp
  then have "cview cm k s = None" by (rule cview_notin)
  with Cons show ?case
    by (auto simp: e cview_Cons cview_put_inner[OF ok] split: option.splits)
qed simp

lemma fold_put_ok:
  assumes "cache_ok ic"
  shows "cache_ok (foldl (\<lambda>ic (k, m). if P k then cache_put_all k (map snd m) ic else ic) ic cm)"
  using assms by (induction cm arbitrary: ic) (auto simp: cache_ok_put_all split: prod.splits)

lemma new_cache_ok: "cache_ok (new_cache cm)"
  unfolding new_cache_def using fold_put_ok[of "[]" "\<lambda>_. True" cm] by simp

lemma cview_new_cache: "cache_ok cm \<Longrightarrow> cview (new_cache cm) k s = cview cm k s"
  unfolding new_cache_def using fold_put_view[of cm "\<lambda>_. True" "[]" k s] by (simp add: cache_ok_def split: option.splits)

lemma cache_ok_empty_view:
  assumes "cache_ok ic"
  shows "ic = [] \<longleftrightarrow> (\<forall>k s. cview ic k s = None)"
proof
  show "ic = []" if all: "\<forall>k s. cview ic k s = None"
  proof (rule ccontr)
    assume "ic \<noteq> []"
    then obtain k m ic' where ic: "ic = (k, m) # ic'" by (metis neq_Nil_conv surj_pair)
    then have "inner_ok m" using assms by (simp add: cache_ok_def)
    then obtain s c m' where "m = (s, c) # m'" by (metis inner_ok_def neq_Nil_conv surj_pair)
    then have "cview ic k s = Some c" using ic by (simp add: cview_Cons)
    with all show False by simp
  qed
qed simp

subsection \<open>The difference of two caches\<close>

lemma set_Set_Add_fold:
  "set (foldl (\<lambda>s k. if P k then s else Set_Add k s) s xs) = set s \<union> {k \<in> set xs. \<not> P k}"
  by (induction xs arbitrary: s) (auto simp: Set_Add_def)

lemma set_NewWithLoad: "set (NewWithLoad m) = fst ` set m"
  unfolding NewWithLoad_def using set_Set_Add_fold[of "\<lambda>_. False" "[]" "map fst m"] by simp

lemma distinct_NewWithLoad: "distinct (NewWithLoad m)"
proof -
  have "distinct s \<Longrightarrow> distinct (foldl (\<lambda>s k. Set_Add k s) s xs)" for s xs
    by (induction xs arbitrary: s) (auto simp: Set_Add_def)
  then show ?thesis by (simp add: NewWithLoad_def)
qed

lemma count_up_fold:
  "map_of (foldl count_up r xs) k =
     (if k \<in> set xs then Some (count_list xs k + (case map_of r k of None \<Rightarrow> 0 | Some n \<Rightarrow> n)) else map_of r k)"
  by (induction xs arbitrary: r) (auto simp: count_up_def update_conv' count_notin split: option.splits)

lemma count_up_distinct: "distinct (map fst r) \<Longrightarrow> distinct (map fst (foldl count_up r xs))"
  by (induction xs arbitrary: r) (auto simp: count_up_def distinct_AList_update)

lemma count_list_distinct: "distinct xs \<Longrightarrow> count_list xs k = (if k \<in> set xs then 1 else 0)"
  by (induction xs) auto

lemma Set_Diff_sets:
  assumes "distinct src" and "distinct dst" and "Set_Diff src dst = (a, i, d)"
  shows "set a = set src - set dst" and "set i = set src \<inter> set dst" and "set d = set dst - set src"
proof -
  define r where "r = foldl count_up (foldl count_up [] src) dst"
  have r: "map_of r k = Some 2 \<longleftrightarrow> k \<in> set src \<inter> set dst" for k
    using assms(1,2) by (auto simp: r_def count_up_fold count_list_distinct)
  have fold: "set (foldl (\<lambda>s (k, v). if v = 2 then Set_Add k s else s) s xs) = set s \<union> {k. (k, 2) \<in> set xs}"
    for s and xs :: "(string \<times> nat) list"
  proof (induction xs arbitrary: s)
    case (Cons x xs)
    then show ?case by (cases x) (auto simp: Set_Add_def)
  qed simp
  have "distinct (map fst r)" by (simp add: r_def count_up_distinct)
  then have i: "set (foldl (\<lambda>s (k, v). if v = 2 then Set_Add k s else s) [] r) = set src \<inter> set dst"
    using map_of_eq_Some_iff[of r _ 2] r by (simp add: fold Int_def)
  have iv: "i = foldl (\<lambda>s (k, v). if v = 2 then Set_Add k s else s) [] r"
    and av: "a = foldl (\<lambda>s k. if k \<in> set i then s else Set_Add k s) [] src"
    and dv: "d = foldl (\<lambda>s k. if k \<in> set i then s else Set_Add k s) [] dst"
    using assms(3) by (auto simp: Set_Diff_def Let_def r_def)
  show "set i = set src \<inter> set dst" using i iv by simp
  then show "set a = set src - set dst" "set d = set dst - set src"
    using set_Set_Add_fold[of "\<lambda>k. k \<in> set i" "[]"] av dv by auto
qed

lemma cview_put_keys:
  assumes "inner_ok m" and "set a \<subseteq> fst ` set m"
  shows "cview (cache_put_all k (map (\<lambda>s. the (map_of m s)) a) ic) j s = (if j = k \<and> s \<in> set a then map_of m s else cview ic j s)"
proof -
  have csum: "cf_checkSum (the (map_of m s)) = s" "map_of m s = Some (the (map_of m s))" if "s \<in> set a" for s
  proof -
    have "s \<in> fst ` set m" using that assms(2) by blast
    then obtain c where "map_of m s = Some c" using map_of_eq_None_iff[of m s] by (cases "map_of m s") auto
    with assms(1) show "cf_checkSum (the (map_of m s)) = s" "map_of m s = Some (the (map_of m s))"
      by (auto simp: inner_ok_def dest: map_of_SomeD)
  qed
  then have "map (\<lambda>c. (cf_checkSum c, c)) (map (\<lambda>s. the (map_of m s)) a) = map (\<lambda>s. (s, the (map_of m s))) a" by simp
  then have "map_of (rev (map (\<lambda>c. (cf_checkSum c, c)) (map (\<lambda>s. the (map_of m s)) a))) = (Some \<circ> (\<lambda>s. the (map_of m s))) |` set a"
    using map_of_map_restrict[of "\<lambda>s. the (map_of m s)" "rev a"] by (simp only: rev_map set_rev)
  then show ?thesis
    unfolding cview_put_all using csum(2)[of s] by (cases "map_of m s") (auto simp: restrict_map_def)
qed

lemma diff_key_view:
  assumes old: "cache_ok old" and m: "inner_ok m" and d: "diff_key old (adds, dels) (k, m) = (adds', dels')"
  shows "cview adds' j s = (if j = k \<and> map_of m s \<noteq> None \<and> cview old k s = None then map_of m s else cview adds j s)"
    and "cview dels' j s = (if j = k \<and> map_of m s = None \<and> cview old k s \<noteq> None then cview old k s else cview dels j s)"
proof -
  have "cview adds' j s = (if j = k \<and> map_of m s \<noteq> None \<and> cview old k s = None then map_of m s else cview adds j s)
      \<and> cview dels' j s = (if j = k \<and> map_of m s = None \<and> cview old k s \<noteq> None then cview old k s else cview dels j s)"
  proof (cases "map_of old k")
    case None
    then have "cview old k s = None" by (simp add: cview_def)
    then show ?thesis using d None cview_put_inner[OF m, of k adds j s] by (auto simp: diff_key_def split: option.splits)
  next
    case (Some om)
    obtain a i e where D: "Set_Diff (NewWithLoad m) (NewWithLoad om) = (a, i, e)" by (metis prod_cases3)
    note S = Set_Diff_sets[OF distinct_NewWithLoad distinct_NewWithLoad D, unfolded set_NewWithLoad]
    have ok: "inner_ok om" using cache_ok_inner[OF old Some] .
    have v: "adds' = cache_put_all k (map (\<lambda>s. the (map_of m s)) a) adds" "dels' = cache_put_all k (map (\<lambda>s. the (map_of om s)) e) dels"
      using d Some D by (simp_all add: diff_key_def)
    have "s \<in> set a \<longleftrightarrow> map_of m s \<noteq> None \<and> map_of om s = None" "s \<in> set e \<longleftrightarrow> map_of m s = None \<and> map_of om s \<noteq> None" for s
      using S by (auto simp: map_of_eq_None_iff)
    moreover have "set a \<subseteq> fst ` set m" "set e \<subseteq> fst ` set om" using S by auto
    ultimately show ?thesis
      using cview_put_keys[OF m, of a k adds j s] cview_put_keys[OF ok, of e k dels j s] Some
      unfolding v by (auto simp: cview_def)
  qed
  then show "cview adds' j s = (if j = k \<and> map_of m s \<noteq> None \<and> cview old k s = None then map_of m s else cview adds j s)"
    "cview dels' j s = (if j = k \<and> map_of m s = None \<and> cview old k s \<noteq> None then cview old k s else cview dels j s)" by simp_all
qed

lemma diff_key_ok: "cache_ok (fst acc) \<Longrightarrow> cache_ok (snd acc) \<Longrightarrow> cache_ok (fst (diff_key old acc e)) \<and> cache_ok (snd (diff_key old acc e))"
  by (auto simp: diff_key_def cache_ok_put_all split: prod.splits option.splits)

lemma diff_fold_ok:
  "cache_ok (fst acc) \<Longrightarrow> cache_ok (snd acc) \<Longrightarrow> cache_ok (fst (foldl (diff_key old) acc cm)) \<and> cache_ok (snd (foldl (diff_key old) acc cm))"
  by (induction cm arbitrary: acc) (simp_all add: diff_key_ok)

lemma diff_fold_view:
  assumes old: "cache_ok old" and cm: "cache_ok cm"
  shows "cview (fst (foldl (diff_key old) acc cm)) j s = (if cview cm j s \<noteq> None \<and> cview old j s = None then cview cm j s else cview (fst acc) j s)
       \<and> cview (snd (foldl (diff_key old) acc cm)) j s
         = (if j \<in> fst ` set cm \<and> cview cm j s = None \<and> cview old j s \<noteq> None then cview old j s else cview (snd acc) j s)"
  using cm
proof (induction cm arbitrary: acc)
  case (Cons e cm)
  obtain k m where e: "e = (k, m)" by fastforce
  obtain adds dels where acc: "acc = (adds, dels)" by fastforce
  obtain adds' dels' where d: "diff_key old (adds, dels) (k, m) = (adds', dels')" by fastforce
  have ok: "cache_ok cm" "inner_ok m" and k: "k \<notin> fst ` set cm" using Cons.prems e by (auto simp: cache_ok_def)
  have n: "cview cm k s = None" by (rule cview_notin[OF k])
  show ?case
    using Cons.IH[OF ok(1), of "(adds', dels')"] diff_key_view[OF old ok(2) d, of j s] n k
    by (auto simp: e acc d cview_Cons)
qed simp

lemma caculateDiff_law:
  assumes old: "cache_ok (hp_cache hp)" and cm: "cache_ok cm"
  defines "hp1 \<equiv> caculateDiff cm hp"
  shows "cview (hp_add hp1) k s = (if cview (hp_cache hp) k s = None then cview cm k s else None)" (is ?a)
    and "cview (hp_del hp1) k s = (if cview cm k s = None then cview (hp_cache hp) k s else None)" (is ?d)
    and "cache_ok (hp_add hp1)" and "cache_ok (hp_del hp1)"
    and "hp_cache hp1 = (if length (hp_add hp1) + length (hp_del hp1) > 0 then new_cache cm else hp_cache hp)"
    and "hp_version hp1 = hp_version hp" and "hp_configMap hp1 = hp_configMap hp"
proof -
  define acc where "acc = foldl (diff_key (hp_cache hp)) ([], []) (new_cache cm)"
  have hp1: "hp_add hp1 = fst acc" "hp_del hp1 = foldl (gone_key (new_cache cm)) (snd acc) (hp_cache hp)"
    by (simp_all add: hp1_def caculateDiff_def acc_def Let_def case_prod_beta)
  have gone: "gone_key (new_cache cm) = (\<lambda>ic (k, m). if map_of (new_cache cm) k = None then cache_put_all k (map snd m) ic else ic)"
    by (auto simp: gone_key_def fun_eq_iff split: option.splits)
  note v = diff_fold_view[OF old new_cache_ok[of cm], where acc = "([], [])", folded acc_def]
  show ?a using v by (simp add: hp1 cview_new_cache[OF cm])
  have in_cm: "cview (new_cache cm) k s = None" if "map_of (new_cache cm) k = None"
    using that by (simp add: cview_def)
  show ?d
    using v[of k s] in_cm fold_put_view[of "hp_cache hp" "\<lambda>k. map_of (new_cache cm) k = None" "snd acc" k s] old
    by (auto simp: hp1(2) gone cache_ok_def map_of_eq_None_iff cview_new_cache[OF cm] split: option.splits)
  have "cache_ok (fst acc)" "cache_ok (snd acc)" unfolding acc_def using diff_fold_ok[of "([], [])"] by simp_all
  then show "cache_ok (hp_add hp1)" "cache_ok (hp_del hp1)"
    unfolding hp1 gone by (simp_all add: fold_put_ok)
  show "hp_cache hp1 = (if length (hp_add hp1) + length (hp_del hp1) > 0 then new_cache cm else hp_cache hp)"
    "hp_version hp1 = hp_version hp" "hp_configMap hp1 = hp_configMap hp"
    by (simp_all add: hp1_def caculateDiff_def Let_def case_prod_beta)
qed

subsection \<open>What a load does\<close>

definition no_nil :: "http_response \<Rightarrow> bool" where
  "no_nil r \<longleftrightarrow> (\<forall>(k, m) \<in> set (hr_Configs r). \<forall>(kk, vv) \<in> set m. vv \<noteq> None)"

definition sums_ok :: "(string \<times> config_with_format) list \<Rightarrow> bool" where
  "sums_ok m \<longleftrightarrow> distinct (map fst m) \<and> (\<forall>(s, c) \<in> set m. cf_checkSum c = s)"

definition configs_ok :: "config_map \<Rightarrow> bool" where
  "configs_ok cm \<longleftrightarrow> distinct (map fst cm) \<and> (\<forall>(k, m) \<in> set cm. sums_ok m)"

lemma configs_ok_update:
  assumes "configs_ok cm" and "sums_ok m"
  shows "configs_ok (AList.update k m cm)"
  using assms set_AList_update[of k m cm] by (auto simp: configs_ok_def distinct_AList_update)

lemma sums_ok_update: "sums_ok m \<Longrightarrow> sums_ok (AList.update kk (SetCheckSum kk c) m)"
  using set_AList_update[of kk "SetCheckSum kk c" m] by (auto simp: sums_ok_def distinct_AList_update SetCheckSum_def)

lemma set_sums_total:
  assumes m: "\<forall>(kk, vv) \<in> set m. vv \<noteq> None" and cm: "configs_ok cm" "map_of cm lk \<noteq> None"
  shows "\<exists>cm'. set_sums lk cm m = Inr cm' \<and> configs_ok cm'"
proof -
  have "\<exists>cm'. set_sums lk cm m = Inr cm' \<and> configs_ok cm' \<and> map_of cm' lk \<noteq> None"
    unfolding set_sums_def
  proof (rule foldM_total[where I = "\<lambda>cm. configs_ok cm \<and> map_of cm lk \<noteq> None"])
    fix cm x assume "configs_ok cm \<and> map_of cm lk \<noteq> None" and x: "x \<in> set m"
    moreover obtain kk c where "x = (kk, Some c)" using m x by auto
    moreover have "sums_ok m" if "configs_ok cm" "map_of cm lk = Some m" for m
      using that by (auto simp: configs_ok_def dest: map_of_SomeD)
    ultimately show "\<exists>cm'. (case x of (kk, vv) \<Rightarrow> case vv of
        None \<Rightarrow> Inl NilDereference
      | Some c \<Rightarrow> Inr (AList.update lk (AList.update kk (SetCheckSum kk c) (the (map_of cm lk))) cm)) = Inr cm' \<and> configs_ok cm' \<and> map_of cm' lk \<noteq> None"
      by (auto simp: update_conv' intro!: configs_ok_update sums_ok_update)
  qed (use cm in simp)
  then show ?thesis by blast
qed

lemma doReq_configs_total:
  assumes "no_nil r"
  shows "\<exists>cm. doReq_configs lower r = Inr cm \<and> configs_ok cm"
  unfolding doReq_configs_def
proof (rule foldM_total[where I = configs_ok])
  fix cm x assume cm: "configs_ok cm" and x: "x \<in> set (hr_Configs r)"
  obtain k m where e: "x = (k, m)" by fastforce
  have m: "\<forall>(kk, vv) \<in> set m. vv \<noteq> None" using assms x e by (auto simp: no_nil_def)
  let ?lk = "input_key lower k"
  have "configs_ok (AList.update ?lk [] cm)" using cm by (intro configs_ok_update) (simp_all add: sums_ok_def)
  then show "\<exists>cm'. (case x of (k, m) \<Rightarrow> let lk = input_key lower k in
      set_sums lk (case map_of cm lk of None \<Rightarrow> AList.update lk [] cm | Some _ \<Rightarrow> cm) m) = Inr cm' \<and> configs_ok cm'"
    using set_sums_total[OF m] cm by (auto simp: e Let_def update_conv' split: option.splits)
qed (simp add: configs_ok_def)

definition wanted :: "(string \<Rightarrow> string) \<Rightarrow> http_response \<Rightarrow> config_map" where
  "wanted lower r = (case doReq_configs lower r of Inl _ \<Rightarrow> [] | Inr cm \<Rightarrow> filter (\<lambda>(k, v). length v \<noteq> 0) cm)"

lemma wanted_ok:
  assumes "no_nil r"
  shows "cache_ok (wanted lower r)"
proof -
  obtain cm where cm: "doReq_configs lower r = Inr cm" "configs_ok cm" using doReq_configs_total[OF assms] by blast
  have "distinct (map fst (filter P cm))" if "distinct (map fst cm)" for P and cm :: config_map
    using that by (induction cm) auto
  then show ?thesis using cm by (auto simp: wanted_def cache_ok_def configs_ok_def inner_ok_def sums_ok_def)
qed

definition changes :: "http_provider \<Rightarrow> bool" where
  "changes hp \<longleftrightarrow> length (hp_add hp) + length (hp_del hp) > 0"

lemma LoadConfig_cases:
  assumes "no_nil r"
  shows "HTTP_LoadConfig lower (Some r) hp =
     Inr (if hr_Version r = hp_version hp \<or> hr_Version r = [] then (hp, Some False)
          else let hp1 = caculateDiff (wanted lower r) hp in
            (if changes hp1 then hp1\<lparr>hp_configMap := wanted lower r, hp_version := hr_Version r\<rparr> else hp1, Some (changes hp1)))"
  using doReq_configs_total[OF assms, of lower] by (auto simp: HTTP_LoadConfig_def wanted_def changes_def Let_def)

text \<open>Nothing changes exactly when both caches have the same inputs.\<close>

lemma changes_iff:
  assumes "cache_ok (hp_cache hp)" and "cache_ok cm"
  shows "changes (caculateDiff cm hp) \<longleftrightarrow> (\<exists>k s. (cview (hp_cache hp) k s = None) \<noteq> (cview cm k s = None))"
proof -
  note law = caculateDiff_law[OF assms]
  have "changes (caculateDiff cm hp) \<longleftrightarrow> hp_add (caculateDiff cm hp) \<noteq> [] \<or> hp_del (caculateDiff cm hp) \<noteq> []"
    by (auto simp: changes_def)
  then have c: "changes (caculateDiff cm hp) \<longleftrightarrow>
      (\<exists>k s. cview (hp_add (caculateDiff cm hp)) k s \<noteq> None \<or> cview (hp_del (caculateDiff cm hp)) k s \<noteq> None)"
    unfolding cache_ok_empty_view[OF law(3)] cache_ok_empty_view[OF law(4)] by (simp only: ex_disj_distrib not_all)
  have "(cview (hp_add (caculateDiff cm hp)) k s \<noteq> None \<or> cview (hp_del (caculateDiff cm hp)) k s \<noteq> None) \<longleftrightarrow>
      (cview (hp_cache hp) k s = None) \<noteq> (cview cm k s = None)" for k s
    using law(1,2)[of k s] by (cases "cview (hp_cache hp) k s"; cases "cview cm k s") simp_all
  then show ?thesis unfolding c by simp
qed

end
