(* ===== verification/Safe_List.thy ===== *)
theory Safe_List
  imports Go_Prelude
begin

text \<open>
  \<open>src/types/safe_list.go\<close>: the locked list that queues samples and time series, and its limited form. A
  \<open>container/list\<close> is the list of its elements from the front; every method holds the lock, so
  that any concurrent use is a sequence of calls. The locale \<open>fifo\<close> is what the writers rely
  on: elements come out in the order they went in.
\<close>

definition SL_PushFront :: "'a \<Rightarrow> 'a list \<Rightarrow> 'a list" where
  "SL_PushFront v l = v # l"

definition SL_PushFrontN :: "'a list \<Rightarrow> 'a list \<Rightarrow> 'a list" where
  "SL_PushFrontN vs l = foldl (\<lambda>l v. SL_PushFront v l) l vs"

definition SL_PopBack :: "'a list \<Rightarrow> 'a list \<times> 'a option" where
  "SL_PopBack l = (if l = [] then (l, None) else (butlast l, Some (last l)))"

fun remove_back :: "nat \<Rightarrow> 'a list \<Rightarrow> 'a list \<times> 'a list" where
  "remove_back 0 l = (l, [])"
| "remove_back (Suc n) l = (let (l', items) = remove_back n (butlast l) in (l', last l # items))"

text \<open>A negative capacity makes \<open>make\<close> panic.\<close>

definition SL_PopBackN :: "int \<Rightarrow> 'a list \<Rightarrow> ('a list \<times> 'a list) go" where
  "SL_PopBackN n l =
     (let count = int (length l) in
      if count = 0 then Inr (l, [])
      else
        (let count' = (if count > n then n else count) in
         if count' < 0 then Inl MakeSliceLenOutOfRange else Inr (remove_back (nat count') l)))"

definition SL_PopBackAll :: "'a list \<Rightarrow> 'a list \<times> 'a list" where
  "SL_PopBackAll l = (if length l = 0 then (l, []) else remove_back (length l) l)"

definition SL_PushFrontIfNotFull :: "'a \<Rightarrow> int \<Rightarrow> 'a list \<Rightarrow> 'a list \<times> bool" where
  "SL_PushFrontIfNotFull v maxSize l = (if int (length l) \<ge> maxSize then (l, False) else (SL_PushFront v l, True))"

definition SL_PushFrontNIfNotFull :: "'a list \<Rightarrow> int \<Rightarrow> 'a list \<Rightarrow> 'a list \<times> bool" where
  "SL_PushFrontNIfNotFull vs maxSize l =
     (if length vs = 0 then (l, True)
      else if int (length l + length vs) > maxSize then (l, False)
      else (SL_PushFrontN vs l, True))"

record 'a safe_list_limited =
  maxSize :: int
  SL :: "'a list"

definition NewSafeListLimited :: "int \<Rightarrow> 'a safe_list_limited" where
  "NewSafeListLimited m = \<lparr>maxSize = m, SL = []\<rparr>"

definition SLL_PushFront :: "'a \<Rightarrow> 'a safe_list_limited \<Rightarrow> 'a safe_list_limited \<times> bool" where
  "SLL_PushFront v q = (let (l, ok) = SL_PushFrontIfNotFull v (maxSize q) (SL q) in (q\<lparr>SL := l\<rparr>, ok))"

definition SLL_PushFrontN :: "'a list \<Rightarrow> 'a safe_list_limited \<Rightarrow> 'a safe_list_limited \<times> bool" where
  "SLL_PushFrontN vs q = (let (l, ok) = SL_PushFrontNIfNotFull vs (maxSize q) (SL q) in (q\<lparr>SL := l\<rparr>, ok))"

definition SLL_PopBack :: "'a safe_list_limited \<Rightarrow> 'a safe_list_limited \<times> 'a option" where
  "SLL_PopBack q = (let (l, r) = SL_PopBack (SL q) in (q\<lparr>SL := l\<rparr>, r))"

definition SLL_PopBackN :: "int \<Rightarrow> 'a safe_list_limited \<Rightarrow> ('a safe_list_limited \<times> 'a list) go" where
  "SLL_PopBackN n q = and_then (SL_PopBackN n (SL q)) (\<lambda>(l, items). Inr (q\<lparr>SL := l\<rparr>, items))"

definition SLL_PopBackAll :: "'a safe_list_limited \<Rightarrow> 'a safe_list_limited \<times> 'a list" where
  "SLL_PopBackAll q = (let (l, items) = SL_PopBackAll (SL q) in (q\<lparr>SL := l\<rparr>, items))"

definition SLL_RemoveAll :: "'a safe_list_limited \<Rightarrow> 'a safe_list_limited" where
  "SLL_RemoveAll q = q\<lparr>SL := []\<rparr>"

definition SLL_Len :: "'a safe_list_limited \<Rightarrow> int" where
  "SLL_Len q = int (length (SL q))"

subsection \<open>The queue a list represents\<close>

lemma SL_PushFrontN_rev: "rev (SL_PushFrontN vs l) = rev l @ vs"
  by (induction vs arbitrary: l) (auto simp: SL_PushFrontN_def SL_PushFront_def)

lemma remove_back_rev:
  "n \<le> length l \<Longrightarrow> remove_back n l = (rev (drop n (rev l)), take n (rev l))"
proof (induction n arbitrary: l)
  case (Suc n)
  then have "l \<noteq> []" by auto
  then obtain xs x where l: "l = xs @ [x]" by (cases l rule: rev_cases) auto
  with Suc show ?case by simp
qed simp

lemma SL_PopBackN_rev:
  assumes "0 \<le> n"
  shows "SL_PopBackN n l = Inr (rev (drop (nat n) (rev l)), take (nat n) (rev l))"
proof (cases "l = []")
  case False
  show ?thesis
  proof (cases "int (length l) > n")
    case True
    with False assms show ?thesis by (simp add: SL_PopBackN_def Let_def remove_back_rev)
  next
    case le: False
    then have "nat n \<ge> length l" by simp
    with False le show ?thesis by (simp add: SL_PopBackN_def Let_def remove_back_rev)
  qed
qed (simp add: SL_PopBackN_def)

lemma SL_PopBackAll_rev: "SL_PopBackAll l = ([], rev l)"
  by (simp add: SL_PopBackAll_def remove_back_rev)

text \<open>The interface: a queue seen as the list of its elements, oldest first.\<close>

locale fifo =
  fixes queue :: "'q \<Rightarrow> 'a list" and push :: "'a list \<Rightarrow> 'q \<Rightarrow> 'q \<times> bool"
    and pop :: "nat \<Rightarrow> 'q \<Rightarrow> 'q \<times> 'a list" and room :: "'q \<Rightarrow> nat \<Rightarrow> bool"
  assumes push_law: "push vs q = (q', ok) \<Longrightarrow> (ok \<longleftrightarrow> room q (length vs)) \<and>
      queue q' = (if ok then queue q @ vs else queue q)"
    and pop_law: "pop n q = (q', items) \<Longrightarrow> items = take n (queue q) \<and> queue q' = drop n (queue q)"
begin

text \<open>
  History of a queue: \<open>acc\<close> is all that was accepted, \<open>out\<close> all that came out. Both operations keep the equation
  that makes it a queue.
\<close>

lemma push_order:
  assumes "push vs q = (q', ok)" and "acc = out @ queue q"
  shows "acc @ (if ok then vs else []) = out @ queue q'"
  using assms push_law [OF assms(1)] by simp

lemma pop_order:
  assumes "pop n q = (q', items)" and "acc = out @ queue q"
  shows "acc = (out @ items) @ queue q'"
  using assms pop_law [OF assms(1)] by simp

end

definition pop_items :: "nat \<Rightarrow> 'a safe_list_limited \<Rightarrow> 'a safe_list_limited \<times> 'a list" where
  "pop_items n q = (case SLL_PopBackN (int n) q of Inr r \<Rightarrow> r | Inl _ \<Rightarrow> (q, []))"

lemma SLL_PopBackN_items: "SLL_PopBackN (int n) q = Inr (pop_items n q)"
  by (simp add: pop_items_def SLL_PopBackN_def SL_PopBackN_rev)

lemma SLL_PushFrontN_law:
  "SLL_PushFrontN vs q = (q', ok) \<Longrightarrow> (ok \<longleftrightarrow> vs = [] \<or> int (length (SL q) + length vs) \<le> maxSize q) \<and>
     rev (SL q') = (if ok then rev (SL q) @ vs else rev (SL q)) \<and> maxSize q' = maxSize q"
  by (auto simp: SLL_PushFrontN_def SL_PushFrontNIfNotFull_def SL_PushFrontN_rev Let_def split: if_splits)

interpretation limited: fifo "\<lambda>q. rev (SL q)" SLL_PushFrontN pop_items
  "\<lambda>q n. n = 0 \<or> int (length (SL q) + n) \<le> maxSize q"
proof unfold_locales
  fix vs :: "'a list" and q q' :: "'a safe_list_limited" and ok
  assume "SLL_PushFrontN vs q = (q', ok)"
  from SLL_PushFrontN_law [OF this] show "(ok \<longleftrightarrow> length vs = 0 \<or> int (length (SL q) + length vs) \<le> maxSize q) \<and>
      rev (SL q') = (if ok then rev (SL q) @ vs else rev (SL q))" by simp
next
  fix n and q q' :: "'a safe_list_limited" and items
  assume "pop_items n q = (q', items)"
  then show "items = take n (rev (SL q)) \<and> rev (SL q') = drop n (rev (SL q))"
    by (auto simp: pop_items_def SLL_PopBackN_def SL_PopBackN_rev)
qed

text \<open>One call of a method of the limited list; the results are what it accepted and what it took out.\<close>

datatype 'a list_op = OpPush 'a | OpPushN "'a list" | OpPop | OpPopN int | OpPopAll

fun run_list_op :: "'a safe_list_limited \<Rightarrow> 'a list_op \<Rightarrow> ('a safe_list_limited \<times> 'a list \<times> 'a list) go" where
  "run_list_op q (OpPush v) = (let (q', ok) = SLL_PushFront v q in Inr (q', if ok then [v] else [], []))"
| "run_list_op q (OpPushN vs) = (let (q', ok) = SLL_PushFrontN vs q in Inr (q', if ok then vs else [], []))"
| "run_list_op q OpPop = (let (q', r) = SLL_PopBack q in Inr (q', [], case r of None \<Rightarrow> [] | Some x \<Rightarrow> [x]))"
| "run_list_op q (OpPopN n) = and_then (SLL_PopBackN n q) (\<lambda>(q', items). Inr (q', [], items))"
| "run_list_op q OpPopAll = (let (q', items) = SLL_PopBackAll q in Inr (q', [], items))"

fun run_list_ops :: "'a safe_list_limited \<Rightarrow> 'a list_op list \<Rightarrow> ('a safe_list_limited \<times> 'a list \<times> 'a list) go" where
  "run_list_ops q [] = Inr (q, [], [])"
| "run_list_ops q (op # ops) =
     and_then (run_list_op q op)
       (\<lambda>(q', acc, out). and_then (run_list_ops q' ops) (\<lambda>(q'', acc', out'). Inr (q'', acc @ acc', out @ out')))"

fun op_runs :: "'a list_op \<Rightarrow> bool" where
  "op_runs (OpPopN n) = (0 \<le> n)"
| "op_runs _ = True"

lemma run_list_op_law:
  assumes "op_runs op" and "int (length (SL q)) \<le> max 0 (maxSize q)"
  shows "\<exists>q' acc out. run_list_op q op = Inr (q', acc, out) \<and> maxSize q' = maxSize q \<and>
    int (length (SL q')) \<le> max 0 (maxSize q') \<and> rev (SL q) @ acc = out @ rev (SL q')"
proof (cases op)
  case (OpPushN vs)
  obtain q' ok where p: "SLL_PushFrontN vs q = (q', ok)" by fastforce
  note l = SLL_PushFrontN_law [OF p]
  have e: "run_list_op q op = Inr (q', if ok then vs else [], [])" using OpPushN p by simp
  show ?thesis
  proof (cases ok)
    case True
    with l have "rev (SL q') = rev (SL q) @ vs" "maxSize q' = maxSize q" by simp_all
    moreover from this(1) have "length (SL q') = length (SL q) + length vs" by (metis length_append length_rev)
    moreover have "int (length (SL q')) \<le> max 0 (maxSize q')"
      using l True calculation(2,3) assms(2) by (auto simp: max_def split: if_splits)
    ultimately show ?thesis using e True by simp
  next
    case False
    with l have "rev (SL q') = rev (SL q)" "maxSize q' = maxSize q" by simp_all
    with e False assms(2) show ?thesis by simp
  qed
next
  case OpPop
  with assms show ?thesis
    by (cases "SL q" rule: rev_cases) (auto simp: SLL_PopBack_def SL_PopBack_def Let_def)
next
  case (OpPopN n)
  with assms have n: "0 \<le> n" by simp
  with OpPopN assms show ?thesis by (auto simp: SLL_PopBackN_def SL_PopBackN_rev)
qed (use assms in \<open>auto simp: SLL_PushFront_def SL_PushFrontIfNotFull_def SL_PushFront_def SLL_PopBackAll_def
    SL_PopBackAll_rev Let_def\<close>)

text \<open>C31: under any sequence of pushes and pops (of non-negative counts) the limited list never panics, never
  exceeds its size, and is a FIFO queue: what was accepted is, in order, what came out
  followed by what is still queued. A push of several elements is accepted as a whole or not
  at all.\<close>

theorem SafeListLimited_fifo:
  assumes "list_all op_runs ops"
  shows "\<exists>q acc out. run_list_ops (NewSafeListLimited m) ops = Inr (q, acc, out) \<and>
    acc = out @ rev (SL q) \<and> SLL_Len q \<le> max 0 m"
proof -
  have "\<exists>q' acc out. run_list_ops q ops = Inr (q', acc, out) \<and> maxSize q' = maxSize q \<and>
      int (length (SL q')) \<le> max 0 (maxSize q') \<and> rev (SL q) @ acc = out @ rev (SL q')"
    if "int (length (SL q)) \<le> max 0 (maxSize q)" for q :: "'a safe_list_limited"
    using assms that
  proof (induction ops arbitrary: q)
    case (Cons op ops)
    from run_list_op_law [of op q] Cons.prems obtain q1 acc1 out1 where
      1: "run_list_op q op = Inr (q1, acc1, out1)" "maxSize q1 = maxSize q"
      "int (length (SL q1)) \<le> max 0 (maxSize q1)" "rev (SL q) @ acc1 = out1 @ rev (SL q1)" by auto
    from Cons.IH [OF _ 1(3)] Cons.prems obtain q2 acc2 out2 where
      2: "run_list_ops q1 ops = Inr (q2, acc2, out2)" "maxSize q2 = maxSize q1"
      "int (length (SL q2)) \<le> max 0 (maxSize q2)" "rev (SL q1) @ acc2 = out2 @ rev (SL q2)" by auto
    have "rev (SL q) @ acc1 @ acc2 = (out1 @ out2) @ rev (SL q2)"
      using 1(4) 2(4) by (metis append.assoc)
    with 1 2 show ?case by auto
  qed auto
  from this [of "NewSafeListLimited m"] show ?thesis by (auto simp: NewSafeListLimited_def SLL_Len_def)
qed

theorem SafeListLimited_fifo_witness:
  "\<exists>q acc out. run_list_ops (NewSafeListLimited 3) [OpPushN [1, 2 :: nat], OpPushN [3, 4], OpPush 5, OpPopN 2] = Inr (q, acc, out) \<and>
     acc = out @ rev (SL q) \<and> SLL_Len q \<le> 3"
  using SafeListLimited_fifo [of "[OpPushN [1, 2 :: nat], OpPushN [3, 4], OpPush 5, OpPopN 2]" 3]
  by (simp del: run_list_ops.simps)

end
