(* ===== verification/Samples.thy ===== *)
theory Samples
  imports Safe_List "HOL-Library.AList"
begin

text \<open>
  Samples and the writer queue: \<open>src/types/sample.go\<close>, \<open>src/pkg/conv/conv.go\<close> and
  \<open>src/writer/writers.go\<close>. A Go map is an association list with distinct keys, in the order an
  iteration visits it; the theorems show that this order does not matter. Floating point
  numbers are an opaque type whose conversions are parameters.
\<close>

type_synonym gomap = "(string \<times> string) list"

datatype 'f go_value = VString string | VFloat64 'f | VFloat32 'f | VInteger int | VBool bool | VOther string

record 'f sample =
  s_Metric :: string
  s_Timestamp :: int
  s_Value :: "'f go_value"
  s_Labels :: "gomap option"

record label_pair =
  lp_Name :: string
  lp_Value :: string

record 'f time_series =
  ts_Labels :: "label_pair list"
  ts_Timestamp :: int
  ts_Value :: 'f

text \<open>A replacer whose old strings are single bytes works byte by byte.\<close>

definition replace_bytes :: "char list \<Rightarrow> string \<Rightarrow> string" where
  "replace_bytes olds = map (\<lambda>c. if c \<in> set olds then CHR ''_'' else c)"

definition labelReplacer :: "string \<Rightarrow> string" where
  "labelReplacer = replace_bytes ''-. /''"

definition metricReplacer :: "string \<Rightarrow> string" where
  "metricReplacer = replace_bytes ([CHR ''-'', CHR ''.'', CHR '' '', CHR 0x27, CHR 0x22])"

definition NewSample :: "string \<Rightarrow> string \<Rightarrow> 'f go_value \<Rightarrow> gomap list \<Rightarrow> int \<Rightarrow> 'f sample" where
  "NewSample prefix' metric v labels zero_time =
     \<lparr>s_Metric = (if length prefix' > 0 then prefix' @ ''_'' @ metricReplacer metric else metricReplacer metric),
      s_Timestamp = zero_time, s_Value = v,
      s_Labels = Some (foldl (\<lambda>m l. foldl (\<lambda>m (k, v). AList.update k v m) m l) [] labels)\<rparr>"

subsection \<open>Values as floating point numbers\<close>

record 'f float_env =
  ParseFloat :: "string \<Rightarrow> 'f option"
  ParseInt0 :: "string \<Rightarrow> int option"
  float64_of_int :: "int \<Rightarrow> 'f"

definition ParseBool :: "string \<Rightarrow> bool option" where
  "ParseBool s =
     (if s \<in> set [''1'', ''t'', ''T'', ''true'', ''TRUE'', ''True''] then Some True
      else if s \<in> set [''0'', ''f'', ''F'', ''false'', ''FALSE'', ''False''] then Some False else None)"

definition yes_words :: "string list" where
  "yes_words = [''Yes'', ''yes'', ''YES'', ''Y'', ''ON'', ''on'', ''On'', ''ok'', ''up'']"

definition no_words :: "string list" where
  "no_words = [''No'', ''no'', ''NO'', ''N'', ''OFF'', ''off'', ''Off'', ''fail'', ''err'', ''down'']"

fun ToFloat64 :: "'f float_env \<Rightarrow> 'f go_value \<Rightarrow> 'f option" where
  "ToFloat64 E (VString v) =
     (case ParseFloat E v of
        Some f \<Rightarrow> Some f
      | None \<Rightarrow>
          (case ParseInt0 E v of
             Some i \<Rightarrow> Some (float64_of_int E i)
           | None \<Rightarrow>
               (case ParseBool v of
                  Some b \<Rightarrow> Some (float64_of_int E (if b then 1 else 0))
                | None \<Rightarrow>
                    (if v \<in> set yes_words then Some (float64_of_int E 1)
                     else if v \<in> set no_words then Some (float64_of_int E 0) else None))))"
| "ToFloat64 E (VFloat64 v) = Some v"
| "ToFloat64 E (VFloat32 v) = Some v"
| "ToFloat64 E (VInteger v) = Some (float64_of_int E v)"
| "ToFloat64 E (VBool v) = Some (float64_of_int E (if v then 1 else 0))"
| "ToFloat64 E (VOther text) = ParseFloat E text"

subsection \<open>Conversion to a time series\<close>

definition UnixMilli :: "int \<Rightarrow> int" where
  "UnixMilli ns = ns div 1000000"

definition with_precision :: "string \<Rightarrow> int \<Rightarrow> int" where
  "with_precision precision timestamp =
     (if precision = ''s'' then go_div timestamp 1000 * 1000
      else if precision = ''m'' then (let ts = go_div timestamp 1000 * 1000 in ts - go_mod ts 60000)
      else timestamp)"

definition ConvertTimeSeries :: "'f float_env \<Rightarrow> string \<Rightarrow> 'f sample \<Rightarrow> 'f time_series option" where
  "ConvertTimeSeries E precision item =
     (case ToFloat64 E (s_Value item) of
        None \<Rightarrow> None
      | Some v \<Rightarrow>
          (let timestamp = with_precision precision (UnixMilli (s_Timestamp item));
               pairs = sort (case s_Labels item of None \<Rightarrow> [] | Some m \<Rightarrow> m) in
           Some \<lparr>ts_Labels = \<lparr>lp_Name = ''__name__'', lp_Value = s_Metric item\<rparr> #
                   map (\<lambda>(k, v). \<lparr>lp_Name = labelReplacer k, lp_Value = v\<rparr>) pairs,
                 ts_Timestamp = timestamp, ts_Value = v\<rparr>))"

definition Sample_SetTime :: "int \<Rightarrow> int \<Rightarrow> 'f sample \<Rightarrow> 'f sample" where
  "Sample_SetTime zero_time t s = (if t = zero_time \<or> t = 0 then s else s\<lparr>s_Timestamp := t\<rparr>)"

subsection \<open>The writers\<close>

text \<open>
  One writer instance per URL; \<open>w_delivered\<close> records the batches each of them was given, \<open>w_pending\<close> the
  calls of \<open>snapshot\<close> that were started and have not run, and \<open>w_offered\<close> the pushes with their outcome. The counters are \<open>uint64\<close>.
\<close>

record 'f writers =
  w_queue :: "'f time_series safe_list_limited"
  FailCount :: "64 word"
  FailTotal :: "64 word"
  TotalCount :: "64 word"
  QueueSize :: "64 word"
  w_pending :: "(nat \<times> nat \<times> bool) list"
  w_delivered :: "'f time_series list list"
  w_offered :: "('f time_series list \<times> bool) list"
  w_batch :: int

definition InitWriters :: "int \<Rightarrow> int \<Rightarrow> 'f writers" where
  "InitWriters chanSize batch =
     \<lparr>w_queue = NewSafeListLimited chanSize, FailCount = 0, FailTotal = 0, TotalCount = 0, QueueSize = 0,
      w_pending = [], w_delivered = [], w_offered = [], w_batch = batch\<rparr>"

definition convert_all :: "'f float_env \<Rightarrow> string \<Rightarrow> 'f sample list \<Rightarrow> 'f time_series list" where
  "convert_all E precision samples =
     List.map_filter (\<lambda>s. case ConvertTimeSeries E precision s of
        None \<Rightarrow> None | Some t \<Rightarrow> if length (ts_Labels t) = 0 then None else Some t) samples"

definition WriteSamples :: "'f float_env \<Rightarrow> string \<Rightarrow> bool \<Rightarrow> 'f sample list \<Rightarrow> 'f writers \<Rightarrow> 'f writers" where
  "WriteSamples E precision testMode samples ws =
     (if length samples = 0 then ws
      else if testMode then ws
      else
        (let items = convert_all E precision samples;
             (q, success) = SLL_PushFrontN items (w_queue ws);
             l = nat (SLL_Len q) in
         ws\<lparr>w_queue := q, w_pending := w_pending ws @ [(length items, l, success)],
            w_offered := w_offered ws @ [(items, success)]\<rparr>))"

definition snapshot :: "nat \<Rightarrow> nat \<Rightarrow> bool \<Rightarrow> 'f writers \<Rightarrow> 'f writers" where
  "snapshot n size' success ws =
     (let ws1 = ws\<lparr>TotalCount := TotalCount ws + of_nat n, QueueSize := of_nat size'\<rparr> in
      if \<not> success then ws1\<lparr>FailCount := FailCount ws1 + 1, FailTotal := FailTotal ws1 + of_nat n\<rparr> else ws1)"

definition LoopRead_once :: "'f writers \<Rightarrow> 'f writers go" where
  "LoopRead_once ws =
     and_then (SLL_PopBackN (w_batch ws) (w_queue ws))
       (\<lambda>(q, series). Inr (if length series = 0 then ws\<lparr>w_queue := q\<rparr>
                           else ws\<lparr>w_queue := q, w_delivered := w_delivered ws @ [series]\<rparr>))"

inductive writers_step :: "'f float_env \<Rightarrow> string \<Rightarrow> 'f writers \<Rightarrow> 'f writers \<Rightarrow> bool" for E precision where
  wrote: "writers_step E precision ws (WriteSamples E precision False samples ws)"
| counted: "w_pending ws = ps @ (n, l, success) # qs \<Longrightarrow>
    writers_step E precision ws (snapshot n l success (ws\<lparr>w_pending := ps @ qs\<rparr>))"
| looped: "LoopRead_once ws = Inr ws' \<Longrightarrow> writers_step E precision ws ws'"


subsection \<open>The order of a map does not matter\<close>

lemma sorted_map_fst: "sorted xs \<Longrightarrow> sorted (map fst (xs :: gomap))"
  by (induction xs) (auto simp: less_eq_prod_def)

lemma sort_perm: "mset xs = mset ys \<Longrightarrow> sort xs = sort (ys :: gomap)"
  by (metis properties_for_sort mset_sort sorted_sort)

text \<open>The time series made of a sample does not depend on the order in which the runtime visits the
  label map; its first label is the metric name, and each other label of the sample appears
  exactly once, by its value.\<close>

theorem ConvertTimeSeries_canonical:
  assumes "mset m = mset m'"
  shows "ConvertTimeSeries E precision (s\<lparr>s_Labels := Some m\<rparr>) = ConvertTimeSeries E precision (s\<lparr>s_Labels := Some m'\<rparr>) \<and>
    (case ConvertTimeSeries E precision (s\<lparr>s_Labels := Some m\<rparr>) of
       None \<Rightarrow> ToFloat64 E (s_Value s) = None
     | Some t \<Rightarrow> hd (ts_Labels t) = \<lparr>lp_Name = ''__name__'', lp_Value = s_Metric s\<rparr> \<and>
         mset (tl (ts_Labels t)) = mset (map (\<lambda>(k, v). \<lparr>lp_Name = labelReplacer k, lp_Value = v\<rparr>) m))"
proof -
  have "sort m = sort m'" using assms by (rule sort_perm)
  with assms show ?thesis by (simp add: ConvertTimeSeries_def split: option.splits)
qed

theorem ConvertTimeSeries_canonical_witness:
  "ConvertTimeSeries \<lparr>ParseFloat = (\<lambda>_. None), ParseInt0 = (\<lambda>_. None), float64_of_int = (\<lambda>i. i)\<rparr> ''s''
     \<lparr>s_Metric = ''m'', s_Timestamp = 0, s_Value = VInteger (3 :: int), s_Labels = Some [(''a'', ''1''), (''b'', ''2'')]\<rparr> =
   ConvertTimeSeries \<lparr>ParseFloat = (\<lambda>_. None), ParseInt0 = (\<lambda>_. None), float64_of_int = (\<lambda>i. i)\<rparr> ''s''
     \<lparr>s_Metric = ''m'', s_Timestamp = 0, s_Value = VInteger 3, s_Labels = Some [(''b'', ''2''), (''a'', ''1'')]\<rparr>"
  using ConvertTimeSeries_canonical [of "[(''a'', ''1''), (''b'', ''2'')]" "[(''b'', ''2''), (''a'', ''1'')]"
      "\<lparr>ParseFloat = (\<lambda>_. None), ParseInt0 = (\<lambda>_. None), float64_of_int = (\<lambda>i. i)\<rparr>" "''s''"
      "\<lparr>s_Metric = ''m'', s_Timestamp = 0, s_Value = VInteger (3 :: int), s_Labels = None\<rparr>"]
  by simp

text \<open>The labels are sorted before their names are rewritten: when no name holds a rewritten byte the names
  after the metric name are in order, but otherwise they need be neither in order nor
  different, as the labels \<open>a.b\<close>, \<open>a-b\<close> and \<open>a_a\<close> show.\<close>

theorem ConvertTimeSeries_label_order:
  "(list_all (\<lambda>(k, v). labelReplacer k = k) m \<longrightarrow>
      sorted (map lp_Name (tl (ts_Labels (the (ConvertTimeSeries E precision (s\<lparr>s_Labels := Some m, s_Value := VFloat64 f\<rparr>))))))) \<and>
   map lp_Name (tl (ts_Labels (the (ConvertTimeSeries E precision
      (s\<lparr>s_Labels := Some [(''a.b'', ''1''), (''a-b'', ''2''), (''a_a'', ''3'')], s_Value := VFloat64 f\<rparr>))))) =
     [''a_b'', ''a_b'', ''a_a'']"
proof (intro conjI impI)
  assume plain: "list_all (\<lambda>(k, v). labelReplacer k = k) m"
  have "map (\<lambda>(k, v). labelReplacer k) (sort m) = map fst (sort m)"
    using plain by (auto simp: list_all_iff)
  moreover have "sorted (map fst (sort m))"
    by (rule sorted_map_fst) (rule sorted_sort)
  ultimately show "sorted (map lp_Name (tl (ts_Labels (the (ConvertTimeSeries E precision (s\<lparr>s_Labels := Some m, s_Value := VFloat64 f\<rparr>))))))"
    by (simp add: ConvertTimeSeries_def comp_def split_def del: map_eq_conv)
next
  have "sort [(''a.b'', ''1''), (''a-b'', ''2''), (''a_a'', ''3'')] =
      [(''a-b'', ''2''), (''a.b'', ''1''), (''a_a'', ''3'')]"
    by (simp add: less_eq_prod_def less_char_def less_eq_char_def)
  then show "map lp_Name (tl (ts_Labels (the (ConvertTimeSeries E precision
      (s\<lparr>s_Labels := Some [(''a.b'', ''1''), (''a-b'', ''2''), (''a_a'', ''3'')], s_Value := VFloat64 f\<rparr>))))) =
     [''a_b'', ''a_b'', ''a_a'']"
    by (simp add: ConvertTimeSeries_def labelReplacer_def replace_bytes_def)
qed

theorem ConvertTimeSeries_label_order_witness:
  "sorted (map lp_Name (tl (ts_Labels (the (ConvertTimeSeries
      \<lparr>ParseFloat = (\<lambda>_. None), ParseInt0 = (\<lambda>_. None), float64_of_int = (\<lambda>i. i)\<rparr> ''s''
      \<lparr>s_Metric = ''m'', s_Timestamp = 0, s_Value = VFloat64 (3 :: int), s_Labels = Some [(''b'', ''1''), (''a'', ''2'')]\<rparr>)))))"
  using ConvertTimeSeries_label_order [where m = "[(''b'', ''1''), (''a'', ''2'')]" and precision = "''s''" and f = 3
      and E = "\<lparr>ParseFloat = (\<lambda>_. None), ParseInt0 = (\<lambda>_. None), float64_of_int = (\<lambda>i. i)\<rparr>"
      and s = "\<lparr>s_Metric = ''m'', s_Timestamp = 0, s_Value = VFloat64 (3 :: int), s_Labels = None\<rparr>"]
  by (simp add: labelReplacer_def replace_bytes_def)

lemma go_div_nonneg: "0 \<le> a \<Longrightarrow> 0 < b \<Longrightarrow> go_div a b = a div b"
  by (cases "a = 0") (auto simp: go_div_def)

text \<open>For a time after the epoch the precisions round down: \<open>s\<close> to the second and \<open>m\<close> to the minute,
  in milliseconds.\<close>

theorem with_precision_rounds_down:
  assumes "0 \<le> ms"
  shows "with_precision ''s'' ms = ms - ms mod 1000 \<and> with_precision ''m'' ms = ms - ms mod 60000 \<and>
    with_precision ''ms'' ms = ms"
proof -
  have s: "go_div ms 1000 * 1000 = ms - ms mod 1000"
    using assms by (simp add: go_div_nonneg minus_mod_eq_div_mult)
  have "0 \<le> ms - ms mod 1000" using assms by (simp flip: s add: go_div_nonneg)
  then have "go_mod (ms - ms mod 1000) 60000 = (ms - ms mod 1000) mod 60000"
    by (simp add: go_mod_def go_div_nonneg minus_div_mult_eq_mod)
  moreover have "ms - ms mod 1000 - (ms - ms mod 1000) mod 60000 = ms - ms mod 60000"
  proof -
    have q: "ms - ms mod 1000 = 1000 * (ms div 1000)" by (simp add: minus_mod_eq_mult_div)
    have "(1000 * (ms div 1000)) mod (1000 * 60) = 1000 * (ms div 1000 mod 60)"
      by (simp only: mult_mod_right [symmetric])
    moreover have "ms mod (1000 * 60) = 1000 * (ms div 1000 mod 60) + ms mod 1000"
      by (rule zmod_zmult2_eq) simp
    ultimately show ?thesis using q by simp
  qed
  ultimately show ?thesis by (simp add: with_precision_def s Let_def)
qed

theorem with_precision_rounds_down_witness: "with_precision ''m'' 123456789 = 123456789 - 123456789 mod 60000"
  using with_precision_rounds_down [of 123456789] by simp

subsection \<open>The writer queue loses nothing it accepted\<close>

definition offered_items :: "('f time_series list \<times> bool) list \<Rightarrow> 'f time_series list" where
  "offered_items os = concat (map (\<lambda>(items, ok). if ok then items else []) os)"

definition offered_count :: "('f time_series list \<times> bool) list \<Rightarrow> nat" where
  "offered_count os = sum_list (map (\<lambda>(items, ok). length items) os)"

definition failed_count :: "('f time_series list \<times> bool) list \<Rightarrow> nat" where
  "failed_count os = sum_list (map (\<lambda>(items, ok). if ok then 0 else length items) os)"

definition writers_inv :: "'f writers \<Rightarrow> bool" where
  "writers_inv ws \<longleftrightarrow> offered_items (w_offered ws) = concat (w_delivered ws) @ rev (SL (w_queue ws)) \<and>
     int (length (SL (w_queue ws))) \<le> max 0 (maxSize (w_queue ws)) \<and>
     TotalCount ws + of_nat (sum_list (map (\<lambda>(n, l, ok). n) (w_pending ws))) = of_nat (offered_count (w_offered ws)) \<and>
     FailTotal ws + of_nat (sum_list (map (\<lambda>(n, l, ok). if ok then 0 else n) (w_pending ws))) =
       of_nat (failed_count (w_offered ws)) \<and>
     list_all (\<lambda>b. int (length b) \<le> w_batch ws) (w_delivered ws)"

lemma SLL_PushFrontN_size:
  assumes "SLL_PushFrontN vs q = (q', ok)" and "int (length (SL q)) \<le> max 0 (maxSize q)"
  shows "int (length (SL q')) \<le> max 0 (maxSize q')"
  using run_list_op_law [of "OpPushN vs" q] assms by auto

lemma WriteSamples_inv:
  assumes "writers_inv ws"
  shows "writers_inv (WriteSamples E precision testMode samples ws)"
proof -
  let ?items = "convert_all E precision samples"
  obtain q ok where p: "SLL_PushFrontN ?items (w_queue ws) = (q, ok)" by fastforce
  have "offered_items (w_offered ws) @ (if ok then ?items else []) = concat (w_delivered ws) @ rev (SL q)"
    using assms limited.push_order [OF p] by (simp add: writers_inv_def)
  moreover have "int (length (SL q)) \<le> max 0 (maxSize q)"
    using SLL_PushFrontN_size [OF p] assms by (simp add: writers_inv_def)
  ultimately show ?thesis
    using assms p
    by (auto simp: WriteSamples_def writers_inv_def offered_items_def offered_count_def failed_count_def
      Let_def algebra_simps)
qed

lemma snapshot_inv:
  assumes "writers_inv ws" and "w_pending ws = ps @ (n, l, ok) # qs"
  shows "writers_inv (snapshot n l ok (ws\<lparr>w_pending := ps @ qs\<rparr>))"
  using assms by (auto simp: writers_inv_def snapshot_def Let_def algebra_simps)

lemma LoopRead_inv:
  assumes "writers_inv ws" and "LoopRead_once ws = Inr ws'" and "0 \<le> w_batch ws"
  shows "writers_inv ws'"
proof -
  define n where "n = nat (w_batch ws)"
  then have wb: "w_batch ws = int n" using assms(3) by simp
  obtain q series where p: "pop_items n (w_queue ws) = (q, series)" by fastforce
  have o: "offered_items (w_offered ws) = (concat (w_delivered ws) @ series) @ rev (SL q)"
    using limited.pop_order [OF p] assms(1) by (simp add: writers_inv_def)
  have l: "series = take n (rev (SL (w_queue ws)))" "rev (SL q) = drop n (rev (SL (w_queue ws)))"
    using limited.pop_law [OF p] by simp_all
  from l(2) have "length (SL q) = length (SL (w_queue ws)) - n" by (metis length_drop length_rev)
  moreover have "maxSize q = maxSize (w_queue ws)"
    using SLL_PopBackN_items [of n "w_queue ws"] p by (auto simp: SLL_PopBackN_def and_then_Inr_iff)
  moreover have "ws' = (if length series = 0 then ws\<lparr>w_queue := q\<rparr> else ws\<lparr>w_queue := q, w_delivered := w_delivered ws @ [series]\<rparr>)"
    using assms(2) SLL_PopBackN_items [of n "w_queue ws"] p by (simp add: LoopRead_once_def wb)
  moreover have "int (length series) \<le> w_batch ws" using l(1) wb by simp
  ultimately show ?thesis using assms(1) o by (auto simp: writers_inv_def)
qed

lemma writers_step_consts:
  assumes "writers_step E precision ws ws'"
  shows "w_batch ws' = w_batch ws \<and> maxSize (w_queue ws') = maxSize (w_queue ws)"
  using assms
  by (cases rule: writers_step.cases)
    (auto simp: WriteSamples_def snapshot_def LoopRead_once_def SLL_PushFrontN_def SLL_PopBackN_def and_then_Inr_iff Let_def
      split: prod.splits if_splits)

text \<open>C17: whatever the interleaving of writes, the reading loop and the counting goroutines, the time series accepted by the
  queue are, in order, those handed to the writers followed by those still queued; the queue never exceeds its
  size and no batch exceeds the batch size; a batch that does not fit is refused as a whole; and when no counting is
  outstanding, the totals are (modulo 64 bits) the series offered and the series refused.\<close>

theorem Writers_conserve:
  assumes "rtranclp (writers_step E precision) (InitWriters chanSize batch) ws" and "0 \<le> batch"
  shows "concat (map (\<lambda>(items, ok). if ok then items else []) (w_offered ws)) =
      concat (w_delivered ws) @ rev (SL (w_queue ws)) \<and>
    SLL_Len (w_queue ws) \<le> max 0 chanSize \<and>
    list_all (\<lambda>b. int (length b) \<le> batch) (w_delivered ws) \<and>
    (w_pending ws = [] \<longrightarrow>
      TotalCount ws = of_nat (sum_list (map (\<lambda>(items, ok). length items) (w_offered ws))) \<and>
      FailTotal ws = of_nat (sum_list (map (\<lambda>(items, ok). if ok then 0 else length items) (w_offered ws))))"
proof -
  have "writers_inv ws \<and> w_batch ws = batch \<and> maxSize (w_queue ws) = chanSize"
    using assms(1)
  proof (induction rule: rtranclp_induct)
    case base
    show ?case
      by (simp add: writers_inv_def InitWriters_def NewSafeListLimited_def offered_items_def offered_count_def failed_count_def)
  next
    case (step ws ws')
    from step.hyps(2) have "writers_inv ws'"
      using step.IH WriteSamples_inv snapshot_inv LoopRead_inv assms(2) by (cases rule: writers_step.cases) auto
    with step.IH writers_step_consts [OF step.hyps(2)] show ?case by simp
  qed
  then show ?thesis
    by (auto simp: writers_inv_def offered_items_def offered_count_def failed_count_def SLL_Len_def)
qed

theorem Writers_conserve_witness:
  "SLL_Len (w_queue (WriteSamples \<lparr>ParseFloat = (\<lambda>_. None), ParseInt0 = (\<lambda>_. None), float64_of_int = (\<lambda>i. i)\<rparr> ''s'' False
     [\<lparr>s_Metric = ''m'', s_Timestamp = 0, s_Value = VInteger (3 :: int), s_Labels = Some []\<rparr>] (InitWriters 10 5))) \<le> 10"
proof -
  let ?E = "\<lparr>ParseFloat = (\<lambda>_. None), ParseInt0 = (\<lambda>_. None), float64_of_int = (\<lambda>i. i)\<rparr> :: int float_env"
  let ?ws = "WriteSamples ?E ''s'' False
     [\<lparr>s_Metric = ''m'', s_Timestamp = 0, s_Value = VInteger 3, s_Labels = Some []\<rparr>] (InitWriters 10 5)"
  have "rtranclp (writers_step ?E ''s'') (InitWriters 10 5) ?ws" by (intro r_into_rtranclp writers_step.wrote)
  from Writers_conserve [OF this] show ?thesis by simp
qed

end
