(* ===== verification/Input_Config.thy ===== *)
theory Input_Config
  imports Prom_Relabel Samples
begin

text \<open>
  What every input plugin inherits: \<open>src/config/inline.go\<close>, with the filters of \<open>src/pkg/filter/filter.go\<close>.
  \<open>InitInternalConfig\<close> compiles filters and relabel rules; \<open>Process\<close> takes the samples a plugin gathered and
  filters, maps, labels and relabels them. The glob and regular expression compilers,
  \<open>fmt.Sprint\<close>, the expansion of variables in label values and the host name are parameters.
\<close>

subsection \<open>Filters\<close>

definition HasMeta :: "string \<Rightarrow> bool" where
  "HasMeta s \<longleftrightarrow> list_ex (\<lambda>c. c \<in> set ''*?['') s"

definition compileFilterNoGlob :: "string list \<Rightarrow> string \<Rightarrow> bool" where
  "compileFilterNoGlob filters =
     (if length filters = 1 then (\<lambda>s. hd filters = s) else (\<lambda>s. s \<in> set filters))"

text \<open>The results: \<open>None\<close> an error of the glob compiler, \<open>Some None\<close> the nil filter.\<close>

definition Filter_Compile :: "(string \<Rightarrow> (string \<Rightarrow> bool) option) \<Rightarrow> string list \<Rightarrow> (string \<Rightarrow> bool) option option" where
  "Filter_Compile glob_Compile filters =
     (if length filters = 0 then Some None
      else
        (let noGlob = \<not> list_ex HasMeta filters in
         if noGlob then Some (Some (compileFilterNoGlob filters))
         else if length filters = 1 then map_option Some (glob_Compile (hd filters))
         else map_option Some (glob_Compile (''{'' @ go_join filters '','' @ ''}''))))"

record include_exclude_filter =
  f_include :: "(string \<Rightarrow> bool) option"
  f_exclude :: "(string \<Rightarrow> bool) option"
  includeDefault :: bool
  excludeDefault :: bool

definition NewIncludeExcludeFilterDefaults ::
  "(string \<Rightarrow> (string \<Rightarrow> bool) option) \<Rightarrow> string list \<Rightarrow> string list \<Rightarrow> bool \<Rightarrow> bool \<Rightarrow> include_exclude_filter option" where
  "NewIncludeExcludeFilterDefaults glob_Compile incl excl inclDefault exclDefault =
     (case Filter_Compile glob_Compile incl of
        None \<Rightarrow> None
      | Some i \<Rightarrow>
          (case Filter_Compile glob_Compile excl of
             None \<Rightarrow> None
           | Some e \<Rightarrow> Some \<lparr>f_include = i, f_exclude = e, includeDefault = inclDefault, excludeDefault = exclDefault\<rparr>))"

definition IncludeExclude_Match :: "include_exclude_filter \<Rightarrow> string \<Rightarrow> bool" where
  "IncludeExclude_Match f s =
     (if (case f_include f of Some i \<Rightarrow> \<not> i s | None \<Rightarrow> \<not> includeDefault f) then False
      else if (case f_exclude f of Some e \<Rightarrow> e s | None \<Rightarrow> excludeDefault f) then False
      else True)"

lemma Filter_Compile_plain:
  assumes "filters \<noteq> []" and "list_all (\<lambda>f. \<not> HasMeta f) filters"
  shows "\<exists>f. Filter_Compile glob filters = Some (Some f) \<and> (\<forall>s. f s \<longleftrightarrow> s \<in> set filters)"
proof -
  have "\<not> list_ex HasMeta filters" using assms(2) by (simp add: list_ex_iff list_all_iff)
  moreover have "compileFilterNoGlob filters s \<longleftrightarrow> s \<in> set filters" for s
    using assms(1) by (cases filters) (auto simp: compileFilterNoGlob_def)
  ultimately show ?thesis using assms(1) by (simp add: Filter_Compile_def)
qed

text \<open>An include/exclude filter over plain names lets a name through exactly when it is listed to be
  included (or nothing is and the default includes) and not listed to be excluded (nor, when
  nothing is, excluded by default).\<close>

theorem IncludeExclude_decides:
  assumes "list_all (\<lambda>f. \<not> HasMeta f) incl" and "list_all (\<lambda>f. \<not> HasMeta f) excl"
  shows "\<exists>f. NewIncludeExcludeFilterDefaults glob incl excl di de = Some f \<and>
    (IncludeExclude_Match f s \<longleftrightarrow> (if incl = [] then di else s \<in> set incl) \<and> \<not> (if excl = [] then de else s \<in> set excl))"
proof -
  have "\<exists>i. Filter_Compile glob xs = Some i \<and>
      (\<forall>d. (case i of Some f \<Rightarrow> f s | None \<Rightarrow> d) \<longleftrightarrow> (if xs = [] then d else s \<in> set xs))"
    if plain: "list_all (\<lambda>f. \<not> HasMeta f) xs" for xs
  proof (cases "xs = []")
    case False
    then obtain f where "Filter_Compile glob xs = Some (Some f)" "\<forall>s. f s \<longleftrightarrow> s \<in> set xs"
      using Filter_Compile_plain [OF _ plain, of glob] by blast
    with False show ?thesis by simp
  qed (simp add: Filter_Compile_def)
  note compiled = this
  obtain i where i: "Filter_Compile glob incl = Some i"
    "\<forall>d. (case i of Some f \<Rightarrow> f s | None \<Rightarrow> d) \<longleftrightarrow> (if incl = [] then d else s \<in> set incl)"
    using compiled [OF assms(1)] by blast
  obtain e where e: "Filter_Compile glob excl = Some e"
    "\<forall>d. (case e of Some f \<Rightarrow> f s | None \<Rightarrow> d) \<longleftrightarrow> (if excl = [] then d else s \<in> set excl)"
    using compiled [OF assms(2)] by blast
  let ?f = "\<lparr>f_include = i, f_exclude = e, includeDefault = di, excludeDefault = de\<rparr>"
  have "IncludeExclude_Match ?f s \<longleftrightarrow> (case i of Some f \<Rightarrow> f s | None \<Rightarrow> di) \<and> \<not> (case e of Some f \<Rightarrow> f s | None \<Rightarrow> de)"
    by (cases i; cases e) (simp_all add: IncludeExclude_Match_def)
  moreover have "NewIncludeExcludeFilterDefaults glob incl excl di de = Some ?f"
    using i(1) e(1) by (simp add: NewIncludeExcludeFilterDefaults_def)
  ultimately show ?thesis using i(2) e(2) by simp
qed

theorem IncludeExclude_decides_witness:
  "\<exists>f. NewIncludeExcludeFilterDefaults (\<lambda>_. None) [''cpu'', ''mem''] [''mem''] True False = Some f \<and>
     IncludeExclude_Match f ''cpu''"
  using IncludeExclude_decides [of "[''cpu'', ''mem'']" "[''mem'']" "\<lambda>_. None" True False "''cpu''"]
  by (simp add: HasMeta_def)

subsection \<open>The configuration\<close>

record 'f processor_enum =
  pe_Metrics :: "string list"
  pe_MetricsFilter :: "(string \<Rightarrow> bool) option"
  pe_ValueMappings :: "(string \<times> 'f) list"

record toml_relabel =
  t_SourceLabels :: "string list"
  t_Separator :: string
  t_Regex :: string
  t_Modulus :: "64 word"
  t_TargetLabel :: string
  t_Replacement :: string
  t_Action :: string

record 'f internal_config =
  ic_Labels :: "gomap option"
  MetricsDrop :: "string list"
  MetricsPass :: "string list"
  MetricsDropFilter :: "(string \<Rightarrow> bool) option"
  MetricsPassFilter :: "(string \<Rightarrow> bool) option"
  MetricsNamePrefix :: string
  ProcessorEnum :: "'f processor_enum list"
  inited :: bool
  RelabelConfigs :: "toml_relabel list"
  relabelConfigs :: "relabel_config list"
  DebugMod :: bool

definition GetLabels :: "'f internal_config \<Rightarrow> gomap" where
  "GetLabels ic = (case ic_Labels ic of Some m \<Rightarrow> m | None \<Rightarrow> [])"

datatype init_error = FilterError | RegexError string

record compilers =
  glob_Compile :: "string \<Rightarrow> (string \<Rightarrow> bool) option"
  NewRegexp :: "string \<Rightarrow> regexp option"

definition init_filter :: "compilers \<Rightarrow> string list \<Rightarrow> (string \<Rightarrow> bool) option \<Rightarrow> init_error + (string \<Rightarrow> bool) option" where
  "init_filter cs names old =
     (if length names > 0 then
        (case Filter_Compile (glob_Compile cs) names of None \<Rightarrow> Inl FilterError | Some f \<Rightarrow> Inr f)
      else Inr old)"

fun init_enums :: "compilers \<Rightarrow> 'f processor_enum list \<Rightarrow> init_error + 'f processor_enum list" where
  "init_enums cs [] = Inr []"
| "init_enums cs (pe # pes) =
     and_then (init_filter cs (pe_Metrics pe) (pe_MetricsFilter pe))
       (\<lambda>f. and_then (init_enums cs pes) (\<lambda>pes'. Inr (pe\<lparr>pe_MetricsFilter := f\<rparr> # pes')))"

definition default_relabel :: "toml_relabel \<Rightarrow> toml_relabel" where
  "default_relabel rc = rc
     \<lparr>t_Regex := (if length (t_Regex rc) = 0 then ''(.*)'' else t_Regex rc),
      t_Action := (if length (t_Action rc) = 0 then ''replace'' else t_Action rc),
      t_Replacement := (if length (t_Replacement rc) = 0 then ''$1'' else t_Replacement rc),
      t_Separator := (if t_Separator rc = [] then '';'' else t_Separator rc)\<rparr>"

definition init_relabel :: "compilers \<Rightarrow> toml_relabel \<Rightarrow> init_error + relabel_config" where
  "init_relabel cs rc =
     (case NewRegexp cs (t_Regex rc) of
        None \<Rightarrow> Inl (RegexError (t_Regex rc))
      | Some reg \<Rightarrow>
          Inr \<lparr>rc_SourceLabels = t_SourceLabels rc, rc_Separator = t_Separator rc, rc_Regex = reg,
               rc_Modulus = t_Modulus rc, rc_TargetLabel = t_TargetLabel rc, rc_Replacement = t_Replacement rc,
               rc_Action = Action_of_string (t_Action rc)\<rparr>)"

fun init_relabels :: "compilers \<Rightarrow> toml_relabel list \<Rightarrow> init_error + relabel_config list" where
  "init_relabels cs [] = Inr []"
| "init_relabels cs (rc # rcs) =
     and_then (init_relabel cs (default_relabel rc)) (\<lambda>r. and_then (init_relabels cs rcs) (\<lambda>rs. Inr (r # rs)))"

text \<open>A plugin whose configuration fails to initialise is not used, so that only the success is returned.\<close>

definition InitInternalConfig :: "compilers \<Rightarrow> bool \<Rightarrow> 'f internal_config \<Rightarrow> init_error + 'f internal_config" where
  "InitInternalConfig cs debugMode ic =
     and_then (init_filter cs (MetricsDrop ic) (MetricsDropFilter ic)) (\<lambda>drop.
     and_then (init_filter cs (MetricsPass ic) (MetricsPassFilter ic)) (\<lambda>pass.
     and_then (init_enums cs (ProcessorEnum ic)) (\<lambda>enums.
     and_then (init_relabels cs (RelabelConfigs ic)) (\<lambda>rules.
       Inr (ic\<lparr>MetricsDropFilter := drop, MetricsPassFilter := pass, ProcessorEnum := enums,
              RelabelConfigs := map default_relabel (RelabelConfigs ic),
              relabelConfigs := relabelConfigs ic @ rules, DebugMod := debugMode\<rparr>)))))"

definition SetInitialized :: "'f internal_config \<Rightarrow> 'f internal_config" where
  "SetInitialized ic = ic\<lparr>inited := True\<rparr>"

subsection \<open>Processing samples\<close>

record 'f process_env =
  p_now :: int
  p_zero_time :: int
  p_Expand :: "string \<Rightarrow> string"
  p_GlobalLabels :: gomap
  OmitHostname :: bool
  p_Hostname :: string
  fmt_Sprint :: "'f go_value \<Rightarrow> string"
  p_relabel :: relabel_env
  p_sort :: "Labels \<Rightarrow> Labels"

definition agentHostnameLabelKey :: string where "agentHostnameLabelKey = ''agent_hostname''"

text \<open>Writing into a nil map panics; deleting from it does not.\<close>

definition map_write :: "string \<Rightarrow> string \<Rightarrow> gomap option \<Rightarrow> gomap option go" where
  "map_write k v m = (case m of None \<Rightarrow> Inl NilMapWrite | Some l \<Rightarrow> Inr (Some (AList.update k v l)))"

definition map_delete :: "string \<Rightarrow> gomap option \<Rightarrow> gomap option" where
  "map_delete k m = map_option (AList.delete k) m"

definition map_has :: "string \<Rightarrow> gomap option \<Rightarrow> bool" where
  "map_has k m = (case m of None \<Rightarrow> False | Some l \<Rightarrow> map_of l k \<noteq> None)"

definition map_value :: "'f process_env \<Rightarrow> string \<Rightarrow> 'f go_value \<Rightarrow> 'f processor_enum \<Rightarrow> 'f go_value go" where
  "map_value env metric v pe =
     (case pe_MetricsFilter pe of
        None \<Rightarrow> Inl NilDereference
      | Some f \<Rightarrow>
          (if f metric then
             (case map_of (pe_ValueMappings pe) (fmt_Sprint env v) of None \<Rightarrow> Inr v | Some x \<Rightarrow> Inr (VFloat64 x))
           else Inr v))"

definition add_instance_label :: "'f process_env \<Rightarrow> gomap option \<Rightarrow> string \<times> string \<Rightarrow> gomap option go" where
  "add_instance_label env m kv =
     (case kv of (k, v) \<Rightarrow> if v = ''-'' then Inr (map_delete k m) else map_write k (p_Expand env v) m)"

definition add_global_label :: "gomap option \<Rightarrow> string \<times> string \<Rightarrow> gomap option go" where
  "add_global_label m kv = (case kv of (k, v) \<Rightarrow> if map_has k m then Inr m else map_write k v m)"

definition add_labels :: "'f process_env \<Rightarrow> 'f internal_config \<Rightarrow> gomap option \<Rightarrow> gomap option go" where
  "add_labels env ic m =
     and_then (foldM (add_instance_label env) m (GetLabels ic)) (\<lambda>m1.
     and_then (foldM add_global_label m1 (p_GlobalLabels env)) (\<lambda>m2.
       if \<not> map_has agentHostnameLabelKey m2 \<and> \<not> OmitHostname env
       then map_write agentHostnameLabelKey (p_Hostname env) m2 else Inr m2))"

definition relabel_sample :: "'f process_env \<Rightarrow> 'f internal_config \<Rightarrow> 'f sample \<Rightarrow> 'f sample option go" where
  "relabel_sample env ic s =
     (if relabelConfigs ic \<noteq> [] then
        (let all = Label MetricName (s_Metric s) #
               map (\<lambda>(k, v). Label k v) (case s_Labels s of None \<Rightarrow> [] | Some m \<Rightarrow> m) in
         and_then (Process (p_relabel env) (p_sort env) all (relabelConfigs ic))
           (\<lambda>(newAll, keep).
              if \<not> keep then Inr None
              else
                (let newName = foldl (\<lambda>n l. if Name l = MetricName then Value l else n) (s_Metric s) newAll;
                     newLabel = foldl (\<lambda>m l. if Name l = MetricName then m else AList.update (Name l) (Value l) m) [] newAll in
                 Inr (Some (s\<lparr>s_Metric := (if newName \<noteq> [] \<and> newName \<noteq> s_Metric s then newName else s_Metric s),
                             s_Labels := Some newLabel\<rparr>)))))
      else Inr (Some s))"

definition Process_sample :: "'f process_env \<Rightarrow> 'f internal_config \<Rightarrow> 'f sample \<Rightarrow> 'f sample option go" where
  "Process_sample env ic s =
     (if (case MetricsDropFilter ic of Some f \<Rightarrow> f (s_Metric s) | None \<Rightarrow> False) then Inr None
      else if (case MetricsPassFilter ic of Some f \<Rightarrow> \<not> f (s_Metric s) | None \<Rightarrow> False) then Inr None
      else
        and_then (foldM (map_value env (s_Metric s)) (s_Value s) (ProcessorEnum ic)) (\<lambda>v.
        and_then (add_labels env ic (s_Labels s)) (\<lambda>labels.
          relabel_sample env ic
            (s\<lparr>s_Value := v,
               s_Timestamp := (if s_Timestamp s = p_zero_time env then p_now env else s_Timestamp s),
               s_Metric := (if length (MetricsNamePrefix ic) > 0 then MetricsNamePrefix ic @ s_Metric s else s_Metric s),
               s_Labels := labels\<rparr>))))"

text \<open>Lists hold pointers: \<open>None\<close> is nil. Both lists are given from the front, as the code pushes and pops them.\<close>

fun process_loop :: "'f process_env \<Rightarrow> 'f internal_config \<Rightarrow> 'f sample option list \<Rightarrow> 'f sample option list \<Rightarrow> 'f sample option list go" where
  "process_loop env ic [] nlst = Inr nlst"
| "process_loop env ic (None # ss) nlst = process_loop env ic ss nlst"
| "process_loop env ic (Some s # ss) nlst =
     and_then (Process_sample env ic s)
       (\<lambda>r. process_loop env ic ss (case r of None \<Rightarrow> nlst | Some s' \<Rightarrow> SL_PushFront (Some s') nlst))"

definition InternalConfig_Process ::
  "'f process_env \<Rightarrow> 'f internal_config \<Rightarrow> 'f sample option list \<Rightarrow> 'f sample option list go" where
  "InternalConfig_Process env ic slist =
     (if length slist = 0 then Inr [] else process_loop env ic (snd (SL_PopBackAll slist)) [])"


subsection \<open>Labels\<close>

lemma distinct_update_keys: "distinct (map fst al) \<Longrightarrow> distinct (map fst (AList.update k v al))"
  by (rule distinct_update)

lemma instance_labels:
  assumes "distinct (map fst kvs)" and "distinct (map fst l)"
  shows "\<exists>l'. foldM (add_instance_label env) (Some l) kvs = Inr (Some l') \<and> distinct (map fst l') \<and>
    map_of l' k = (case map_of kvs k of None \<Rightarrow> map_of l k | Some v \<Rightarrow> if v = ''-'' then None else Some (p_Expand env v))"
  using assms
proof (induction kvs arbitrary: l)
  case (Cons kv kvs)
  obtain k0 v0 where kv: "kv = (k0, v0)" by fastforce
  define l1 where "l1 = (if v0 = ''-'' then AList.delete k0 l else AList.update k0 (p_Expand env v0) l)"
  have s: "add_instance_label env (Some l) kv = Inr (Some l1)"
    by (simp add: add_instance_label_def kv map_delete_def map_write_def l1_def)
  have d: "distinct (map fst l1)"
    using Cons.prems(2) by (simp add: l1_def distinct_update distinct_delete)
  have nk: "k0 \<notin> fst ` set kvs" using Cons.prems(1) kv by auto
  have m: "map_of l1 k = (if k = k0 then if v0 = ''-'' then None else Some (p_Expand env v0) else map_of l k)"
    by (auto simp: l1_def update_conv' delete_conv')
  from Cons.IH [OF _ d] Cons.prems(1) obtain l' where
    l': "foldM (add_instance_label env) (Some l1) kvs = Inr (Some l')" "distinct (map fst l')"
    "map_of l' k = (case map_of kvs k of None \<Rightarrow> map_of l1 k | Some v \<Rightarrow> if v = ''-'' then None else Some (p_Expand env v))"
    by auto
  have "k = k0 \<Longrightarrow> map_of kvs k = None" using nk by (simp add: map_of_eq_None_iff)
  with l'(3) m have "map_of l' k = (case map_of (kv # kvs) k of None \<Rightarrow> map_of l k
      | Some v \<Rightarrow> if v = ''-'' then None else Some (p_Expand env v))"
    by (auto simp: kv split: option.splits)
  with l' s show ?case by auto
qed auto

lemma global_labels:
  assumes "distinct (map fst l)"
  shows "\<exists>l'. foldM add_global_label (Some l) kvs = Inr (Some l') \<and> distinct (map fst l') \<and>
    map_of l' k = (case map_of l k of None \<Rightarrow> map_of kvs k | Some v \<Rightarrow> Some v)"
  using assms
proof (induction kvs arbitrary: l)
  case (Cons kv kvs)
  obtain k0 v0 where kv: "kv = (k0, v0)" by fastforce
  define l1 where "l1 = (if map_of l k0 \<noteq> None then l else AList.update k0 v0 l)"
  have s: "add_global_label (Some l) kv = Inr (Some l1)"
    by (auto simp: add_global_label_def kv map_has_def map_write_def l1_def)
  have d: "distinct (map fst l1)" using Cons.prems by (simp add: l1_def distinct_update)
  have m: "map_of l1 k = (case map_of l k of None \<Rightarrow> if k = k0 then Some v0 else None | Some v \<Rightarrow> Some v)"
    by (auto simp: l1_def update_conv' split: option.splits)
  from Cons.IH [OF d] obtain l' where l': "foldM add_global_label (Some l1) kvs = Inr (Some l')" "distinct (map fst l')"
    "map_of l' k = (case map_of l1 k of None \<Rightarrow> map_of kvs k | Some v \<Rightarrow> Some v)" by blast
  have "map_of l' k = (case map_of l k of None \<Rightarrow> map_of (kv # kvs) k | Some v \<Rightarrow> Some v)"
    using l'(3) m by (auto simp: kv split: option.splits if_splits)
  with l'(1,2) s show ?case by auto
qed (auto split: option.splits)

definition label_spec :: "'f process_env \<Rightarrow> 'f internal_config \<Rightarrow> (string \<rightharpoonup> string) \<Rightarrow> (string \<rightharpoonup> string)" where
  "label_spec env ic m k =
     (let own = (case map_of (GetLabels ic) k of
                   None \<Rightarrow> m k | Some v \<Rightarrow> if v = ''-'' then None else Some (p_Expand env v));
          glob = (case own of None \<Rightarrow> map_of (p_GlobalLabels env) k | Some v \<Rightarrow> Some v) in
      case glob of
        None \<Rightarrow> if k = agentHostnameLabelKey \<and> \<not> OmitHostname env then Some (p_Hostname env) else None
      | Some v \<Rightarrow> Some v)"

lemma add_labels_law:
  assumes "distinct (map fst (GetLabels ic))" and "distinct (map fst l)"
  shows "\<exists>l'. add_labels env ic (Some l) = Inr (Some l') \<and> distinct (map fst l') \<and> map_of l' = label_spec env ic (map_of l)"
proof -
  from instance_labels [OF assms, of env] obtain l1 where l1: "foldM (add_instance_label env) (Some l) (GetLabels ic) = Inr (Some l1)"
    "distinct (map fst l1)" by blast
  with instance_labels [OF assms, of env] have m1: "map_of l1 k = (case map_of (GetLabels ic) k of None \<Rightarrow> map_of l k
      | Some v \<Rightarrow> if v = ''-'' then None else Some (p_Expand env v))" for k
    by (metis Inr_inject option.inject)
  from global_labels [OF l1(2), of "p_GlobalLabels env"] obtain l2 where l2: "foldM add_global_label (Some l1) (p_GlobalLabels env) = Inr (Some l2)"
    "distinct (map fst l2)" by blast
  with global_labels [OF l1(2), of "p_GlobalLabels env"] have m2: "map_of l2 k = (case map_of l1 k of None \<Rightarrow> map_of (p_GlobalLabels env) k
      | Some v \<Rightarrow> Some v)" for k
    by (metis Inr_inject option.inject)
  define l3 where "l3 = (if map_of l2 agentHostnameLabelKey = None \<and> \<not> OmitHostname env
      then AList.update agentHostnameLabelKey (p_Hostname env) l2 else l2)"
  have "add_labels env ic (Some l) = Inr (Some l3)"
    using l1(1) l2(1) by (simp add: add_labels_def map_has_def map_write_def l3_def)
  moreover have "distinct (map fst l3)" using l2(2) by (simp add: l3_def distinct_update)
  moreover have "map_of l3 k = label_spec env ic (map_of l) k" for k
    using m1 [of k] m2 [of k] by (auto simp: l3_def update_conv' label_spec_def split: option.splits)
  ultimately show ?thesis by blast
qed


subsection \<open>A processed sample\<close>

definition passes_filters :: "'f internal_config \<Rightarrow> string \<Rightarrow> bool" where
  "passes_filters ic metric \<longleftrightarrow>
     (case MetricsDropFilter ic of Some f \<Rightarrow> \<not> f metric | None \<Rightarrow> True) \<and>
     (case MetricsPassFilter ic of Some f \<Rightarrow> f metric | None \<Rightarrow> True)"

text \<open>What the code needs so that it never panics.\<close>

definition config_ready :: "'f internal_config \<Rightarrow> bool" where
  "config_ready ic \<longleftrightarrow> distinct (map fst (GetLabels ic)) \<and>
     list_all (\<lambda>pe. pe_MetricsFilter pe \<noteq> None) (ProcessorEnum ic) \<and> list_all config_runs (relabelConfigs ic)"

definition sample_ready :: "'f process_env \<Rightarrow> 'f internal_config \<Rightarrow> 'f sample \<Rightarrow> bool" where
  "sample_ready env ic s \<longleftrightarrow> (\<exists>l. s_Labels s = Some l \<and> distinct (map fst l) \<and>
     label_spec env ic (map_of l) MetricName = None)"

lemma map_value_total:
  "list_all (\<lambda>pe. pe_MetricsFilter pe \<noteq> None) pes \<Longrightarrow> \<exists>v'. foldM (map_value env metric) v pes = Inr v'"
proof (induction pes arbitrary: v)
  case (Cons pe pes)
  then obtain f where "pe_MetricsFilter pe = Some f" by auto
  then have "\<exists>v1. map_value env metric v pe = Inr v1"
    by (simp add: map_value_def split: option.splits)
  then obtain v1 where "map_value env metric v pe = Inr v1" ..
  with Cons show ?case by simp
qed auto

lemma Name_pair: "Name \<circ> (\<lambda>(k, v). Label k v) = fst"
  by auto

lemma pair_names_distinct:
  assumes "distinct (map fst l)" and "map_of l n = None"
  shows "distinct (label_names (Label n v # map (\<lambda>(k, v). Label k v) l))"
proof -
  have "label_names (Label n v # map (\<lambda>(k, v). Label k v) l) = n # map fst l"
    by (simp add: Name_pair)
  with assms show ?thesis by (simp only: distinct.simps set_map map_of_eq_None_iff not_False_eq_True conj_absorb simp_thms)
qed

lemma relabel_sample_total:
  assumes "sorts_by_name (p_sort env)" and "list_all config_runs (relabelConfigs ic)"
    and "s_Labels s = Some l" and "distinct (map fst l)" and "map_of l MetricName = None"
  shows "\<exists>r. relabel_sample env ic s = Inr r"
proof -
  let ?all = "Label MetricName (s_Metric s) # map (\<lambda>(k, v). Label k v) l"
  have "builder_inv (NewBuilder ?all)" by (rule NewBuilder_inv [OF pair_names_distinct [OF assms(4,5)]])
  from ProcessBuilder_total [OF this assms(2), of "p_relabel env"]
  obtain lb k where "ProcessBuilder (p_relabel env) (NewBuilder ?all) (relabelConfigs ic) = Inr (lb, k)" by blast
  then obtain out keep where "Process (p_relabel env) (p_sort env) ?all (relabelConfigs ic) = Inr (out, keep)"
    by (cases k) (simp_all add: Process_def)
  with assms(3) show ?thesis by (simp add: relabel_sample_def Let_def)
qed

lemma Process_sample_total:
  assumes "sorts_by_name (p_sort env)" and "config_ready ic" and "sample_ready env ic s"
  shows "\<exists>r. Process_sample env ic s = Inr r"
proof -
  obtain v where v: "foldM (map_value env (s_Metric s)) (s_Value s) (ProcessorEnum ic) = Inr v"
    using map_value_total assms(2) by (fastforce simp: config_ready_def)
  obtain l where l: "s_Labels s = Some l" "distinct (map fst l)" "label_spec env ic (map_of l) MetricName = None"
    using assms(3) by (auto simp: sample_ready_def)
  from add_labels_law [of ic l env] l assms(2) obtain l' where
    l': "add_labels env ic (Some l) = Inr (Some l')" "distinct (map fst l')" "map_of l' = label_spec env ic (map_of l)"
    by (auto simp: config_ready_def)
  have "\<exists>r. relabel_sample env ic (s\<lparr>s_Value := v', s_Timestamp := t, s_Metric := m, s_Labels := Some l'\<rparr>) = Inr r" for v' t m
    using relabel_sample_total [OF assms(1), of ic "s\<lparr>s_Value := v', s_Timestamp := t, s_Metric := m, s_Labels := Some l'\<rparr>" l']
      assms(2) l' l(3) by (simp add: config_ready_def)
  with v l(1) l'(1) show ?thesis by (simp add: Process_sample_def)
qed

lemma process_loop_spec:
  assumes "\<And>s. Some s \<in> set ss \<Longrightarrow> \<exists>r. Process_sample env ic s = Inr r"
  shows "process_loop env ic ss nlst =
    Inr (rev (map Some (List.map_filter (\<lambda>s. projr (Process_sample env ic s)) (List.map_filter id ss))) @ nlst)"
  using assms
proof (induction ss arbitrary: nlst)
  case (Cons x ss)
  show ?case
  proof (cases x)
    case None
    with Cons show ?thesis by (simp add: map_filter_simps)
  next
    case (Some s)
    with Cons.prems obtain r where "Process_sample env ic s = Inr r" by auto
    with Some Cons show ?thesis
      by (cases r) (simp_all add: map_filter_simps SL_PushFront_def)
  qed
qed (simp add: map_filter_simps)

text \<open>C15: processing never panics on an initialised configuration whose enum mappings all name metrics and
  whose relabel rules run, for samples with a label map; the samples kept come out in the
  order the plugin pushed them, each processed on its own.\<close>

theorem InternalConfig_Process_order:
  assumes "sorts_by_name (p_sort env)" and "config_ready ic"
    and "\<forall>s. Some s \<in> set slist \<longrightarrow> sample_ready env ic s"
  shows "\<exists>out. InternalConfig_Process env ic slist = Inr out \<and>
    rev out = map Some (List.map_filter (\<lambda>s. projr (Process_sample env ic s)) (List.map_filter id (rev slist)))"
proof (cases "slist = []")
  case False
  have "process_loop env ic (rev slist) [] =
      Inr (rev (map Some (List.map_filter (\<lambda>s. projr (Process_sample env ic s)) (List.map_filter id (rev slist)))) @ [])"
    by (rule process_loop_spec) (use Process_sample_total [OF assms(1,2)] assms(3) in auto)
  with False show ?thesis by (simp add: InternalConfig_Process_def SL_PopBackAll_rev)
qed (simp add: InternalConfig_Process_def map_filter_simps)

definition sample_process_env :: "int process_env" where
  "sample_process_env = \<lparr>p_now = 100, p_zero_time = 0, p_Expand = id, p_GlobalLabels = [(''region'', ''eu'')],
     OmitHostname = False, p_Hostname = ''h1'', fmt_Sprint = (\<lambda>_. ''up''), p_relabel = sample_env, p_sort = sort_key Name\<rparr>"

definition sample_input_config :: "relabel_config list \<Rightarrow> int internal_config" where
  "sample_input_config rules = \<lparr>ic_Labels = Some [(''job'', ''j'')], MetricsDrop = [''bad''], MetricsPass = [],
     MetricsDropFilter = Some (compileFilterNoGlob [''bad'']), MetricsPassFilter = None, MetricsNamePrefix = ''p_'',
     ProcessorEnum = [\<lparr>pe_Metrics = [''m''], pe_MetricsFilter = Some (compileFilterNoGlob [''m'']),
       pe_ValueMappings = [(''up'', 1)]\<rparr>],
     inited = True, RelabelConfigs = [], relabelConfigs = rules, DebugMod = False\<rparr>"

definition sample_metric :: "string \<Rightarrow> int sample" where
  "sample_metric name = \<lparr>s_Metric = name, s_Timestamp = 0, s_Value = VString ''up'', s_Labels = Some [(''a'', ''1'')]\<rparr>"

lemmas sample_input_simps = sample_process_env_def sample_input_config_def sample_metric_def sample_rule_def config_ready_def
  sample_ready_def config_runs_def label_spec_def GetLabels_def agentHostnameLabelKey_def MetricName_def

theorem InternalConfig_Process_order_witness:
  "\<exists>out. InternalConfig_Process sample_process_env (sample_input_config [sample_rule LabelDrop])
      [Some (sample_metric ''n''), None, Some (sample_metric ''bad''), Some (sample_metric ''m'')] = Inr out \<and>
    rev out = map Some (List.map_filter (\<lambda>s. projr (Process_sample sample_process_env (sample_input_config [sample_rule LabelDrop]) s))
      [sample_metric ''m'', sample_metric ''bad'', sample_metric ''n''])"
proof -
  let ?l = "[Some (sample_metric ''n''), None, Some (sample_metric ''bad''), Some (sample_metric ''m'')]"
  have "\<forall>s. Some s \<in> set ?l \<longrightarrow> sample_ready sample_process_env (sample_input_config [sample_rule LabelDrop]) s"
    by (simp add: sample_input_simps)
  moreover have "config_ready (sample_input_config [sample_rule LabelDrop])" by (simp add: sample_input_simps)
  moreover have "sorts_by_name (p_sort sample_process_env)"
    using sorts_by_name_sort_key by (simp add: sample_process_env_def)
  ultimately show ?thesis
    using InternalConfig_Process_order [of sample_process_env "sample_input_config [sample_rule LabelDrop]" ?l]
    by (simp add: map_filter_simps)
qed

text \<open>C29: without relabel rules, what happens to a sample: it is dropped exactly when a filter says so; its name
  gets the prefix; for each label, the configured value wins over the sample's own, the value
  \<open>-\<close> removes it, the agent's global labels and the host name only fill what is then missing.\<close>

theorem Process_sample_labels:
  assumes "config_ready ic" and "relabelConfigs ic = []" and "s_Labels s = Some l" and "distinct (map fst l)"
  shows "if passes_filters ic (s_Metric s)
    then \<exists>s' l'. Process_sample env ic s = Inr (Some s') \<and> s_Metric s' = MetricsNamePrefix ic @ s_Metric s \<and>
      s_Timestamp s' = (if s_Timestamp s = p_zero_time env then p_now env else s_Timestamp s) \<and>
      s_Labels s' = Some l' \<and> distinct (map fst l') \<and> map_of l' = label_spec env ic (map_of l)
    else Process_sample env ic s = Inr None"
proof -
  obtain v where v: "foldM (map_value env (s_Metric s)) (s_Value s) (ProcessorEnum ic) = Inr v"
    using map_value_total assms(1) by (fastforce simp: config_ready_def)
  from add_labels_law [of ic l env] assms(1,4) obtain l' where
    l': "add_labels env ic (Some l) = Inr (Some l')" "distinct (map fst l')" "map_of l' = label_spec env ic (map_of l)"
    by (auto simp: config_ready_def)
  show ?thesis
  proof (cases "passes_filters ic (s_Metric s)")
    case True
    then have "\<not> (case MetricsDropFilter ic of Some f \<Rightarrow> f (s_Metric s) | None \<Rightarrow> False)"
      "\<not> (case MetricsPassFilter ic of Some f \<Rightarrow> \<not> f (s_Metric s) | None \<Rightarrow> False)"
      by (auto simp: passes_filters_def split: option.splits)
    with True v l' assms(2,3) show ?thesis by (simp add: Process_sample_def relabel_sample_def)
  next
    case False
    then show ?thesis
      by (auto simp: passes_filters_def Process_sample_def split: option.splits)
  qed
qed

theorem Process_sample_labels_witness:
  "\<exists>s' l'. Process_sample sample_process_env (sample_input_config []) (sample_metric ''m'') = Inr (Some s') \<and>
     s_Metric s' = ''p_m'' \<and> s_Labels s' = Some l' \<and> map_of l' ''region'' = Some ''eu'' \<and> map_of l' ''job'' = Some ''j''"
proof -
  let ?ic = "sample_input_config []" and ?s = "sample_metric ''m''"
  have "config_ready ?ic" "relabelConfigs ?ic = []" "s_Labels ?s = Some [(''a'', ''1'')]" "distinct (map fst [(''a'', ''1'')])"
    by (simp_all add: sample_input_simps)
  from Process_sample_labels [OF this, of sample_process_env]
  have "\<exists>s' l'. Process_sample sample_process_env ?ic ?s = Inr (Some s') \<and> s_Metric s' = ''p_m'' \<and> s_Labels s' = Some l' \<and>
      map_of l' = label_spec sample_process_env ?ic [''a'' \<mapsto> ''1'']"
    by (fastforce simp: passes_filters_def sample_input_config_def sample_metric_def compileFilterNoGlob_def split: if_splits)
  moreover have "label_spec sample_process_env ?ic [''a'' \<mapsto> ''1''] ''region'' = Some ''eu''"
    "label_spec sample_process_env ?ic [''a'' \<mapsto> ''1''] ''job'' = Some ''j''"
    by (simp_all add: sample_input_simps)
  ultimately show ?thesis by metis
qed

subsection \<open>What initialisation checks\<close>

definition toml_runs :: "toml_relabel \<Rightarrow> bool" where
  "toml_runs rc \<longleftrightarrow> (let a = Action_of_string (t_Action (default_relabel rc)) in
     (case a of OtherAction _ \<Rightarrow> False | HashMod \<Rightarrow> t_Modulus rc \<noteq> 0 | _ \<Rightarrow> True))"

lemma Filter_Compile_nonempty: "Filter_Compile g names = Some None \<longleftrightarrow> names = []"
  by (auto simp: Filter_Compile_def Let_def)

lemma init_filter_ready:
  "init_filter cs names None = Inr f \<Longrightarrow> f \<noteq> None \<longleftrightarrow> names \<noteq> []"
  using Filter_Compile_nonempty [of "glob_Compile cs" names]
  by (auto simp: init_filter_def split: if_splits option.splits)

lemma init_enums_ready:
  assumes "init_enums cs pes = Inr pes'" and "list_all (\<lambda>pe. pe_MetricsFilter pe = None) pes"
  shows "list_all (\<lambda>pe. pe_MetricsFilter pe \<noteq> None) pes' \<longleftrightarrow> list_all (\<lambda>pe. pe_Metrics pe \<noteq> []) pes"
  using assms
proof (induction pes arbitrary: pes')
  case (Cons pe pes)
  then obtain f rest where "init_filter cs (pe_Metrics pe) None = Inr f" "init_enums cs pes = Inr rest"
    "pes' = pe\<lparr>pe_MetricsFilter := f\<rparr> # rest"
    by (auto simp: and_then_def split: sum.splits)
  with Cons init_filter_ready [of cs "pe_Metrics pe" f] show ?case by auto
qed simp

lemma init_relabels_ready:
  assumes "init_relabels cs rcs = Inr rules"
  shows "list_all config_runs rules \<longleftrightarrow> list_all toml_runs rcs"
  using assms
proof (induction rcs arbitrary: rules)
  case (Cons rc rcs)
  then obtain r rest where r: "init_relabel cs (default_relabel rc) = Inr r" "init_relabels cs rcs = Inr rest"
    "rules = r # rest"
    by (auto simp: and_then_def split: sum.splits)
  from r(1) have "rc_Action r = Action_of_string (t_Action (default_relabel rc))" "rc_Modulus r = t_Modulus rc"
    by (auto simp: init_relabel_def default_relabel_def split: option.splits)
  then have "config_runs r \<longleftrightarrow> toml_runs rc"
    unfolding config_runs_def toml_runs_def Let_def
    by (cases "Action_of_string (t_Action (default_relabel rc))") simp_all
  with r Cons show ?case by simp
qed simp


definition sample_compilers :: compilers where
  "sample_compilers = \<lparr>glob_Compile = (\<lambda>_. None), NewRegexp = (\<lambda>_. Some sample_regexp)\<rparr>"

definition sample_toml :: "int internal_config" where
  "sample_toml = (sample_input_config [])\<lparr>MetricsDropFilter := None, RelabelConfigs := [\<lparr>t_SourceLabels = [''a''], t_Separator = [],
     t_Regex = [], t_Modulus = 0, t_TargetLabel = ''t'', t_Replacement = [], t_Action = ''hashmod''\<rparr>],
     ProcessorEnum := [\<lparr>pe_Metrics = [''m''], pe_MetricsFilter = None, pe_ValueMappings = []\<rparr>]\<rparr>"


end
