(* ===== verification/Metrics_Agent.thy ===== *)
theory Metrics_Agent
  imports Input_Provider Input_Config
begin

text \<open>
  The metrics agent: \<open>src/agent/metrics_agent.go\<close> and \<open>metrics_reader.go\<close>, with the optional methods of inputs
  (\<open>src/inputs/inputs.go\<close>). Inputs are registered from the configurations of the providers; each starts a reader, a
  goroutine that gathers on a timer until it is stopped. The reloader of the HTTP provider registers and
  deregisters inputs as the answers of the server change. A reader is identified by its position in
  the list of all readers ever started. What a plugin does (loading its configuration, \<open>Init\<close>, \<open>Start\<close>, \<open>Gather\<close>) is a parameter.
\<close>

subsection \<open>Inputs and readers\<close>

record 'f input_instance =
  ins_config :: "'f internal_config"
  ins_Init :: bool
  ins_IntervalTimes :: int

text \<open>\<open>inp_instances\<close> is \<open>None\<close> when the input has no instances at all; \<open>inp_Start\<close> is \<open>None\<close> unless it is a service input, otherwise whether \<open>Start\<close> succeeds.\<close>

record 'f input =
  inp_config :: "'f internal_config"
  inp_Init :: bool
  inp_instances :: "'f input_instance list option"
  inp_Start :: "bool option"

datatype quit_chan = QuitEmpty | QuitSent | QuitClosed

record 'f input_reader =
  rd_inputName :: string
  rd_input :: "'f input"
  rd_quitChan :: quit_chan
  rd_runCounter :: "64 word"
  rd_running :: bool

definition newInputReader :: "string \<Rightarrow> 'f input \<Rightarrow> 'f input_reader" where
  "newInputReader name i =
     \<lparr>rd_inputName = name, rd_input = i, rd_quitChan = QuitEmpty, rd_runCounter = 0, rd_running = (inp_Start i \<noteq> Some False)\<rparr>"

text \<open>A goroutine that can go no further: a panic, or a send that waits for ever.\<close>

datatype stuck = Panicked go_panic | Blocked

text \<open>The channel has room for one value, and only the loop of the reader takes it and closes the channel.\<close>

definition InputReader_Stop :: "'f input_reader \<Rightarrow> stuck + 'f input_reader" where
  "InputReader_Stop r =
     (case rd_quitChan r of
        QuitEmpty \<Rightarrow> Inr (r\<lparr>rd_quitChan := QuitSent\<rparr>)
      | QuitSent \<Rightarrow> Inl Blocked
      | QuitClosed \<Rightarrow> Inl (Panicked (ExplicitPanic ''send on closed channel'')))"

definition reader_quits :: "'f input_reader \<Rightarrow> 'f input_reader" where
  "reader_quits r =
     (if rd_running r \<and> rd_quitChan r = QuitSent then r\<lparr>rd_quitChan := QuitClosed, rd_running := False\<rparr> else r)"

subsection \<open>The readers by name and checksum\<close>

type_synonym readers = "(string \<times> (string \<times> nat) list) list"

definition Readers_Add :: "string \<Rightarrow> string \<Rightarrow> nat \<Rightarrow> readers \<Rightarrow> readers" where
  "Readers_Add name csum reader rs =
     AList.update name (AList.update csum reader (case map_of rs name of None \<Rightarrow> [] | Some m \<Rightarrow> m)) rs"

definition Readers_Del :: "string \<Rightarrow> string \<Rightarrow> readers \<Rightarrow> readers" where
  "Readers_Del name csum rs =
     (if length csum = 0 then AList.delete name rs
      else (case map_of rs name of None \<Rightarrow> rs | Some m \<Rightarrow> AList.update name (AList.delete csum m) rs))"

record 'f metrics_agent =
  ma_InputFilters :: "string list"
  ma_InputReaders :: readers
  ma_readers :: "'f input_reader list"

record 'f agent_env =
  ae_compilers :: compilers
  ae_DebugMode :: bool
  ae_providers :: "string list"
  ae_InputCreators :: "string \<Rightarrow> bool"
  ae_LoadSingleConfig :: "string \<Rightarrow> config_with_format \<Rightarrow> 'f input option"
  ae_LoadConfigs :: "string \<Rightarrow> config_with_format list \<Rightarrow> 'f input option"

definition parseFilter :: "string \<Rightarrow> string list" where
  "parseFilter filterStr = remdups (filter (\<lambda>f. TrimSpace f \<noteq> []) (split_on (CHR '':'') filterStr))"

definition NewMetricsAgent :: "string \<Rightarrow> 'f metrics_agent" where
  "NewMetricsAgent filters = \<lparr>ma_InputFilters = parseFilter filters, ma_InputReaders = [], ma_readers = []\<rparr>"

definition FilterPass :: "'f metrics_agent \<Rightarrow> string \<Rightarrow> bool" where
  "FilterPass ma inputKey \<longleftrightarrow> \<not> (length (ma_InputFilters ma) > 0 \<and> inputKey \<notin> set (ma_InputFilters ma))"

subsection \<open>Starting an input\<close>

text \<open>The instance with its configuration initialised, and whether both initialisations succeeded.\<close>

definition init_instance :: "'f agent_env \<Rightarrow> 'f input_instance \<Rightarrow> 'f input_instance \<times> bool" where
  "init_instance E ins =
     (case InitInternalConfig (ae_compilers E) (ae_DebugMode E) (ins_config ins) of
        Inl _ \<Rightarrow> (ins, False)
      | Inr ic \<Rightarrow> if \<not> ins_Init ins then (ins\<lparr>ins_config := ic\<rparr>, False) else (ins\<lparr>ins_config := SetInitialized ic\<rparr>, True))"

definition init_input :: "'f agent_env \<Rightarrow> 'f input \<Rightarrow> 'f input option" where
  "init_input E i =
     (case InitInternalConfig (ae_compilers E) (ae_DebugMode E) (inp_config i) of
        Inl _ \<Rightarrow> None
      | Inr ic \<Rightarrow>
          if \<not> inp_Init i then None
          else
            (case inp_instances i of
               None \<Rightarrow> Some (i\<lparr>inp_config := ic\<rparr>)
             | Some instances \<Rightarrow>
                 (let rs = map (init_instance E) instances in
                  if list_all (\<lambda>r. \<not> snd r) rs then None
                  else Some (i\<lparr>inp_config := ic, inp_instances := Some (map fst rs)\<rparr>))))"

definition inputGo :: "'f agent_env \<Rightarrow> string \<Rightarrow> string \<Rightarrow> 'f input \<Rightarrow> 'f metrics_agent \<Rightarrow> 'f metrics_agent" where
  "inputGo E name csum i ma =
     (case init_input E i of
        None \<Rightarrow> ma
      | Some i' \<Rightarrow>
          ma\<lparr>ma_InputReaders := Readers_Add name csum (length (ma_readers ma)) (ma_InputReaders ma),
             ma_readers := ma_readers ma @ [newInputReader name i']\<rparr>)"

definition LoadInputConfig :: "'f agent_env \<Rightarrow> string \<Rightarrow> string \<Rightarrow> config_with_format list \<Rightarrow> (string \<times> 'f input) list option" where
  "LoadInputConfig E typ inputKey configs =
     (if typ = ''http'' then Some (HTTP_LoadInputConfig (ae_LoadSingleConfig E inputKey) configs)
      else map_option (\<lambda>i. [(''default'', i)]) (ae_LoadConfigs E inputKey configs))"

definition RegisterInput :: "'f agent_env \<Rightarrow> string \<Rightarrow> config_with_format list \<Rightarrow> 'f metrics_agent \<Rightarrow> stuck + 'f metrics_agent" where
  "RegisterInput E name configs ma =
     (let (typ, inputKey) = ParseInputName name in
      if \<not> FilterPass ma inputKey then Inr ma
      else if \<not> ae_InputCreators E inputKey then Inr ma
      else if typ \<notin> set (ae_providers E) then Inl (Panicked IndexOutOfRange)
      else
        (case LoadInputConfig E typ inputKey configs of
           None \<Rightarrow> Inr ma
         | Some newInputs \<Rightarrow> Inr (foldl (\<lambda>ma (csum, i). inputGo E name csum i ma) ma newInputs)))"

subsection \<open>Stopping inputs\<close>

definition stop_reader :: "nat \<Rightarrow> 'f metrics_agent \<Rightarrow> stuck + 'f metrics_agent" where
  "stop_reader rid ma = and_then (InputReader_Stop (ma_readers ma ! rid)) (\<lambda>r. Inr (ma\<lparr>ma_readers := (ma_readers ma)[rid := r]\<rparr>))"

definition DeregisterInput :: "string \<Rightarrow> string \<Rightarrow> 'f metrics_agent \<Rightarrow> stuck + 'f metrics_agent" where
  "DeregisterInput name csum ma =
     (case map_of (ma_InputReaders ma) name of
        None \<Rightarrow> Inr ma
      | Some m \<Rightarrow>
          and_then (foldM (\<lambda>ma (isum, rid). if length csum = 0 \<or> csum = isum then stop_reader rid ma else Inr ma) ma m)
            (\<lambda>ma'. Inr (ma'\<lparr>ma_InputReaders := Readers_Del name csum (ma_InputReaders ma')\<rparr>)))"

definition MetricsAgent_Stop :: "'f metrics_agent \<Rightarrow> stuck + 'f metrics_agent" where
  "MetricsAgent_Stop ma =
     foldM (\<lambda>ma (name, m).
         foldM (\<lambda>ma (csum, rid). and_then (stop_reader rid ma) (\<lambda>ma'. Inr (ma'\<lparr>ma_InputReaders := Readers_Del name csum (ma_InputReaders ma')\<rparr>))) ma m)
       ma (ma_InputReaders ma)"

subsection \<open>The HTTP provider and the agent\<close>

definition from_go :: "'a go \<Rightarrow> stuck + 'a" where
  "from_go r = (case r of Inl p \<Rightarrow> Inl (Panicked p) | Inr x \<Rightarrow> Inr x)"

text \<open>\<open>start\<close> for the HTTP provider: load, then register every input with all its configurations.\<close>

definition http_start ::
  "'f agent_env \<Rightarrow> (string \<Rightarrow> string) \<Rightarrow> http_response option \<Rightarrow> http_provider \<times> 'f metrics_agent \<Rightarrow> stuck + http_provider \<times> 'f metrics_agent" where
  "http_start E lower resp st =
     (case st of (hp, ma) \<Rightarrow>
        and_then (from_go (HTTP_LoadConfig lower resp hp)) (\<lambda>(hp1, _).
          and_then (foldM (\<lambda>ma name.
              if \<not> FilterPass ma (snd (ParseInputName name)) then Inr ma
              else RegisterInput E (FormatInputName ''http'' name) (HTTP_GetInputConfig name hp1) ma) ma (HTTP_GetInputs hp1))
            (\<lambda>ma1. Inr (hp1, ma1))))"

definition preStop :: "http_provider \<Rightarrow> string \<Rightarrow> 'f metrics_agent \<Rightarrow> stuck + 'f metrics_agent" where
  "preStop hp inputKey ma =
     (if serviceInput inputKey then
        (case map_of (hp_del hp) inputKey of
           None \<Rightarrow> Inr ma
         | Some dcm \<Rightarrow> foldM (\<lambda>ma (csum, _). DeregisterInput (FormatInputName ''http'' inputKey) csum ma) ma dcm)
      else Inr ma)"

definition reload_adds :: "'f agent_env \<Rightarrow> http_provider \<Rightarrow> 'f metrics_agent \<Rightarrow> stuck + 'f metrics_agent" where
  "reload_adds E hp ma =
     foldM (\<lambda>ma (inputKey, cm).
         and_then (preStop hp inputKey ma)
           (\<lambda>ma1. foldM (\<lambda>ma (_, conf). RegisterInput E (FormatInputName ''http'' inputKey) [conf] ma) ma1 cm))
       ma (hp_add hp)"

definition reload_dels :: "http_provider \<Rightarrow> 'f metrics_agent \<Rightarrow> stuck + 'f metrics_agent" where
  "reload_dels hp ma =
     foldM (\<lambda>ma (inputKey, cm).
         if serviceInput inputKey then Inr ma
         else foldM (\<lambda>ma (csum, _). DeregisterInput (FormatInputName ''http'' inputKey) csum ma) ma cm)
       ma (hp_del hp)"

text \<open>One round of \<open>StartReloader\<close>.\<close>

definition http_reload ::
  "'f agent_env \<Rightarrow> (string \<Rightarrow> string) \<Rightarrow> http_provider \<times> 'f metrics_agent \<Rightarrow> http_response option \<Rightarrow> stuck + http_provider \<times> 'f metrics_agent" where
  "http_reload E lower st resp =
     (case st of (hp, ma) \<Rightarrow>
        and_then (from_go (HTTP_LoadConfig lower resp hp)) (\<lambda>(hp1, changed).
          if changed \<noteq> Some True then Inr (hp1, ma)
          else
            and_then (if length (hp_add hp1) > 0 then reload_adds E hp1 ma else Inr ma) (\<lambda>ma1.
            and_then (if length (hp_del hp1) > 0 then reload_dels hp1 ma1 else Inr ma1) (\<lambda>ma2. Inr (hp1, ma2)))))"

definition http_run ::
  "'f agent_env \<Rightarrow> (string \<Rightarrow> string) \<Rightarrow> string \<Rightarrow> http_response option \<Rightarrow> http_response option list \<Rightarrow> stuck + http_provider \<times> 'f metrics_agent" where
  "http_run E lower filters first later =
     and_then (http_start E lower first (newHTTPProvider, NewMetricsAgent filters)) (\<lambda>st. foldM (http_reload E lower) st later)"

subsection \<open>Gathering\<close>

text \<open>The samples leave for the writers; a nil sample would be dereferenced there.\<close>

definition forward :: "'f float_env \<Rightarrow> string \<Rightarrow> 'f sample option list \<Rightarrow> 'f writers \<Rightarrow> 'f writers go" where
  "forward fe precision slist ws =
     (case those (snd (SL_PopBackAll slist)) of
        None \<Rightarrow> Inl NilDereference
      | Some arr \<Rightarrow> Inr (WriteSamples fe precision False arr ws))"

text \<open>\<open>gathered\<close> is what \<open>Gather\<close> pushes, or its panic.\<close>

definition gather_process ::
  "'f process_env \<Rightarrow> 'f float_env \<Rightarrow> string \<Rightarrow> 'f internal_config \<Rightarrow> 'f sample option list go \<Rightarrow> 'f writers \<Rightarrow> 'f writers go" where
  "gather_process env fe precision ic gathered ws =
     and_then gathered (\<lambda>slist. and_then (InternalConfig_Process env ic slist) (\<lambda>out. forward fe precision out ws))"

definition interval_due :: "64 word \<Rightarrow> int \<Rightarrow> bool" where
  "interval_due counter it \<longleftrightarrow> \<not> (it > 0 \<and> counter mod word_of_int it \<noteq> 0)"

definition gather_instance ::
  "'f process_env \<Rightarrow> 'f float_env \<Rightarrow> string \<Rightarrow> 64 word \<Rightarrow> 'f input_instance \<Rightarrow> 'f sample option list go \<Rightarrow> 'f writers \<Rightarrow> 'f writers go" where
  "gather_instance env fe precision counter ins gathered ws =
     (if \<not> inited (ins_config ins) then Inr ws
      else if \<not> interval_due counter (ins_IntervalTimes ins) then Inr ws
      else gather_process env fe precision (ins_config ins) gathered ws)"

text \<open>
  The instances run concurrently and each hands over its samples at once; \<open>order\<close> is the order in which they do. A panic of the plugin itself is recovered, a panic in the goroutine
  of an instance is not.
\<close>

definition gatherOnce ::
  "'f process_env \<Rightarrow> 'f float_env \<Rightarrow> string \<Rightarrow> 'f sample option list go \<Rightarrow> (nat \<Rightarrow> 'f sample option list go) \<Rightarrow> nat list \<Rightarrow>
     'f input_reader \<Rightarrow> 'f writers \<Rightarrow> ('f input_reader \<times> 'f writers) go" where
  "gatherOnce env fe precision plugin instances_gathered order r ws =
     (case gather_process env fe precision (inp_config (rd_input r)) plugin ws of
        Inl _ \<Rightarrow> Inr (r, ws)
      | Inr ws1 \<Rightarrow>
          (case inp_instances (rd_input r) of
             None \<Rightarrow> Inr (r, ws1)
           | Some instances \<Rightarrow>
               if length instances = 0 then Inr (r, ws1)
               else
                 (let r1 = r\<lparr>rd_runCounter := rd_runCounter r + 1\<rparr> in
                  and_then (foldM (\<lambda>ws i. gather_instance env fe precision (rd_runCounter r1) (instances ! i) (instances_gathered i) ws) ws1 order)
                    (\<lambda>ws2. Inr (r1, ws2)))))"

subsection \<open>The readers as a map\<close>

abbreviation rview :: "'f metrics_agent \<Rightarrow> string \<Rightarrow> string \<Rightarrow> nat option" where
  "rview ma \<equiv> cview (ma_InputReaders ma)"

abbreviation reader :: "'f metrics_agent \<Rightarrow> nat \<Rightarrow> 'f input_reader" where
  "reader ma rid \<equiv> ma_readers ma ! rid"

text \<open>Every registered reader exists, was not stopped, carries the name it is registered under, and is registered once.\<close>

definition agent_ok :: "'f metrics_agent \<Rightarrow> bool" where
  "agent_ok ma \<longleftrightarrow>
     distinct (map fst (ma_InputReaders ma)) \<and> (\<forall>(n, m) \<in> set (ma_InputReaders ma). distinct (map fst m)) \<and>
     (\<forall>n c rid. rview ma n c = Some rid \<longrightarrow>
        rid < length (ma_readers ma) \<and> rd_quitChan (reader ma rid) = QuitEmpty \<and> rd_inputName (reader ma rid) = n) \<and>
     (\<forall>n c n' c' rid. rview ma n c = Some rid \<longrightarrow> rview ma n' c' = Some rid \<longrightarrow> n = n' \<and> c = c')"

lemma agent_okD:
  assumes "agent_ok ma"
  shows "distinct (map fst (ma_InputReaders ma))"
    and "map_of (ma_InputReaders ma) n = Some m \<Longrightarrow> distinct (map fst m)"
    and "rview ma n c = Some rid \<Longrightarrow> rid < length (ma_readers ma) \<and> rd_quitChan (reader ma rid) = QuitEmpty \<and> rd_inputName (reader ma rid) = n"
    and "rview ma n c = Some rid \<Longrightarrow> rview ma n' c' = Some rid \<Longrightarrow> n = n' \<and> c = c'"
  using assms unfolding agent_ok_def by (blast dest: map_of_SomeD)+

lemma agent_ok_keys:
  assumes "agent_ok ma"
  shows "distinct (map fst (ma_InputReaders ma))" and "\<forall>(n, m) \<in> set (ma_InputReaders ma). distinct (map fst m)"
  using assms unfolding agent_ok_def by simp_all

text \<open>No reader of an input other than the service inputs is left running without being registered.\<close>

definition no_leak :: "'f metrics_agent \<Rightarrow> bool" where
  "no_leak ma \<longleftrightarrow> (\<forall>rid k. rid < length (ma_readers ma) \<longrightarrow> rd_quitChan (reader ma rid) = QuitEmpty \<longrightarrow>
     rd_inputName (reader ma rid) = FormatInputName ''http'' k \<longrightarrow> \<not> serviceInput k \<longrightarrow>
     (\<exists>c. rview ma (FormatInputName ''http'' k) c = Some rid))"

lemma cview_Add: "cview (Readers_Add n c rid rs) n' c' = (if n' = n \<and> c' = c then Some rid else cview rs n' c')"
  by (auto simp: cview_def Readers_Add_def update_conv' split: option.splits)

lemma cview_Del: "c \<noteq> [] \<Longrightarrow> cview (Readers_Del n c rs) n' c' = (if n' = n \<and> c' = c then None else cview rs n' c')"
  by (auto simp: cview_def Readers_Del_def update_conv' AList.delete_conv' split: option.splits)

lemma keys_Add:
  assumes "distinct (map fst rs)" and "\<forall>(n, m) \<in> set rs. distinct (map fst m)"
  shows "distinct (map fst (Readers_Add n c rid rs))" and "\<forall>(n, m) \<in> set (Readers_Add n c rid rs). distinct (map fst m)"
proof -
  have "distinct (map fst (AList.update c rid (case map_of rs n of None \<Rightarrow> [] | Some m \<Rightarrow> m)))"
    using assms(2) by (auto intro!: distinct_AList_update split: option.splits dest: map_of_SomeD)
  then show "\<forall>(n, m) \<in> set (Readers_Add n c rid rs). distinct (map fst m)"
    unfolding Readers_Add_def using assms(2) set_AList_update by fastforce
qed (simp add: Readers_Add_def distinct_AList_update assms(1))

lemma keys_Del:
  assumes "c \<noteq> []" and "distinct (map fst rs)" and "\<forall>(n, m) \<in> set rs. distinct (map fst m)"
  shows "distinct (map fst (Readers_Del n c rs))" and "\<forall>(n, m) \<in> set (Readers_Del n c rs). distinct (map fst m)"
proof -
  show "\<forall>(n, m) \<in> set (Readers_Del n c rs). distinct (map fst m)"
  proof (cases "map_of rs n")
    case (Some m)
    then have "distinct (map fst (AList.delete c m))" using assms(3) by (auto intro!: distinct_delete dest: map_of_SomeD)
    then show ?thesis unfolding Readers_Del_def using assms(1,3) Some set_AList_update[of n "AList.delete c m" rs] by fastforce
  qed (use assms in \<open>simp add: Readers_Del_def\<close>)
qed (use assms in \<open>simp add: Readers_Del_def distinct_AList_update split: option.split\<close>)

definition add_reader :: "string \<Rightarrow> string \<Rightarrow> 'f input \<Rightarrow> 'f metrics_agent \<Rightarrow> 'f metrics_agent" where
  "add_reader name csum i ma =
     ma\<lparr>ma_InputReaders := Readers_Add name csum (length (ma_readers ma)) (ma_InputReaders ma),
        ma_readers := ma_readers ma @ [newInputReader name i]\<rparr>"

lemma inputGo_add: "inputGo E name csum i ma = (case init_input E i of None \<Rightarrow> ma | Some i' \<Rightarrow> add_reader name csum i' ma)"
  by (simp add: inputGo_def add_reader_def split: option.split)

lemma rview_add_reader:
  "rview (add_reader name csum i ma) n c = (if n = name \<and> c = csum then Some (length (ma_readers ma)) else rview ma n c)"
  by (simp add: add_reader_def cview_Add)

lemma reader_add_reader:
  "rid < length (ma_readers ma) \<Longrightarrow> reader (add_reader name csum i ma) rid = reader ma rid"
  "reader (add_reader name csum i ma) (length (ma_readers ma)) = newInputReader name i"
  "length (ma_readers (add_reader name csum i ma)) = Suc (length (ma_readers ma))"
  by (simp_all add: add_reader_def nth_append)

lemma add_reader_ok:
  assumes ok: "agent_ok ma"
  shows "agent_ok (add_reader name csum i ma)"
  unfolding agent_ok_def
proof (intro conjI allI impI)
  note D = agent_okD[OF ok]
  show "distinct (map fst (ma_InputReaders (add_reader name csum i ma)))"
    "\<forall>(n, m) \<in> set (ma_InputReaders (add_reader name csum i ma)). distinct (map fst m)"
    using keys_Add[OF agent_ok_keys[OF ok]] by (simp_all add: add_reader_def)
  fix n c n' c' rid
  assume v: "rview (add_reader name csum i ma) n c = Some rid"
  then have *: "(n = name \<and> c = csum \<and> rid = length (ma_readers ma)) \<or> (rview ma n c = Some rid \<and> rid < length (ma_readers ma))"
    using D(3) by (auto simp: rview_add_reader split: if_splits)
  then show "rid < length (ma_readers (add_reader name csum i ma))"
    "rd_quitChan (reader (add_reader name csum i ma) rid) = QuitEmpty"
    "rd_inputName (reader (add_reader name csum i ma) rid) = n"
    using D(3) by (auto simp: reader_add_reader newInputReader_def less_Suc_eq)
  assume "rview (add_reader name csum i ma) n' c' = Some rid"
  then have "(n' = name \<and> c' = csum \<and> rid = length (ma_readers ma)) \<or> (rview ma n' c' = Some rid \<and> rid < length (ma_readers ma))"
    using D(3) by (auto simp: rview_add_reader split: if_splits)
  with * D(4) show "n = n'" "c = c'" by fastforce+
qed

lemma add_reader_no_leak:
  assumes leak: "no_leak ma" and new: "rview ma name csum = None \<or> (\<exists>k. name = FormatInputName ''http'' k \<and> serviceInput k)"
  shows "no_leak (add_reader name csum i ma)"
  unfolding no_leak_def
proof (intro allI impI)
  fix rid k
  assume r: "rid < length (ma_readers (add_reader name csum i ma))" "rd_quitChan (reader (add_reader name csum i ma) rid) = QuitEmpty"
    "rd_inputName (reader (add_reader name csum i ma) rid) = FormatInputName ''http'' k" "\<not> serviceInput k"
  show "\<exists>c. rview (add_reader name csum i ma) (FormatInputName ''http'' k) c = Some rid"
  proof (cases "rid < length (ma_readers ma)")
    case True
    then obtain c where "rview ma (FormatInputName ''http'' k) c = Some rid"
      using leak r by (auto simp: no_leak_def reader_add_reader)
    with new r(4) show ?thesis by (intro exI[of _ c]) (auto simp: rview_add_reader)
  next
    case False
    with r have "rid = length (ma_readers ma)" by (simp add: reader_add_reader)
    with r show ?thesis by (intro exI[of _ csum]) (simp add: rview_add_reader reader_add_reader newInputReader_def)
  qed
qed

text \<open>Deregistering one configuration.\<close>

lemma stop_none:
  assumes "csum \<notin> fst ` set m"
  shows "foldM (\<lambda>ma (isum, rid). if csum = isum then stop_reader rid ma else Inr ma) ma m = Inr ma"
  using assms by (induction m) auto

lemma stop_one:
  assumes "distinct (map fst m)"
  shows "foldM (\<lambda>ma (isum, rid). if csum = isum then stop_reader rid ma else Inr ma) ma m =
    (case map_of m csum of None \<Rightarrow> Inr ma | Some rid \<Rightarrow> stop_reader rid ma)"
  using assms
proof (induction m)
  case (Cons e m)
  obtain isum rid where e: "e = (isum, rid)" by fastforce
  show ?case
  proof (cases "csum = isum")
    case True
    then have "csum \<notin> fst ` set m" using Cons.prems e by simp
    from stop_none[OF this] True show ?thesis by (cases "stop_reader rid ma") (simp_all add: e)
  next
    case False
    with Cons show ?thesis by (simp add: e)
  qed
qed simp

lemma stop_reader_ok:
  assumes ok: "agent_ok ma" and v: "rview ma name csum = Some rid"
  shows "stop_reader rid ma = Inr (ma\<lparr>ma_readers := (ma_readers ma)[rid := (reader ma rid)\<lparr>rd_quitChan := QuitSent\<rparr>]\<rparr>)"
  using agent_okD(3)[OF ok v] by (simp add: stop_reader_def InputReader_Stop_def)

definition drop_reader :: "string \<Rightarrow> string \<Rightarrow> 'f metrics_agent \<Rightarrow> 'f metrics_agent" where
  "drop_reader name csum ma =
     (case rview ma name csum of
        None \<Rightarrow> ma\<lparr>ma_InputReaders := Readers_Del name csum (ma_InputReaders ma)\<rparr>
      | Some rid \<Rightarrow> ma\<lparr>ma_InputReaders := Readers_Del name csum (ma_InputReaders ma),
                       ma_readers := (ma_readers ma)[rid := (reader ma rid)\<lparr>rd_quitChan := QuitSent\<rparr>]\<rparr>)"

lemma DeregisterInput_drop:
  assumes ok: "agent_ok ma" and c: "csum \<noteq> []"
  shows "DeregisterInput name csum ma = Inr (drop_reader name csum ma)"
proof (cases "map_of (ma_InputReaders ma) name")
  case None
  then show ?thesis using c by (simp add: DeregisterInput_def drop_reader_def cview_def Readers_Del_def)
next
  case (Some m)
  then have m: "distinct (map fst m)" and v: "rview ma name csum = map_of m csum"
    using agent_okD(2)[OF ok] by (auto simp: cview_def)
  show ?thesis
    using Some c v stop_one[OF m, of csum ma] stop_reader_ok[OF ok, of name csum]
    by (auto simp: DeregisterInput_def drop_reader_def split: option.splits)
qed

lemma rview_drop_reader:
  assumes "csum \<noteq> []"
  shows "rview (drop_reader name csum ma) n c = (if n = name \<and> c = csum then None else rview ma n c)"
  using cview_Del[OF assms] by (simp add: drop_reader_def split: option.split)

lemma nth_update_field:
  assumes "g (f (xs ! i)) = g (xs ! i)"
  shows "g (xs[i := f (xs ! i)] ! j) = g (xs ! j)"
proof (cases "j = i \<and> i < length xs")
  case False
  then show ?thesis by (cases "j = i") (simp_all add: list_update_beyond)
qed (use assms in simp)

lemma drop_reader_readers:
  "length (ma_readers (drop_reader name csum ma)) = length (ma_readers ma)"
  "rd_inputName (reader (drop_reader name csum ma) j) = rd_inputName (reader ma j)"
  "rview ma name csum \<noteq> Some j \<Longrightarrow> reader (drop_reader name csum ma) j = reader ma j"
  "rview ma name csum = Some j \<Longrightarrow> j < length (ma_readers ma) \<Longrightarrow> rd_quitChan (reader (drop_reader name csum ma) j) = QuitSent"
  using nth_update_field[of rd_inputName "\<lambda>r. r\<lparr>rd_quitChan := QuitSent\<rparr>" "ma_readers ma" _ j]
  by (cases "rview ma name csum"; simp add: drop_reader_def)+

lemma drop_reader_ok:
  assumes ok: "agent_ok ma" and c: "csum \<noteq> []"
  shows "agent_ok (drop_reader name csum ma)"
  unfolding agent_ok_def
proof (intro conjI allI impI)
  note D = agent_okD[OF ok]
  have i: "ma_InputReaders (drop_reader name csum ma) = Readers_Del name csum (ma_InputReaders ma)"
    by (simp add: drop_reader_def split: option.split)
  show "distinct (map fst (ma_InputReaders (drop_reader name csum ma)))"
    "\<forall>(n, m) \<in> set (ma_InputReaders (drop_reader name csum ma)). distinct (map fst m)"
    using keys_Del[OF c agent_ok_keys[OF ok]] unfolding i by simp_all
  fix n c' n' c'' rid
  assume "rview (drop_reader name csum ma) n c' = Some rid"
  then have v: "rview ma n c' = Some rid" "\<not> (n = name \<and> c' = csum)" by (auto simp: rview_drop_reader[OF c] split: if_splits)
  then have "rview ma name csum \<noteq> Some rid" using D(4) by blast
  with D(3)[OF v(1)] show "rid < length (ma_readers (drop_reader name csum ma))"
    "rd_quitChan (reader (drop_reader name csum ma) rid) = QuitEmpty"
    "rd_inputName (reader (drop_reader name csum ma) rid) = n"
    by (simp_all add: drop_reader_readers)
  assume "rview (drop_reader name csum ma) n' c'' = Some rid"
  then have "rview ma n' c'' = Some rid" by (auto simp: rview_drop_reader[OF c] split: if_splits)
  with v D(4) show "n = n'" "c' = c''" by blast+
qed

lemma drop_reader_no_leak:
  assumes ok: "agent_ok ma" and leak: "no_leak ma" and c: "csum \<noteq> []"
  shows "no_leak (drop_reader name csum ma)"
  unfolding no_leak_def
proof (intro allI impI)
  fix rid k
  assume r: "rid < length (ma_readers (drop_reader name csum ma))" "rd_quitChan (reader (drop_reader name csum ma) rid) = QuitEmpty"
    "rd_inputName (reader (drop_reader name csum ma) rid) = FormatInputName ''http'' k" "\<not> serviceInput k"
  then have n: "rview ma name csum \<noteq> Some rid" using drop_reader_readers(4)[of ma name csum rid] by (auto simp: drop_reader_readers(1))
  with r leak obtain c' where c': "rview ma (FormatInputName ''http'' k) c' = Some rid"
    by (auto simp: no_leak_def drop_reader_readers)
  with n have "\<not> (FormatInputName ''http'' k = name \<and> c' = csum)" by auto
  with c' show "\<exists>c. rview (drop_reader name csum ma) (FormatInputName ''http'' k) c = Some rid"
    by (intro exI[of _ c']) (simp add: rview_drop_reader[OF c])
qed

subsection \<open>Registering configurations\<close>

definition filter_passes :: "string list \<Rightarrow> string \<Rightarrow> bool" where
  "filter_passes filters k \<longleftrightarrow> \<not> (length filters > 0 \<and> k \<notin> set filters)"

text \<open>The input that a configuration starts: it must pass the filter, be known, load and initialise.\<close>

definition starts :: "'f agent_env \<Rightarrow> string list \<Rightarrow> string \<Rightarrow> config_with_format \<Rightarrow> 'f input option" where
  "starts E filters k c =
     (if filter_passes filters k \<and> ae_InputCreators E k then Option.bind (ae_LoadSingleConfig E k c) (init_input E) else None)"

abbreviation http_name :: "string \<Rightarrow> string" where
  "http_name k \<equiv> FormatInputName ''http'' k"

lemma Parse_http: "ParseInputName (http_name k) = (''http'', k)"
  by (rule ParseInputName_Format) simp

lemma RegisterInput_one:
  assumes "''http'' \<in> set (ae_providers E)"
  shows "RegisterInput E (http_name k) [c] ma =
    Inr (case starts E (ma_InputFilters ma) k c of None \<Rightarrow> ma | Some i \<Rightarrow> add_reader (http_name k) (cf_checkSum c) i ma)"
  using assms
  by (auto simp: RegisterInput_def Parse_http FilterPass_def starts_def filter_passes_def LoadInputConfig_def HTTP_LoadInputConfig_def
      inputGo_add split: option.split)

lemma HTTP_LoadInputConfig_snoc:
  "HTTP_LoadInputConfig load (cs @ [c]) =
     (case load c of None \<Rightarrow> HTTP_LoadInputConfig load cs | Some i \<Rightarrow> AList.update (cf_checkSum c) i (HTTP_LoadInputConfig load cs))"
  unfolding HTTP_LoadInputConfig_def by simp

lemma AList_update_new: "k \<notin> fst ` set al \<Longrightarrow> AList.update k v al = al @ [(k, v)]"
  by (induction al) auto

lemma HTTP_LoadInputConfig_keys: "fst ` set (HTTP_LoadInputConfig load cs) \<subseteq> cf_checkSum ` set cs"
proof (induction cs rule: rev_induct)
  case (snoc c cs)
  have "fst ` set (AList.update (cf_checkSum c) i (HTTP_LoadInputConfig load cs)) \<subseteq> insert (cf_checkSum c) (cf_checkSum ` set cs)" for i
    using image_mono[OF set_AList_update[of "cf_checkSum c" i "HTTP_LoadInputConfig load cs"], of fst] snoc by simp blast
  then show ?case using snoc by (auto simp: HTTP_LoadInputConfig_snoc split: option.split)
qed (simp add: HTTP_LoadInputConfig_def)

lemma add_reader_filters [simp]: "ma_InputFilters (add_reader n c i ma) = ma_InputFilters ma"
  by (simp add: add_reader_def)

lemma inputGo_filters: "ma_InputFilters (foldl (\<lambda>ma (csum, i). inputGo E n csum i ma) ma xs) = ma_InputFilters ma"
  by (induction xs arbitrary: ma) (auto simp: inputGo_add split: option.split)

lemma RegisterInput_many:
  assumes p: "''http'' \<in> set (ae_providers E)" and d: "distinct (map cf_checkSum cs)"
  shows "RegisterInput E (http_name k) cs ma = foldM (\<lambda>ma c. RegisterInput E (http_name k) [c] ma) ma cs"
  using d
proof (induction cs rule: rev_induct)
  case Nil
  then show ?case using p
    by (simp add: RegisterInput_def Parse_http LoadInputConfig_def HTTP_LoadInputConfig_def)
next
  case (snoc c cs)
  define load where "load = ae_LoadSingleConfig E k"
  define ok where "ok \<longleftrightarrow> FilterPass ma k \<and> ae_InputCreators E k"
  define run where "run xs = foldl (\<lambda>ma (csum, i). inputGo E (http_name k) csum i ma) ma xs" for xs
  have R: "RegisterInput E (http_name k) cs' ma = Inr (if ok then run (HTTP_LoadInputConfig load cs') else ma)" for cs'
    using p by (auto simp: RegisterInput_def Parse_http LoadInputConfig_def load_def ok_def run_def)
  have new: "cf_checkSum c \<notin> fst ` set (HTTP_LoadInputConfig load cs)"
    using snoc.prems HTTP_LoadInputConfig_keys[of load cs] by auto
  have ih: "foldM (\<lambda>ma c. RegisterInput E (http_name k) [c] ma) ma cs = Inr (if ok then run (HTTP_LoadInputConfig load cs) else ma)"
    using snoc R by simp
  have f: "ma_InputFilters (run xs) = ma_InputFilters ma" for xs by (simp add: run_def inputGo_filters)
  have "run (HTTP_LoadInputConfig load (cs @ [c])) =
      (case load c of None \<Rightarrow> run (HTTP_LoadInputConfig load cs)
       | Some i \<Rightarrow> inputGo E (http_name k) (cf_checkSum c) i (run (HTTP_LoadInputConfig load cs)))"
    by (simp add: HTTP_LoadInputConfig_snoc AList_update_new[OF new] run_def split: option.split)
  then show ?case
    unfolding foldM_append ih R
    by (auto simp: RegisterInput_one[OF p] starts_def f ok_def load_def FilterPass_def filter_passes_def inputGo_add split: option.split)
qed

text \<open>The invariant of the agent beside the provider, and the inputs that are registered.\<close>

definition agent_inv :: "string list \<Rightarrow> 'f metrics_agent \<Rightarrow> bool" where
  "agent_inv F ma \<longleftrightarrow> agent_ok ma \<and> no_leak ma \<and> ma_InputFilters ma = F"

definition registered :: "'f metrics_agent \<Rightarrow> string \<Rightarrow> string \<Rightarrow> bool" where
  "registered ma k c \<longleftrightarrow> rview ma (http_name k) c \<noteq> None"

definition starts_in :: "'f agent_env \<Rightarrow> string list \<Rightarrow> (string \<Rightarrow> string \<Rightarrow> config_with_format option) \<Rightarrow> string \<Rightarrow> string \<Rightarrow> bool" where
  "starts_in E F W k s \<longleftrightarrow> (\<exists>c. W k s = Some c \<and> starts E F k c \<noteq> None)"

lemma register_step:
  assumes p: "''http'' \<in> set (ae_providers E)" and inv: "agent_inv F ma" and new: "serviceInput k \<or> \<not> registered ma k (cf_checkSum c)"
  shows "\<exists>ma'. RegisterInput E (http_name k) [c] ma = Inr ma' \<and> agent_inv F ma' \<and>
    (\<forall>j s. registered ma' j s \<longleftrightarrow> registered ma j s \<or> (j = k \<and> s = cf_checkSum c \<and> starts E F k c \<noteq> None))"
proof (cases "starts E F k c")
  case None
  then show ?thesis using inv by (simp add: RegisterInput_one[OF p] agent_inv_def)
next
  case (Some i)
  have "rview ma (http_name k) (cf_checkSum c) = None \<or> (\<exists>k'. http_name k = http_name k' \<and> serviceInput k')"
    using new by (auto simp: registered_def)
  then have "agent_inv F (add_reader (http_name k) (cf_checkSum c) i ma)"
    using inv by (auto simp: agent_inv_def add_reader_ok intro!: add_reader_no_leak)
  then show ?thesis using Some inv
    by (auto simp: RegisterInput_one[OF p] agent_inv_def registered_def rview_add_reader)
qed

lemma register_all:
  assumes p: "''http'' \<in> set (ae_providers E)" and "distinct (map cf_checkSum cs)" and "agent_inv F ma"
    and "serviceInput k \<or> (\<forall>c \<in> set cs. \<not> registered ma k (cf_checkSum c))"
  shows "\<exists>ma'. foldM (\<lambda>ma c. RegisterInput E (http_name k) [c] ma) ma cs = Inr ma' \<and> agent_inv F ma' \<and>
    (\<forall>j s. registered ma' j s \<longleftrightarrow> registered ma j s \<or> (j = k \<and> (\<exists>c \<in> set cs. s = cf_checkSum c \<and> starts E F k c \<noteq> None)))"
  using assms(2-4)
proof (induction cs arbitrary: ma)
  case (Cons c cs)
  obtain ma1 where 1: "RegisterInput E (http_name k) [c] ma = Inr ma1" "agent_inv F ma1"
    "\<And>j s. registered ma1 j s \<longleftrightarrow> registered ma j s \<or> (j = k \<and> s = cf_checkSum c \<and> starts E F k c \<noteq> None)"
    using register_step[OF p Cons.prems(2), of k c] Cons.prems(3) by auto
  have "serviceInput k \<or> (\<forall>c \<in> set cs. \<not> registered ma1 k (cf_checkSum c))"
    using Cons.prems 1(3) by (auto simp: rev_image_eqI)
  with Cons.IH[OF _ 1(2)] Cons.prems obtain ma2 where 2: "foldM (\<lambda>ma c. RegisterInput E (http_name k) [c] ma) ma1 cs = Inr ma2" "agent_inv F ma2"
    "\<And>j s. registered ma2 j s \<longleftrightarrow> registered ma1 j s \<or> (j = k \<and> (\<exists>c \<in> set cs. s = cf_checkSum c \<and> starts E F k c \<noteq> None))" by auto
  then show ?case using 1 by (auto simp: 1(3))
qed auto

subsection \<open>Deregistering configurations\<close>

lemma deregister_step:
  assumes inv: "agent_inv F ma" and c: "csum \<noteq> []"
  shows "\<exists>ma'. DeregisterInput (http_name k) csum ma = Inr ma' \<and> agent_inv F ma' \<and>
    (\<forall>j s. registered ma' j s \<longleftrightarrow> registered ma j s \<and> \<not> (j = k \<and> s = csum))"
proof -
  have f: "ma_InputFilters (drop_reader n csum ma) = ma_InputFilters ma" for n
    by (simp add: drop_reader_def split: option.split)
  show ?thesis
    using inv DeregisterInput_drop[OF _ c, of ma "http_name k"] drop_reader_ok[OF _ c] drop_reader_no_leak[OF _ _ c]
    by (auto simp: agent_inv_def f registered_def rview_drop_reader[OF c])
qed

lemma deregister_all:
  assumes "agent_inv F ma" and "\<forall>(csum, c) \<in> set m. csum \<noteq> []"
  shows "\<exists>ma'. foldM (\<lambda>ma (csum, _). DeregisterInput (http_name k) csum ma) ma m = Inr ma' \<and> agent_inv F ma' \<and>
    (\<forall>j s. registered ma' j s \<longleftrightarrow> registered ma j s \<and> \<not> (j = k \<and> s \<in> fst ` set m))"
  using assms
proof (induction m arbitrary: ma)
  case (Cons e m)
  obtain csum c where e: "e = (csum, c)" by fastforce
  obtain ma1 where 1: "DeregisterInput (http_name k) csum ma = Inr ma1" "agent_inv F ma1"
    "\<And>j s. registered ma1 j s \<longleftrightarrow> registered ma j s \<and> \<not> (j = k \<and> s = csum)"
    using deregister_step[OF Cons.prems(1), of csum k] Cons.prems(2) e by auto
  with Cons.IH[OF 1(2)] Cons.prems(2) show ?case by (auto simp: e)
qed auto

definition sums_nonempty :: "inner_cache \<Rightarrow> bool" where
  "sums_nonempty ic \<longleftrightarrow> (\<forall>(k, m) \<in> set ic. \<forall>(csum, c) \<in> set m. csum \<noteq> [])"

lemma sums_nonempty_view:
  assumes ok: "cache_ok ic" and s: "\<And>k. cview ic k [] = None"
  shows "sums_nonempty ic"
proof -
  have "csum \<noteq> []" if "(k, m) \<in> set ic" "(csum, c) \<in> set m" for k m csum c
  proof -
    have "map_of ic k = Some m" "inner_ok m" using that(1) ok by (auto simp: cache_ok_def)
    moreover then have "map_of m csum = Some c" using that(2) by (simp add: inner_ok_def)
    ultimately show ?thesis using s[of k] by (auto simp: cview_def)
  qed
  then show ?thesis by (auto simp: sums_nonempty_def)
qed

lemma preStop_law:
  assumes inv: "agent_inv F ma" and d: "sums_nonempty (hp_del hp)"
  shows "\<exists>ma'. preStop hp k ma = Inr ma' \<and> agent_inv F ma' \<and>
    (\<forall>j s. j \<noteq> k \<or> \<not> serviceInput k \<longrightarrow> registered ma' j s = registered ma j s)"
proof (cases "serviceInput k")
  case True
  show ?thesis
  proof (cases "map_of (hp_del hp) k")
    case (Some m)
    then have "(k, m) \<in> set (hp_del hp)" by (rule map_of_SomeD)
    then have "\<forall>(csum, c) \<in> set m. csum \<noteq> []" using d unfolding sums_nonempty_def by blast
    from deregister_all[OF inv this, of k] Some True show ?thesis by (auto simp: preStop_def)
  qed (use inv True in \<open>simp add: preStop_def\<close>)
qed (use inv in \<open>simp add: preStop_def\<close>)

lemma inner_ok_sums:
  assumes "inner_ok m"
  shows "distinct (map cf_checkSum (map snd m))"
proof -
  have "map cf_checkSum (map snd m) = map fst m" using assms by (auto simp: inner_ok_def)
  with assms show ?thesis by (simp only: inner_ok_def)
qed

lemma inner_ok_in:
  assumes m: "inner_ok m"
  shows "c \<in> snd ` set m \<and> cf_checkSum c = s \<longleftrightarrow> map_of m s = Some c"
proof -
  have "map_of m s = Some c \<longleftrightarrow> (s, c) \<in> set m" using m by (simp add: inner_ok_def)
  moreover have "cf_checkSum c' = s'" if "(s', c') \<in> set m" for s' c' using m that by (auto simp: inner_ok_def)
  ultimately show ?thesis by (auto simp: rev_image_eqI)
qed

lemma foldM_snd: "foldM (\<lambda>a (_, c). f a c) a m = foldM f a (map snd m)"
proof (induction m arbitrary: a)
  case (Cons e m)
  then show ?case by (cases e) simp
qed simp

lemma reload_adds_law:
  assumes p: "''http'' \<in> set (ae_providers E)" and d: "sums_nonempty (hp_del hp)"
    and "cache_ok adds" and "agent_inv F ma" and "\<And>k s. \<not> serviceInput k \<Longrightarrow> cview adds k s \<noteq> None \<Longrightarrow> \<not> registered ma k s"
  shows "\<exists>ma'. foldM (\<lambda>ma (inputKey, cm).
         and_then (preStop hp inputKey ma)
           (\<lambda>ma1. foldM (\<lambda>ma (_, conf). RegisterInput E (http_name inputKey) [conf] ma) ma1 cm))
       ma adds = Inr ma' \<and> agent_inv F ma' \<and>
    (\<forall>k s. \<not> serviceInput k \<longrightarrow> (registered ma' k s \<longleftrightarrow> registered ma k s \<or> starts_in E F (cview adds) k s))"
  using assms(3-5)
proof (induction adds arbitrary: ma)
  case (Cons e adds)
  obtain k m where e: "e = (k, m)" by fastforce
  have ok: "cache_ok adds" and m: "inner_ok m" and k: "k \<notin> fst ` set adds" using Cons.prems(1) e by (auto simp: cache_ok_def)
  obtain ma1 where 1: "preStop hp k ma = Inr ma1" "agent_inv F ma1"
    "\<And>j s. j \<noteq> k \<or> \<not> serviceInput k \<Longrightarrow> registered ma1 j s = registered ma j s"
    using preStop_law[OF Cons.prems(2) d, of k] by auto
  have new: "serviceInput k \<or> (\<forall>c \<in> set (map snd m). \<not> registered ma1 k (cf_checkSum c))"
  proof (cases "serviceInput k", simp, intro disjI2 ballI)
    fix c assume k: "\<not> serviceInput k" and "c \<in> set (map snd m)"
    then have "map_of m (cf_checkSum c) = Some c" using inner_ok_in[OF m, of c "cf_checkSum c"] by simp
    with Cons.prems(3)[OF k, of "cf_checkSum c"] 1(3)[of k] k show "\<not> registered ma1 k (cf_checkSum c)" by (simp add: e cview_Cons)
  qed
  obtain ma2 where 2: "foldM (\<lambda>ma c. RegisterInput E (http_name k) [c] ma) ma1 (map snd m) = Inr ma2" "agent_inv F ma2"
    "\<And>j s. registered ma2 j s \<longleftrightarrow> registered ma1 j s \<or> (j = k \<and> (\<exists>c \<in> set (map snd m). s = cf_checkSum c \<and> starts E F k c \<noteq> None))"
    using register_all[OF p inner_ok_sums[OF m] 1(2) new] by auto
  have v2: "registered ma2 j s \<longleftrightarrow> registered ma j s \<or> (j = k \<and> starts_in E F (\<lambda>_. map_of m) k s)" if "\<not> serviceInput j" for j s
  proof -
    have "(\<exists>c \<in> set (map snd m). s = cf_checkSum c \<and> starts E F k c \<noteq> None) \<longleftrightarrow> (\<exists>c. map_of m s = Some c \<and> starts E F k c \<noteq> None)"
      using inner_ok_in[OF m, of _ s] by (metis set_map)
    with 2(3) 1(3)[of j s] that show ?thesis by (auto simp: starts_in_def)
  qed
  have "\<not> registered ma2 j s" if "\<not> serviceInput j" "cview adds j s \<noteq> None" for j s
  proof -
    have "j \<noteq> k" using that(2) cview_notin[OF k] by auto
    with that Cons.prems(3)[of j s] v2[of j s] show ?thesis by (simp add: e cview_Cons)
  qed
  from Cons.IH[OF ok 2(2) this] obtain ma3 where 3: "foldM (\<lambda>ma (inputKey, cm).
         and_then (preStop hp inputKey ma) (\<lambda>ma1. foldM (\<lambda>ma (_, conf). RegisterInput E (http_name inputKey) [conf] ma) ma1 cm))
       ma2 adds = Inr ma3" "agent_inv F ma3"
    "\<And>k s. \<not> serviceInput k \<Longrightarrow> registered ma3 k s \<longleftrightarrow> registered ma2 k s \<or> starts_in E F (cview adds) k s" by blast
  have eq: "starts_in E F (cview (e # adds)) j s \<longleftrightarrow> (j = k \<and> starts_in E F (\<lambda>_. map_of m) k s) \<or> starts_in E F (cview adds) j s" for j s
    using cview_notin[OF k] by (auto simp: starts_in_def e cview_Cons)
  show ?case
  proof (intro exI conjI allI impI)
    show "foldM (\<lambda>ma (inputKey, cm).
         and_then (preStop hp inputKey ma) (\<lambda>ma1. foldM (\<lambda>ma (_, conf). RegisterInput E (http_name inputKey) [conf] ma) ma1 cm))
       ma (e # adds) = Inr ma3" using 1(1) 2(1) 3(1) by (simp add: e foldM_snd)
    show "registered ma3 j s \<longleftrightarrow> registered ma j s \<or> starts_in E F (cview (e # adds)) j s" if "\<not> serviceInput j" for j s
      unfolding eq 3(3)[OF that] v2[OF that] by blast
  qed (rule 3(2))
qed (simp add: starts_in_def)

lemma reload_dels_law:
  assumes "cache_ok dels" and "sums_nonempty dels" and "agent_inv F ma"
  shows "\<exists>ma'. foldM (\<lambda>ma (inputKey, cm).
         if serviceInput inputKey then Inr ma
         else foldM (\<lambda>ma (csum, _). DeregisterInput (http_name inputKey) csum ma) ma cm) ma dels = Inr ma' \<and> agent_inv F ma' \<and>
    (\<forall>k s. \<not> serviceInput k \<longrightarrow> (registered ma' k s \<longleftrightarrow> registered ma k s \<and> cview dels k s = None))"
  using assms
proof (induction dels arbitrary: ma)
  case (Cons e dels)
  obtain k m where e: "e = (k, m)" by fastforce
  have ok: "cache_ok dels" "sums_nonempty dels" and k: "k \<notin> fst ` set dels" and m: "\<forall>(csum, c) \<in> set m. csum \<noteq> []"
    using Cons.prems(1,2) e by (auto simp: cache_ok_def sums_nonempty_def)
  obtain ma1 where 1: "(if serviceInput k then Inr ma else foldM (\<lambda>ma (csum, _). DeregisterInput (http_name k) csum ma) ma m) = Inr ma1"
    "agent_inv F ma1" "\<And>j s. \<not> serviceInput j \<Longrightarrow> registered ma1 j s \<longleftrightarrow> registered ma j s \<and> \<not> (j = k \<and> s \<in> fst ` set m)"
    using deregister_all[OF Cons.prems(3) m, of k] Cons.prems(3) by (cases "serviceInput k") auto
  obtain ma2 where 2: "foldM (\<lambda>ma (inputKey, cm).
         if serviceInput inputKey then Inr ma
         else foldM (\<lambda>ma (csum, _). DeregisterInput (http_name inputKey) csum ma) ma cm) ma1 dels = Inr ma2" "agent_inv F ma2"
    "\<And>k s. \<not> serviceInput k \<Longrightarrow> registered ma2 k s \<longleftrightarrow> registered ma1 k s \<and> cview dels k s = None"
    using Cons.IH[OF ok 1(2)] by blast
  have "cview (e # dels) j s = None \<longleftrightarrow> \<not> (j = k \<and> s \<in> fst ` set m) \<and> cview dels j s = None" for j s
    using cview_notin[OF k] by (auto simp: e cview_Cons map_of_eq_None_iff)
  with 1 2 show ?case by (auto simp: e)
qed simp

subsection \<open>The inputs follow the server\<close>

text \<open>
  What is relied on of the server: no configuration is null, checksums are not empty and identify the
  configuration of an input, and a version identifies all configurations.
\<close>

definition server_ok :: "(string \<Rightarrow> string) \<Rightarrow> http_response list \<Rightarrow> bool" where
  "server_ok lower rs \<longleftrightarrow>
     (\<forall>r \<in> set rs. no_nil r \<and> (\<forall>k. cview (wanted lower r) k [] = None)) \<and>
     (\<forall>r \<in> set rs. \<forall>r' \<in> set rs. \<forall>k s c c'. cview (wanted lower r) k s = Some c \<longrightarrow> cview (wanted lower r') k s = Some c' \<longrightarrow> c = c') \<and>
     (\<forall>r \<in> set rs. \<forall>r' \<in> set rs. hr_Version r = hr_Version r' \<longrightarrow> cview (wanted lower r) = cview (wanted lower r'))"

text \<open>The configurations of the last answer that has a version.\<close>

definition latest :: "(string \<Rightarrow> string) \<Rightarrow> http_response list \<Rightarrow> string \<Rightarrow> string \<Rightarrow> config_with_format option" where
  "latest lower rs =
     (let xs = filter (\<lambda>r. hr_Version r \<noteq> []) rs in if xs = [] then \<lambda>_ _. None else cview (wanted lower (last xs)))"

lemma latest_Nil [simp]: "latest lower [] = (\<lambda>_ _. None)"
  by (simp add: latest_def)

lemma latest_snoc: "latest lower (rs @ [r]) = (if hr_Version r \<noteq> [] then cview (wanted lower r) else latest lower rs)"
  by (simp add: latest_def Let_def)

lemma latest_cases: "latest lower rs = (\<lambda>_ _. None) \<or> (\<exists>r \<in> set rs. latest lower rs = cview (wanted lower r))"
proof (cases "filter (\<lambda>r. hr_Version r \<noteq> []) rs")
  case (Cons x xs)
  then have "last (x # xs) \<in> set rs" by (metis filter_is_subset last_in_set list.distinct(1) subsetD)
  with Cons show ?thesis unfolding latest_def by (simp only: Let_def list.distinct if_False) blast
qed (simp add: latest_def)

text \<open>The state of the provider after the answers \<open>rs\<close>.\<close>

definition provider_inv :: "(string \<Rightarrow> string) \<Rightarrow> http_response list \<Rightarrow> http_provider \<Rightarrow> bool" where
  "provider_inv lower rs hp \<longleftrightarrow>
     cache_ok (hp_cache hp) \<and> cview (hp_cache hp) = latest lower rs \<and>
     (hp_version hp = [] \<or> (\<exists>r \<in> set rs. hp_version hp = hr_Version r \<and> latest lower rs = cview (wanted lower r)))"

lemma server_okD:
  assumes "server_ok lower rs" and "r \<in> set rs"
  shows "no_nil r" and "cview (wanted lower r) k [] = None"
    and "r' \<in> set rs \<Longrightarrow> cview (wanted lower r) k s = Some c \<Longrightarrow> cview (wanted lower r') k s = Some c' \<Longrightarrow> c = c'"
    and "r' \<in> set rs \<Longrightarrow> hr_Version r = hr_Version r' \<Longrightarrow> cview (wanted lower r) = cview (wanted lower r')"
  using assms unfolding server_ok_def by blast+

lemma server_ok_prefix:
  assumes "server_ok lower (rs @ rs')"
  shows "server_ok lower rs"
proof -
  note D = server_okD[OF assms]
  have "r \<in> set (rs @ rs')" if "r \<in> set rs" for r using that by simp
  then show ?thesis
    unfolding server_ok_def using D(1,2) by (intro conjI ballI allI impI) (erule D(3)[rotated -2] D(4)[rotated -1] | simp)+
qed

lemma same_domain_same_view:
  assumes ok: "server_ok lower (rs @ [r])"
    and dom: "\<And>k s. (latest lower rs k s = None) = (cview (wanted lower r) k s = None)"
  shows "latest lower rs = cview (wanted lower r)"
proof (intro ext)
  fix k s
  consider "latest lower rs = (\<lambda>_ _. None)" | r' where "r' \<in> set rs" "latest lower rs = cview (wanted lower r')"
    using latest_cases by blast
  then show "latest lower rs k s = cview (wanted lower r) k s"
  proof cases
    case 2
    have "c = c'" if "cview (wanted lower r') k s = Some c" "cview (wanted lower r) k s = Some c'" for c c'
      using server_okD(3)[OF ok, of r' r] 2(1) that by simp
    moreover have "(cview (wanted lower r') k s = None) = (cview (wanted lower r) k s = None)" using dom[of k s] 2(2) by simp
    ultimately have "cview (wanted lower r') k s = cview (wanted lower r) k s"
      by (metis not_None_eq)
    with 2(2) show ?thesis by simp
  qed (use dom[of k s] in simp)
qed

text \<open>A load whose result is known: the provider afterwards, and what it tells to add and to delete.\<close>

lemma LoadConfig_law:
  assumes ok: "server_ok lower (rs @ [r])" and inv: "provider_inv lower rs hp"
  shows "\<exists>hp1 changed. HTTP_LoadConfig lower (Some r) hp = Inr (hp1, Some changed) \<and> provider_inv lower (rs @ [r]) hp1 \<and>
    (if changed then
       cache_ok (hp_add hp1) \<and> cache_ok (hp_del hp1) \<and>
       (\<forall>k s. cview (hp_add hp1) k s = (if latest lower rs k s = None then latest lower (rs @ [r]) k s else None)) \<and>
       (\<forall>k s. cview (hp_del hp1) k s = (if latest lower (rs @ [r]) k s = None then latest lower rs k s else None)) \<and>
       cache_ok (hp_configMap hp1) \<and> cview (hp_configMap hp1) = latest lower (rs @ [r])
     else latest lower (rs @ [r]) = latest lower rs \<and> hp_configMap hp1 = hp_configMap hp)"
proof -
  have nn: "no_nil r" by (rule server_okD(1)[OF ok]) simp
  have vers: "cview (wanted lower r') = cview (wanted lower r)" if "r' \<in> set rs" "hr_Version r' = hr_Version r" for r'
    using server_okD(4)[OF ok, of r' r] that by simp
  note load = LoadConfig_cases[OF nn, of lower hp]
  have c: "cache_ok (hp_cache hp)" "cview (hp_cache hp) = latest lower rs" using inv by (simp_all add: provider_inv_def)
  note wok = wanted_ok[OF nn, of lower]
  define hp1 where "hp1 = caculateDiff (wanted lower r) hp"
  note law = caculateDiff_law[OF c(1) wok, folded hp1_def]
  have keep: "provider_inv lower (rs @ [r]) h" if "provider_inv lower rs h" "latest lower (rs @ [r]) = latest lower rs" for h
    using that by (auto simp: provider_inv_def)
  consider (empty) "hr_Version r = []" | (same) "hr_Version r \<noteq> []" "hr_Version r = hp_version hp"
    | (diff) "hr_Version r \<noteq> []" "hr_Version r \<noteq> hp_version hp" by blast
  then show ?thesis
  proof cases
    case empty
    then have "latest lower (rs @ [r]) = latest lower rs" by (simp add: latest_snoc)
    with keep[OF inv] empty show ?thesis by (auto simp: load)
  next
    case same
    then have "latest lower rs = cview (wanted lower r)" using inv vers by (auto simp: provider_inv_def)
    then have "latest lower (rs @ [r]) = latest lower rs" using same by (simp add: latest_snoc)
    with keep[OF inv] same show ?thesis by (auto simp: load)
  next
    case diff
    have l: "latest lower (rs @ [r]) = cview (wanted lower r)" using diff by (simp add: latest_snoc)
    show ?thesis
    proof (cases "changes hp1")
      case True
      define hp2 where "hp2 = hp1\<lparr>hp_configMap := wanted lower r, hp_version := hr_Version r\<rparr>"
      have hp2: "hp_add hp2 = hp_add hp1" "hp_del hp2 = hp_del hp1" "hp_configMap hp2 = wanted lower r" "hp_version hp2 = hr_Version r"
        "hp_cache hp2 = new_cache (wanted lower r)"
        using True law(5) by (simp_all add: hp2_def changes_def)
      have "HTTP_LoadConfig lower (Some r) hp = Inr (hp2, Some True)"
        using diff True by (simp add: load hp1_def[symmetric] hp2_def)
      moreover have "provider_inv lower (rs @ [r]) hp2"
        by (auto simp: provider_inv_def hp2 l new_cache_ok cview_new_cache[OF wok] fun_eq_iff)
      ultimately show ?thesis using law(1-4) c(2) wok by (intro exI[of _ hp2] exI[of _ True]) (simp add: hp2 l)
    next
      case False
      then have "latest lower rs = cview (wanted lower r)"
        using changes_iff[OF c(1) wok] c(2) by (intro same_domain_same_view[OF ok]) (auto simp: hp1_def)
      then have eq: "latest lower (rs @ [r]) = latest lower rs" using l by simp
      have "HTTP_LoadConfig lower (Some r) hp = Inr (hp1, Some False)"
        using diff False by (simp add: load hp1_def[symmetric])
      moreover have "provider_inv lower rs hp1" using inv law(5-6) False by (auto simp: provider_inv_def changes_def)
      ultimately show ?thesis using keep eq law(7) by (intro exI[of _ hp1] exI[of _ False]) simp
    qed
  qed
qed

text \<open>The agent beside the provider.\<close>

definition follows :: "'f agent_env \<Rightarrow> (string \<Rightarrow> string) \<Rightarrow> string list \<Rightarrow> http_response list \<Rightarrow> http_provider \<times> 'f metrics_agent \<Rightarrow> bool" where
  "follows E lower F rs st \<longleftrightarrow> provider_inv lower rs (fst st) \<and> agent_inv F (snd st) \<and>
     (\<forall>k s. \<not> serviceInput k \<longrightarrow> registered (snd st) k s = starts_in E F (latest lower rs) k s)"

lemma latest_sums:
  assumes "server_ok lower rs"
  shows "latest lower rs k [] = None"
  using latest_cases[of lower rs] server_okD(2)[OF assms] by auto

lemma latest_consistent:
  assumes ok: "server_ok lower (rs @ rs')" and c: "latest lower rs k s = Some c" "latest lower (rs @ rs') k s = Some c'"
  shows "c = c'"
proof -
  obtain r where r: "r \<in> set rs" "latest lower rs = cview (wanted lower r)" using latest_cases[of lower rs] c(1) by auto
  obtain r' where r': "r' \<in> set (rs @ rs')" "latest lower (rs @ rs') = cview (wanted lower r')"
    using latest_cases[of lower "rs @ rs'"] c(2) by auto
  show ?thesis using server_okD(3)[OF ok _ r'(1), of r k s c c'] r r' c by simp
qed

lemma reload_some:
  assumes p: "''http'' \<in> set (ae_providers E)" and ok: "server_ok lower (rs @ [r])" and f: "follows E lower F rs (hp, ma)"
  shows "\<exists>st'. http_reload E lower (hp, ma) (Some r) = Inr st' \<and> follows E lower F (rs @ [r]) st'"
proof -
  let ?old = "latest lower rs" and ?new = "latest lower (rs @ [r])"
  have inv: "provider_inv lower rs hp" "agent_inv F ma" and reg: "\<And>k s. \<not> serviceInput k \<Longrightarrow> registered ma k s = starts_in E F ?old k s"
    using f by (auto simp: follows_def)
  obtain hp1 changed where load: "HTTP_LoadConfig lower (Some r) hp = Inr (hp1, Some changed)" and inv1: "provider_inv lower (rs @ [r]) hp1"
    and ch: "if changed then cache_ok (hp_add hp1) \<and> cache_ok (hp_del hp1) \<and>
       (\<forall>k s. cview (hp_add hp1) k s = (if ?old k s = None then ?new k s else None)) \<and>
       (\<forall>k s. cview (hp_del hp1) k s = (if ?new k s = None then ?old k s else None)) \<and>
       cache_ok (hp_configMap hp1) \<and> cview (hp_configMap hp1) = ?new
     else ?new = ?old \<and> hp_configMap hp1 = hp_configMap hp"
    using LoadConfig_law[OF ok inv(1)] by blast
  show ?thesis
  proof (cases changed)
    case False
    with load inv1 inv reg ch show ?thesis by (auto simp: http_reload_def from_go_def follows_def)
  next
    case True
    with ch have a: "cache_ok (hp_add hp1)" "\<And>k s. cview (hp_add hp1) k s = (if ?old k s = None then ?new k s else None)"
      and d: "cache_ok (hp_del hp1)" "\<And>k s. cview (hp_del hp1) k s = (if ?new k s = None then ?old k s else None)" by auto
    have dn: "sums_nonempty (hp_del hp1)"
      using latest_sums[OF server_ok_prefix[OF ok]] by (intro sums_nonempty_view[OF d(1)]) (simp add: d(2))
    have fresh: "\<not> registered ma k s" if "\<not> serviceInput k" "cview (hp_add hp1) k s \<noteq> None" for k s
      using that reg[of k s] by (auto simp: a(2) starts_in_def split: if_splits)
    obtain ma1 where 1: "reload_adds E hp1 ma = Inr ma1" "agent_inv F ma1"
      "\<And>k s. \<not> serviceInput k \<Longrightarrow> registered ma1 k s \<longleftrightarrow> registered ma k s \<or> starts_in E F (cview (hp_add hp1)) k s"
      using reload_adds_law[OF p dn a(1) inv(2) fresh] unfolding reload_adds_def by blast
    obtain ma2 where 2: "reload_dels hp1 ma1 = Inr ma2" "agent_inv F ma2"
      "\<And>k s. \<not> serviceInput k \<Longrightarrow> registered ma2 k s \<longleftrightarrow> registered ma1 k s \<and> cview (hp_del hp1) k s = None"
      using reload_dels_law[OF d(1) dn 1(2)] unfolding reload_dels_def by blast
    have none: "hp_add hp1 = [] \<Longrightarrow> reload_adds E hp1 ma = Inr ma" "hp_del hp1 = [] \<Longrightarrow> reload_dels hp1 ma1 = Inr ma1"
      by (simp_all add: reload_adds_def reload_dels_def)
    have run: "http_reload E lower (hp, ma) (Some r) = Inr (hp1, ma2)"
      using load True 1(1) 2(1) none by (auto simp: http_reload_def from_go_def)
    have "registered ma2 k s = starts_in E F ?new k s" if k: "\<not> serviceInput k" for k s
    proof -
      have v: "registered ma2 k s \<longleftrightarrow> (starts_in E F ?old k s \<or> starts_in E F (cview (hp_add hp1)) k s) \<and> cview (hp_del hp1) k s = None"
        using 1(3)[OF k, of s] 2(3)[OF k, of s] reg[OF k, of s] by simp
      show ?thesis
      proof (cases "?old k s = None \<or> ?new k s = None")
        case True
        then show ?thesis by (auto simp: v starts_in_def a(2) d(2))
      next
        case False
        then obtain c c' where c: "?old k s = Some c" "?new k s = Some c'" by auto
        with latest_consistent[OF ok] have "c = c'" by blast
        with c show ?thesis by (simp add: v starts_in_def a(2) d(2))
      qed
    qed
    then show ?thesis using run inv1 2(2) by (auto simp: follows_def)
  qed
qed

lemma register_name:
  assumes p: "''http'' \<in> set (ae_providers E)" and dots: "\<And>k. ae_InputCreators E k \<Longrightarrow> CHR ''.'' \<notin> set k"
    and m: "inner_ok m" and inv: "agent_inv F ma" and new: "\<And>s. \<not> registered ma k s"
  shows "\<exists>ma'. (if \<not> FilterPass ma (snd (ParseInputName k)) then Inr ma else RegisterInput E (http_name k) (map snd m) ma) = Inr ma' \<and>
    agent_inv F ma' \<and> (\<forall>j s. registered ma' j s \<longleftrightarrow> registered ma j s \<or> (j = k \<and> starts_in E F (\<lambda>_. map_of m) k s))"
proof (cases "FilterPass ma k \<and> ae_InputCreators E k")
  case False
  then have n: "starts E F k c = None" for c
    using inv by (auto simp: starts_def filter_passes_def FilterPass_def agent_inv_def)
  have "RegisterInput E (http_name k) (map snd m) ma = Inr ma" using False p by (auto simp: RegisterInput_def Parse_http)
  with inv n show ?thesis by (auto simp: starts_in_def)
next
  case True
  then have "CHR ''.'' \<notin> set k" using dots by blast
  then have "FilterPass ma (snd (ParseInputName k))" using True by (simp add: ParseInputName_def SplitN2_def)
  moreover obtain ma' where r: "foldM (\<lambda>ma c. RegisterInput E (http_name k) [c] ma) ma (map snd m) = Inr ma'" "agent_inv F ma'"
    "\<And>j s. registered ma' j s \<longleftrightarrow> registered ma j s \<or> (j = k \<and> (\<exists>c \<in> set (map snd m). s = cf_checkSum c \<and> starts E F k c \<noteq> None))"
    using register_all[OF p inner_ok_sums[OF m] inv, of k] new by blast
  moreover have "(\<exists>c \<in> set (map snd m). s = cf_checkSum c \<and> starts E F k c \<noteq> None) \<longleftrightarrow> starts_in E F (\<lambda>_. map_of m) k s" for s
    unfolding starts_in_def using inner_ok_in[OF m, of _ s] by (metis set_map)
  ultimately show ?thesis by (simp add: RegisterInput_many[OF p inner_ok_sums[OF m]])
qed

lemma start_names:
  assumes p: "''http'' \<in> set (ae_providers E)" and dots: "\<And>k. ae_InputCreators E k \<Longrightarrow> CHR ''.'' \<notin> set k"
    and "cache_ok cm" and "\<forall>(k, m) \<in> set cm. HTTP_GetInputConfig k hp = map snd m" and "agent_inv F ma"
    and "\<And>k s. k \<in> fst ` set cm \<Longrightarrow> \<not> registered ma k s"
  shows "\<exists>ma'. foldM (\<lambda>ma name.
              if \<not> FilterPass ma (snd (ParseInputName name)) then Inr ma
              else RegisterInput E (FormatInputName ''http'' name) (HTTP_GetInputConfig name hp) ma) ma (map fst cm) = Inr ma' \<and>
    agent_inv F ma' \<and> (\<forall>k s. registered ma' k s \<longleftrightarrow> registered ma k s \<or> starts_in E F (cview cm) k s)"
  using assms(3-6)
proof (induction cm arbitrary: ma)
  case (Cons e cm)
  obtain k m where e: "e = (k, m)" by fastforce
  have ok: "cache_ok cm" and m: "inner_ok m" and k: "k \<notin> fst ` set cm" and g: "HTTP_GetInputConfig k hp = map snd m"
    using Cons.prems(1,2) e by (auto simp: cache_ok_def)
  obtain ma1 where 1: "(if \<not> FilterPass ma (snd (ParseInputName k)) then Inr ma else RegisterInput E (http_name k) (map snd m) ma) = Inr ma1"
    "agent_inv F ma1" "\<And>j s. registered ma1 j s \<longleftrightarrow> registered ma j s \<or> (j = k \<and> starts_in E F (\<lambda>_. map_of m) k s)"
    using register_name[OF p dots m Cons.prems(3), of k] Cons.prems(4)[of k] e by auto
  have "\<not> registered ma1 j s" if "j \<in> fst ` set cm" for j s
    using Cons.prems(4)[of j s] that k by (auto simp: 1(3) e)
  from Cons.IH[OF ok _ 1(2) this] Cons.prems(2) obtain ma2 where 2: "foldM (\<lambda>ma name.
              if \<not> FilterPass ma (snd (ParseInputName name)) then Inr ma
              else RegisterInput E (FormatInputName ''http'' name) (HTTP_GetInputConfig name hp) ma) ma1 (map fst cm) = Inr ma2"
    "agent_inv F ma2" "\<And>k s. registered ma2 k s \<longleftrightarrow> registered ma1 k s \<or> starts_in E F (cview cm) k s" by auto
  have eq: "starts_in E F (cview (e # cm)) j s \<longleftrightarrow> (j = k \<and> starts_in E F (\<lambda>_. map_of m) k s) \<or> starts_in E F (cview cm) j s" for j s
    using cview_notin[OF k] by (auto simp: starts_in_def e cview_Cons)
  show ?case
  proof (intro exI conjI allI)
    show "foldM (\<lambda>ma name.
              if \<not> FilterPass ma (snd (ParseInputName name)) then Inr ma
              else RegisterInput E (FormatInputName ''http'' name) (HTTP_GetInputConfig name hp) ma) ma (map fst (e # cm)) = Inr ma2"
      using 1(1) 2(1) by (cases "FilterPass ma (snd (ParseInputName k))") (simp_all add: e g)
    show "registered ma2 j s \<longleftrightarrow> registered ma j s \<or> starts_in E F (cview (e # cm)) j s" for j s
      unfolding eq 2(3) 1(3) by blast
  qed (rule 2(2))
qed (simp add: starts_in_def)

definition answers :: "http_response option list \<Rightarrow> http_response list" where
  "answers = List.map_filter (\<lambda>r. r)"

lemma answers_simps [simp]: "answers [] = []" "answers (None # rs) = answers rs" "answers (Some r # rs) = r # answers rs"
  by (simp_all add: answers_def List.map_filter_simps)

lemma start_follows:
  fixes E :: "'f agent_env"
  assumes p: "''http'' \<in> set (ae_providers E)" and dots: "\<And>k. ae_InputCreators E k \<Longrightarrow> CHR ''.'' \<notin> set k"
    and ok: "server_ok lower (answers [first])"
  shows "\<exists>st. http_start E lower first (newHTTPProvider, NewMetricsAgent filters) = Inr st \<and> follows E lower (parseFilter filters) (answers [first]) st"
proof -
  let ?ma = "NewMetricsAgent filters :: 'f metrics_agent" and ?F = "parseFilter filters"
  have inv: "agent_inv ?F ?ma" and none: "\<And>k s. \<not> registered ?ma k s"
    by (simp_all add: agent_inv_def agent_ok_def no_leak_def NewMetricsAgent_def registered_def)
  have pinv: "provider_inv lower [] newHTTPProvider" by (simp add: provider_inv_def newHTTPProvider_def fun_eq_iff)
  have empty: "\<not> starts_in E ?F (\<lambda>_ _. None) k s" for k s by (simp add: starts_in_def)
  show ?thesis
  proof (cases first)
    case None
    then show ?thesis using inv none pinv empty
      by (simp add: http_start_def HTTP_LoadConfig_def from_go_def HTTP_GetInputs_def newHTTPProvider_def follows_def)
  next
    case (Some r)
    obtain hp1 changed where load: "HTTP_LoadConfig lower (Some r) newHTTPProvider = Inr (hp1, Some changed)" and inv1: "provider_inv lower [r] hp1"
      and cm: "cache_ok (hp_configMap hp1)" "cview (hp_configMap hp1) = latest lower [r]"
    proof -
      obtain hp1 changed where l: "HTTP_LoadConfig lower (Some r) newHTTPProvider = Inr (hp1, Some changed)" "provider_inv lower [r] hp1"
        "if changed then cache_ok (hp_configMap hp1) \<and> cview (hp_configMap hp1) = latest lower [r]
         else latest lower [r] = latest lower [] \<and> hp_configMap hp1 = hp_configMap newHTTPProvider"
        using LoadConfig_law[OF _ pinv, of r] ok Some by (auto split: if_splits)
      then have "cache_ok (hp_configMap hp1)" "cview (hp_configMap hp1) = latest lower [r]"
        by (cases changed; simp add: newHTTPProvider_def fun_eq_iff)+
      with l that show ?thesis by blast
    qed
    have "\<forall>(k, m) \<in> set (hp_configMap hp1). HTTP_GetInputConfig k hp1 = map snd m"
      using cm(1) by (auto simp: cache_ok_def HTTP_GetInputConfig_def)
    from start_names[OF p dots cm(1) this inv none] load Some inv1 none show ?thesis
      by (auto simp: http_start_def from_go_def HTTP_GetInputs_def follows_def cm(2))
  qed
qed

lemma reloads_follow:
  assumes p: "''http'' \<in> set (ae_providers E)" and "server_ok lower (rs @ answers later)" and "follows E lower F rs st"
  shows "\<exists>st'. foldM (http_reload E lower) st later = Inr st' \<and> follows E lower F (rs @ answers later) st'"
  using assms(2,3)
proof (induction later arbitrary: rs st)
  case (Cons r later)
  obtain hp ma where st: "st = (hp, ma)" by fastforce
  show ?case
  proof (cases r)
    case None
    then have "http_reload E lower st r = Inr st" by (simp add: st http_reload_def HTTP_LoadConfig_def from_go_def)
    with Cons None show ?thesis by simp
  next
    case (Some x)
    have "server_ok lower (rs @ [x])" using Cons.prems(1) Some server_ok_prefix[of lower "rs @ [x]"] by simp
    then obtain st1 where "http_reload E lower st r = Inr st1" "follows E lower F (rs @ [x]) st1"
      using reload_some[OF p] Cons.prems(2) Some st by blast
    with Cons.IH[of "rs @ [x]" st1] Cons.prems(1) Some show ?thesis by simp
  qed
qed simp


definition sample_input :: "int input" where
  "sample_input = \<lparr>inp_config = (sample_input_config [])\<lparr>MetricsDrop := [], ProcessorEnum := [], inited := False\<rparr>, inp_Init = True, inp_instances = None, inp_Start = None\<rparr>"

definition sample_agent_env :: "int agent_env" where
  "sample_agent_env =
     \<lparr>ae_compilers = sample_compilers, ae_DebugMode = False, ae_providers = [''local'', ''http''],
      ae_InputCreators = (\<lambda>k. k = ''cpu''), ae_LoadSingleConfig = (\<lambda>_ _. Some sample_input), ae_LoadConfigs = (\<lambda>_ _. Some sample_input)\<rparr>"

definition sample_config_text :: config_with_format where
  "sample_config_text = \<lparr>cf_Config = ''interval = 15'', cf_Format = TomlFormat, cf_checkSum = []\<rparr>"

definition sample_answer :: "string \<Rightarrow> string \<Rightarrow> string \<Rightarrow> http_response" where
  "sample_answer version k csum = \<lparr>hr_Version = version, hr_Configs = [(k, [(csum, Some sample_config_text)])]\<rparr>"

lemma wanted_sample:
  "wanted (\<lambda>s. s) (sample_answer v ''cpu'' csum) = [(''cpu'', [(csum, sample_config_text\<lparr>cf_checkSum := csum\<rparr>)])]"
  by (simp add: wanted_def doReq_configs_def sample_answer_def set_sums_def input_key_def TrimPrefix_def inputFilePrefix_def SetCheckSum_def Let_def)

lemma sample_server_ok: "server_ok (\<lambda>s. s) [sample_answer ''1'' ''cpu'' ''a'', sample_answer ''2'' ''cpu'' ''b'']"
proof -
  have v: "cview (wanted (\<lambda>s. s) (sample_answer v ''cpu'' csum)) k s =
      (if k = ''cpu'' \<and> s = csum then Some (sample_config_text\<lparr>cf_checkSum := csum\<rparr>) else None)" for v csum k s
    by (simp add: wanted_sample cview_def)
  have "no_nil (sample_answer v k csum)" for v k csum by (simp add: no_nil_def sample_answer_def)
  moreover have "hr_Version (sample_answer v k csum) = v" for v k csum by (simp add: sample_answer_def)
  ultimately show ?thesis by (simp add: server_ok_def v)
qed

lemma sample_input_init: "init_input sample_agent_env sample_input \<noteq> None"
  by (simp add: sample_input_def init_input_def sample_input_config_def InitInternalConfig_def init_filter_def split: option.split)

lemma sample_starts: "starts sample_agent_env (parseFilter []) ''cpu'' c \<noteq> None"
  using sample_input_init by (simp add: starts_def filter_passes_def parseFilter_def) (simp add: sample_agent_env_def)




subsection \<open>What one round of gathering hands over\<close>

definition processed :: "'f process_env \<Rightarrow> 'f internal_config \<Rightarrow> 'f sample option list \<Rightarrow> 'f sample list" where
  "processed env ic slist = List.map_filter (\<lambda>s. projr (Process_sample env ic s)) (List.map_filter id (rev slist))"

definition gather_ready :: "'f process_env \<Rightarrow> 'f internal_config \<Rightarrow> 'f sample option list \<Rightarrow> bool" where
  "gather_ready env ic slist \<longleftrightarrow> config_ready ic \<and> (\<forall>s. Some s \<in> set slist \<longrightarrow> sample_ready env ic s)"

definition batch_of :: "'f process_env \<Rightarrow> 'f float_env \<Rightarrow> string \<Rightarrow> 'f internal_config \<Rightarrow> 'f sample option list \<Rightarrow> 'f time_series list list" where
  "batch_of env fe precision ic slist =
     (if processed env ic slist = [] then [] else [convert_all fe precision (processed env ic slist)])"

lemma those_map_Some: "those (map Some xs) = Some xs"
  by (induction xs) simp_all

lemma Process_processed:
  assumes "sorts_by_name (p_sort env)" and "gather_ready env ic slist"
  shows "\<exists>out. InternalConfig_Process env ic slist = Inr out \<and> rev out = map Some (processed env ic slist)"
proof (cases "slist = []")
  case False
  have "process_loop env ic (rev slist) [] = Inr (rev (map Some (processed env ic slist)) @ [])"
    unfolding processed_def
    by (rule process_loop_spec) (use Process_sample_total[OF assms(1)] assms(2) in \<open>auto simp: gather_ready_def\<close>)
  with False show ?thesis by (simp add: InternalConfig_Process_def SL_PopBackAll_rev)
qed (simp add: InternalConfig_Process_def processed_def map_filter_simps)

lemma gather_process_offers:
  assumes "sorts_by_name (p_sort env)" and "gather_ready env ic slist"
  shows "\<exists>ws'. gather_process env fe precision ic (Inr slist) ws = Inr ws' \<and>
    map fst (w_offered ws') = map fst (w_offered ws) @ batch_of env fe precision ic slist"
proof -
  obtain out where out: "InternalConfig_Process env ic slist = Inr out" "rev out = map Some (processed env ic slist)"
    using Process_processed[OF assms] by blast
  then show ?thesis
    by (simp add: gather_process_def forward_def SL_PopBackAll_rev those_map_Some WriteSamples_def batch_of_def case_prod_beta Let_def)
qed

text \<open>Which instances take part in a round: the initialised ones whose multiple of the interval has come.\<close>

definition takes_part :: "64 word \<Rightarrow> 'f input_instance \<Rightarrow> bool" where
  "takes_part counter ins \<longleftrightarrow> inited (ins_config ins) \<and> (ins_IntervalTimes ins \<le> 0 \<or> counter mod word_of_int (ins_IntervalTimes ins) = 0)"

lemma gather_instance_offers:
  assumes "sorts_by_name (p_sort env)" and "takes_part counter ins \<Longrightarrow> gathered = Inr slist \<and> gather_ready env (ins_config ins) slist"
  shows "\<exists>ws'. gather_instance env fe precision counter ins gathered ws = Inr ws' \<and>
    map fst (w_offered ws') = map fst (w_offered ws) @ (if takes_part counter ins then batch_of env fe precision (ins_config ins) slist else [])"
  using gather_process_offers[OF assms(1), of "ins_config ins" slist fe precision ws] assms(2)
  by (cases "takes_part counter ins") (auto simp: gather_instance_def takes_part_def interval_due_def not_less)

lemma gather_instances_offer:
  assumes "sorts_by_name (p_sort env)"
    and "\<And>i. i \<in> set order \<Longrightarrow> takes_part counter (instances ! i) \<Longrightarrow>
           gathered i = Inr (slists i) \<and> gather_ready env (ins_config (instances ! i)) (slists i)"
  shows "\<exists>ws'. foldM (\<lambda>ws i. gather_instance env fe precision counter (instances ! i) (gathered i) ws) ws order = Inr ws' \<and>
    map fst (w_offered ws') = map fst (w_offered ws) @
      concat (map (\<lambda>i. batch_of env fe precision (ins_config (instances ! i)) (slists i)) (filter (\<lambda>i. takes_part counter (instances ! i)) order))"
  using assms(2)
proof (induction order arbitrary: ws)
  case (Cons i order)
  obtain ws1 where 1: "gather_instance env fe precision counter (instances ! i) (gathered i) ws = Inr ws1"
    "map fst (w_offered ws1) = map fst (w_offered ws) @
       (if takes_part counter (instances ! i) then batch_of env fe precision (ins_config (instances ! i)) (slists i) else [])"
    using gather_instance_offers[OF assms(1), of counter "instances ! i" "gathered i" "slists i" fe precision ws] Cons.prems by auto
  with Cons.IH[of ws1] Cons.prems show ?case by auto
qed simp

text \<open>C34: one round of gathering. When configurations and samples are sound, a round never fails; it hands the processed samples of the plugin and of every
  initialised instance that is due (each by its multiple of the interval) to the writers, one batch each and nothing else, in whatever order the instances
  finish. Only a round with instances counts.\<close>

theorem gatherOnce_hands_over:
  assumes "sorts_by_name (p_sort env)" and plugin: "plugin = Inr slist" "gather_ready env (inp_config (rd_input r)) slist"
    and ins: "inp_instances (rd_input r) = Some instances" "instances \<noteq> []"
    and order: "mset order = mset [0..<length instances]"
    and gathered: "\<And>i. i < length instances \<Longrightarrow> takes_part (rd_runCounter r + 1) (instances ! i) \<Longrightarrow>
           gathered i = Inr (slists i) \<and> gather_ready env (ins_config (instances ! i)) (slists i)"
  shows "\<exists>ws'. gatherOnce env fe precision plugin gathered order r ws = Inr (r\<lparr>rd_runCounter := rd_runCounter r + 1\<rparr>, ws') \<and>
    (\<exists>batches. map fst (w_offered ws') = map fst (w_offered ws) @ batch_of env fe precision (inp_config (rd_input r)) slist @ batches \<and>
      mset batches = mset (concat (map (\<lambda>i. batch_of env fe precision (ins_config (instances ! i)) (slists i))
        (filter (\<lambda>i. takes_part (rd_runCounter r + 1) (instances ! i)) [0..<length instances]))))"
proof -
  let ?c = "rd_runCounter r + 1"
  let ?b = "\<lambda>is. concat (map (\<lambda>i. batch_of env fe precision (ins_config (instances ! i)) (slists i)) (filter (\<lambda>i. takes_part ?c (instances ! i)) is))"
  obtain ws1 where 1: "gather_process env fe precision (inp_config (rd_input r)) plugin ws = Inr ws1"
    "map fst (w_offered ws1) = map fst (w_offered ws) @ batch_of env fe precision (inp_config (rd_input r)) slist"
    using gather_process_offers[OF assms(1) plugin(2), of fe precision ws] plugin(1) by auto
  have "i < length instances" if "i \<in> set order" for i using mset_eq_setD[OF order] that by auto
  then obtain ws2 where 2: "foldM (\<lambda>ws i. gather_instance env fe precision ?c (instances ! i) (gathered i) ws) ws1 order = Inr ws2"
    "map fst (w_offered ws2) = map fst (w_offered ws1) @ ?b order"
    using gather_instances_offer[OF assms(1), of order ?c instances gathered slists fe precision ws1] gathered by blast
  have "mset (concat (map f xs)) = (\<Sum>x\<in>#mset xs. mset (f x))" for f :: "nat \<Rightarrow> 'a time_series list list" and xs
    by (induction xs) simp_all
  then have "mset (?b order) = mset (?b [0..<length instances])" by (simp only: mset_filter order)
  with 1 2 ins show ?thesis by (auto simp: gatherOnce_def Let_def)
qed

text \<open>A panic while an instance is gathered or processed is not recovered.\<close>

lemma gatherOnce_instance_panic:
  assumes "gather_process env fe precision (inp_config (rd_input r)) plugin ws = Inr ws1"
    and "inp_instances (rd_input r) = Some [ins]" and "takes_part (rd_runCounter r + 1) ins" and "gathered 0 = Inl e"
  shows "gatherOnce env fe precision plugin gathered [0] r ws = Inl e"
  using assms by (auto simp: gatherOnce_def Let_def gather_instance_def takes_part_def interval_due_def gather_process_def)

definition sample_reader :: "int input_reader" where
  "sample_reader = newInputReader ''local.cpu'' (sample_input\<lparr>inp_instances := Some
     [\<lparr>ins_config = sample_input_config [], ins_Init = True, ins_IntervalTimes = 2\<rparr>,
      \<lparr>ins_config = sample_input_config [], ins_Init = True, ins_IntervalTimes = 0\<rparr>]\<rparr>)"

definition sample_floats :: "int float_env" where
  "sample_floats = \<lparr>ParseFloat = (\<lambda>_. None), ParseInt0 = (\<lambda>_. None), float64_of_int = (\<lambda>i. i)\<rparr>"

theorem gatherOnce_hands_over_witness:
  "\<exists>ws' batches. gatherOnce sample_process_env sample_floats ''ms'' (Inr []) (\<lambda>i. Inr [Some (sample_metric ''m'')]) [1, 0] sample_reader (InitWriters 10 5)
        = Inr (sample_reader\<lparr>rd_runCounter := 1\<rparr>, ws') \<and> map fst (w_offered ws') = batches \<and>
      mset batches = mset (batch_of sample_process_env sample_floats ''ms'' (sample_input_config []) [Some (sample_metric ''m'')])"
proof -
  let ?i = "\<lambda>n. \<lparr>ins_config = sample_input_config [], ins_Init = True, ins_IntervalTimes = n\<rparr>"
  have env: "sorts_by_name (p_sort sample_process_env)" using sorts_by_name_sort_key by (simp add: sample_process_env_def)
  have r: "inp_instances (rd_input sample_reader) = Some [?i 2, ?i 0]" "rd_runCounter sample_reader = 0"
    by (simp_all add: sample_reader_def newInputReader_def)
  have g0: "gather_ready sample_process_env (inp_config (rd_input sample_reader)) []"
    by (simp add: gather_ready_def sample_reader_def newInputReader_def sample_input_def sample_input_config_def config_ready_def GetLabels_def)
  have g: "gather_ready sample_process_env (sample_input_config []) [Some (sample_metric ''m'')]"
    by (simp add: gather_ready_def sample_input_simps)
  have part: "\<not> takes_part 1 (?i 2)" "takes_part 1 (?i 0)" by (simp_all add: takes_part_def sample_input_config_def)
  have ins: "takes_part 1 ([?i 2, ?i 0] ! i) \<Longrightarrow> gather_ready sample_process_env (ins_config ([?i 2, ?i 0] ! i)) [Some (sample_metric ''m'')]"
    if "i < 2" for i using g that by (cases i) (simp_all add: less_Suc_eq)
  have b0: "batch_of sample_process_env sample_floats ''ms'' (inp_config (rd_input sample_reader)) [] = []"
    by (simp add: batch_of_def processed_def map_filter_simps)
  show ?thesis
    using gatherOnce_hands_over[OF env refl g0 r(1), of "[1, 0]" "\<lambda>i. Inr [Some (sample_metric ''m'')]" "\<lambda>i. [Some (sample_metric ''m'')]"
        sample_floats "''ms''" "InitWriters 10 5"] ins part b0
    by (auto simp: r(2) InitWriters_def upt_rec)
qed

end
