(* ===== verification/Metric_Series.thy ===== *)
theory Metric_Series
  imports Go_Prelude
begin

text \<open>
  Metrics with tags and fields, \<open>src/types/metric/metric.go\<close> and \<open>src/types/metric.go\<close>, and their grouping into
  series, \<open>src/types/metric/series_grouper.go\<close>. Tags are a slice sorted by key, fields a slice in the order of
  insertion; the theorems show that both behave as maps. A map passed by a caller is an
  association list in the order the runtime visits it. The seeded \<open>maphash\<close> is a parameter, FNV-1a
  is modelled on 64-bit words. Copies are deep in the code, so values stand for pointers.
\<close>

subsection \<open>Values of fields\<close>

datatype value_type = Counter | Gauge | Untyped | Summary | Histogram

datatype int_kind = KInt | KInt8 | KInt16 | KInt32 | KInt64 | KUint | KUint8 | KUint16 | KUint32 | KUint64

fun signed_kind :: "int_kind \<Rightarrow> bool" where
  "signed_kind KInt = True" | "signed_kind KInt8 = True" | "signed_kind KInt16 = True" | "signed_kind KInt32 = True"
| "signed_kind KInt64 = True" | "signed_kind _ = False"

text \<open>What an \<open>interface{}\<close> may hold: the types the code names (plain or behind one pointer) and others.\<close>

datatype 'f plain = PFloat64 'f | PFloat32 'f | PInt int_kind int | PString string | PBool bool | PBytes bytes

datatype 'f raw_value = Plain "'f plain" | Pointer "'f plain option" | OtherValue

datatype 'f field_value = FFloat64 'f | FInt64 int | FUint64 int | FString string | FBool bool

fun convert_plain :: "'f plain \<Rightarrow> 'f field_value" where
  "convert_plain (PFloat64 v) = FFloat64 v"
| "convert_plain (PFloat32 v) = FFloat64 v"
| "convert_plain (PInt kind v) = (if signed_kind kind then FInt64 v else FUint64 v)"
| "convert_plain (PString v) = FString v"
| "convert_plain (PBool v) = FBool v"
| "convert_plain (PBytes v) = FString v"

fun convertField :: "'f raw_value \<Rightarrow> 'f field_value option" where
  "convertField (Plain v) = Some (convert_plain v)"
| "convertField (Pointer (Some v)) = Some (convert_plain v)"
| "convertField (Pointer None) = None"
| "convertField OtherValue = None"

text \<open>A stored value is again an \<open>interface{}\<close>; the nil interface is one of the other values.\<close>

fun stored :: "'f field_value option \<Rightarrow> 'f raw_value" where
  "stored None = OtherValue"
| "stored (Some (FFloat64 v)) = Plain (PFloat64 v)"
| "stored (Some (FInt64 v)) = Plain (PInt KInt64 v)"
| "stored (Some (FUint64 v)) = Plain (PInt KUint64 v)"
| "stored (Some (FString v)) = Plain (PString v)"
| "stored (Some (FBool v)) = Plain (PBool v)"

lemma convertField_stored [simp]: "convertField (stored v) = v"
  by (cases v rule: stored.cases) auto

subsection \<open>Metrics\<close>

record tag =
  tag_Key :: string
  tag_Value :: string

record 'f field =
  fld_Key :: string
  fld_Value :: "'f field_value option"

record 'f metric =
  m_name :: string
  m_tags :: "tag list"
  m_fields :: "'f field list"
  m_tm :: int
  m_tp :: value_type

definition mk_tag :: "string \<Rightarrow> string \<Rightarrow> tag" where
  "mk_tag k v = \<lparr>tag_Key = k, tag_Value = v\<rparr>"

definition AddField :: "string \<Rightarrow> 'f raw_value \<Rightarrow> 'f metric \<Rightarrow> 'f metric" where
  "AddField key v m =
     (let new = \<lparr>fld_Key = key, fld_Value = convertField v\<rparr> in
      m\<lparr>m_fields := set_or_append (\<lambda>f. fld_Key f = key) (\<lambda>f. new) new (m_fields m)\<rparr>)"

definition sort_tags :: "(string \<times> string) list \<Rightarrow> tag list" where
  "sort_tags tags = sort_key tag_Key (map (\<lambda>(k, v). mk_tag k v) tags)"

definition New_Metric ::
  "string \<Rightarrow> (string \<times> string) list \<Rightarrow> (string \<times> 'f raw_value) list \<Rightarrow> int \<Rightarrow> value_type list \<Rightarrow> 'f metric" where
  "New_Metric name tags flds tm tp =
     (let vtype = (if length tp > 0 then hd tp else Untyped);
          m = \<lparr>m_name = name, m_tags = [], m_fields = [], m_tm = tm, m_tp = vtype\<rparr>;
          m1 = (if length tags > 0 then m\<lparr>m_tags := sort_tags tags\<rparr> else m) in
      foldl (\<lambda>m (k, v). case convertField v of None \<Rightarrow> m | Some c \<Rightarrow> AddField k (stored (Some c)) m) m1 flds)"

definition Metric_Copy :: "'f metric \<Rightarrow> 'f metric" where
  "Metric_Copy m =
     \<lparr>m_name = m_name m, m_tags = map (\<lambda>t. mk_tag (tag_Key t) (tag_Value t)) (m_tags m),
      m_fields = map (\<lambda>f. \<lparr>fld_Key = fld_Key f, fld_Value = fld_Value f\<rparr>) (m_fields m), m_tm = m_tm m, m_tp = m_tp m\<rparr>"

definition Tags :: "'f metric \<Rightarrow> string \<rightharpoonup> string" where
  "Tags m = foldl (\<lambda>r t. r(tag_Key t \<mapsto> tag_Value t)) Map.empty (m_tags m)"

definition Fields :: "'f metric \<Rightarrow> string \<rightharpoonup> 'f field_value option" where
  "Fields m = foldl (\<lambda>r f. r(fld_Key f \<mapsto> fld_Value f)) Map.empty (m_fields m)"

definition AddPrefix :: "string \<Rightarrow> 'f metric \<Rightarrow> 'f metric" where
  "AddPrefix p m = m\<lparr>m_name := p @ m_name m\<rparr>"

definition AddSuffix :: "string \<Rightarrow> 'f metric \<Rightarrow> 'f metric" where
  "AddSuffix s m = m\<lparr>m_name := m_name m @ s\<rparr>"

fun add_tag :: "string \<Rightarrow> string \<Rightarrow> tag list \<Rightarrow> tag list" where
  "add_tag key v [] = [mk_tag key v]"
| "add_tag key v (t # ts) =
     (if key > tag_Key t then t # add_tag key v ts
      else if key = tag_Key t then t\<lparr>tag_Value := v\<rparr> # ts
      else mk_tag key v # t # ts)"

definition AddTag :: "string \<Rightarrow> string \<Rightarrow> 'f metric \<Rightarrow> 'f metric" where
  "AddTag key v m = m\<lparr>m_tags := add_tag key v (m_tags m)\<rparr>"

definition HasTag :: "string \<Rightarrow> 'f metric \<Rightarrow> bool" where
  "HasTag key m = list_ex (\<lambda>t. tag_Key t = key) (m_tags m)"

definition GetTag :: "string \<Rightarrow> 'f metric \<Rightarrow> string option" where
  "GetTag key m = map_option tag_Value (find (\<lambda>t. tag_Key t = key) (m_tags m))"

fun remove_one :: "('a \<Rightarrow> bool) \<Rightarrow> 'a list \<Rightarrow> 'a list" where
  "remove_one p [] = []"
| "remove_one p (x # xs) = (if p x then xs else x # remove_one p xs)"

definition RemoveTag :: "string \<Rightarrow> 'f metric \<Rightarrow> 'f metric" where
  "RemoveTag key m = m\<lparr>m_tags := remove_one (\<lambda>t. tag_Key t = key) (m_tags m)\<rparr>"

definition HasField :: "string \<Rightarrow> 'f metric \<Rightarrow> bool" where
  "HasField key m = list_ex (\<lambda>f. fld_Key f = key) (m_fields m)"

definition GetField :: "string \<Rightarrow> 'f metric \<Rightarrow> 'f field_value option option" where
  "GetField key m = map_option fld_Value (find (\<lambda>f. fld_Key f = key) (m_fields m))"

definition RemoveField :: "string \<Rightarrow> 'f metric \<Rightarrow> 'f metric" where
  "RemoveField key m = m\<lparr>m_fields := remove_one (\<lambda>f. fld_Key f = key) (m_fields m)\<rparr>"

text \<open>FNV-1a of \<open>hash/fnv\<close>.\<close>

definition fnv64a :: "bytes \<Rightarrow> 64 word" where
  "fnv64a = foldl (\<lambda>h c. xor h (of_nat (of_char c)) * 1099511628211) 14695981039346656037"

definition HashID :: "'f metric \<Rightarrow> 64 word" where
  "HashID m = fnv64a (m_name m @ [CHR 0x0A] @
     concat (map (\<lambda>t. tag_Key t @ [CHR 0x0A] @ tag_Value t @ [CHR 0x0A]) (m_tags m)))"

subsection \<open>Grouping into series\<close>

definition be64 :: "int \<Rightarrow> bytes" where
  "be64 n = map (\<lambda>i. char_of (unat (drop_bit (8 * i) (of_int n :: 64 word)) mod 256)) [7, 6, 5, 4, 3, 2, 1, 0]"

definition group_bytes :: "string \<Rightarrow> tag list \<Rightarrow> int \<Rightarrow> bytes" where
  "group_bytes measurement taglist tm =
     measurement @ [CHR 0x00] @ concat (map (\<lambda>t. tag_Key t @ [CHR 0x00] @ tag_Value t @ [CHR 0x00]) taglist) @ [CHR 0x00] @ be64 tm"

definition groupID :: "(bytes \<Rightarrow> 64 word) \<Rightarrow> string \<Rightarrow> tag list \<Rightarrow> int \<Rightarrow> 64 word" where
  "groupID maphash measurement taglist tm = maphash (group_bytes measurement taglist tm)"

text \<open>The map and the slice hold the same pointers: the map gives the position in the slice.\<close>

record 'f series_grouper =
  g_metrics :: "64 word \<rightharpoonup> nat"
  g_ordered :: "'f metric list"

definition NewSeriesGrouper :: "'f series_grouper" where
  "NewSeriesGrouper = \<lparr>g_metrics = Map.empty, g_ordered = []\<rparr>"

definition insert_metric :: "64 word \<Rightarrow> 'f metric \<Rightarrow> 'f series_grouper \<Rightarrow> 'f series_grouper" where
  "insert_metric i m g =
     g\<lparr>g_metrics := (g_metrics g)(i \<mapsto> length (g_ordered g)), g_ordered := g_ordered g @ [m]\<rparr>"

definition change_metric :: "nat \<Rightarrow> ('f metric \<Rightarrow> 'f metric) \<Rightarrow> 'f series_grouper \<Rightarrow> 'f series_grouper" where
  "change_metric n f g = g\<lparr>g_ordered := (g_ordered g)[n := f (g_ordered g ! n)]\<rparr>"

definition Grouper_Add ::
  "(bytes \<Rightarrow> 64 word) \<Rightarrow> string \<Rightarrow> (string \<times> string) list \<Rightarrow> int \<Rightarrow> string \<Rightarrow> 'f raw_value \<Rightarrow> 'f series_grouper \<Rightarrow> 'f series_grouper" where
  "Grouper_Add maphash measurement tags tm field v g =
     (let i = groupID maphash measurement (sort_tags tags) tm in
      case g_metrics g i of
        None \<Rightarrow> insert_metric i (New_Metric measurement tags [(field, v)] tm []) g
      | Some n \<Rightarrow> change_metric n (AddField field v) g)"

definition Grouper_AddMetric :: "(bytes \<Rightarrow> 64 word) \<Rightarrow> 'f metric \<Rightarrow> 'f series_grouper \<Rightarrow> 'f series_grouper" where
  "Grouper_AddMetric maphash m g =
     (let i = groupID maphash (m_name m) (m_tags m) (m_tm m) in
      case g_metrics g i of
        None \<Rightarrow> insert_metric i (Metric_Copy m) g
      | Some n \<Rightarrow> change_metric n (\<lambda>m0. foldl (\<lambda>m0 f. AddField (fld_Key f) (stored (fld_Value f)) m0) m0 (m_fields m)) g)"


subsection \<open>A store with keys\<close>

text \<open>What tags and fields have in common: they can be put, deleted and looked up by key.\<close>

datatype 'w store_op = Put string 'w | Del string

fun run_store :: "(string \<Rightarrow> 'w \<Rightarrow> 's \<Rightarrow> 's) \<Rightarrow> (string \<Rightarrow> 's \<Rightarrow> 's) \<Rightarrow> 'w store_op list \<Rightarrow> 's \<Rightarrow> 's" where
  "run_store put del [] s = s"
| "run_store put del (Put k w # ops) s = run_store put del ops (put k w s)"
| "run_store put del (Del k # ops) s = run_store put del ops (del k s)"

fun spec_store :: "('w \<Rightarrow> 'v) \<Rightarrow> 'w store_op list \<Rightarrow> (string \<rightharpoonup> 'v) \<Rightarrow> (string \<rightharpoonup> 'v)" where
  "spec_store conv [] m = m"
| "spec_store conv (Put k w # ops) m = spec_store conv ops (m(k \<mapsto> conv w))"
| "spec_store conv (Del k # ops) m = spec_store conv ops (m(k := None))"

locale keyed_store =
  fixes ok :: "'s \<Rightarrow> bool" and get :: "string \<Rightarrow> 's \<Rightarrow> 'v option" and put :: "string \<Rightarrow> 'w \<Rightarrow> 's \<Rightarrow> 's"
    and del :: "string \<Rightarrow> 's \<Rightarrow> 's" and conv :: "'w \<Rightarrow> 'v"
  assumes ok_put: "ok s \<Longrightarrow> ok (put k w s)" and ok_del: "ok s \<Longrightarrow> ok (del k s)"
    and get_put: "ok s \<Longrightarrow> (\<lambda>j. get j (put k w s)) = (\<lambda>j. get j s)(k \<mapsto> conv w)"
    and get_del: "ok s \<Longrightarrow> (\<lambda>j. get j (del k s)) = (\<lambda>j. get j s)(k := None)"
begin

lemma run_refines:
  "ok s \<Longrightarrow> ok (run_store put del ops s) \<and> (\<lambda>j. get j (run_store put del ops s)) = spec_store conv ops (\<lambda>j. get j s)"
proof (induction ops arbitrary: s)
  case (Cons op ops)
  then show ?case by (cases op) (simp_all add: ok_put ok_del get_put get_del)
qed simp

lemma put_put: "ok s \<Longrightarrow> (\<lambda>j. get j (put k w (put k w' s))) = (\<lambda>j. get j (put k w s))"
  by (simp add: get_put ok_put)

end

lemma map_key_remove_one: "map key (remove_one (\<lambda>x. key x = k) xs) = remove1 k (map key xs)"
  by (induction xs) auto

lemma keyed_remove_one:
  "distinct (map key xs) \<Longrightarrow> keyed key val (remove_one (\<lambda>x. key x = k) xs) = (keyed key val xs)(k := None)"
  by (induction xs) (auto simp: fun_eq_iff keyed_None)

definition tags_ok :: "'f metric \<Rightarrow> bool" where
  "tags_ok m \<longleftrightarrow> sorted_wrt (<) (map tag_Key (m_tags m))"

definition fields_ok :: "'f metric \<Rightarrow> bool" where
  "fields_ok m \<longleftrightarrow> distinct (map fld_Key (m_fields m))"

lemma GetTag_keyed: "(\<lambda>k. GetTag k m) = keyed tag_Key tag_Value (m_tags m)"
  by (simp add: fun_eq_iff GetTag_def keyed_find)

lemma GetField_keyed: "(\<lambda>k. GetField k m) = keyed fld_Key fld_Value (m_fields m)"
  by (simp add: fun_eq_iff GetField_def keyed_find)

lemma add_tag_keys: "set (map tag_Key (add_tag k v ts)) = insert k (set (map tag_Key ts))"
  by (induction ts) (auto simp: mk_tag_def)

lemma add_tag_sorted: "sorted_wrt (<) (map tag_Key ts) \<Longrightarrow> sorted_wrt (<) (map tag_Key (add_tag k v ts))"
proof (induction ts)
  case (Cons t ts)
  show ?case
  proof (cases "tag_Key t < k")
    case True
    with Cons add_tag_keys [of k v ts] show ?thesis by (auto simp: list_all_iff)
  next
    case False
    with Cons.prems show ?thesis by (auto simp: mk_tag_def not_less dest: less_trans le_neq_trans)
  qed
qed (simp add: mk_tag_def)

lemma keyed_add_tag:
  "sorted_wrt (<) (map tag_Key ts) \<Longrightarrow> keyed tag_Key tag_Value (add_tag k v ts) = (keyed tag_Key tag_Value ts)(k \<mapsto> v)"
  by (induction ts) (auto simp: mk_tag_def fun_upd_twist)

lemma sorted_less_distinct: "sorted_wrt (<) (xs :: string list) \<Longrightarrow> distinct xs"
  using strict_sorted_iff by blast

lemma remove1_sorted_less: "sorted_wrt (<) (xs :: string list) \<Longrightarrow> sorted_wrt (<) (remove1 k xs)"
  by (induction xs) (auto dest: set_remove1_subset [THEN subsetD])

interpretation tag_store: keyed_store "tags_ok :: 'f metric \<Rightarrow> bool" GetTag AddTag RemoveTag "\<lambda>v. v"
  by unfold_locales (auto simp: tags_ok_def AddTag_def RemoveTag_def GetTag_keyed add_tag_sorted keyed_add_tag
    map_key_remove_one remove1_sorted_less keyed_remove_one sorted_less_distinct)

interpretation field_store: keyed_store "fields_ok :: 'f metric \<Rightarrow> bool" GetField AddField RemoveField convertField
  by unfold_locales (auto simp: fields_ok_def AddField_def RemoveField_def GetField_keyed Let_def
    map_key_remove_one keyed_remove_one distinct_remove1 intro!: set_or_append_distinct keyed_set_or_append)

subsection \<open>Metrics as maps\<close>

lemma AddField_frame [simp]:
  "m_name (AddField k v m) = m_name m" "m_tags (AddField k v m) = m_tags m" "m_tm (AddField k v m) = m_tm m"
  "tags_ok (AddField k v m) = tags_ok m"
  by (simp_all add: AddField_def Let_def tags_ok_def)

lemma New_Metric_frame [simp]:
  "m_name (New_Metric name tags flds tm tp) = name" "m_tags (New_Metric name tags flds tm tp) = sort_tags tags"
  "m_tm (New_Metric name tags flds tm tp) = tm"
proof -
  have "m_name (foldl (\<lambda>m (k, v). case convertField v of None \<Rightarrow> m | Some c \<Rightarrow> AddField k (stored (Some c)) m) m0 flds) = m_name m0 \<and>
      m_tags (foldl (\<lambda>m (k, v). case convertField v of None \<Rightarrow> m | Some c \<Rightarrow> AddField k (stored (Some c)) m) m0 flds) = m_tags m0 \<and>
      m_tm (foldl (\<lambda>m (k, v). case convertField v of None \<Rightarrow> m | Some c \<Rightarrow> AddField k (stored (Some c)) m) m0 flds) = m_tm m0" for m0
    by (induction flds arbitrary: m0) (auto split: option.splits)
  then show "m_name (New_Metric name tags flds tm tp) = name" "m_tags (New_Metric name tags flds tm tp) = sort_tags tags"
    "m_tm (New_Metric name tags flds tm tp) = tm"
    by (simp_all add: New_Metric_def Let_def sort_tags_def)
qed

lemma sort_tags_sorted:
  assumes "distinct (map fst tags)"
  shows "sorted_wrt (<) (map tag_Key (sort_tags tags))"
proof -
  have "map tag_Key (map (\<lambda>(k, v). mk_tag k v) tags) = map fst tags" by (auto simp: mk_tag_def)
  then have "distinct (map tag_Key (map (\<lambda>(k, v). mk_tag k v) tags))" using assms by (simp only:)
  moreover have "mset (map tag_Key (sort_tags tags)) = mset (map tag_Key (map (\<lambda>(k, v). mk_tag k v) tags))"
    unfolding sort_tags_def by (simp only: mset_map mset_sort)
  ultimately have "distinct (map tag_Key (sort_tags tags))" using mset_eq_imp_distinct_iff by blast
  then show ?thesis by (simp add: sort_tags_def strict_sorted_iff)
qed

lemma New_Metric_fields_ok: "fields_ok (New_Metric name tags flds tm tp)"
proof -
  have "fields_ok (foldl (\<lambda>m (k, v). case convertField v of None \<Rightarrow> m | Some c \<Rightarrow> AddField k (stored (Some c)) m) m0 flds)"
    if "fields_ok m0" for m0
    using that by (induction flds arbitrary: m0) (auto simp: field_store.ok_put split: option.splits)
  then show ?thesis by (simp add: New_Metric_def Let_def fields_ok_def)
qed

lemma foldl_keyed:
  "distinct (map key xs) \<Longrightarrow> foldl (\<lambda>r x. r(key x \<mapsto> val x)) m0 xs = m0 ++ keyed key val xs"
proof (induction xs arbitrary: m0)
  case (Cons x xs)
  then have "keyed key val xs (key x) = None" by (simp add: keyed_None)
  with Cons show ?case by (auto simp: fun_eq_iff map_add_def split: option.splits)
qed simp

lemma Tags_GetTag: "tags_ok m \<Longrightarrow> Tags m k = GetTag k m"
  using GetTag_keyed [of m, THEN fun_cong, of k]
  by (simp add: Tags_def foldl_keyed sorted_less_distinct tags_ok_def)

lemma keyed_sorted_unique:
  assumes "sorted_wrt (<) (map tag_Key ts)" and "sorted_wrt (<) (map tag_Key us)"
    and "keyed tag_Key tag_Value ts = keyed tag_Key tag_Value us"
  shows "ts = (us :: tag list)"
proof -
  have "set (map tag_Key ts) = set (map tag_Key us)" using arg_cong [OF assms(3), of dom] by (simp add: dom_keyed)
  then have k: "map tag_Key ts = map tag_Key us"
    using assms(1,2) by (metis strict_sorted_equal)
  show ?thesis
  proof (rule nth_equalityI)
    show "length ts = length us" using k by (metis length_map)
  next
    fix i assume i: "i < length ts"
    then have e: "tag_Key (ts ! i) = tag_Key (us ! i)" "i < length us"
      using k by (metis nth_map length_map)+
    have "keyed tag_Key tag_Value ts (tag_Key (ts ! i)) = Some (tag_Value (ts ! i))"
      by (rule keyed_distinct_Some) (use assms(1) i sorted_less_distinct in auto)
    moreover have "keyed tag_Key tag_Value us (tag_Key (us ! i)) = Some (tag_Value (us ! i))"
      by (rule keyed_distinct_Some) (use assms(2) e sorted_less_distinct in auto)
    ultimately show "ts ! i = us ! i" using e assms(3) by simp
  qed
qed

text \<open>C24: a metric is a name with a map of tags: however it was built and in whatever order its tags were added, overwritten and
  removed, its tags are strictly sorted by key, \<open>Tags\<close> and \<open>GetTag\<close> read the map the operations describe,
  and two metrics with the same name and the same map have the same \<open>HashID\<close>.\<close>

theorem Metric_tags_canonical:
  fixes ops ops' :: "string store_op list" and flds flds' :: "(string \<times> 'f raw_value) list" and tm tm' :: int
    and tp tp' :: "value_type list" and name :: string
  assumes "distinct (map fst tags)" and "distinct (map fst tags')"
  defines "m \<equiv> run_store AddTag RemoveTag ops (New_Metric name tags flds tm tp)"
    and "m' \<equiv> run_store AddTag RemoveTag ops' (New_Metric name tags' flds' tm' tp')"
  shows "sorted_wrt (<) (map tag_Key (m_tags m)) \<and> Tags m = spec_store (\<lambda>v. v) ops (map_of tags) \<and>
    (\<lambda>k. GetTag k m) = Tags m \<and> (Tags m = Tags m' \<longrightarrow> HashID m = HashID m')"
proof -
  have base: "tags_ok (New_Metric name ts fs t p) \<and> (\<lambda>k. GetTag k (New_Metric name ts fs t p)) = map_of ts"
    if "distinct (map fst ts)" for ts and fs :: "(string \<times> 'f raw_value) list" and t p
  proof
    show "tags_ok (New_Metric name ts fs t p)" using sort_tags_sorted [OF that] by (simp add: tags_ok_def)
    have "map tag_Key (map (\<lambda>(k, v). mk_tag k v) ts) = map fst ts" by (auto simp: mk_tag_def)
    then have "keyed tag_Key tag_Value (sort_tags ts) = keyed tag_Key tag_Value (map (\<lambda>(k, v). mk_tag k v) ts)"
      using that by (intro keyed_mset_cong [symmetric]) (simp_all only: sort_tags_def mset_sort)
    also have "\<dots> = map_of ts" by (induction ts) (auto simp: mk_tag_def)
    finally show "(\<lambda>k. GetTag k (New_Metric name ts fs t p)) = map_of ts" by (simp add: GetTag_keyed)
  qed
  have name: "m_name (run_store AddTag RemoveTag o' x) = m_name x" for o' and x :: "'f metric"
  proof (induction o' arbitrary: x)
    case (Cons op o')
    then show ?case by (cases op) (simp_all add: AddTag_def RemoveTag_def)
  qed simp
  have r: "tags_ok m" "(\<lambda>k. GetTag k m) = spec_store (\<lambda>v. v) ops (map_of tags)" "tags_ok m'"
    using tag_store.run_refines base assms(1,2) unfolding m_def m'_def by metis+
  have T: "Tags x = (\<lambda>k. GetTag k x)" if "tags_ok x" for x :: "'f metric" using that Tags_GetTag by blast
  have "HashID m = HashID m'" if "Tags m = Tags m'"
  proof -
    have "keyed tag_Key tag_Value (m_tags m) = keyed tag_Key tag_Value (m_tags m')"
      using that T [OF r(1)] T [OF r(3)] by (simp add: GetTag_keyed)
    then have "m_tags m = m_tags m'"
      using r by (intro keyed_sorted_unique) (simp_all add: tags_ok_def)
    moreover have "m_name m = m_name m'" unfolding m_def m'_def name by simp
    ultimately show ?thesis by (simp add: HashID_def)
  qed
  with r T show ?thesis by (auto simp: tags_ok_def)
qed

theorem Metric_tags_canonical_witness:
  "HashID (run_store AddTag RemoveTag [Put ''a'' ''1'', Put ''b'' ''2''] (New_Metric ''cpu'' [] ([] :: (string \<times> int raw_value) list) 0 [])) =
   HashID (run_store AddTag RemoveTag [Put ''a'' ''1'', Del ''c''] (New_Metric ''cpu'' [(''c'', ''3''), (''b'', ''2'')] ([] :: (string \<times> int raw_value) list) 5 []))"
proof -
  let ?ts = "[(''c'', ''3''), (''b'', ''2'')]" and ?fs = "[] :: (string \<times> int raw_value) list"
  let ?ops = "[Put ''a'' ''1'', Put ''b'' ''2'']" and ?ops' = "[Put ''a'' ''1'', Del ''c'']"
  let ?m = "run_store AddTag RemoveTag ?ops (New_Metric ''cpu'' [] ?fs 0 [])"
  let ?m' = "run_store AddTag RemoveTag ?ops' (New_Metric ''cpu'' ?ts ?fs 5 [])"
  have d: "distinct (map fst ([] :: (string \<times> string) list))" "distinct (map fst ?ts)" by simp_all
  note f = Metric_tags_canonical [OF d, of ?ops "''cpu''" ?fs 0 "[]" ?ops' ?fs 5 "[]"]
  note g = Metric_tags_canonical [OF d(2,1), of ?ops' "''cpu''" ?fs 5 "[]" ?ops ?fs 0 "[]"]
  have "spec_store (\<lambda>v. v) ?ops (map_of []) = spec_store (\<lambda>v. v) ?ops' (map_of ?ts)" by (simp add: fun_eq_iff)
  then have "Tags ?m = Tags ?m'" using conjunct1 [OF conjunct2 [OF f]] conjunct1 [OF conjunct2 [OF g]] by metis
  then show ?thesis using conjunct2 [OF conjunct2 [OF conjunct2 [OF f]]] by blast
qed

subsection \<open>Series\<close>

text \<open>Texts without NUL bytes; the keys of tags are not empty.\<close>

definition nul_free :: "string \<Rightarrow> bool" where
  "nul_free s \<longleftrightarrow> CHR 0x00 \<notin> set s"

definition tags_plain :: "tag list \<Rightarrow> bool" where
  "tags_plain ts \<longleftrightarrow> list_all (\<lambda>t. nul_free (tag_Key t) \<and> tag_Key t \<noteq> [] \<and> nul_free (tag_Value t)) ts"

lemma nul_split:
  assumes "nul_free a" and "nul_free b" and "a @ CHR 0x00 # xs = b @ CHR 0x00 # ys"
  shows "a = b \<and> xs = ys"
  using assms by (induction a arbitrary: b) (case_tac b, auto simp: nul_free_def)+

abbreviation tag_bytes :: "tag list \<Rightarrow> bytes" where
  "tag_bytes ts \<equiv> concat (map (\<lambda>t. tag_Key t @ [CHR 0x00] @ tag_Value t @ [CHR 0x00]) ts)"

lemma tag_bytes_head: "tags_plain (t # ts) \<Longrightarrow> tag_bytes (t # ts) @ zs \<noteq> CHR 0x00 # ws"
  by (cases "tag_Key t") (auto simp: tags_plain_def nul_free_def)

lemma tag_bytes_inj:
  assumes "tags_plain ts" and "tags_plain us" and "tag_bytes ts @ CHR 0x00 # xs = tag_bytes us @ CHR 0x00 # ys"
  shows "ts = us \<and> xs = ys"
  using assms
proof (induction ts arbitrary: us)
  case Nil
  show ?case
  proof (cases us)
    case (Cons u us')
    have "tag_bytes (u # us') @ CHR 0x00 # ys = CHR 0x00 # xs" using Nil.prems(3) Cons by simp
    moreover have "tags_plain (u # us')" using Nil.prems(2) Cons by simp
    ultimately show ?thesis using tag_bytes_head by blast
  qed (use Nil in simp)
next
  case (Cons t ts)
  show ?case
  proof (cases us)
    case Nil
    have "tag_bytes (t # ts) @ CHR 0x00 # xs = CHR 0x00 # ys" using Cons.prems(3) Nil by simp
    with tag_bytes_head [OF Cons.prems(1)] show ?thesis by blast
  next
    case (Cons u us')
    with Cons.prems have e: "tag_Key t @ CHR 0x00 # tag_Value t @ CHR 0x00 # tag_bytes ts @ CHR 0x00 # xs =
        tag_Key u @ CHR 0x00 # tag_Value u @ CHR 0x00 # tag_bytes us' @ CHR 0x00 # ys" by simp
    have p: "nul_free (tag_Key t)" "nul_free (tag_Key u)" "nul_free (tag_Value t)" "nul_free (tag_Value u)" "tags_plain ts" "tags_plain us'"
      using Cons.prems Cons by (simp_all add: tags_plain_def)
    from nul_split [OF p(1,2) e] have k: "tag_Key t = tag_Key u" and
      e2: "tag_Value t @ CHR 0x00 # tag_bytes ts @ CHR 0x00 # xs = tag_Value u @ CHR 0x00 # tag_bytes us' @ CHR 0x00 # ys" by simp_all
    from nul_split [OF p(3,4) e2] have v: "tag_Value t = tag_Value u" and
      e3: "tag_bytes ts @ CHR 0x00 # xs = tag_bytes us' @ CHR 0x00 # ys" by simp_all
    from Cons.IH [OF p(5,6) e3] k v Cons show ?thesis by (simp add: tag.equality)
  qed
qed

lemma be64_word:
  assumes "be64 a = be64 b"
  shows "(of_int a :: 64 word) = of_int b"
proof (rule bit_word_eqI)
  fix k assume k: "k < LENGTH(64)"
  let ?w = "\<lambda>i n. unat (drop_bit (8 * i) (of_int n :: 64 word))"
  have "char_of (?w i a mod 256) = (char_of (?w i b mod 256) :: char)" if "i < 8" for i
  proof -
    have "i \<in> set [7, 6, 5, 4, 3, 2, 1, 0]" using that by auto
    with assms show ?thesis unfolding be64_def by (simp only: map_eq_conv)
  qed
  note c = this
  have m: "?w i a mod 256 = ?w i b mod 256" if "i < 8" for i
    using arg_cong [OF c [OF that], of "of_char :: char \<Rightarrow> nat"] by (simp del: unat_drop_bit_eq)
  let ?i = "k div 8" and ?j = "k mod 8"
  have i: "?i < 8" using k by simp
  have "bit (of_int n :: 64 word) k = bit (?w ?i n mod 256) ?j" for n
  proof -
    have "bit (of_int n :: 64 word) k = bit (drop_bit (8 * ?i) (of_int n :: 64 word)) ?j" by (simp add: bit_drop_bit_eq)
    also have "\<dots> = bit (?w ?i n) ?j" by (simp add: bit_unsigned_iff)
    also have "\<dots> = bit (take_bit 8 (?w ?i n)) ?j" by (simp add: bit_take_bit_iff)
    finally show ?thesis by (simp add: take_bit_eq_mod)
  qed
  with m [OF i] show "bit (of_int a :: 64 word) k = bit (of_int b :: 64 word) k" by simp
qed

lemma be64_inj:
  assumes "in_int64 a" and "in_int64 b" and "be64 a = be64 b"
  shows "a = b"
proof -
  have "sint (of_int a :: 64 word) = sint (of_int b :: 64 word)" using be64_word [OF assms(3)] by simp
  moreover have "sint (of_int n :: 64 word) = n" if "in_int64 n" for n
    using that by (simp add: in_int64_def signed_of_int signed_take_bit_int_eq_self)
  ultimately show ?thesis using assms(1,2) by simp
qed

text \<open>The bytes from which a series is identified determine it: two series whose texts hold no NUL byte and whose tags have keys give
  the same bytes only when name, tags and time agree, so that series are only ever mixed up
  when the 64-bit hash itself collides.\<close>

theorem group_bytes_separates:
  assumes "nul_free name" and "nul_free name'" and "tags_plain ts" and "tags_plain ts'" and "in_int64 tm" and "in_int64 tm'"
  shows "group_bytes name ts tm = group_bytes name' ts' tm' \<longleftrightarrow> name = name' \<and> ts = ts' \<and> tm = tm'"
proof
  assume "group_bytes name ts tm = group_bytes name' ts' tm'"
  then have e: "name @ CHR 0x00 # tag_bytes ts @ CHR 0x00 # be64 tm = name' @ CHR 0x00 # tag_bytes ts' @ CHR 0x00 # be64 tm'"
    by (simp add: group_bytes_def)
  from nul_split [OF assms(1,2) e] have n: "name = name'"
    and e2: "tag_bytes ts @ CHR 0x00 # be64 tm = tag_bytes ts' @ CHR 0x00 # be64 tm'" by simp_all
  from tag_bytes_inj [OF assms(3,4) e2] be64_inj [OF assms(5,6)] n show "name = name' \<and> ts = ts' \<and> tm = tm'" by simp
qed simp

theorem group_bytes_separates_witness:
  "group_bytes ''cpu'' [mk_tag ''a'' ''b''] 5 \<noteq> group_bytes ''cpu'' [mk_tag ''ab'' []] 5"
  using group_bytes_separates [of "''cpu''" "''cpu''" "[mk_tag ''a'' ''b'']" "[mk_tag ''ab'' []]" 5 5]
  by (simp add: nul_free_def tags_plain_def mk_tag_def in_int64_def)

type_synonym series = "string \<times> tag list \<times> int"

definition series_of :: "'f metric \<Rightarrow> series" where
  "series_of m = (m_name m, m_tags m, m_tm m)"

definition series_id :: "(bytes \<Rightarrow> 64 word) \<Rightarrow> series \<Rightarrow> 64 word" where
  "series_id maphash s = (case s of (name, ts, tm) \<Rightarrow> groupID maphash name ts tm)"

definition field_map :: "'f metric \<Rightarrow> string \<rightharpoonup> 'f field_value option" where
  "field_map m = keyed fld_Key fld_Value (m_fields m)"

text \<open>The fields of a series: those of its metrics, a later value for a key replacing an earlier one.\<close>

definition merged :: "'f metric list \<Rightarrow> series \<Rightarrow> string \<rightharpoonup> 'f field_value option" where
  "merged ms s = foldl (\<lambda>f m. f ++ field_map m) Map.empty (filter (\<lambda>m. series_of m = s) ms)"

definition first_seen :: "'a list \<Rightarrow> 'a list" where
  "first_seen xs = rev (remdups (rev xs))"

lemma first_seen_snoc: "first_seen (xs @ [x]) = (if x \<in> set xs then first_seen xs else first_seen xs @ [x])"
  by (simp add: first_seen_def)

lemma set_first_seen [simp]: "set (first_seen xs) = set xs"
  by (simp add: first_seen_def)

lemma distinct_first_seen [simp]: "distinct (first_seen xs)"
  by (simp add: first_seen_def)

lemma Metric_Copy_same [simp]: "Metric_Copy m = m"
proof -
  have "map (\<lambda>t. mk_tag (tag_Key t) (tag_Value t)) ts = ts" for ts by (induction ts) (simp_all add: mk_tag_def)
  moreover have "map (\<lambda>f. \<lparr>fld_Key = fld_Key f, fld_Value = fld_Value f\<rparr>) fs = fs" for fs :: "'a field list"
    by (induction fs) simp_all
  ultimately show ?thesis by (simp add: Metric_Copy_def)
qed

definition add_fields :: "'f field list \<Rightarrow> 'f metric \<Rightarrow> 'f metric" where
  "add_fields fs m = foldl (\<lambda>m f. AddField (fld_Key f) (stored (fld_Value f)) m) m fs"

lemma add_fields_law:
  assumes "fields_ok m" and "distinct (map fld_Key fs)"
  shows "series_of (add_fields fs m) = series_of m" "fields_ok (add_fields fs m)"
    "field_map (add_fields fs m) = field_map m ++ keyed fld_Key fld_Value fs"
proof -
  have "series_of (add_fields fs m) = series_of m \<and> fields_ok (add_fields fs m) \<and>
      field_map (add_fields fs m) = foldl (\<lambda>r f. r(fld_Key f \<mapsto> fld_Value f)) (field_map m) fs"
    using assms(1)
  proof (induction fs arbitrary: m)
    case (Cons f fs)
    let ?m = "AddField (fld_Key f) (stored (fld_Value f)) m"
    have "fields_ok ?m" by (rule field_store.ok_put [OF Cons.prems])
    moreover have "field_map ?m = (field_map m)(fld_Key f \<mapsto> fld_Value f)"
      using field_store.get_put [OF Cons.prems, of "fld_Key f" "stored (fld_Value f)"] by (simp add: field_map_def GetField_keyed)
    moreover have "series_of ?m = series_of m" by (simp add: series_of_def)
    ultimately show ?case using Cons.IH [of ?m] by (simp add: add_fields_def)
  qed (simp add: add_fields_def)
  then show "series_of (add_fields fs m) = series_of m" "fields_ok (add_fields fs m)"
    "field_map (add_fields fs m) = field_map m ++ keyed fld_Key fld_Value fs"
    by (simp_all add: foldl_keyed [OF assms(2)])
qed

definition grouped :: "(bytes \<Rightarrow> 64 word) \<Rightarrow> 'f metric list \<Rightarrow> 'f series_grouper \<Rightarrow> bool" where
  "grouped maphash ms g \<longleftrightarrow> map series_of (g_ordered g) = first_seen (map series_of ms) \<and>
     (\<forall>i n. g_metrics g i = Some n \<longleftrightarrow> n < length (g_ordered g) \<and> series_id maphash (series_of (g_ordered g ! n)) = i) \<and>
     (\<forall>r \<in> set (g_ordered g). fields_ok r \<and> field_map r = merged ms (series_of r))"

lemma merged_snoc: "merged (ms @ [m]) s = (if s = series_of m then merged ms s ++ field_map m else merged ms s)"
  by (simp add: merged_def)

lemma grouped_insert:
  assumes g: "grouped maphash ms g" and "fields_ok m" and i: "i = series_id maphash (series_of m)" and "g_metrics g i = None"
  shows "grouped maphash (ms @ [m]) (insert_metric i m g)"
proof -
  let ?g = "insert_metric i m g"
  have none: "series_id maphash (series_of (g_ordered g ! n)) \<noteq> i" if "n < length (g_ordered g)" for n
    using g assms(4) that unfolding grouped_def by (metis option.distinct(1))
  have fresh: "series_of m \<notin> set (map series_of (g_ordered g))"
  proof
    assume "series_of m \<in> set (map series_of (g_ordered g))"
    then obtain r where r: "r \<in> set (g_ordered g)" "series_of r = series_of m" by auto
    then obtain n where "n < length (g_ordered g)" "g_ordered g ! n = r" by (auto simp: in_set_conv_nth)
    with none [of n] r(2) i show False by simp
  qed
  have S: "map series_of (g_ordered g) = first_seen (map series_of ms)" using g by (simp add: grouped_def)
  have new: "series_of m \<notin> set (map series_of ms)" using fresh unfolding S by simp
  then have "\<forall>m' \<in> set ms. series_of m' \<noteq> series_of m" by (metis image_eqI set_map)
  then have "filter (\<lambda>m'. series_of m' = series_of m) ms = []" by (simp add: filter_empty_conv)
  then have "merged ms (series_of m) = Map.empty" by (simp add: merged_def)
  moreover have "r \<in> set (g_ordered g) \<Longrightarrow> series_of r \<noteq> series_of m" for r
    using fresh by (metis image_eqI set_map)
  ultimately have "\<forall>r \<in> set (g_ordered ?g). fields_ok r \<and> field_map r = merged (ms @ [m]) (series_of r)"
    using g assms(2) by (auto simp: grouped_def insert_metric_def merged_snoc)
  moreover have "g_metrics ?g j = Some n \<longleftrightarrow> n < length (g_ordered ?g) \<and> series_id maphash (series_of (g_ordered ?g ! n)) = j" for j n
    using g none i by (auto simp: grouped_def insert_metric_def nth_append less_Suc_eq)
  moreover have "map series_of (g_ordered ?g) = first_seen (map series_of (ms @ [m]))"
    using g new by (simp add: grouped_def insert_metric_def first_seen_snoc)
  ultimately show ?thesis by (simp only: grouped_def) blast
qed

lemma grouped_change:
  assumes g: "grouped maphash ms g" and m: "fields_ok m" and n: "n < length (g_ordered g)"
    and s: "series_of (g_ordered g ! n) = series_of m"
  shows "grouped maphash (ms @ [m]) (change_metric n (add_fields (m_fields m)) g)"
proof -
  let ?g = "change_metric n (add_fields (m_fields m)) g" and ?r = "g_ordered g ! n"
  have r: "fields_ok ?r" "field_map ?r = merged ms (series_of ?r)" using g n by (auto simp: grouped_def)
  have d: "distinct (map fld_Key (m_fields m))" using m by (simp add: fields_ok_def)
  note law = add_fields_law [OF r(1) d]
  have ser: "series_of (g_ordered ?g ! j) = series_of (g_ordered g ! j)" if "j < length (g_ordered g)" for j
    using that law(1) by (cases "j = n") (simp_all add: change_metric_def)
  have len: "length (g_ordered ?g) = length (g_ordered g)" by (simp add: change_metric_def)
  have M: "map series_of (g_ordered ?g) = map series_of (g_ordered g)"
    by (rule nth_equalityI) (simp_all add: len ser)
  have D: "distinct (map series_of (g_ordered g))" using g by (simp add: grouped_def)
  have "fields_ok (g_ordered ?g ! j) \<and> field_map (g_ordered ?g ! j) = merged (ms @ [m]) (series_of (g_ordered ?g ! j))"
    if j: "j < length (g_ordered g)" for j
  proof (cases "j = n")
    case True
    then have "g_ordered ?g ! j = add_fields (m_fields m) ?r" using j by (simp add: change_metric_def)
    with law r(2) s show ?thesis by (simp add: merged_snoc field_map_def)
  next
    case False
    then have "series_of (g_ordered g ! j) \<noteq> series_of m"
      using D j n s by (metis distinct_map inj_on_contraD nth_eq_iff_index_eq nth_mem)
    with False j g show ?thesis by (simp add: change_metric_def merged_snoc grouped_def)
  qed
  then have F: "\<forall>r \<in> set (g_ordered ?g). fields_ok r \<and> field_map r = merged (ms @ [m]) (series_of r)"
    by (auto simp: in_set_conv_nth len)
  have "series_of m \<in> set (map series_of ms)"
    using g n s by (metis grouped_def length_map nth_map nth_mem set_first_seen)
  then have "map series_of (g_ordered ?g) = first_seen (map series_of (ms @ [m]))"
    using g M by (simp add: grouped_def first_seen_snoc)
  moreover have "g_metrics ?g j = Some k \<longleftrightarrow> k < length (g_ordered ?g) \<and> series_id maphash (series_of (g_ordered ?g ! k)) = j" for j k
    using g ser by (auto simp: grouped_def len) (simp_all add: change_metric_def)
  ultimately show ?thesis using F by (simp only: grouped_def) blast
qed


definition sample_point :: "string \<Rightarrow> string \<Rightarrow> int \<Rightarrow> int metric" where
  "sample_point name field v = New_Metric name [(''host'', ''h'')] [(field, Plain (PInt KInt v))] 7 []"


text \<open>
  \<open>Add\<close> is \<open>AddMetric\<close> of a metric with the one field, when its value can be converted. Otherwise the two branches of \<open>Add\<close>
  differ: a first value is left out, a later one is stored as nil.
\<close>

lemma Grouper_Add_AddMetric:
  assumes "convertField v \<noteq> None"
  shows "Grouper_Add maphash measurement tags tm field v g = Grouper_AddMetric maphash (New_Metric measurement tags [(field, v)] tm []) g"
proof -
  have "m_fields (New_Metric measurement tags [(field, v)] tm []) = [\<lparr>fld_Key = field, fld_Value = convertField v\<rparr>]"
    using assms by (auto simp: New_Metric_def AddField_def Let_def)
  moreover have "AddField field (stored (convertField v)) = AddField field v"
    by (simp add: fun_eq_iff AddField_def)
  ultimately show ?thesis
    by (simp add: Grouper_Add_def Grouper_AddMetric_def Let_def split: option.splits)
qed

lemma Grouper_Add_unconvertible:
  assumes "convertField v = None"
  shows "g_metrics g (groupID maphash measurement (sort_tags tags) tm) = None \<Longrightarrow>
      m_fields (last (g_ordered (Grouper_Add maphash measurement tags tm field v g))) = []"
    and "g_metrics g (groupID maphash measurement (sort_tags tags) tm) = Some n \<Longrightarrow> n < length (g_ordered g) \<Longrightarrow> fields_ok (g_ordered g ! n) \<Longrightarrow>
      GetField field (g_ordered (Grouper_Add maphash measurement tags tm field v g) ! n) = Some None"
proof -
  show "g_metrics g (groupID maphash measurement (sort_tags tags) tm) = None \<Longrightarrow>
      m_fields (last (g_ordered (Grouper_Add maphash measurement tags tm field v g))) = []"
    using assms by (simp add: Grouper_Add_def insert_metric_def New_Metric_def Let_def)
  assume "g_metrics g (groupID maphash measurement (sort_tags tags) tm) = Some n" "n < length (g_ordered g)"
    and ok: "fields_ok (g_ordered g ! n)"
  with fun_cong [OF field_store.get_put [OF ok, of field v], of field] assms
  show "GetField field (g_ordered (Grouper_Add maphash measurement tags tm field v g) ! n) = Some None"
    by (simp add: Grouper_Add_def change_metric_def)
qed

end
