(* ===== verification/Retry.thy ===== *)
theory Retry
  imports Go_Prelude
begin

text \<open>
  Retrying: \<open>src/pkg/retry/retrier.go\<close>, \<open>types.go\<close> and \<open>error.go\<close>. Durations
  are signed 64-bit numbers of nanoseconds, the shift of the exponential back-off works on the 64 bits
  as in Go, times are integers. An attempt is given by what it returns and by the clock before and after it.
\<close>

subsection \<open>Configuration and state\<close>

datatype status = NeedSetup | Idle | StatusOK | FailWillRetry | PermaFail

datatype strategy = OneTry | RetryCount_strategy | Backoff | JustTesting

record retry_config =
  rc_Name :: string
  Strategy :: strategy
  RetryCount :: "64 word"
  RetryDelay :: "64 word"
  InitialRetryDelay :: "64 word"
  MaxRetryDelay :: "64 word"

record retrier =
  r_cfg :: retry_config
  r_status :: status
  nextTry :: "int option"
  tryCount :: "64 word"
  lastTryError :: "string option"

datatype setup_error = NilConfig | ZeroRetryCount | ZeroRetryDelay | ZeroInitialDelay | ZeroMaxDelay

definition check_config :: "retry_config \<Rightarrow> setup_error option" where
  "check_config cfg =
     (case Strategy cfg of
        RetryCount_strategy \<Rightarrow>
          if RetryCount cfg = 0 then Some ZeroRetryCount
          else if RetryDelay cfg = 0 then Some ZeroRetryDelay else None
      | Backoff \<Rightarrow>
          if InitialRetryDelay cfg = 0 then Some ZeroInitialDelay
          else if MaxRetryDelay cfg = 0 then Some ZeroMaxDelay else None
      | _ \<Rightarrow> None)"

definition SetupRetrier :: "retry_config option \<Rightarrow> retrier \<Rightarrow> setup_error + retrier" where
  "SetupRetrier cfg r =
     (case cfg of
        None \<Rightarrow> Inl NilConfig
      | Some c \<Rightarrow>
          (case check_config c of
             Some e \<Rightarrow> Inl e
           | None \<Rightarrow> Inr (r\<lparr>r_cfg := c, r_status := (if Strategy c = JustTesting then StatusOK else Idle)\<rparr>)))"

subsection \<open>Errors\<close>

record retry_error =
  LogicError :: string
  LastTryError :: "string option"
  RessourceName :: string
  RetryStatus :: status

definition wrapError :: "string option \<Rightarrow> retrier \<Rightarrow> retry_error option" where
  "wrapError err r =
     (case err of
        None \<Rightarrow> None
      | Some e \<Rightarrow> Some \<lparr>LogicError = e, LastTryError = lastTryError r, RessourceName = rc_Name (r_cfg r), RetryStatus = r_status r\<rparr>)"

definition Error_text :: "retry_error \<Rightarrow> string" where
  "Error_text e =
     (case RetryStatus e of
        NeedSetup \<Rightarrow> RessourceName e @ '' needs to be setup with SetupRetrier: '' @ LogicError e
      | FailWillRetry \<Rightarrow> ''temporary failure in '' @ RessourceName e @ '', will retry later: '' @ LogicError e
      | PermaFail \<Rightarrow> ''permanent failure in '' @ RessourceName e @ '': '' @ LogicError e
      | _ \<Rightarrow> ''error in '' @ RessourceName e @ '': '' @ LogicError e)"

definition IsErrPermaFail :: "retry_error \<Rightarrow> bool" where
  "IsErrPermaFail e \<longleftrightarrow> RetryStatus e = PermaFail"

definition IsErrWillRetry :: "retry_error \<Rightarrow> bool" where
  "IsErrWillRetry e \<longleftrightarrow> RetryStatus e = FailWillRetry"

subsection \<open>Trying\<close>

record attempt =
  at_now :: int
  at_err :: "string option"
  at_then :: int

definition backoff_sleep :: "retrier \<Rightarrow> 64 word" where
  "backoff_sleep r = push_bit (unat (tryCount r)) (InitialRetryDelay (r_cfg r) * 1)"

definition after_failure :: "int \<Rightarrow> retrier \<Rightarrow> retrier" where
  "after_failure now r =
     (case Strategy (r_cfg r) of
        OneTry \<Rightarrow> r\<lparr>r_status := PermaFail\<rparr>
      | RetryCount_strategy \<Rightarrow>
          (let r1 = r\<lparr>tryCount := tryCount r + 1\<rparr> in
           if tryCount r1 \<ge> RetryCount (r_cfg r) then r1\<lparr>r_status := PermaFail\<rparr>
           else r1\<lparr>r_status := FailWillRetry, nextTry := Some (now + sint (RetryDelay (r_cfg r) - 100000000))\<rparr>)
      | Backoff \<Rightarrow>
          (let sleep = backoff_sleep r in
           if sint sleep > sint (MaxRetryDelay (r_cfg r))
           then r\<lparr>r_status := FailWillRetry, nextTry := Some (now + sint (MaxRetryDelay (r_cfg r)))\<rparr>
           else r\<lparr>tryCount := tryCount r + 1, r_status := FailWillRetry, nextTry := Some (now + sint sleep)\<rparr>)
      | JustTesting \<Rightarrow> r)"

definition too_early :: "int \<Rightarrow> retrier \<Rightarrow> bool" where
  "too_early now r \<longleftrightarrow> (case nextTry r of None \<Rightarrow> False | Some t \<Rightarrow> now < t)"

definition doTry :: "attempt \<Rightarrow> retrier \<Rightarrow> retrier \<times> retry_error option" where
  "doTry a r =
     (if too_early (at_now a) r then (r, wrapError (Some ''try delay not elapsed yet'') r)
      else
        (let r1 = r\<lparr>lastTryError := at_err a\<rparr>;
             r2 = (case at_err a of None \<Rightarrow> r1\<lparr>r_status := StatusOK\<rparr> | Some e \<Rightarrow> after_failure (at_then a) r1) in
         (r2, wrapError (at_err a) r2)))"

definition TriggerRetry :: "attempt \<Rightarrow> retrier \<Rightarrow> retrier \<times> retry_error option" where
  "TriggerRetry a r =
     (case r_status r of
        StatusOK \<Rightarrow> (r, None)
      | NeedSetup \<Rightarrow> (r, wrapError (Some ''retryer not initialised'') r)
      | PermaFail \<Rightarrow> (r, wrapError (Some ''retry number exceeded'') r)
      | _ \<Rightarrow> doTry a r)"

definition retry_run :: "retrier \<Rightarrow> attempt list \<Rightarrow> retrier" where
  "retry_run r as = foldl (\<lambda>r a. fst (TriggerRetry a r)) r as"

text \<open>Whether a call reaches the attempt method.\<close>

definition reaches :: "attempt \<Rightarrow> retrier \<Rightarrow> bool" where
  "reaches a r \<longleftrightarrow> (r_status r = Idle \<or> r_status r = FailWillRetry) \<and> \<not> too_early (at_now a) r"

fun failures :: "retrier \<Rightarrow> attempt list \<Rightarrow> nat" where
  "failures r [] = 0"
| "failures r (a # as) =
     (if reaches a r \<and> at_err a \<noteq> None then 1 else 0) + failures (fst (TriggerRetry a r)) as"

subsection \<open>Back-off\<close>

lemma doTry_reaches:
  "reaches a r \<Longrightarrow> fst (TriggerRetry a r) = (case at_err a of None \<Rightarrow> r\<lparr>lastTryError := None, r_status := StatusOK\<rparr>
     | Some e \<Rightarrow> after_failure (at_then a) (r\<lparr>lastTryError := Some e\<rparr>))"
  by (auto simp: reaches_def TriggerRetry_def doTry_def Let_def split: option.splits)

lemma TriggerRetry_unreached: "\<not> reaches a r \<Longrightarrow> fst (TriggerRetry a r) = r"
  by (auto simp: reaches_def TriggerRetry_def doTry_def split: status.splits)

lemma shift_exact:
  assumes "0 \<le> sint w" and "sint w * 2 ^ n < 2 ^ 63"
  shows "sint (push_bit n w :: 64 word) = sint w * 2 ^ n"
proof -
  have w: "w = of_int (sint w)" by simp
  then have e: "push_bit n w = word_of_int (sint w * 2 ^ n)"
    by (metis push_bit_eq_mult of_int_mult of_int_power of_int_numeral)
  have "0 \<le> sint w * 2 ^ n" using assms(1) by simp
  with assms(2) show ?thesis
    unfolding e sint_sbintrunc' by (intro signed_take_bit_int_eq_self) simp_all
qed

text \<open>What the counter means after \<open>n\<close> failures: it stops growing once the shifted delay exceeds the maximum.\<close>

definition backoff_inv :: "retry_config \<Rightarrow> nat \<Rightarrow> retrier \<Rightarrow> bool" where
  "backoff_inv c n r \<longleftrightarrow> r_cfg r = c \<and> r_status r \<in> {Idle, StatusOK, FailWillRetry} \<and> unat (tryCount r) \<le> n \<and>
     (unat (tryCount r) < n \<longrightarrow> sint (InitialRetryDelay c) * 2 ^ unat (tryCount r) > sint (MaxRetryDelay c)) \<and>
     (tryCount r \<noteq> 0 \<longrightarrow> sint (InitialRetryDelay c) * 2 ^ (unat (tryCount r) - 1) \<le> sint (MaxRetryDelay c))"

definition backoff_config :: "retry_config \<Rightarrow> bool" where
  "backoff_config c \<longleftrightarrow> Strategy c = Backoff \<and> 0 < sint (InitialRetryDelay c) \<and> 0 < sint (MaxRetryDelay c) \<and>
     sint (MaxRetryDelay c) < 2 ^ 62"

lemma pow_bound: "0 < a \<Longrightarrow> a * 2 ^ n \<le> M \<Longrightarrow> M < 2 ^ 62 \<Longrightarrow> n < 62" for a M :: int
proof (rule ccontr)
  assume "0 < a" "a * 2 ^ n \<le> M" "M < 2 ^ 62" and n: "\<not> n < 62"
  then have "(2 :: int) ^ 62 \<le> 2 ^ n" by (intro power_increasing) auto
  also have "\<dots> \<le> a * 2 ^ n" using \<open>0 < a\<close> by (simp add: mult_le_cancel_right1)
  finally show False using \<open>a * 2 ^ n \<le> M\<close> \<open>M < 2 ^ 62\<close> by linarith
qed

lemma backoff_sleep_exact:
  assumes "backoff_config c" and "backoff_inv c n r"
  shows "sint (backoff_sleep r) = sint (InitialRetryDelay c) * 2 ^ unat (tryCount r)"
proof -
  let ?I = "sint (InitialRetryDelay c)" and ?k = "unat (tryCount r)"
  have "?I * 2 ^ ?k < 2 ^ 63"
  proof (cases "tryCount r = 0")
    case True
    then show ?thesis using sint_lt [of "InitialRetryDelay c"] by simp
  next
    case False
    then have "?I * 2 ^ (?k - 1) < 2 ^ 62" using assms by (auto simp: backoff_config_def backoff_inv_def)
    moreover have "?k = Suc (?k - 1)" using False by (simp add: unat_gt_0)
    then have "?I * 2 ^ ?k = 2 * (?I * 2 ^ (?k - 1))" by (metis mult.left_commute power_Suc)
    ultimately have "?I * 2 ^ ?k < 2 * 2 ^ 62" by linarith
    then show ?thesis by simp
  qed
  then show ?thesis
    using assms shift_exact [of "InitialRetryDelay c" ?k]
    by (simp add: backoff_sleep_def backoff_config_def backoff_inv_def)
qed

lemma backoff_fails:
  assumes c: "backoff_config c" and inv: "backoff_inv c n r"
  shows "backoff_inv c (Suc n) (after_failure t (r\<lparr>lastTryError := e\<rparr>))"
    and "nextTry (after_failure t (r\<lparr>lastTryError := e\<rparr>)) = Some (t + min (sint (InitialRetryDelay c) * 2 ^ n) (sint (MaxRetryDelay c)))"
proof -
  let ?I = "sint (InitialRetryDelay c)" and ?M = "sint (MaxRetryDelay c)" and ?k = "unat (tryCount r)"
  have s: "sint (backoff_sleep (r\<lparr>lastTryError := e\<rparr>)) = ?I * 2 ^ ?k"
    using backoff_sleep_exact [OF c inv] by (simp add: backoff_sleep_def)
  have I: "0 < ?I" using c by (simp add: backoff_config_def)
  have kn: "?k \<le> n" using inv by (simp add: backoff_inv_def)
  have mono: "?I * 2 ^ ?k \<le> ?I * 2 ^ n" using I kn by (simp add: power_increasing)
  have cfg: "r_cfg r = c" "Strategy c = Backoff" using inv c by (simp_all add: backoff_inv_def backoff_config_def)
  have both: "backoff_inv c (Suc n) (after_failure t (r\<lparr>lastTryError := e\<rparr>)) \<and>
      nextTry (after_failure t (r\<lparr>lastTryError := e\<rparr>)) = Some (t + min (?I * 2 ^ n) ?M)"
  proof (cases "?I * 2 ^ ?k > ?M")
    case True
    then show ?thesis using inv mono cfg s by (auto simp: after_failure_def Let_def backoff_inv_def)
  next
    case False
    then have eq: "?k = n" using inv by (auto simp: backoff_inv_def)
    have "?k < 62" using pow_bound [OF I, of ?k ?M] False c by (simp add: backoff_config_def)
    then have u: "unat (tryCount r + 1) = Suc ?k" by (simp add: unat_word_ariths)
    show ?thesis using False inv cfg s u eq by (auto simp: after_failure_def Let_def backoff_inv_def)
  qed
  then show "backoff_inv c (Suc n) (after_failure t (r\<lparr>lastTryError := e\<rparr>))"
    "nextTry (after_failure t (r\<lparr>lastTryError := e\<rparr>)) = Some (t + min (?I * 2 ^ n) ?M)" by simp_all
qed

lemma backoff_run:
  assumes "backoff_config c" and "backoff_inv c n r"
  shows "backoff_inv c (n + failures r as) (retry_run r as)"
  using assms(2)
proof (induction as arbitrary: r n)
  case (Cons a as)
  show ?case
  proof (cases "reaches a r")
    case True
    show ?thesis
    proof (cases "at_err a")
      case None
      have "backoff_inv c n (fst (TriggerRetry a r))"
        using Cons.prems by (simp add: doTry_reaches [OF True] None backoff_inv_def)
      with Cons.IH None show ?thesis by (simp add: retry_run_def)
    next
      case (Some e)
      have "backoff_inv c (Suc n) (fst (TriggerRetry a r))"
        using backoff_fails(1) [OF assms(1) Cons.prems] by (simp add: doTry_reaches [OF True] Some)
      with Cons.IH [of "Suc n"] Some True show ?thesis by (simp add: retry_run_def)
    qed
  next
    case False
    with Cons show ?thesis by (simp add: retry_run_def TriggerRetry_unreached)
  qed
qed (simp add: retry_run_def)

text \<open>Exponential back-off. With a positive initial delay and a maximum below 2^62 nanoseconds (146 years), whatever calls were made
  before, the failure that follows \<open>n\<close> failed attempts schedules the next try after exactly the
  initial delay times 2^n or the maximum, whichever is less: the 64-bit shift never overflows,
  and the retrier never gives up.\<close>

theorem Retrier_backoff_delay:
  assumes "backoff_config c" and "SetupRetrier (Some c) r0 = Inr r1" and "tryCount r0 = 0"
    and "reaches a (retry_run r1 as)" and "at_err a = Some e"
  shows "nextTry (fst (TriggerRetry a (retry_run r1 as))) =
      Some (at_then a + min (sint (InitialRetryDelay c) * 2 ^ failures r1 as) (sint (MaxRetryDelay c))) \<and>
    r_status (fst (TriggerRetry a (retry_run r1 as))) = FailWillRetry"
proof -
  have "backoff_inv c 0 r1"
    using assms(1-3) by (auto simp: SetupRetrier_def backoff_inv_def backoff_config_def split: option.splits)
  from backoff_run [OF assms(1) this, of as] have inv: "backoff_inv c (failures r1 as) (retry_run r1 as)" by simp
  have "Strategy (r_cfg (retry_run r1 as)) = Backoff" using inv assms(1) by (simp add: backoff_inv_def backoff_config_def)
  then have "r_status (after_failure t ((retry_run r1 as)\<lparr>lastTryError := e'\<rparr>)) = FailWillRetry" for t e'
    by (simp add: after_failure_def Let_def)
  with backoff_fails(2) [OF assms(1) inv] show ?thesis by (simp add: doTry_reaches [OF assms(4)] assms(5))
qed

definition new_retrier :: retrier where
  "new_retrier = \<lparr>r_cfg = \<lparr>rc_Name = [], Strategy = OneTry, RetryCount = 0, RetryDelay = 0, InitialRetryDelay = 0, MaxRetryDelay = 0\<rparr>,
     r_status = NeedSetup, nextTry = None, tryCount = 0, lastTryError = None\<rparr>"

definition sample_retry_config :: "strategy \<Rightarrow> retry_config" where
  "sample_retry_config st = \<lparr>rc_Name = ''docker'', Strategy = st, RetryCount = 2, RetryDelay = 1000000000,
     InitialRetryDelay = 1000, MaxRetryDelay = 3000\<rparr>"

lemma sample_setup:
  "SetupRetrier (Some (sample_retry_config st)) new_retrier =
     Inr (new_retrier\<lparr>r_cfg := sample_retry_config st, r_status := (if st = JustTesting then StatusOK else Idle)\<rparr>)"
  by (cases st) (simp_all add: SetupRetrier_def check_config_def sample_retry_config_def)

theorem Retrier_backoff_delay_witness:
  "nextTry (fst (TriggerRetry \<lparr>at_now = 5000, at_err = Some ''e'', at_then = 6000\<rparr>
     (retry_run (new_retrier\<lparr>r_cfg := sample_retry_config Backoff, r_status := Idle\<rparr>) []))) = Some 7000"
proof -
  let ?r = "new_retrier\<lparr>r_cfg := sample_retry_config Backoff, r_status := Idle\<rparr>"
  let ?a = "\<lparr>at_now = 5000, at_err = Some ''e'', at_then = 6000\<rparr>"
  have "backoff_config (sample_retry_config Backoff)" by (simp add: backoff_config_def sample_retry_config_def)
  moreover have "SetupRetrier (Some (sample_retry_config Backoff)) new_retrier = Inr ?r" by (simp add: sample_setup)
  moreover have "tryCount new_retrier = 0" by (simp add: new_retrier_def)
  moreover have "reaches ?a (retry_run ?r [])" by (simp add: reaches_def too_early_def retry_run_def new_retrier_def)
  ultimately have "nextTry (fst (TriggerRetry ?a (retry_run ?r []))) = Some (at_then ?a +
      min (sint (InitialRetryDelay (sample_retry_config Backoff)) * 2 ^ failures ?r []) (sint (MaxRetryDelay (sample_retry_config Backoff))))"
    using Retrier_backoff_delay [of "sample_retry_config Backoff" new_retrier ?r ?a "[]" "''e''"] by simp
  then show ?thesis by (simp add: sample_retry_config_def)
qed

subsection \<open>A fixed number of tries\<close>

definition count_inv :: "retry_config \<Rightarrow> nat \<Rightarrow> retrier \<Rightarrow> bool" where
  "count_inv c n r \<longleftrightarrow> r_cfg r = c \<and> unat (tryCount r) = n \<and> n \<le> unat (RetryCount c) \<and>
     (r_status r = PermaFail \<longleftrightarrow> n = unat (RetryCount c))"

lemma count_fails:
  assumes "count_inv c n r" and "Strategy c = RetryCount_strategy" and "r_status r \<noteq> PermaFail"
  shows "count_inv c (Suc n) (after_failure t (r\<lparr>lastTryError := e\<rparr>))"
proof -
  have "n < unat (RetryCount c)" using assms by (auto simp: count_inv_def)
  moreover have "unat (RetryCount c) < 2 ^ 64" using unsigned_less [of "RetryCount c"] by simp
  ultimately have u: "unat (tryCount r + 1) = Suc n" using assms(1) by (simp add: count_inv_def unat_word_ariths)
  with assms \<open>n < unat (RetryCount c)\<close> show ?thesis
    by (auto simp: count_inv_def after_failure_def Let_def word_le_nat_alt)
qed

lemma count_run:
  assumes "Strategy c = RetryCount_strategy" and "count_inv c n r"
  shows "count_inv c (n + failures r as) (retry_run r as)"
  using assms(2)
proof (induction as arbitrary: r n)
  case (Cons a as)
  show ?case
  proof (cases "reaches a r")
    case True
    then have p: "r_status r \<noteq> PermaFail" by (auto simp: reaches_def)
    show ?thesis
    proof (cases "at_err a")
      case None
      have "count_inv c n (fst (TriggerRetry a r))"
        using Cons.prems p by (auto simp: doTry_reaches [OF True] None count_inv_def)
      with Cons.IH None show ?thesis by (simp add: retry_run_def)
    next
      case (Some e)
      have "count_inv c (Suc n) (fst (TriggerRetry a r))"
        using count_fails [OF Cons.prems assms(1) p] by (simp add: doTry_reaches [OF True] Some)
      with Cons.IH [of "Suc n"] Some True show ?thesis by (simp add: retry_run_def)
    qed
  next
    case False
    with Cons show ?thesis by (simp add: retry_run_def TriggerRetry_unreached)
  qed
qed (simp add: retry_run_def)

text \<open>C26: with a fixed number of tries the attempts end: at most that many attempts fail, whatever calls are made and when, and the retrier is
  in permanent failure, where it attempts nothing more, exactly when that number has failed.\<close>

theorem Retrier_count_gives_up:
  assumes "Strategy c = RetryCount_strategy" and "SetupRetrier (Some c) r0 = Inr r1" and "tryCount r0 = 0"
  shows "failures r1 as \<le> unat (RetryCount c) \<and>
    (r_status (retry_run r1 as) = PermaFail \<longleftrightarrow> failures r1 as = unat (RetryCount c))"
proof -
  have "count_inv c 0 r1"
    using assms by (auto simp: SetupRetrier_def check_config_def count_inv_def unsigned_eq_0_iff split: option.splits if_splits)
  from count_run [OF assms(1) this, of as] show ?thesis by (simp add: count_inv_def)
qed

theorem Retrier_count_gives_up_witness:
  "r_status (retry_run (new_retrier\<lparr>r_cfg := sample_retry_config RetryCount_strategy, r_status := Idle\<rparr>)
     [\<lparr>at_now = 0, at_err = Some ''e'', at_then = 1\<rparr>, \<lparr>at_now = 2000000000, at_err = Some ''e'', at_then = 2000000001\<rparr>]) = PermaFail"
proof -
  let ?r = "new_retrier\<lparr>r_cfg := sample_retry_config RetryCount_strategy, r_status := Idle\<rparr>"
  let ?as = "[\<lparr>at_now = 0, at_err = Some ''e'', at_then = 1\<rparr>, \<lparr>at_now = 2000000000, at_err = Some ''e'', at_then = 2000000001\<rparr>]"
  have "failures ?r ?as = 2"
    by (simp add: reaches_def too_early_def TriggerRetry_def doTry_def after_failure_def Let_def sample_retry_config_def new_retrier_def word_le_nat_alt)
  then show ?thesis
    using Retrier_count_gives_up [of "sample_retry_config RetryCount_strategy" new_retrier ?r ?as] sample_setup [of RetryCount_strategy]
    by (simp add: sample_retry_config_def new_retrier_def)
qed

end
