(* ===== verification/Go_Utf8.thy ===== *)
theory Go_Utf8
  imports Go_Prelude
begin

text \<open>
  Strings as sequences of code points, the way a Go conversion between \<open>string\<close> and \<open>[]rune\<close> and the package \<open>unicode/utf8\<close> see them: a byte
  that does not start a well formed sequence is the replacement character U+FFFD of width one.
\<close>

definition byte :: "char \<Rightarrow> nat" where "byte c = of_char c"

definition RuneError :: nat where "RuneError = 0xFFFD"

definition byte_in :: "nat \<Rightarrow> nat \<Rightarrow> bytes \<Rightarrow> nat \<Rightarrow> bool" where
  "byte_in lo hi s i \<longleftrightarrow> i < length s \<and> lo \<le> byte (s ! i) \<and> byte (s ! i) \<le> hi"

definition cont :: "bytes \<Rightarrow> nat \<Rightarrow> nat" where "cont s i = byte (s ! i) mod 64"

text \<open>The accepted range of the second byte depends on the first.\<close>

definition second_range :: "nat \<Rightarrow> nat \<times> nat" where
  "second_range b =
     (if b = 0xE0 then (0xA0, 0xBF) else if b = 0xED then (0x80, 0x9F)
      else if b = 0xF0 then (0x90, 0xBF) else if b = 0xF4 then (0x80, 0x8F) else (0x80, 0xBF))"

definition DecodeRune :: "bytes \<Rightarrow> nat \<times> nat" where
  "DecodeRune s =
     (if s = [] then (RuneError, 0)
      else
        (let b = byte (s ! 0); (lo, hi) = second_range b in
         if b < 0x80 then (b, 1)
         else if 0xC2 \<le> b \<and> b \<le> 0xDF \<and> byte_in lo hi s 1 then (b mod 32 * 64 + cont s 1, 2)
         else if 0xE0 \<le> b \<and> b \<le> 0xEF \<and> byte_in lo hi s 1 \<and> byte_in 0x80 0xBF s 2
           then (b mod 16 * 4096 + cont s 1 * 64 + cont s 2, 3)
         else if 0xF0 \<le> b \<and> b \<le> 0xF4 \<and> byte_in lo hi s 1 \<and> byte_in 0x80 0xBF s 2 \<and> byte_in 0x80 0xBF s 3
           then (b mod 8 * 262144 + cont s 1 * 4096 + cont s 2 * 64 + cont s 3, 4)
         else (RuneError, 1)))"

lemma DecodeRune_width: "s \<noteq> [] \<Longrightarrow> 1 \<le> snd (DecodeRune s) \<and> snd (DecodeRune s) \<le> length s"
  by (cases "second_range (byte (s ! 0))") (auto simp: DecodeRune_def Let_def byte_in_def Suc_le_eq)

function runes :: "bytes \<Rightarrow> nat list" where
  "runes s = (if s = [] then [] else fst (DecodeRune s) # runes (drop (snd (DecodeRune s)) s))"
  by pat_completeness auto
termination
  by (relation "measure length") (use DecodeRune_width in \<open>fastforce+\<close>)

declare runes.simps [simp del]

lemma runes_Nil [simp]: "runes [] = []"
  by (simp add: runes.simps)

definition valid_rune :: "nat \<Rightarrow> bool" where
  "valid_rune r \<longleftrightarrow> r < 0xD800 \<or> 0xE000 \<le> r \<and> r \<le> 0x10FFFF"

definition EncodeRune :: "nat \<Rightarrow> bytes" where
  "EncodeRune r0 =
     (let r = (if valid_rune r0 then r0 else RuneError) in
      if r < 0x80 then [char_of r]
      else if r < 0x800 then [char_of (0xC0 + r div 64), char_of (0x80 + r mod 64)]
      else if r < 0x10000 then [char_of (0xE0 + r div 4096), char_of (0x80 + r div 64 mod 64), char_of (0x80 + r mod 64)]
      else [char_of (0xF0 + r div 262144), char_of (0x80 + r div 4096 mod 64), char_of (0x80 + r div 64 mod 64), char_of (0x80 + r mod 64)])"

definition string_of_runes :: "nat list \<Rightarrow> bytes" where
  "string_of_runes rs = concat (map EncodeRune rs)"

lemma byte_char_of: "n < 256 \<Longrightarrow> byte (char_of n) = n"
  by (simp add: byte_def)

lemma three_byte_range:
  assumes "0x800 \<le> (r :: nat)" and "r < 0x10000" and "valid_rune r"
  shows "case second_range (0xE0 + r div 4096) of (lo, hi) \<Rightarrow> lo \<le> 0x80 + r div 64 mod 64 \<and> 0x80 + r div 64 mod 64 \<le> hi"
proof -
  have "r div 4096 = r div 64 div 64" by (simp flip: div_mult2_eq)
  then have e: "r div 64 mod 64 = r div 64 - 64 * (r div 4096)" by (simp add: minus_mult_div_eq_mod)
  have "r div 4096 < 16" using assms(2) by (simp add: less_mult_imp_div_less)
  moreover have "r div 4096 = 0 \<Longrightarrow> 32 \<le> r div 64 mod 64" using assms(1) e by simp
  moreover have "r div 4096 = 13 \<Longrightarrow> r div 64 mod 64 \<le> 31"
    using assms(3) e by (auto simp: valid_rune_def)
  ultimately show ?thesis by (auto simp: second_range_def)
qed

lemma four_byte_range:
  assumes "0x10000 \<le> (r :: nat)" and "r \<le> 0x10FFFF"
  shows "case second_range (0xF0 + r div 262144) of (lo, hi) \<Rightarrow> lo \<le> 0x80 + r div 4096 mod 64 \<and> 0x80 + r div 4096 mod 64 \<le> hi"
proof -
  have "r div 262144 = r div 4096 div 64" by (simp flip: div_mult2_eq)
  then have e: "r div 4096 mod 64 = r div 4096 - 64 * (r div 262144)" by (simp add: minus_mult_div_eq_mod)
  have "r div 262144 \<le> 4" using div_le_mono [OF assms(2), of 262144] by simp
  moreover have "r div 262144 = 0 \<Longrightarrow> 16 \<le> r div 4096 mod 64" using div_le_mono [OF assms(1), of 4096] e by simp
  moreover have "r div 262144 = 4 \<Longrightarrow> r div 4096 mod 64 \<le> 15" using div_le_mono [OF assms(2), of 4096] e by simp
  ultimately show ?thesis by (auto simp: second_range_def)
qed

lemma decode_two:
  assumes "0xC2 \<le> b0" and "b0 \<le> 0xDF" and "0x80 \<le> b1" and "b1 \<le> 0xBF"
  shows "DecodeRune (char_of b0 # char_of b1 # s) = (b0 mod 32 * 64 + b1 mod 64, 2)"
  using assms by (simp add: DecodeRune_def Let_def second_range_def byte_in_def cont_def byte_char_of)

lemma decode_three:
  assumes "0xE0 \<le> b0" and "b0 \<le> 0xEF" and "case second_range b0 of (lo, hi) \<Rightarrow> lo \<le> b1 \<and> b1 \<le> hi"
    and "b1 \<le> 0xBF" and "0x80 \<le> b2" and "b2 \<le> 0xBF"
  shows "DecodeRune (char_of b0 # char_of b1 # char_of b2 # s) = (b0 mod 16 * 4096 + b1 mod 64 * 64 + b2 mod 64, 3)"
  using assms by (cases "second_range b0") (simp add: DecodeRune_def Let_def byte_in_def cont_def byte_char_of)

lemma decode_four:
  assumes "0xF0 \<le> b0" and "b0 \<le> 0xF4" and "case second_range b0 of (lo, hi) \<Rightarrow> lo \<le> b1 \<and> b1 \<le> hi"
    and "b1 \<le> 0xBF" and "0x80 \<le> b2" and "b2 \<le> 0xBF" and "0x80 \<le> b3" and "b3 \<le> 0xBF"
  shows "DecodeRune (char_of b0 # char_of b1 # char_of b2 # char_of b3 # s) =
    (b0 mod 8 * 262144 + b1 mod 64 * 4096 + b2 mod 64 * 64 + b3 mod 64, 4)"
  using assms by (cases "second_range b0") (simp add: DecodeRune_def Let_def byte_in_def cont_def byte_char_of)

lemma cont_mod: "(128 + n mod 64) mod 64 = (n mod 64 :: nat)" "128 + n mod 64 \<le> (191 :: nat)"
proof -
  have "128 + n mod 64 = n mod 64 + 2 * 64" by simp
  then show "(128 + n mod 64) mod 64 = n mod 64" by (simp only: mod_mult_self1 mod_mod_trivial)
  show "128 + n mod 64 \<le> 191" using mod_less_divisor [of 64 n] by linarith
qed

lemma lead_mod:
  "x < 32 \<Longrightarrow> (192 + x) mod 32 = (x :: nat)" "x < 16 \<Longrightarrow> (224 + x) mod 16 = x" "x \<le> 4 \<Longrightarrow> (240 + x) mod 8 = x"
proof -
  have "192 + x = x + 6 * 32" "224 + x = x + 14 * 16" "240 + x = x + 30 * 8" by simp_all
  then show "x < 32 \<Longrightarrow> (192 + x) mod 32 = (x :: nat)" "x < 16 \<Longrightarrow> (224 + x) mod 16 = x" "x \<le> 4 \<Longrightarrow> (240 + x) mod 8 = x"
    by (simp_all only: mod_mult_self1 mod_less)
qed

lemma DecodeRune_Encode:
  assumes "valid_rune r"
  shows "DecodeRune (EncodeRune r @ s) = (r, length (EncodeRune r))"
proof -
  have s1: "r div 64 * 64 + r mod 64 = r" by simp
  have "r div 4096 = r div 64 div 64" by (simp flip: div_mult2_eq)
  then have s2: "r div 4096 * 64 + r div 64 mod 64 = r div 64" by simp
  have "r div 262144 = r div 4096 div 64" by (simp flip: div_mult2_eq)
  then have s3: "r div 262144 * 64 + r div 4096 mod 64 = r div 4096" by simp
  consider (one) "r < 0x80" | (two) "0x80 \<le> r" "r < 0x800" | (three) "0x800 \<le> r" "r < 0x10000" | (four) "0x10000 \<le> r" "r \<le> 0x10FFFF"
    using assms by (auto simp: valid_rune_def) linarith+
  then show ?thesis
  proof cases
    case one
    then show ?thesis using assms by (simp add: EncodeRune_def DecodeRune_def byte_char_of)
  next
    case two
    have d: "r div 64 < 32" using two(2) by (simp add: less_mult_imp_div_less)
    have "2 \<le> r div 64" using div_le_mono [OF two(1), of 64] by simp
    then have "DecodeRune (char_of (0xC0 + r div 64) # char_of (0x80 + r mod 64) # s) = ((0xC0 + r div 64) mod 32 * 64 + (0x80 + r mod 64) mod 64, 2)"
      using d cont_mod(2) [of r] by (intro decode_two) simp_all
    moreover have "(0xC0 + r div 64) mod 32 = r div 64" using d by (rule lead_mod)
    ultimately show ?thesis using two assms s1 by (simp add: EncodeRune_def cont_mod)
  next
    case three
    have d: "r div 4096 < 16" using three(2) by (simp add: less_mult_imp_div_less)
    have "DecodeRune (char_of (0xE0 + r div 4096) # char_of (0x80 + r div 64 mod 64) # char_of (0x80 + r mod 64) # s) =
        ((0xE0 + r div 4096) mod 16 * 4096 + (0x80 + r div 64 mod 64) mod 64 * 64 + (0x80 + r mod 64) mod 64, 3)"
      using d cont_mod(2) [of r] cont_mod(2) [of "r div 64"] three_byte_range [OF three assms] by (intro decode_three) simp_all
    moreover have "(0xE0 + r div 4096) mod 16 = r div 4096" using d by (rule lead_mod)
    moreover have "r div 4096 * 4096 + r div 64 mod 64 * 64 + r mod 64 = r" using s1 s2 by linarith
    ultimately show ?thesis using three assms by (simp add: EncodeRune_def cont_mod)
  next
    case four
    have d: "r div 262144 \<le> 4" using div_le_mono [OF four(2), of 262144] by simp
    have "DecodeRune (char_of (0xF0 + r div 262144) # char_of (0x80 + r div 4096 mod 64) # char_of (0x80 + r div 64 mod 64) # char_of (0x80 + r mod 64) # s) =
        ((0xF0 + r div 262144) mod 8 * 262144 + (0x80 + r div 4096 mod 64) mod 64 * 4096 + (0x80 + r div 64 mod 64) mod 64 * 64 + (0x80 + r mod 64) mod 64, 4)"
      using d cont_mod(2) [of r] cont_mod(2) [of "r div 64"] cont_mod(2) [of "r div 4096"] four_byte_range [OF four] by (intro decode_four) simp_all
    moreover have "(0xF0 + r div 262144) mod 8 = r div 262144" using d by (rule lead_mod)
    moreover have "r div 262144 * 262144 + r div 4096 mod 64 * 4096 + r div 64 mod 64 * 64 + r mod 64 = r" using s1 s2 s3 by linarith
    ultimately show ?thesis using four assms by (simp add: EncodeRune_def cont_mod)
  qed
qed

lemma EncodeRune_nonempty: "EncodeRune r \<noteq> []"
  by (simp add: EncodeRune_def Let_def)

lemma runes_string_of_runes:
  assumes "list_all valid_rune rs"
  shows "runes (string_of_runes rs) = rs"
  using assms
proof (induction rs)
  case (Cons r rs)
  then have d: "DecodeRune (EncodeRune r @ string_of_runes rs) = (r, length (EncodeRune r))" by (simp add: DecodeRune_Encode)
  with Cons EncodeRune_nonempty [of r] show ?case
    by (subst runes.simps) (simp add: string_of_runes_def)
qed (simp add: string_of_runes_def)

end
