(* ===== verification/Ibex.thy ===== *)
theory Ibex
  imports Go_Utf8
begin

text \<open>
  Remote tasks: \<open>src/ibex/task.go\<close>, \<open>tasks.go\<close> and the assignment loop of \<open>heartbeat.go\<close>, on Unix. The server assigns tasks (start or kill,
  with a clock); a task runs a script in a process of its own, and its result is kept in files under
  its directory so that a restarted agent does not run it again. \<open>ibex_step\<close> interleaves the goroutines: the
  assignments, for each running task the goroutine \<open>run\<close> with its termination handler, clean-up and shut-down.
  Each step is a region the code guards by a lock, or a step of one goroutine on what only it writes. The
  result files are a map; the reading, writing and process functions of other packages are parameters
  (whether they succeed, how \<open>ReadStringTrim\<close> trims).
\<close>

subsection \<open>Tasks\<close>

datatype done_chan = NoChan | OpenChan | ClosedChan

record task =
  tk_Id :: int
  tk_Clock :: int
  tk_Action :: string
  tk_Status :: string
  tk_alive :: bool
  tk_hasCmd :: bool
  tk_Stdout :: bytes
  tk_Stderr :: bytes
  tk_Stdin :: bytes
  tk_Args :: string
  tk_Account :: string
  tk_StdinStr :: string
  tk_done :: done_chan
  tk_processStarted :: bool
  tk_completing :: bool
  tk_requests :: "string option option"

definition new_task :: "int \<Rightarrow> int \<Rightarrow> string \<Rightarrow> task" where
  "new_task i clock act =
     \<lparr>tk_Id = i, tk_Clock = clock, tk_Action = act, tk_Status = [], tk_alive = False, tk_hasCmd = False, tk_Stdout = [], tk_Stderr = [],
      tk_Stdin = [], tk_Args = [], tk_Account = [], tk_StdinStr = [], tk_done = NoChan, tk_processStarted = False,
      tk_completing = False, tk_requests = None\<rparr>"

type_synonym disk = "int \<Rightarrow> string \<Rightarrow> string option"

definition write_file :: "bool \<Rightarrow> int \<Rightarrow> string \<Rightarrow> string \<Rightarrow> disk \<Rightarrow> disk" where
  "write_file succeeds i name content d = (if succeeds then d(i := (d i)(name \<mapsto> content)) else d)"

definition done_name :: "int \<Rightarrow> string" where
  "done_name clock = FormatInt clock @ ''.done''"

definition SetAssignment :: "int \<Rightarrow> string \<Rightarrow> task \<Rightarrow> task" where
  "SetAssignment clock act t = t\<lparr>tk_Clock := clock, tk_Action := act\<rparr>"

definition ResetBuff :: "task \<Rightarrow> task" where
  "ResetBuff t = t\<lparr>tk_Stdout := [], tk_Stderr := []\<rparr>"

definition doneBefore :: "disk \<Rightarrow> task \<Rightarrow> bool" where
  "doneBefore d t \<longleftrightarrow> d (tk_Id t) (done_name (tk_Clock t)) \<noteq> None"

definition content_of :: "string option \<Rightarrow> string" where
  "content_of c = (case c of None \<Rightarrow> [] | Some s \<Rightarrow> s)"

definition loadResult :: "(string \<Rightarrow> string) \<Rightarrow> disk \<Rightarrow> task \<Rightarrow> task" where
  "loadResult trim d t =
     t\<lparr>tk_Status := (case d (tk_Id t) (done_name (tk_Clock t)) of None \<Rightarrow> [] | Some s \<Rightarrow> trim s),
       tk_Stdout := content_of (d (tk_Id t) ''stdout''), tk_Stderr := content_of (d (tk_Id t) ''stderr'')\<rparr>"

text \<open>The circumstances of \<open>prepare\<close>: whether the directory can be made, what the server returns as script, arguments, account and input, which files can be written.\<close>

record prep_env =
  ensure_dir :: bool
  client_Meta :: "(string \<times> string \<times> string \<times> string) option"
  can_write :: "string \<Rightarrow> bool"
  chmod_ok :: bool

fun write_files :: "prep_env \<Rightarrow> int \<Rightarrow> (string \<times> string) list \<Rightarrow> disk \<Rightarrow> disk \<times> bool" where
  "write_files e i [] d = (d, True)"
| "write_files e i ((name, content) # rest) d =
     (if can_write e name then write_files e i rest (write_file True i name content d) else (d, False))"

definition set_meta :: "string \<Rightarrow> string \<Rightarrow> string \<Rightarrow> task \<Rightarrow> task" where
  "set_meta args account stdin t = t\<lparr>tk_Args := args, tk_Account := account, tk_StdinStr := stdin, tk_Stdin := stdin\<rparr>"

definition prepare :: "(string \<Rightarrow> string) \<Rightarrow> prep_env \<Rightarrow> task \<Rightarrow> disk \<Rightarrow> disk \<times> task option" where
  "prepare trim e t d =
     (let i = tk_Id t in
      if tk_Account t \<noteq> [] then (d, Some t)
      else if \<not> ensure_dir e then (d, None)
      else if d i ''.write'' \<noteq> None then
        (case (d i ''args'', d i ''account'', d i ''stdin'') of
           (Some args, Some account, Some stdin) \<Rightarrow> (d, Some (set_meta (trim args) (trim account) (trim stdin) t))
         | _ \<Rightarrow> (d, None))
      else
        (case client_Meta e of
           None \<Rightarrow> (d, None)
         | Some (script, args, account, stdin) \<Rightarrow>
             (let (d1, ok1) = write_files e i [(''script'', script)] d in
              if \<not> ok1 \<or> \<not> chmod_ok e then (d1, None)
              else
                (let (d2, ok2) = write_files e i [(''args'', args), (''account'', account), (''stdin'', stdin), (''.write'', [])] d1 in
                 if \<not> ok2 then (d2, None) else (d2, Some (set_meta args account stdin t))))))"

definition beginRun :: "task \<Rightarrow> task \<times> int option" where
  "beginRun t =
     (if tk_alive t then (t, None)
      else (t\<lparr>tk_alive := True, tk_Status := ''running'', tk_hasCmd := False, tk_done := OpenChan, tk_processStarted := False,
              tk_completing := False, tk_requests := Some None\<rparr>, Some (tk_Clock t)))"

datatype command = ShCommand string string | SuCommand string string

definition newCommand :: "string option \<Rightarrow> (string \<times> string) option \<Rightarrow> task \<Rightarrow> command option" where
  "newCommand scriptFile loginUser t =
     (let args = (if tk_Args t \<noteq> [] then [CHR 0x27] @ ReplaceAll '',,'' [CHR 0x27, CHR '' '', CHR 0x27] (tk_Args t) @ [CHR 0x27] else []) in
      case scriptFile of
        None \<Rightarrow> None
      | Some f \<Rightarrow>
          (let sh = f @ '' '' @ args in
           case loginUser of
             None \<Rightarrow> None
           | Some (name, home) \<Rightarrow>
               Some (if name = ''root'' then (if tk_Account t = ''root'' then ShCommand sh home else SuCommand sh (tk_Account t))
                     else ShCommand sh home)))"

definition requestTermination :: "string \<Rightarrow> task \<Rightarrow> task" where
  "requestTermination reason t =
     (if \<not> tk_alive t then t
      else if tk_completing t \<or> tk_requests t = None then t
      else (case tk_requests t of Some None \<Rightarrow> t\<lparr>tk_requests := Some (Some reason)\<rparr> | _ \<Rightarrow> t))"

text \<open>How \<open>Wait\<close> ends: without error, with the output not drained in time, or with another error, which the signal of a termination caused or not.\<close>

datatype wait_result = WaitOK | WaitDelay | WaitError bool

fun statusFor :: "wait_result \<Rightarrow> bool \<Rightarrow> string" where
  "statusFor WaitOK signaled = ''success''"
| "statusFor WaitDelay signaled = ''success''"
| "statusFor (WaitError by_signal) signaled = (if signaled \<and> by_signal then ''killed'' else ''failed'')"

definition flushOutput :: "bool \<Rightarrow> bool \<Rightarrow> task \<Rightarrow> disk \<Rightarrow> disk" where
  "flushOutput ok1 ok2 t d =
     write_file ok2 (tk_Id t) ''stderr'' (tk_Stderr t) (write_file ok1 (tk_Id t) ''stdout'' (tk_Stdout t) d)"

definition persistResult :: "bool \<Rightarrow> task \<Rightarrow> int \<Rightarrow> string \<Rightarrow> disk \<Rightarrow> disk" where
  "persistResult ok t clock status d = write_file ok (tk_Id t) (done_name clock) status d"

subsection \<open>The local tasks\<close>

text \<open>Where the goroutine \<open>run\<close> of a task is. While the process runs and just after: whether the termination handler still runs, and whether it has signaled.\<close>

datatype run_phase =
  RunPrepare int
  | RunProcess int bool bool
  | RunWaited int bool bool wait_result
  | RunFinal int string
  | RunFlushed int string
  | RunClosing int string

record ibex =
  lt_M :: "int \<rightharpoonup> task"
  lt_accepting :: bool
  lt_runs :: "int \<rightharpoonup> run_phase"
  lt_disk :: disk

definition Locals :: "disk \<Rightarrow> ibex" where
  "Locals d = \<lparr>lt_M = Map.empty, lt_accepting = True, lt_runs = Map.empty, lt_disk = d\<rparr>"

record assign_task =
  at_Id :: int
  at_Clock :: int
  at_Action :: string

definition put_task :: "task \<Rightarrow> ibex \<Rightarrow> ibex" where
  "put_task t s = s\<lparr>lt_M := (lt_M s)(tk_Id t \<mapsto> t)\<rparr>"

definition perform :: "task \<Rightarrow> ibex \<Rightarrow> ibex" where
  "perform t s =
     (if tk_Action t = ''start'' then
        (case beginRun t of
           (t', Some clock) \<Rightarrow> (put_task t' s)\<lparr>lt_runs := (lt_runs s)(tk_Id t \<mapsto> RunPrepare clock)\<rparr>
         | (t', None) \<Rightarrow> put_task t' s)
      else if tk_Action t = ''kill'' then put_task (requestTermination ''kill'' t) s
      else put_task t s)"

definition AssignTask :: "(string \<Rightarrow> string) \<Rightarrow> assign_task \<Rightarrow> ibex \<Rightarrow> ibex" where
  "AssignTask trim a s =
     (if \<not> lt_accepting s then s
      else
        (case lt_M s (at_Id a) of
           Some t \<Rightarrow>
             if tk_Clock t = at_Clock a \<and> tk_Action t = at_Action a then s
             else if at_Action a = ''start'' \<and> tk_alive t then s
             else perform (SetAssignment (at_Clock a) (at_Action a) t) s
         | None \<Rightarrow>
             if at_Action a = ''kill'' then s
             else
               (let t = new_task (at_Id a) (at_Clock a) (at_Action a) in
                if doneBefore (lt_disk s) t then put_task (loadResult trim (lt_disk s) t) s
                else perform t s)))"

definition Clean :: "int set \<Rightarrow> ibex \<Rightarrow> ibex" where
  "Clean assigned s =
     s\<lparr>lt_M := (\<lambda>i. case lt_M s i of
          None \<Rightarrow> None
        | Some t \<Rightarrow> if i \<in> assigned \<or> tk_alive t then Some t else None)\<rparr>"

definition StopAll :: "ibex \<Rightarrow> ibex" where
  "StopAll s = s\<lparr>lt_accepting := False, lt_M := (\<lambda>i. map_option (requestTermination ''stop'') (lt_M s i))\<rparr>"

text \<open>The answer of the server, as \<open>heartbeat\<close> handles it.\<close>

definition handle_assignments :: "(string \<Rightarrow> string) \<Rightarrow> assign_task list \<Rightarrow> ibex \<Rightarrow> ibex" where
  "handle_assignments trim assigned s =
     Clean (at_Id ` set assigned) (foldl (\<lambda>s a. AssignTask trim a s) s assigned)"

record report_task =
  rt_Id :: int
  rt_Clock :: int
  rt_Status :: string
  rt_Stdout :: string
  rt_Stderr :: string

definition limit_output :: "bytes \<Rightarrow> bytes" where
  "limit_output out = (if length (runes out) > 16380 then string_of_runes (take 16380 (runes out)) @ ''...'' else out)"

text \<open>\<open>order\<close>: the identifiers in the order the runtime visits the map.\<close>

definition ReportTasks :: "int list \<Rightarrow> ibex \<Rightarrow> report_task list" where
  "ReportTasks order s =
     List.map_filter (\<lambda>i. case lt_M s i of
        None \<Rightarrow> None
      | Some t \<Rightarrow>
          if tk_Status t = ''killing'' then None
          else Some \<lparr>rt_Id = i, rt_Clock = tk_Clock t, rt_Status = tk_Status t, rt_Stdout = limit_output (tk_Stdout t),
                     rt_Stderr = limit_output (tk_Stderr t)\<rparr>) order"

subsection \<open>The goroutines of the tasks\<close>

text \<open>\<open>run\<close> until the process runs. \<open>e\<close>, \<open>scriptFile\<close>, \<open>loginUser\<close> and \<open>started\<close> are what the operating system and the server answer.\<close>

definition run_start :: "(string \<Rightarrow> string) \<Rightarrow> prep_env \<Rightarrow> string option \<Rightarrow> (string \<times> string) option \<Rightarrow> bool \<Rightarrow> int \<Rightarrow> task \<Rightarrow> disk
    \<Rightarrow> task \<times> run_phase \<times> disk" where
  "run_start trim e scriptFile loginUser started clock t d =
     (case prepare trim e t d of
        (d', None) \<Rightarrow> (t, RunFinal clock ''failed'', d')
      | (d', Some t') \<Rightarrow>
          (case newCommand scriptFile loginUser t' of
             None \<Rightarrow> (t', RunFinal clock ''failed'', d')
           | Some cmd \<Rightarrow>
               if \<not> started then (t'\<lparr>tk_hasCmd := True\<rparr>, RunFinal clock ''failed'', d')
               else (t'\<lparr>tk_hasCmd := True, tk_processStarted := True\<rparr>, RunProcess clock True False, d')))"

definition taskOutputWriter_Write :: "bool \<Rightarrow> bytes \<Rightarrow> task \<Rightarrow> task" where
  "taskOutputWriter_Write stderr p t = (if stderr then t\<lparr>tk_Stderr := tk_Stderr t @ p\<rparr> else t\<lparr>tk_Stdout := tk_Stdout t @ p\<rparr>)"

text \<open>One request taken by \<open>handleTermination\<close>: afterwards, whether the handler still runs and whether it has signaled.\<close>

definition handleTermination :: "bool \<Rightarrow> bool \<Rightarrow> task \<Rightarrow> task \<times> bool \<times> bool" where
  "handleTermination killed signaled t =
     (let t' = t\<lparr>tk_Status := ''killing'', tk_requests := Some None\<rparr> in
      if killed then (t', False, True) else (t', True, signaled))"

definition finalize_status :: "bool \<Rightarrow> bool \<Rightarrow> string \<Rightarrow> task \<Rightarrow> disk \<Rightarrow> task \<times> disk" where
  "finalize_status ok1 ok2 status t d = (let t' = t\<lparr>tk_Status := status\<rparr> in (t', flushOutput ok1 ok2 t' d))"

definition finalize_close :: "task \<Rightarrow> task" where
  "finalize_close t = t\<lparr>tk_alive := False, tk_done := ClosedChan\<rparr>"

definition run_goes :: "int \<Rightarrow> task \<Rightarrow> run_phase option \<Rightarrow> disk \<Rightarrow> ibex \<Rightarrow> ibex" where
  "run_goes i t ph d s = s\<lparr>lt_M := (lt_M s)(i \<mapsto> t), lt_runs := (lt_runs s)(i := ph), lt_disk := d\<rparr>"

definition StartAccepting :: "ibex \<Rightarrow> ibex" where
  "StartAccepting s = s\<lparr>lt_accepting := True\<rparr>"

text \<open>
  The interleavings. \<open>request\<close> is the part of a kill or of \<open>StopAll\<close> that runs after the lock is released; \<open>restart\<close> is the end of the agent at
  any point and its start on the files it left.
\<close>

inductive ibex_step :: "(string \<Rightarrow> string) \<Rightarrow> ibex \<Rightarrow> ibex \<Rightarrow> bool" for trim where
  assign: "ibex_step trim s (AssignTask trim a s)"
| clean: "ibex_step trim s (Clean ids s)"
| stop_all: "ibex_step trim s (StopAll s)"
| accept: "ibex_step trim s (StartAccepting s)"
| request: "lt_M s i = Some t \<Longrightarrow> ibex_step trim s (put_task (requestTermination reason t) s)"
| restart: "ibex_step trim s (Locals (lt_disk s))"
| started: "lt_M s i = Some t \<Longrightarrow> lt_runs s i = Some (RunPrepare c) \<Longrightarrow>
    run_start trim e f u b c t (lt_disk s) = (t', ph, d) \<Longrightarrow> ibex_step trim s (run_goes i t' (Some ph) d s)"
| writes: "lt_M s i = Some t \<Longrightarrow> lt_runs s i = Some (RunProcess c h g) \<Longrightarrow>
    ibex_step trim s (run_goes i (taskOutputWriter_Write b p t) (Some (RunProcess c h g)) (lt_disk s) s)"
| reads: "lt_M s i = Some t \<Longrightarrow> lt_runs s i = Some (RunProcess c h g) \<Longrightarrow>
    ibex_step trim s (run_goes i (t\<lparr>tk_Stdin := drop n (tk_Stdin t)\<rparr>) (Some (RunProcess c h g)) (lt_disk s) s)"
| terminate: "lt_M s i = Some t \<Longrightarrow> lt_runs s i = Some (RunProcess c True g) \<Longrightarrow> tk_requests t = Some (Some reason) \<Longrightarrow>
    handleTermination killed g t = (t', h, g') \<Longrightarrow> ibex_step trim s (run_goes i t' (Some (RunProcess c h g')) (lt_disk s) s)"
| terminate_late: "lt_M s i = Some t \<Longrightarrow> lt_runs s i = Some (RunWaited c True g w) \<Longrightarrow> tk_requests t = Some (Some reason) \<Longrightarrow>
    handleTermination killed g t = (t', h, g') \<Longrightarrow> ibex_step trim s (run_goes i t' (Some (RunWaited c h g' w)) (lt_disk s) s)"
| waited: "lt_M s i = Some t \<Longrightarrow> lt_runs s i = Some (RunProcess c h g) \<Longrightarrow>
    ibex_step trim s (run_goes i (t\<lparr>tk_completing := True\<rparr>) (Some (RunWaited c h g w)) (lt_disk s) s)"
| handler_stops: "lt_M s i = Some t \<Longrightarrow> lt_runs s i = Some (RunWaited c True g w) \<Longrightarrow>
    ibex_step trim s (run_goes i t (Some (RunWaited c False g w)) (lt_disk s) s)"
| judged: "lt_M s i = Some t \<Longrightarrow> lt_runs s i = Some (RunWaited c False g w) \<Longrightarrow>
    ibex_step trim s (run_goes i t (Some (RunFinal c (statusFor w g))) (lt_disk s) s)"
| flushed: "lt_M s i = Some t \<Longrightarrow> lt_runs s i = Some (RunFinal c st) \<Longrightarrow>
    finalize_status ok1 ok2 st t (lt_disk s) = (t', d) \<Longrightarrow> ibex_step trim s (run_goes i t' (Some (RunFlushed c st)) d s)"
| persisted: "lt_M s i = Some t \<Longrightarrow> lt_runs s i = Some (RunFlushed c st) \<Longrightarrow>
    ibex_step trim s (run_goes i t (Some (RunClosing c st)) (persistResult ok t c st (lt_disk s)) s)"
| closed: "lt_M s i = Some t \<Longrightarrow> lt_runs s i = Some (RunClosing c st) \<Longrightarrow>
    ibex_step trim s (run_goes i (finalize_close t) None (lt_disk s) s)"

subsection \<open>The invariant of the local tasks\<close>

definition final_statuses :: "string list" where
  "final_statuses = [''success'', ''failed'', ''killed'']"

fun run_phase_ok :: "task \<Rightarrow> run_phase \<Rightarrow> bool" where
  "run_phase_ok t (RunPrepare c) \<longleftrightarrow> \<not> tk_completing t \<and> \<not> tk_processStarted t \<and> tk_Status t = ''running''"
| "run_phase_ok t (RunProcess c h g) \<longleftrightarrow> \<not> tk_completing t \<and> tk_processStarted t \<and> tk_Status t \<in> {''running'', ''killing''} \<and> (h \<longrightarrow> \<not> g)"
| "run_phase_ok t (RunWaited c h g w) \<longleftrightarrow> tk_completing t \<and> tk_processStarted t \<and> tk_Status t \<in> {''running'', ''killing''} \<and> (h \<longrightarrow> \<not> g)"
| "run_phase_ok t (RunFinal c st) \<longleftrightarrow> st \<in> set final_statuses \<and> tk_Status t \<in> {''running'', ''killing''}"
| "run_phase_ok t (RunFlushed c st) \<longleftrightarrow> st \<in> set final_statuses \<and> tk_Status t = st"
| "run_phase_ok t (RunClosing c st) \<longleftrightarrow> st \<in> set final_statuses \<and> tk_Status t = st"

definition task_ok :: "task \<Rightarrow> run_phase option \<Rightarrow> bool" where
  "task_ok t r = (case r of
       None \<Rightarrow> \<not> tk_alive t \<and> tk_done t \<noteq> OpenChan \<and> tk_Status t \<in> insert [] (set final_statuses)
     | Some ph \<Rightarrow> tk_alive t \<and> tk_done t = OpenChan \<and> tk_requests t \<noteq> None \<and> run_phase_ok t ph)"

definition entry_ok :: "int \<Rightarrow> task option \<Rightarrow> run_phase option \<Rightarrow> bool" where
  "entry_ok i m r = (case m of None \<Rightarrow> r = None | Some t \<Rightarrow> tk_Id t = i \<and> task_ok t r)"

definition done_files_ok :: "disk \<Rightarrow> bool" where
  "done_files_ok d \<longleftrightarrow> (\<forall>i c s. d i (done_name c) = Some s \<longrightarrow> s \<in> set final_statuses)"

definition ibex_inv :: "ibex \<Rightarrow> bool" where
  "ibex_inv s \<longleftrightarrow> (\<forall>i. entry_ok i (lt_M s i) (lt_runs s i)) \<and> done_files_ok (lt_disk s)"

lemma ibex_invD:
  assumes "ibex_inv s"
  shows "entry_ok i (lt_M s i) (lt_runs s i)" and "done_files_ok (lt_disk s)"
  using assms by (simp_all add: ibex_inv_def)

lemma ibex_inv_task:
  assumes "ibex_inv s" and "lt_M s i = Some t"
  shows "tk_Id t = i" and "task_ok t (lt_runs s i)"
  using ibex_invD(1)[OF assms(1), of i] assms(2) by (simp_all add: entry_ok_def)

text \<open>The files a run writes besides its result never have the name of a result.\<close>

lemma done_name_suffix:
  assumes "\<not> (\<exists>p. n = p @ ''.done'')"
  shows "n \<noteq> done_name c" "done_name c \<noteq> n"
  using assms by (auto simp: done_name_def)

lemma not_suffix_last:
  assumes "n = [] \<or> last n \<noteq> CHR ''e''"
  shows "\<not> (\<exists>p. n = p @ ''.done'')"
  using assms by auto

lemmas done_name_other =
  done_name_suffix[OF not_suffix_last[of "''stdout''"], simplified]
  done_name_suffix[OF not_suffix_last[of "''stderr''"], simplified]
  done_name_suffix[OF not_suffix_last[of "''script''"], simplified]
  done_name_suffix[OF not_suffix_last[of "''args''"], simplified]
  done_name_suffix[OF not_suffix_last[of "''account''"], simplified]
  done_name_suffix[OF not_suffix_last[of "''stdin''"], simplified]

lemma done_name_write: "''.write'' \<noteq> done_name c" "done_name c \<noteq> ''.write''"
proof -
  have "''.write'' \<noteq> p @ ''.done''" for p :: string
  proof
    assume eq: "''.write'' = p @ ''.done''"
    have "rev ''.write'' = rev (p @ ''.done'')" by (rule arg_cong[OF eq])
    then show False by simp
  qed
  then show "''.write'' \<noteq> done_name c" "done_name c \<noteq> ''.write''"
    by (metis done_name_def)+
qed

lemma write_file_done:
  assumes "name \<noteq> done_name c"
  shows "write_file ok i name content d j (done_name c) = d j (done_name c)"
  using assms by (auto simp: write_file_def)

lemma write_files_done:
  assumes "\<forall>(name, content) \<in> set fs. name \<noteq> done_name c"
  shows "fst (write_files e i fs d) j (done_name c) = d j (done_name c)"
  using assms by (induction e i fs d rule: write_files.induct) (auto simp: write_file_done)

lemma prepare_done:
  "fst (prepare trim e t d) j (done_name c) = d j (done_name c)"
proof -
  have 1: "fst (write_files e i [(''script'', s)] d) j (done_name c) = d j (done_name c)" for i s d
    by (rule write_files_done) (simp add: done_name_other)
  have 2: "fst (write_files e i [(''args'', x), (''account'', y), (''stdin'', z), (''.write'', [])] d) j (done_name c) = d j (done_name c)"
    for i x y z d by (rule write_files_done) (simp add: done_name_other done_name_write)
  note [simp del] = write_files.simps
  show ?thesis
    using 1 2 by (auto simp: prepare_def Let_def case_prod_beta split: option.splits)
qed

lemma flushOutput_done: "flushOutput ok1 ok2 t d j (done_name c) = d j (done_name c)"
  by (simp add: flushOutput_def write_file_done done_name_other)

lemma run_start_done:
  assumes "run_start trim e f u b c t d = (t', ph, d')"
  shows "d' j (done_name k) = d j (done_name k)"
  using assms prepare_done[of trim e t d j k]
  by (auto simp: run_start_def split: prod.splits option.splits if_splits)

lemma set_meta_fields [simp]:
  "tk_Id (set_meta x y z t) = tk_Id t" "tk_alive (set_meta x y z t) = tk_alive t" "tk_done (set_meta x y z t) = tk_done t"
  "tk_requests (set_meta x y z t) = tk_requests t" "tk_Status (set_meta x y z t) = tk_Status t"
  "tk_completing (set_meta x y z t) = tk_completing t" "tk_processStarted (set_meta x y z t) = tk_processStarted t"
  by (simp_all add: set_meta_def)

lemma prepare_task:
  assumes "prepare trim e t d = (d', Some t')"
  shows "t' = t \<or> (\<exists>x y z. t' = set_meta x y z t)"
  using assms by (auto simp: prepare_def Let_def split: if_splits option.splits prod.splits)

lemma run_start_ok:
  assumes st: "run_start trim e f u b c t d = (t', ph, d')" and ok: "task_ok t (Some (RunPrepare c))"
  shows "tk_Id t' = tk_Id t" and "task_ok t' (Some ph)"
proof -
  have "tk_Id t' = tk_Id t \<and> task_ok t' (Some ph)"
  proof (cases "snd (prepare trim e t d)")
    case None
    then show ?thesis using st ok
      by (cases "prepare trim e t d") (auto simp: run_start_def task_ok_def final_statuses_def)
  next
    case (Some t1)
    have p: "prepare trim e t d = (fst (prepare trim e t d), Some t1)"
      using Some by (metis prod.collapse)
    show ?thesis using prepare_task[OF p] st ok
      by (subst (asm) run_start_def, subst (asm) p)
         (auto simp: task_ok_def final_statuses_def split: option.splits if_splits)
  qed
  then show "tk_Id t' = tk_Id t" "task_ok t' (Some ph)" by simp_all
qed

lemma requestTermination_ok:
  assumes "task_ok t r"
  shows "task_ok (requestTermination reason t) r"
  using assms
  by (auto simp: requestTermination_def task_ok_def split: option.splits elim!: run_phase_ok.elims)

lemma requestTermination_Id [simp]: "tk_Id (requestTermination reason t) = tk_Id t"
  by (simp add: requestTermination_def split: option.split)

lemma put_task_inv:
  assumes "ibex_inv s" and "task_ok t (lt_runs s (tk_Id t))"
  shows "ibex_inv (put_task t s)"
  using assms by (auto simp: ibex_inv_def put_task_def entry_ok_def)

lemma run_goes_inv:
  assumes "ibex_inv s" and "tk_Id t = i" and "task_ok t r" and "\<And>j c. d j (done_name c) = lt_disk s j (done_name c)"
  shows "ibex_inv (run_goes i t r d s)"
  using assms by (auto simp: ibex_inv_def run_goes_def entry_ok_def done_files_ok_def)

lemma perform_inv:
  assumes inv: "ibex_inv s" and ok: "task_ok t (lt_runs s (tk_Id t))"
  shows "ibex_inv (perform t s)"
proof (cases "tk_Action t = ''start'' \<and> \<not> tk_alive t")
  case True
  then show ?thesis using inv
    by (auto simp: perform_def beginRun_def put_task_def ibex_inv_def entry_ok_def task_ok_def)
next
  case False
  have "beginRun t = (t, None)" if "tk_Action t = ''start''"
    using that False by (simp add: beginRun_def)
  then show ?thesis using False put_task_inv[OF inv] ok requestTermination_ok[OF ok]
    by (auto simp: perform_def)
qed

lemma loadResult_ok:
  assumes "\<And>x. x \<in> set final_statuses \<Longrightarrow> trim x = x" and "done_files_ok d"
  shows "task_ok (loadResult trim d (new_task i c a)) None"
  using assms by (auto simp: task_ok_def loadResult_def new_task_def done_files_ok_def split: option.split)

lemma new_task_ok: "task_ok (new_task i c a) None"
  by (simp add: task_ok_def new_task_def)

lemma task_ok_SetAssignment: "task_ok (SetAssignment c a t) r = task_ok t r"
proof -
  have "run_phase_ok (SetAssignment c a t) ph = run_phase_ok t ph" for ph
    by (cases ph) (simp_all add: SetAssignment_def)
  then show ?thesis by (simp add: task_ok_def SetAssignment_def split: option.split)
qed

lemma AssignTask_inv:
  assumes trim: "\<And>x. x \<in> set final_statuses \<Longrightarrow> trim x = x" and inv: "ibex_inv s"
  shows "ibex_inv (AssignTask trim a s)"
proof (cases "lt_M s (at_Id a)")
  case None
  let ?t = "new_task (at_Id a) (at_Clock a) (at_Action a)"
  have r: "lt_runs s (at_Id a) = None" using ibex_invD(1)[OF inv, of "at_Id a"] None by (simp add: entry_ok_def)
  have i: "tk_Id ?t = at_Id a" "tk_Id (loadResult trim (lt_disk s) ?t) = at_Id a"
    by (simp_all add: new_task_def loadResult_def)
  have "ibex_inv (put_task (loadResult trim (lt_disk s) ?t) s)"
    by (rule put_task_inv[OF inv]) (simp add: i r loadResult_ok[OF trim ibex_invD(2)[OF inv]])
  moreover have "ibex_inv (perform ?t s)"
    by (rule perform_inv[OF inv]) (simp add: i r new_task_ok)
  ultimately show ?thesis using inv None by (simp add: AssignTask_def Let_def)
next
  case (Some t)
  have "ibex_inv (perform (SetAssignment (at_Clock a) (at_Action a) t) s)"
    using ibex_inv_task[OF inv Some]
    by (intro perform_inv[OF inv]) (simp_all add: task_ok_SetAssignment, simp add: SetAssignment_def)
  then show ?thesis using inv Some by (simp add: AssignTask_def)
qed

lemma Clean_inv:
  assumes inv: "ibex_inv s"
  shows "ibex_inv (Clean ids s)"
proof -
  have "entry_ok i (lt_M (Clean ids s) i) (lt_runs s i)" for i
    using ibex_invD(1)[OF inv, of i]
    by (cases "lt_runs s i") (auto simp: Clean_def entry_ok_def task_ok_def split: option.splits)
  then show ?thesis using inv by (simp add: ibex_inv_def) (simp add: Clean_def)
qed

lemma StopAll_inv:
  assumes inv: "ibex_inv s"
  shows "ibex_inv (StopAll s)"
proof -
  have "entry_ok i (map_option (requestTermination ''stop'') (lt_M s i)) (lt_runs s i)" for i
    using ibex_invD(1)[OF inv, of i] requestTermination_ok
    by (auto simp: entry_ok_def split: option.splits)
  then show ?thesis using inv by (simp add: ibex_inv_def StopAll_def)
qed

lemma Locals_inv: "done_files_ok d \<Longrightarrow> ibex_inv (Locals d)"
  by (simp add: ibex_inv_def Locals_def entry_ok_def)

lemma statusFor_final: "statusFor w g \<in> set final_statuses"
  by (cases w) (simp_all add: final_statuses_def)

lemma task_ok_fields:
  "task_ok (taskOutputWriter_Write b p t) (Some (RunProcess c h g)) = task_ok t (Some (RunProcess c h g))"
  "task_ok (t\<lparr>tk_Stdin := z\<rparr>) (Some (RunProcess c h g)) = task_ok t (Some (RunProcess c h g))"
  "tk_Id (taskOutputWriter_Write b p t) = tk_Id t"
  by (simp_all add: task_ok_def taskOutputWriter_Write_def)

lemma done_name_inj: "done_name c = done_name k \<longleftrightarrow> c = k"
  by (auto simp: done_name_def FormatInt_inj)

lemma persist_inv:
  assumes inv: "ibex_inv s" and t: "lt_M s i = Some t" and r: "lt_runs s i = Some (RunFlushed c st)"
  shows "ibex_inv (run_goes i t (Some (RunClosing c st)) (persistResult ok t c st (lt_disk s)) s)"
proof -
  have o: "task_ok t (Some (RunFlushed c st))" using ibex_inv_task(2)[OF inv t] r by simp
  have "done_files_ok (persistResult ok t c st (lt_disk s))"
    using ibex_invD(2)[OF inv] o
    by (auto simp: persistResult_def write_file_def done_files_ok_def task_ok_def done_name_inj split: if_splits)
  then show ?thesis using ibex_invD(1)[OF inv] o ibex_inv_task(1)[OF inv t]
    by (auto simp: ibex_inv_def run_goes_def entry_ok_def task_ok_def)
qed

lemma ibex_step_inv:
  assumes trim: "\<And>x. x \<in> set final_statuses \<Longrightarrow> trim x = x" and inv: "ibex_inv s" and step: "ibex_step trim s s'"
  shows "ibex_inv s'"
  using step
proof cases
  case (started i t c e f u b t' ph d)
  have "task_ok t (Some (RunPrepare c))" using ibex_inv_task(2)[OF inv started(2)] started(3) by simp
  note o = run_start_ok[OF started(4) this]
  show ?thesis unfolding started(1)
    using o ibex_inv_task(1)[OF inv started(2)] run_start_done[OF started(4)]
    by (intro run_goes_inv[OF inv]) simp_all
next
  case (flushed i t c st ok1 ok2 t' d)
  show ?thesis unfolding flushed(1)
    using flushed ibex_inv_task[OF inv flushed(2)]
    by (intro run_goes_inv[OF inv]) (auto simp: finalize_status_def Let_def task_ok_def flushOutput_done)
next
  case (terminate i t c g reason killed t' h g')
  show ?thesis unfolding terminate(1) using terminate ibex_inv_task[OF inv terminate(2)]
    by (intro run_goes_inv[OF inv]) (auto simp: handleTermination_def Let_def task_ok_def split: if_splits)
next
  case (terminate_late i t c g w reason killed t' h g')
  show ?thesis unfolding terminate_late(1) using terminate_late ibex_inv_task[OF inv terminate_late(2)]
    by (intro run_goes_inv[OF inv]) (auto simp: handleTermination_def Let_def task_ok_def split: if_splits)
next
  case (request i t reason)
  show ?thesis unfolding request(1)
    using ibex_inv_task[OF inv request(2)] by (intro put_task_inv[OF inv]) (simp add: requestTermination_ok)
next
  case (persisted i t c st ok)
  then show ?thesis using persist_inv[OF inv] by simp
next
  case (waited i t c h g w)
  show ?thesis unfolding waited(1) using waited ibex_inv_task[OF inv waited(2)]
    by (intro run_goes_inv[OF inv]) (auto simp: task_ok_def)
next
  case (handler_stops i t c g w)
  show ?thesis unfolding handler_stops(1) using handler_stops ibex_inv_task[OF inv handler_stops(2)]
    by (intro run_goes_inv[OF inv]) (auto simp: task_ok_def)
next
  case (judged i t c g w)
  show ?thesis unfolding judged(1) using judged ibex_inv_task[OF inv judged(2)]
    by (intro run_goes_inv[OF inv]) (auto simp: task_ok_def statusFor_final)
next
  case (closed i t c st)
  show ?thesis unfolding closed(1) using closed ibex_inv_task[OF inv closed(2)]
    by (intro run_goes_inv[OF inv]) (auto simp: task_ok_def finalize_close_def)
next
  case (writes i t c h g b p)
  show ?thesis unfolding writes(1) using writes ibex_inv_task[OF inv writes(2)]
    by (intro run_goes_inv[OF inv]) (auto simp: task_ok_fields)
next
  case (reads i t c h g n)
  show ?thesis unfolding reads(1) using reads ibex_inv_task[OF inv reads(2)]
    by (intro run_goes_inv[OF inv]) (auto simp: task_ok_fields)
next
  case accept
  then show ?thesis using inv by (simp add: StartAccepting_def ibex_inv_def)
next
  case restart
  then show ?thesis using Locals_inv ibex_invD(2)[OF inv] by simp
qed (simp_all add: AssignTask_inv[OF trim inv] Clean_inv[OF inv] StopAll_inv[OF inv])

lemma ibex_steps_inv:
  assumes "\<And>x. x \<in> set final_statuses \<Longrightarrow> trim x = x" and "(ibex_step trim)\<^sup>*\<^sup>* s s'" and "ibex_inv s"
  shows "ibex_inv s'"
  using assms(2,3) by induction (auto intro: ibex_step_inv[OF assms(1)])

subsection \<open>Results and shut-down\<close>

lemma perform_disk [simp]: "lt_disk (perform t s) = lt_disk s"
  by (simp add: perform_def beginRun_def put_task_def)

lemma AssignTask_disk [simp]: "lt_disk (AssignTask trim a s) = lt_disk s"
  by (simp add: AssignTask_def Let_def put_task_def split: option.split)

lemma ibex_step_done_file:
  assumes "ibex_step trim s s'" and "lt_disk s i (done_name c) \<noteq> None"
  shows "lt_disk s' i (done_name c) \<noteq> None"
  using assms
proof cases
  case (assign a)
  then show ?thesis using assms(2) by simp
next
  case (started i t c e f u b t' ph d)
  then show ?thesis using assms(2) run_start_done[OF started(4)] by (simp add: run_goes_def)
qed (auto simp: Clean_def StopAll_def StartAccepting_def put_task_def Locals_def run_goes_def persistResult_def write_file_def finalize_status_def
      Let_def flushOutput_done)

lemma ibex_steps_done_file:
  assumes "(ibex_step trim)\<^sup>*\<^sup>* s s'" and "lt_disk s i (done_name c) \<noteq> None"
  shows "lt_disk s' i (done_name c) \<noteq> None"
  using assms by induction (auto dest: ibex_step_done_file)

lemma AssignTask_done:
  assumes "lt_accepting s" and "lt_M s (at_Id a) = None" and "at_Action a \<noteq> ''kill''"
    and "lt_disk s (at_Id a) (done_name (at_Clock a)) = Some x"
  shows "AssignTask trim a s = put_task (loadResult trim (lt_disk s) (new_task (at_Id a) (at_Clock a) (at_Action a))) s"
  using assms by (simp add: AssignTask_def doneBefore_def new_task_def Let_def)

text \<open>A run can always be brought to its end by its own goroutine.\<close>

lemma run_goes_get [simp]:
  "lt_M (run_goes i t r d s) i = Some t" "lt_runs (run_goes i t r d s) i = r" "lt_disk (run_goes i t r d s) = d"
  "lt_accepting (run_goes i t r d s) = lt_accepting s"
  by (simp_all add: run_goes_def)

definition ends_run :: "(string \<Rightarrow> string) \<Rightarrow> int \<Rightarrow> ibex \<Rightarrow> bool" where
  "ends_run trim i s \<longleftrightarrow> (\<exists>s'. (ibex_step trim)\<^sup>*\<^sup>* s s' \<and> lt_accepting s' = lt_accepting s \<and> lt_M s' i \<noteq> None \<and> lt_runs s' i = None)"

lemma ends_run_step:
  assumes "ibex_step trim s s'" and "lt_accepting s' = lt_accepting s" and "ends_run trim i s'"
  shows "ends_run trim i s"
  using assms unfolding ends_run_def by (metis converse_rtranclp_into_rtranclp)

lemma ends_run_closing:
  assumes "lt_M s i = Some t" and "lt_runs s i = Some (RunClosing c st)"
  shows "ends_run trim i s"
proof -
  have "ends_run trim i (run_goes i (finalize_close t) None (lt_disk s) s)"
    unfolding ends_run_def by (rule exI[of _ "run_goes i (finalize_close t) None (lt_disk s) s"]) simp
  then show ?thesis by (rule ends_run_step[OF ibex_step.closed[OF assms], rotated]) simp
qed

lemma ends_run_flushed:
  assumes "lt_M s i = Some t" and "lt_runs s i = Some (RunFlushed c st)"
  shows "ends_run trim i s"
  by (rule ends_run_step[OF ibex_step.persisted[OF assms]], simp, rule ends_run_closing) simp_all

lemma ends_run_final:
  assumes "lt_M s i = Some t" and "lt_runs s i = Some (RunFinal c st)"
  shows "ends_run trim i s"
  by (rule ends_run_step[OF ibex_step.flushed[OF assms prod.collapse[symmetric]]], simp, rule ends_run_flushed) simp_all

lemma ends_run_waited:
  assumes t: "lt_M s i = Some t" and r: "lt_runs s i = Some (RunWaited c h g w)"
  shows "ends_run trim i s"
proof -
  have 1: "ends_run trim i s" if "lt_M s i = Some t" "lt_runs s i = Some (RunWaited c False g w)" for s t
    by (rule ends_run_step[OF ibex_step.judged[OF that]], simp, rule ends_run_final) simp_all
  show ?thesis
  proof (cases h)
    case True
    with r have "lt_runs s i = Some (RunWaited c True g w)" by simp
    from ibex_step.handler_stops[OF t this] show ?thesis
      by (rule ends_run_step, simp, intro 1) simp_all
  next
    case False
    with t r 1 show ?thesis by simp
  qed
qed

lemma ends_run_prepare:
  assumes t: "lt_M s i = Some t" and r: "lt_runs s i = Some (RunPrepare c)"
  shows "ends_run trim i s"
proof -
  obtain t' d where st: "run_start trim undefined None None False c t (lt_disk s) = (t', RunFinal c ''failed'', d)"
  proof (cases "prepare trim undefined t (lt_disk s)")
    case (Pair d' m)
    then show ?thesis
      using that by (cases m) (simp_all add: run_start_def newCommand_def Let_def)
  qed
  show ?thesis
    by (rule ends_run_step[OF ibex_step.started[OF t r st]], simp, rule ends_run_final) simp_all
qed

lemma ends_run_any:
  assumes t: "lt_M s i = Some t" and r: "lt_runs s i = Some ph"
  shows "ends_run trim i s"
proof (cases ph)
  case (RunProcess c h g)
  show ?thesis
    by (rule ends_run_step[OF ibex_step.waited[OF t r[unfolded RunProcess]]], simp, rule ends_run_waited) simp_all
qed (use assms ends_run_prepare ends_run_waited ends_run_final ends_run_flushed ends_run_closing in auto)

text \<open>C6: However the assignments, the runs, their termination handlers, clean-ups, shut-downs and restarts interleave: a task is alive exactly while one
  run of it exists, a live task is never dropped, its \<open>done\<close> channel is open (so that closing it does not panic), the status of a task that is not alive
  is empty or final, and a start assignment for a task that has a run changes nothing.\<close>

theorem Ibex_one_run:
  assumes trim: "\<And>x. x \<in> set final_statuses \<Longrightarrow> trim x = x" and d: "done_files_ok d" and st: "(ibex_step trim)\<^sup>*\<^sup>* (Locals d) s"
  shows "(lt_runs s i \<noteq> None \<longleftrightarrow> (\<exists>t. lt_M s i = Some t \<and> tk_alive t))
       \<and> (\<forall>t. lt_M s i = Some t \<longrightarrow> (if tk_alive t then tk_done t = OpenChan else tk_Status t \<in> insert [] (set final_statuses)))
       \<and> (lt_runs s i \<noteq> None \<longrightarrow> AssignTask trim \<lparr>at_Id = i, at_Clock = c, at_Action = ''start''\<rparr> s = s)"
proof (intro conjI allI impI)
  have e: "entry_ok i (lt_M s i) (lt_runs s i)"
    by (rule ibex_invD(1)[OF ibex_steps_inv[OF trim st Locals_inv[OF d]]])
  then show alive: "lt_runs s i \<noteq> None \<longleftrightarrow> (\<exists>t. lt_M s i = Some t \<and> tk_alive t)"
    by (auto simp: entry_ok_def task_ok_def split: option.splits)
  show "if tk_alive t then tk_done t = OpenChan else tk_Status t \<in> insert [] (set final_statuses)" if "lt_M s i = Some t" for t
    using e that by (auto simp: entry_ok_def task_ok_def split: option.splits)
  show "AssignTask trim \<lparr>at_Id = i, at_Clock = c, at_Action = ''start''\<rparr> s = s" if "lt_runs s i \<noteq> None"
    using alive that by (auto simp: AssignTask_def)
qed

definition sample_start :: "assign_task" where
  "sample_start = \<lparr>at_Id = 1, at_Clock = 5, at_Action = ''start''\<rparr>"

definition sample_running :: "ibex" where
  "sample_running = AssignTask TrimSpace sample_start (Locals (\<lambda>_ _. None))"

lemma sample_running_reached: "(ibex_step TrimSpace)\<^sup>*\<^sup>* (Locals (\<lambda>_ _. None)) sample_running"
  unfolding sample_running_def by (rule r_into_rtranclp) (rule ibex_step.assign)

lemma TrimSpace_final: "x \<in> set final_statuses \<Longrightarrow> TrimSpace x = x"
  unfolding final_statuses_def by (elim set_ConsD[elim_format] disjE | simp | code_simp)+

lemma no_done_files: "done_files_ok (\<lambda>_ _. None)"
  by (simp add: done_files_ok_def)

lemma sample_running_get:
  "lt_M sample_running 1 = Some (fst (beginRun (new_task 1 5 ''start'')))" "lt_runs sample_running 1 = Some (RunPrepare 5)"
  by (simp_all add: sample_running_def sample_start_def AssignTask_def Locals_def doneBefore_def perform_def beginRun_def new_task_def put_task_def Let_def)

theorem Ibex_one_run_witness:
  "AssignTask TrimSpace \<lparr>at_Id = 1, at_Clock = 9, at_Action = ''start''\<rparr> sample_running = sample_running"
  using Ibex_one_run[OF TrimSpace_final no_done_files sample_running_reached, of 1 9] sample_running_get by simp


definition sample_env :: "prep_env" where
  "sample_env = \<lparr>ensure_dir = False, client_Meta = None, can_write = (\<lambda>_. False), chmod_ok = False\<rparr>"

definition sample_task :: "task" where
  "sample_task = fst (beginRun (new_task 1 5 ''start''))"

definition sample_failed :: "ibex" where
  "sample_failed = run_goes 1 sample_task (Some (RunFinal 5 ''failed'')) (\<lambda>_ _. None) sample_running"

definition sample_flushed :: "ibex" where
  "sample_flushed = (case finalize_status True True ''failed'' sample_task (\<lambda>_ _. None) of
     (t, d) \<Rightarrow> run_goes 1 t (Some (RunFlushed 5 ''failed'')) d sample_failed)"

lemma sample_failed_reached: "(ibex_step TrimSpace)\<^sup>*\<^sup>* (Locals (\<lambda>_ _. None)) sample_failed"
proof -
  have d: "lt_disk sample_running = (\<lambda>_ _. None)" by (simp add: sample_running_def Locals_def)
  have "run_start TrimSpace sample_env None None False 5 sample_task (\<lambda>_ _. None) = (sample_task, RunFinal 5 ''failed'', \<lambda>_ _. None)"
    by (simp add: run_start_def prepare_def sample_env_def sample_task_def beginRun_def new_task_def)
  then have "ibex_step TrimSpace sample_running sample_failed"
    unfolding sample_failed_def using sample_running_get d by (intro ibex_step.started) (simp_all add: sample_task_def)
  with sample_running_reached show ?thesis by (rule rtranclp.rtrancl_into_rtrancl)
qed

lemma sample_flushed_reached: "(ibex_step TrimSpace)\<^sup>*\<^sup>* (Locals (\<lambda>_ _. None)) sample_flushed"
proof -
  obtain t d where f: "finalize_status True True ''failed'' sample_task (\<lambda>_ _. None) = (t, d)" by fastforce
  have "ibex_step TrimSpace sample_failed sample_flushed"
    unfolding sample_flushed_def f prod.case using f
    by (intro ibex_step.flushed[of _ _ sample_task]) (simp_all add: sample_failed_def)
  with sample_failed_reached show ?thesis by (rule rtranclp.rtrancl_into_rtrancl)
qed

definition sample_flushed_task :: "task" where
  "sample_flushed_task = sample_task\<lparr>tk_Status := ''failed''\<rparr>"

lemma sample_flushed_get:
  "lt_M sample_flushed 1 = Some sample_flushed_task" "lt_runs sample_flushed 1 = Some (RunFlushed 5 ''failed'')"
  by (simp_all add: sample_flushed_def finalize_status_def Let_def sample_flushed_task_def)

definition sample_restarted :: "ibex" where
  "sample_restarted = Locals (persistResult True sample_flushed_task 5 ''failed'' (lt_disk sample_flushed))"


text \<open>C25: What a run wrote when it ended is what an agent started later reads: after \<open>flushOutput\<close> and \<open>persistResult\<close> succeeded, the assignment of the
  task with the clock of the run yields a task with the status, the standard output and the error output of the run.\<close>

theorem Ibex_result_roundtrip:
  assumes trim: "trim st = st" and f: "finalize_status True True st t d = (t', d1)" and a: "act \<noteq> ''kill''"
  shows "lt_M (AssignTask trim \<lparr>at_Id = tk_Id t, at_Clock = c, at_Action = act\<rparr> (Locals (persistResult True t' c st d1))) (tk_Id t)
       = Some ((new_task (tk_Id t) c act)\<lparr>tk_Status := st, tk_Stdout := tk_Stdout t, tk_Stderr := tk_Stderr t\<rparr>)"
proof -
  define d2 where "d2 = persistResult True t' c st d1"
  have t': "t' = t\<lparr>tk_Status := st\<rparr>" "d1 = flushOutput True True t' d"
    using f by (auto simp: finalize_status_def Let_def)
  have r: "d2 (tk_Id t) (done_name c) = Some st" "d2 (tk_Id t) ''stdout'' = Some (tk_Stdout t)" "d2 (tk_Id t) ''stderr'' = Some (tk_Stderr t)"
    unfolding d2_def t'(2) persistResult_def flushOutput_def write_file_def t'(1) by (simp_all add: done_name_other)
  let ?a = "\<lparr>at_Id = tk_Id t, at_Clock = c, at_Action = act\<rparr>"
  have "AssignTask trim ?a (Locals d2) = put_task (loadResult trim d2 (new_task (tk_Id t) c act)) (Locals d2)"
    using AssignTask_done[of "Locals d2" ?a st trim] a r by (simp add: Locals_def)
  then show ?thesis
    unfolding d2_def[symmetric] using r trim by (simp add: put_task_def loadResult_def new_task_def content_of_def)
qed

theorem Ibex_result_roundtrip_witness:
  "lt_M (AssignTask TrimSpace \<lparr>at_Id = 1, at_Clock = 5, at_Action = ''start''\<rparr>
      (Locals (persistResult True sample_flushed_task 5 ''failed'' (flushOutput True True sample_flushed_task (\<lambda>_ _. None))))) 1
   = Some ((new_task 1 5 ''start'')\<lparr>tk_Status := ''failed'', tk_Stdout := [], tk_Stderr := []\<rparr>)"
  using Ibex_result_roundtrip[of TrimSpace "''failed''" sample_task "\<lambda>_ _. None" sample_flushed_task _ "''start''" 5]
    TrimSpace_final[of "''failed''"]
  by (simp add: finalize_status_def Let_def sample_flushed_task_def sample_task_def beginRun_def new_task_def final_statuses_def)



end
