(* ===== verification/Mtail_Metrics.thy ===== *)
theory Mtail_Metrics
  imports Go_Prelude "HOL-Library.AList"
begin

text \<open>
  The metrics of mtail programs: \<open>src/inputs/mtail/internal/metrics/metric.go\<close>, \<open>store.go\<close> and \<open>datum/*.go\<close>. A metric has
  one datum per list of label values, found through a map whose keys are built from the
  labels. Data are shared by pointer (the store copies them from a metric to its successor when a
  program is loaded again), so a datum is an address in a heap; the label values of a metric are
  owned by it and addressed in a heap of their own. Floating point is a parameter.
\<close>

subsection \<open>Floating point, time and data\<close>

record 'f float_ops =
  fo_zero :: 'f
  fo_inf :: 'f
  fo_lt :: "'f \<Rightarrow> 'f \<Rightarrow> bool"
  fo_le :: "'f \<Rightarrow> 'f \<Rightarrow> bool"
  fo_eq :: "'f \<Rightarrow> 'f \<Rightarrow> bool"
  fo_add :: "'f \<Rightarrow> 'f \<Rightarrow> 'f"
  fo_sub :: "'f \<Rightarrow> 'f \<Rightarrow> 'f"
  fo_mul :: "'f \<Rightarrow> 'f \<Rightarrow> 'f"
  fo_div :: "'f \<Rightarrow> 'f \<Rightarrow> 'f"
  fo_mod :: "'f \<Rightarrow> 'f \<Rightarrow> 'f"
  fo_pow :: "'f \<Rightarrow> 'f \<Rightarrow> 'f"
  fo_of_int :: "64 word \<Rightarrow> 'f"
  fo_to_int :: "'f \<Rightarrow> 64 word"
  fo_parse :: "string \<Rightarrow> 'f option"
  fo_formatG :: "'f \<Rightarrow> string"
  fo_format_g :: "'f \<Rightarrow> string"

text \<open>A \<open>time.Time\<close> is the number of nanoseconds since the Unix epoch; the zero time is the start of year 1.\<close>

definition zeroTime :: int where
  "zeroTime = -62135596800000000000"

definition UnixNano :: "int \<Rightarrow> 64 word" where
  "UnixNano t = word_of_int t"

type_synonym 'f range = "'f \<times> 'f"

datatype 'f datum_value =
    DInt "64 word"
  | DFloat 'f
  | DString string
  | DBuckets "('f range \<times> 64 word) list" "64 word" 'f

record 'f datum =
  dt_Time :: "64 word"
  dt_Value :: "'f datum_value"

definition stamp :: "int \<Rightarrow> int \<Rightarrow> 'f datum \<Rightarrow> 'f datum" where
  "stamp now timestamp d = d\<lparr>dt_Time := (if timestamp = zeroTime then UnixNano now else UnixNano timestamp)\<rparr>"

definition set_value :: "int \<Rightarrow> 'f datum_value \<Rightarrow> int \<Rightarrow> 'f datum \<Rightarrow> 'f datum" where
  "set_value now v ts d = stamp now ts (d\<lparr>dt_Value := v\<rparr>)"

definition MakeInt :: "int \<Rightarrow> 64 word \<Rightarrow> int \<Rightarrow> 'f datum" where
  "MakeInt now v ts = set_value now (DInt v) ts \<lparr>dt_Time = 0, dt_Value = DInt 0\<rparr>"

definition MakeFloat :: "'f float_ops \<Rightarrow> int \<Rightarrow> 'f \<Rightarrow> int \<Rightarrow> 'f datum" where
  "MakeFloat fo now v ts = set_value now (DFloat v) ts \<lparr>dt_Time = 0, dt_Value = DFloat (fo_zero fo)\<rparr>"

definition MakeString :: "int \<Rightarrow> string \<Rightarrow> int \<Rightarrow> 'f datum" where
  "MakeString now v ts = set_value now (DString v) ts \<lparr>dt_Time = 0, dt_Value = DString []\<rparr>"

definition MakeBuckets :: "'f float_ops \<Rightarrow> 'f range list \<Rightarrow> 'f datum" where
  "MakeBuckets fo buckets =
     (let (bs, seenInf, highest) =
        foldl (\<lambda>(bs, seenInf, highest) b.
            if fo_eq fo (snd b) (fo_inf fo) then (bs @ [(b, 0)], True, highest)
            else if fo_lt fo highest (snd b) then (bs @ [(b, 0)], seenInf, snd b)
            else (bs @ [(b, 0)], seenInf, highest))
          ([], False, fo_zero fo) buckets;
          bs' = (if \<not> seenInf then bs @ [((highest, fo_inf fo), 0)] else bs) in
      \<lparr>dt_Time = 0, dt_Value = DBuckets bs' 0 (fo_zero fo)\<rparr>)"

subsection \<open>Operations on a datum\<close>

definition GetInt :: "'f datum \<Rightarrow> (64 word) go" where
  "GetInt d = (case dt_Value d of DInt v \<Rightarrow> Inr v | _ \<Rightarrow> Inl (ExplicitPanic ''datum is not an Int''))"

definition GetFloat :: "'f datum \<Rightarrow> 'f go" where
  "GetFloat d = (case dt_Value d of DFloat v \<Rightarrow> Inr v | _ \<Rightarrow> Inl (ExplicitPanic ''datum is not a Float''))"

definition GetString :: "'f datum \<Rightarrow> string go" where
  "GetString d = (case dt_Value d of DString v \<Rightarrow> Inr v | _ \<Rightarrow> Inl (ExplicitPanic ''datum is not a String''))"

fun count_bucket :: "'f float_ops \<Rightarrow> 'f \<Rightarrow> ('f range \<times> 64 word) list \<Rightarrow> ('f range \<times> 64 word) list" where
  "count_bucket fo v [] = []"
| "count_bucket fo v ((r, c) # bs) = (if fo_le fo v (snd r) then (r, c + 1) # bs else (r, c) # count_bucket fo v bs)"

definition Observe :: "'f float_ops \<Rightarrow> int \<Rightarrow> 'f \<Rightarrow> int \<Rightarrow> 'f datum \<Rightarrow> 'f datum go" where
  "Observe fo now v ts d =
     (case dt_Value d of
        DBuckets bs n s \<Rightarrow> Inr (set_value now (DBuckets (count_bucket fo v bs) (n + 1) (fo_add fo s v)) ts d)
      | _ \<Rightarrow> Inl (ExplicitPanic ''datum is not a Buckets''))"

definition SetInt :: "'f float_ops \<Rightarrow> int \<Rightarrow> 64 word \<Rightarrow> int \<Rightarrow> 'f datum \<Rightarrow> 'f datum go" where
  "SetInt fo now v ts d =
     (case dt_Value d of
        DInt _ \<Rightarrow> Inr (set_value now (DInt v) ts d)
      | DBuckets _ _ _ \<Rightarrow> Observe fo now (fo_of_int fo v) ts d
      | _ \<Rightarrow> Inl (ExplicitPanic ''datum is not an Int''))"

definition SetFloat :: "'f float_ops \<Rightarrow> int \<Rightarrow> 'f \<Rightarrow> int \<Rightarrow> 'f datum \<Rightarrow> 'f datum go" where
  "SetFloat fo now v ts d =
     (case dt_Value d of
        DFloat _ \<Rightarrow> Inr (set_value now (DFloat v) ts d)
      | DBuckets _ _ _ \<Rightarrow> Observe fo now v ts d
      | _ \<Rightarrow> Inl (ExplicitPanic ''datum is not a Float''))"

definition SetString :: "int \<Rightarrow> string \<Rightarrow> int \<Rightarrow> 'f datum \<Rightarrow> 'f datum go" where
  "SetString now v ts d =
     (case dt_Value d of DString _ \<Rightarrow> Inr (set_value now (DString v) ts d) | _ \<Rightarrow> Inl (ExplicitPanic ''datum is not a String''))"

definition IncIntBy :: "int \<Rightarrow> 64 word \<Rightarrow> int \<Rightarrow> 'f datum \<Rightarrow> 'f datum go" where
  "IncIntBy now delta ts d =
     (case dt_Value d of DInt v \<Rightarrow> Inr (set_value now (DInt (v + delta)) ts d) | _ \<Rightarrow> Inl (ExplicitPanic ''datum is not an Int''))"

definition DecIntBy :: "int \<Rightarrow> 64 word \<Rightarrow> int \<Rightarrow> 'f datum \<Rightarrow> 'f datum go" where
  "DecIntBy now delta ts d =
     (case dt_Value d of DInt v \<Rightarrow> Inr (set_value now (DInt (v + - delta)) ts d) | _ \<Rightarrow> Inl (ExplicitPanic ''datum is not an Int''))"

text \<open>The cumulative counts by upper bound. \<open>GetBuckets\<close> and the result are Go maps, here association lists; two equal keys are one entry.\<close>

definition GetBuckets :: "('f range \<times> 64 word) list \<Rightarrow> ('f range \<times> 64 word) list" where
  "GetBuckets bs = foldl (\<lambda>m (r, c). AList.update r c m) [] bs"

fun insert_float :: "'f float_ops \<Rightarrow> 'f \<Rightarrow> 'f list \<Rightarrow> 'f list" where
  "insert_float fo x [] = [x]"
| "insert_float fo x (y # ys) = (if fo_lt fo y x then y # insert_float fo x ys else x # y # ys)"

definition sort_floats :: "'f float_ops \<Rightarrow> 'f list \<Rightarrow> 'f list" where
  "sort_floats fo xs = foldr (insert_float fo) xs []"

definition GetBucketsCumByMax :: "'f float_ops \<Rightarrow> 'f datum \<Rightarrow> ('f \<times> 64 word) list go" where
  "GetBucketsCumByMax fo d =
     (case dt_Value d of
        DBuckets bs _ _ \<Rightarrow>
          (let rs = GetBuckets bs;
               buckets = foldl (\<lambda>m (r, c). AList.update (snd r) c m) [] rs;
               maxes = sort_floats fo (map (\<lambda>(r, c). snd r) rs) in
           Inr (snd (foldl (\<lambda>(cum, m) x. (cum + the (map_of m x), AList.update x (cum + the (map_of m x)) m)) (0, buckets) maxes)))
      | _ \<Rightarrow> Inl (ExplicitPanic ''datum is not a Buckets''))"

subsection \<open>Metrics and their label values\<close>

datatype mt_kind = Counter | Gauge | Timer | Text | Histogram

datatype mt_type = TInt | TFloat | TString | TBuckets

record label_value =
  lv_Labels :: "string list"
  lv_Value :: nat
  lv_Expiry :: "64 word"

record 'f mt_metric =
  mm_Name :: string
  mm_Program :: string
  mm_Kind :: mt_kind
  mm_Type :: mt_type
  mm_Hidden :: bool
  mm_Keys :: "string list"
  mm_lvs :: "label_value list"
  mm_LabelValues :: "nat list"
  mm_labelValuesMap :: "(string \<times> nat) list"
  mm_Source :: string
  mm_Buckets :: "'f range list"
  mm_Limit :: int

definition NewMetric :: "string \<Rightarrow> string \<Rightarrow> mt_kind \<Rightarrow> mt_type \<Rightarrow> string list \<Rightarrow> 'f mt_metric" where
  "NewMetric name prog kind typ keys =
     \<lparr>mm_Name = name, mm_Program = prog, mm_Kind = kind, mm_Type = typ, mm_Hidden = False, mm_Keys = keys,
      mm_lvs = [], mm_LabelValues = [], mm_labelValuesMap = [], mm_Source = [], mm_Buckets = [], mm_Limit = 0\<rparr>"

definition buildLabelValueKey :: "string list \<Rightarrow> string" where
  "buildLabelValueKey labels = concat (map (\<lambda>l. ReplaceAll ''-'' [CHR 0x5C, CHR ''-''] l @ ''-'') labels)"

datatype mt_error = LabelCount | NoDatum

definition AppendLabelValue :: "label_value \<Rightarrow> 'f mt_metric \<Rightarrow> mt_error + 'f mt_metric" where
  "AppendLabelValue lv m =
     (if length (lv_Labels lv) \<noteq> length (mm_Keys m) then Inl LabelCount
      else Inr (m\<lparr>mm_lvs := mm_lvs m @ [lv], mm_LabelValues := mm_LabelValues m @ [length (mm_lvs m)],
                  mm_labelValuesMap := AList.update (buildLabelValueKey (lv_Labels lv)) (length (mm_lvs m)) (mm_labelValuesMap m)\<rparr>))"

definition FindLabelValueOrNil :: "string list \<Rightarrow> 'f mt_metric \<Rightarrow> nat option" where
  "FindLabelValueOrNil labelvalues m = map_of (mm_labelValuesMap m) (buildLabelValueKey labelvalues)"

definition new_datum :: "'f float_ops \<Rightarrow> int \<Rightarrow> 'f mt_metric \<Rightarrow> 'f datum" where
  "new_datum fo now m =
     (case mm_Type m of
        TInt \<Rightarrow> MakeInt now 0 zeroTime
      | TFloat \<Rightarrow> MakeFloat fo now (fo_zero fo) zeroTime
      | TString \<Rightarrow> MakeString now [] zeroTime
      | TBuckets \<Rightarrow> MakeBuckets fo (mm_Buckets m))"

text \<open>The address of the datum; a new one is allocated at the end of the heap \<open>ds\<close>.\<close>

definition GetDatum ::
  "'f float_ops \<Rightarrow> int \<Rightarrow> string list \<Rightarrow> 'f mt_metric \<Rightarrow> 'f datum list \<Rightarrow> mt_error + nat \<times> 'f mt_metric \<times> 'f datum list" where
  "GetDatum fo now labelvalues m ds =
     (if length labelvalues \<noteq> length (mm_Keys m) then Inl LabelCount
      else
        (case FindLabelValueOrNil labelvalues m of
           Some i \<Rightarrow> Inr (lv_Value (mm_lvs m ! i), m, ds)
         | None \<Rightarrow>
             and_then (AppendLabelValue \<lparr>lv_Labels = labelvalues, lv_Value = length ds, lv_Expiry = 0\<rparr> m)
               (\<lambda>m'. Inr (length ds, m', ds @ [new_datum fo now m]))))"

definition RemoveDatum :: "string list \<Rightarrow> 'f mt_metric \<Rightarrow> mt_error + 'f mt_metric" where
  "RemoveDatum labelvalues m =
     (if length labelvalues \<noteq> length (mm_Keys m) then Inl LabelCount
      else
        (let k = buildLabelValueKey labelvalues in
         case map_of (mm_labelValuesMap m) k of
           Some olv \<Rightarrow>
             Inr (if olv \<in> set (mm_LabelValues m)
                  then m\<lparr>mm_LabelValues := remove1 olv (mm_LabelValues m), mm_labelValuesMap := AList.delete k (mm_labelValuesMap m)\<rparr>
                  else m)
         | None \<Rightarrow> Inr m))"

text \<open>\<open>TimeUTC\<close> of the datum of a label value.\<close>

definition lv_time :: "'f datum list \<Rightarrow> 'f mt_metric \<Rightarrow> nat \<Rightarrow> int" where
  "lv_time ds m i = sint (dt_Time (ds ! lv_Value (mm_lvs m ! i)))"

definition oldest_lv :: "'f datum list \<Rightarrow> 'f mt_metric \<Rightarrow> nat option" where
  "oldest_lv ds m =
     foldl (\<lambda>oldest i. case oldest of None \<Rightarrow> Some i | Some j \<Rightarrow> if lv_time ds m i < lv_time ds m j then Some i else Some j)
       None (mm_LabelValues m)"

definition RemoveOldestDatum :: "'f datum list \<Rightarrow> 'f mt_metric \<Rightarrow> 'f mt_metric" where
  "RemoveOldestDatum ds m =
     (case oldest_lv ds m of
        None \<Rightarrow> m
      | Some i \<Rightarrow> (case RemoveDatum (lv_Labels (mm_lvs m ! i)) m of Inl _ \<Rightarrow> m | Inr m' \<Rightarrow> m'))"

definition ExpireDatum :: "64 word \<Rightarrow> string list \<Rightarrow> 'f mt_metric \<Rightarrow> mt_error + 'f mt_metric" where
  "ExpireDatum expiry labelvalues m =
     (if length labelvalues \<noteq> length (mm_Keys m) then Inl LabelCount
      else
        (case FindLabelValueOrNil labelvalues m of
           Some i \<Rightarrow> Inr (m\<lparr>mm_lvs := (mm_lvs m)[i := (mm_lvs m ! i)\<lparr>lv_Expiry := expiry\<rparr>]\<rparr>)
         | None \<Rightarrow> Inl NoDatum))"

definition zip_labels :: "string list \<Rightarrow> string list \<Rightarrow> (string \<times> string) list go" where
  "zip_labels keys vals =
     foldM (\<lambda>r (i, v). if i < length keys then Inr (AList.update (keys ! i) v r) else Inl IndexOutOfRange) [] (enumerate 0 vals)"

definition EmitLabelSets :: "'f mt_metric \<Rightarrow> ((string \<times> string) list \<times> nat) list go" where
  "EmitLabelSets m =
     foldM (\<lambda>out i. and_then (zip_labels (mm_Keys m) (lv_Labels (mm_lvs m ! i)))
         (\<lambda>ls. Inr (out @ [(ls, lv_Value (mm_lvs m ! i))]))) [] (mm_LabelValues m)"

subsection \<open>The store\<close>

record 'f mt_heap =
  mh_data :: "'f datum list"
  mh_metrics :: "'f mt_metric list"

type_synonym mt_store = "(string \<times> nat list) list"

datatype store_error = DifferentKind | LabelError mt_error

text \<open>Copying the datum of one label value of the metric \<open>vid\<close> to the metric \<open>mid\<close> that replaces it.\<close>

definition copy_label :: "'f float_ops \<Rightarrow> int \<Rightarrow> nat \<Rightarrow> nat \<Rightarrow> 'f mt_heap \<Rightarrow> nat \<Rightarrow> mt_error + 'f mt_heap" where
  "copy_label fo now vid mid h i =
     (let v = mh_metrics h ! vid; labels = lv_Labels (mm_lvs v ! i) in
      and_then (GetDatum fo now labels v (mh_data h)) (\<lambda>(d, v', ds').
        let ms = (mh_metrics h)[vid := v'] in
        and_then (RemoveDatum labels (ms ! mid)) (\<lambda>m1.
        and_then (AppendLabelValue \<lparr>lv_Labels = labels, lv_Value = d, lv_Expiry = 0\<rparr> m1) (\<lambda>m2.
          Inr (h\<lparr>mh_data := ds', mh_metrics := ms[mid := m2]\<rparr>)))))"

fun add_scan :: "'f float_ops \<Rightarrow> int \<Rightarrow> nat \<Rightarrow> nat \<Rightarrow> nat list \<Rightarrow> 'f mt_heap \<times> nat option \<Rightarrow> mt_error + 'f mt_heap \<times> nat option" where
  "add_scan fo now mid i [] st = Inr st"
| "add_scan fo now mid i (vid # vs) (h, dupe) =
     (let v = mh_metrics h ! vid; m = mh_metrics h ! mid in
      if mm_Program v \<noteq> mm_Program m then add_scan fo now mid (i + 1) vs (h, dupe)
      else if mm_Type v \<noteq> mm_Type m then add_scan fo now mid (i + 1) vs (h, dupe)
      else if mm_Source v \<noteq> mm_Source m then add_scan fo now mid (i + 1) vs (h, dupe)
      else if mm_Keys v \<noteq> mm_Keys m then Inr (h, Some i)
      else
        and_then (foldM (copy_label fo now vid mid) h (mm_LabelValues v))
          (\<lambda>h'. add_scan fo now mid (i + 1) vs (h', Some i)))"

text \<open>\<open>mid\<close> is a metric that is not in the store.\<close>

definition Store_Add :: "'f float_ops \<Rightarrow> int \<Rightarrow> nat \<Rightarrow> mt_store \<Rightarrow> 'f mt_heap \<Rightarrow> store_error + mt_store \<times> 'f mt_heap" where
  "Store_Add fo now mid s h =
     (let m = mh_metrics h ! mid;
          name = mm_Name m;
          ml = (case map_of s name of None \<Rightarrow> [] | Some l \<Rightarrow> l) in
      if length ml > 0 \<and> mm_Kind m \<noteq> mm_Kind (mh_metrics h ! (ml ! 0)) then Inl DifferentKind
      else
        (case (if length ml > 0 then add_scan fo now mid 0 ml (h, None) else Inr (h, None)) of
           Inl e \<Rightarrow> Inl (LabelError e)
         | Inr (h', dupeIndex) \<Rightarrow>
             (let ml' = ml @ [mid] in
              Inr (AList.update name (case dupeIndex of None \<Rightarrow> ml' | Some k \<Rightarrow> take k ml' @ drop (k + 1) ml') s, h'))))"

definition FindMetricOrNil :: "string \<Rightarrow> string \<Rightarrow> mt_store \<Rightarrow> 'f mt_heap \<Rightarrow> nat option" where
  "FindMetricOrNil name prog s h =
     (case map_of s name of None \<Rightarrow> None | Some ml \<Rightarrow> find (\<lambda>i. mm_Program (mh_metrics h ! i) = prog) ml)"

subsection \<open>Garbage collection\<close>

definition time_sub :: "int \<Rightarrow> int \<Rightarrow> int" where
  "time_sub t u = max (- (2 ^ 63)) (min (2 ^ 63 - 1) (t - u))"

definition expired :: "int \<Rightarrow> 'f datum list \<Rightarrow> 'f mt_metric \<Rightarrow> nat \<Rightarrow> bool" where
  "expired now ds m i \<longleftrightarrow>
     0 < sint (lv_Expiry (mm_lvs m ! i)) \<and> sint (lv_Expiry (mm_lvs m ! i)) < time_sub now (lv_time ds m i)"

text \<open>After a removal the index is stepped back, so a removal that removes nothing would be repeated for ever: not returning is \<open>None\<close>.\<close>

partial_function (option) gc_expire :: "int \<Rightarrow> 'f datum list \<Rightarrow> nat \<Rightarrow> 'f mt_metric \<Rightarrow> (mt_error + 'f mt_metric) option" where
  "gc_expire now ds i m =
     (if \<not> i < length (mm_LabelValues m) then Some (Inr m)
      else if \<not> expired now ds m (mm_LabelValues m ! i) then gc_expire now ds (i + 1) m
      else
        (case RemoveDatum (lv_Labels (mm_lvs m ! (mm_LabelValues m ! i))) m of
           Inl e \<Rightarrow> Some (Inl e)
         | Inr m' \<Rightarrow> gc_expire now ds i m'))"

declare gc_expire.simps [code]

definition gc_limit :: "'f datum list \<Rightarrow> 'f mt_metric \<Rightarrow> 'f mt_metric" where
  "gc_limit ds m =
     (let n = int (length (mm_LabelValues m)) in
      if mm_Limit m > 0 \<and> n \<ge> mm_Limit m then (RemoveOldestDatum ds ^^ nat (n - mm_Limit m)) m else m)"

text \<open>\<open>ids\<close> are the metrics in the order in which \<open>Range\<close> visits them.\<close>

fun Gc_range :: "int \<Rightarrow> nat list \<Rightarrow> 'f mt_heap \<Rightarrow> (mt_error + 'f mt_heap) option" where
  "Gc_range now [] h = Some (Inr h)"
| "Gc_range now (i # ids) h =
     (case gc_expire now (mh_data h) 0 (gc_limit (mh_data h) (mh_metrics h ! i)) of
        None \<Rightarrow> None
      | Some (Inl e) \<Rightarrow> Some (Inl e)
      | Some (Inr m) \<Rightarrow> Gc_range now ids (h\<lparr>mh_metrics := (mh_metrics h)[i := m]\<rparr>))"

definition Gc :: "int \<Rightarrow> mt_store \<Rightarrow> 'f mt_heap \<Rightarrow> (mt_error + 'f mt_heap) option" where
  "Gc now s h = Gc_range now (concat (map snd s)) h"

subsection \<open>The invariant of a metric\<close>

definition lv_key :: "'f mt_metric \<Rightarrow> nat \<Rightarrow> string" where
  "lv_key m i = buildLabelValueKey (lv_Labels (mm_lvs m ! i))"

text \<open>The slice and the map of label values hold the same entries, each with as many labels as the metric has keys.\<close>

definition metric_ok :: "'f mt_metric \<Rightarrow> bool" where
  "metric_ok m \<longleftrightarrow>
     distinct (map (lv_key m) (mm_LabelValues m)) \<and>
     (\<forall>i \<in> set (mm_LabelValues m). i < length (mm_lvs m) \<and> length (lv_Labels (mm_lvs m ! i)) = length (mm_Keys m)) \<and>
     map_of (mm_labelValuesMap m) = map_of (map (\<lambda>i. (lv_key m i, i)) (mm_LabelValues m))"

lemma metric_okD:
  assumes "metric_ok m"
  shows "distinct (map (lv_key m) (mm_LabelValues m))"
    and "i \<in> set (mm_LabelValues m) \<Longrightarrow> i < length (mm_lvs m) \<and> length (lv_Labels (mm_lvs m ! i)) = length (mm_Keys m)"
    and "map_of (mm_labelValuesMap m) = map_of (map (\<lambda>i. (lv_key m i, i)) (mm_LabelValues m))"
  using assms by (simp_all add: metric_ok_def)

lemma lv_map_Some:
  assumes ok: "metric_ok m"
  shows "map_of (mm_labelValuesMap m) k = Some i \<longleftrightarrow> i \<in> set (mm_LabelValues m) \<and> lv_key m i = k"
proof -
  have d: "distinct (map fst (map (\<lambda>i. (lv_key m i, i)) (mm_LabelValues m)))"
    using metric_okD(1)[OF ok] by (simp add: comp_def)
  show ?thesis unfolding metric_okD(3)[OF ok] map_of_eq_Some_iff[OF d] by auto
qed

lemma Find_SomeD:
  assumes "metric_ok m" and "FindLabelValueOrNil labels m = Some i"
  shows "i \<in> set (mm_LabelValues m) \<and> lv_key m i = buildLabelValueKey labels"
  using assms(2) lv_map_Some[OF assms(1)] by (simp add: FindLabelValueOrNil_def)

lemma lv_map_None:
  assumes "metric_ok m"
  shows "map_of (mm_labelValuesMap m) k = None \<longleftrightarrow> k \<notin> lv_key m ` set (mm_LabelValues m)"
  unfolding metric_okD(3)[OF assms] by (force simp: map_of_eq_None_iff)

lemma lv_key_inj:
  assumes "metric_ok m" and "i \<in> set (mm_LabelValues m)" and "j \<in> set (mm_LabelValues m)" and "lv_key m i = lv_key m j"
  shows "i = j"
  using metric_okD(1)[OF assms(1)] assms(2-4) by (auto simp: distinct_map dest: inj_onD)

lemma metric_ok_distinct: "metric_ok m \<Longrightarrow> distinct (mm_LabelValues m)"
  using metric_okD(1) distinct_map by blast

lemma metric_ok_New [simp]: "metric_ok (NewMetric name prog kind typ keys)"
  by (simp add: metric_ok_def NewMetric_def)

lemma metric_ok_Append:
  assumes ok: "metric_ok m" and new: "FindLabelValueOrNil (lv_Labels lv) m = None" and a: "AppendLabelValue lv m = Inr m'"
  shows "metric_ok m'" and "mm_LabelValues m' = mm_LabelValues m @ [length (mm_lvs m)]" and "mm_lvs m' = mm_lvs m @ [lv]"
    and "mm_Keys m' = mm_Keys m"
proof -
  let ?n = "length (mm_lvs m)"
  have m': "m' = m\<lparr>mm_lvs := mm_lvs m @ [lv], mm_LabelValues := mm_LabelValues m @ [?n],
      mm_labelValuesMap := AList.update (buildLabelValueKey (lv_Labels lv)) ?n (mm_labelValuesMap m)\<rparr>"
    and len: "length (lv_Labels lv) = length (mm_Keys m)"
    using a by (auto simp: AppendLabelValue_def split: if_splits)
  then show l: "mm_LabelValues m' = mm_LabelValues m @ [?n]" "mm_lvs m' = mm_lvs m @ [lv]" "mm_Keys m' = mm_Keys m" by simp_all
  have k: "lv_key m' i = lv_key m i" if "i < ?n" for i using that l(2) by (simp add: lv_key_def nth_append)
  have kn: "lv_key m' ?n = buildLabelValueKey (lv_Labels lv)" using l(2) by (simp add: lv_key_def)
  have old: "lv_key m' i = lv_key m i" if "i \<in> set (mm_LabelValues m)" for i using k metric_okD(2)[OF ok that] by simp
  have fresh: "buildLabelValueKey (lv_Labels lv) \<notin> lv_key m ` set (mm_LabelValues m)"
    using new lv_map_None[OF ok] by (simp add: FindLabelValueOrNil_def)
  have keys: "map (lv_key m') (mm_LabelValues m') = map (lv_key m) (mm_LabelValues m) @ [buildLabelValueKey (lv_Labels lv)]"
    using old kn l(1) by simp
  have pairs: "map (\<lambda>i. (lv_key m' i, i)) (mm_LabelValues m') = map (\<lambda>i. (lv_key m i, i)) (mm_LabelValues m) @ [(buildLabelValueKey (lv_Labels lv), ?n)]"
    using old kn l(1) by simp
  show "metric_ok m'" unfolding metric_ok_def
  proof (intro conjI ballI)
    show "distinct (map (lv_key m') (mm_LabelValues m'))" unfolding keys using fresh metric_okD(1)[OF ok] by auto
    fix i assume "i \<in> set (mm_LabelValues m')"
    then show "i < length (mm_lvs m')" "length (lv_Labels (mm_lvs m' ! i)) = length (mm_Keys m')"
      using metric_okD(2)[OF ok, of i] len l by (auto simp: nth_append)
  next
    have f: "map_of (map (\<lambda>i. (lv_key m i, i)) (mm_LabelValues m)) (buildLabelValueKey (lv_Labels lv)) = None"
      using fresh by (force simp: map_of_eq_None_iff)
    show "map_of (mm_labelValuesMap m') = map_of (map (\<lambda>i. (lv_key m' i, i)) (mm_LabelValues m'))"
      unfolding pairs using f by (auto simp: m' update_conv' metric_okD(3)[OF ok] map_add_def fun_eq_iff split: option.split)
  qed
qed

text \<open>A metric without one of its label values.\<close>

definition without_lv :: "nat \<Rightarrow> 'f mt_metric \<Rightarrow> 'f mt_metric" where
  "without_lv i m =
     m\<lparr>mm_LabelValues := remove1 i (mm_LabelValues m), mm_labelValuesMap := AList.delete (lv_key m i) (mm_labelValuesMap m)\<rparr>"

lemma without_lv_simps [simp]:
  "mm_lvs (without_lv i m) = mm_lvs m" "mm_Keys (without_lv i m) = mm_Keys m" "mm_Limit (without_lv i m) = mm_Limit m"
  "mm_Name (without_lv i m) = mm_Name m" "mm_Type (without_lv i m) = mm_Type m" "mm_Kind (without_lv i m) = mm_Kind m"
  "mm_LabelValues (without_lv i m) = remove1 i (mm_LabelValues m)"
  "lv_key (without_lv i m) = lv_key m" "lv_time ds (without_lv i m) = lv_time ds m" "expired now ds (without_lv i m) = expired now ds m"
  by (simp_all add: without_lv_def lv_key_def lv_time_def expired_def fun_eq_iff)

lemma metric_ok_without:
  assumes ok: "metric_ok m" and i: "i \<in> set (mm_LabelValues m)"
  shows "metric_ok (without_lv i m)"
proof -
  note D = metric_okD[OF ok] and dist = metric_ok_distinct[OF ok]
  have "map_of (mm_labelValuesMap (without_lv i m)) k = map_of (map (\<lambda>i. (lv_key m i, i)) (remove1 i (mm_LabelValues m))) k" for k
  proof (cases "k = lv_key m i")
    case True
    then have "k \<notin> lv_key m ` set (remove1 i (mm_LabelValues m))" using lv_key_inj[OF ok i] dist by auto
    then have "map_of (map (\<lambda>i. (lv_key m i, i)) (remove1 i (mm_LabelValues m))) k = None" by (force simp: map_of_eq_None_iff)
    with True show ?thesis by (simp add: without_lv_def AList.delete_conv')
  next
    case False
    have "map_of (map (\<lambda>i. (lv_key m i, i)) (remove1 i xs)) k = map_of (map (\<lambda>i. (lv_key m i, i)) xs) k" for xs
      by (induction xs) (use False in auto)
    with False D(3) show ?thesis by (simp add: without_lv_def AList.delete_conv')
  qed
  moreover have "distinct (map (lv_key m) (remove1 i (mm_LabelValues m)))"
    using D(1) dist by (auto simp: distinct_map intro: inj_on_subset)
  moreover have "set (remove1 i (mm_LabelValues m)) \<subseteq> set (mm_LabelValues m)" by (rule set_remove1_subset)
  ultimately show ?thesis using D(2) by (auto simp: metric_ok_def fun_eq_iff)
qed

lemma RemoveDatum_ok:
  assumes ok: "metric_ok m" and len: "length labels = length (mm_Keys m)"
  shows "RemoveDatum labels m = Inr (case FindLabelValueOrNil labels m of None \<Rightarrow> m | Some i \<Rightarrow> without_lv i m)"
proof (cases "FindLabelValueOrNil labels m")
  case None
  with len show ?thesis by (simp add: RemoveDatum_def FindLabelValueOrNil_def Let_def)
next
  case (Some i)
  with len Find_SomeD[OF ok Some] show ?thesis by (simp add: RemoveDatum_def FindLabelValueOrNil_def without_lv_def Let_def)
qed

lemma RemoveDatum_self:
  assumes ok: "metric_ok m" and i: "i \<in> set (mm_LabelValues m)"
  shows "RemoveDatum (lv_Labels (mm_lvs m ! i)) m = Inr (without_lv i m)"
proof -
  have "FindLabelValueOrNil (lv_Labels (mm_lvs m ! i)) m = Some i"
    using lv_map_Some[OF ok] i by (simp add: FindLabelValueOrNil_def lv_key_def)
  with RemoveDatum_ok[OF ok] metric_okD(2)[OF ok i] show ?thesis by simp
qed

lemma metric_ok_RemoveDatum:
  assumes "metric_ok m" and "RemoveDatum labels m = Inr m'"
  shows "metric_ok m'"
proof -
  have len: "length labels = length (mm_Keys m)" using assms(2) by (auto simp: RemoveDatum_def split: if_splits)
  show ?thesis using assms RemoveDatum_ok[OF assms(1) len] metric_ok_without[OF assms(1)] lv_map_Some[OF assms(1)]
    by (auto simp: FindLabelValueOrNil_def split: option.splits)
qed

lemma metric_ok_ExpireDatum:
  assumes ok: "metric_ok m" and e: "ExpireDatum expiry labels m = Inr m'"
  shows "metric_ok m'"
proof -
  obtain i where m': "m' = m\<lparr>mm_lvs := (mm_lvs m)[i := (mm_lvs m ! i)\<lparr>lv_Expiry := expiry\<rparr>]\<rparr>"
    using e by (auto simp: ExpireDatum_def split: if_splits option.splits)
  have l: "lv_Labels (mm_lvs m' ! j) = lv_Labels (mm_lvs m ! j)" for j
    using m' by (cases "j = i \<and> i < length (mm_lvs m)") (auto simp: nth_list_update list_update_beyond)
  then have "lv_key m' = lv_key m" by (simp add: lv_key_def fun_eq_iff)
  with ok l m' show ?thesis by (simp add: metric_ok_def)
qed

lemma GetDatum_cases:
  assumes ok: "metric_ok m" and len: "length labels = length (mm_Keys m)"
  obtains (found) i where "FindLabelValueOrNil labels m = Some i" and "i \<in> set (mm_LabelValues m)"
      and "GetDatum fo now labels m ds = Inr (lv_Value (mm_lvs m ! i), m, ds)"
    | (created) m' where "FindLabelValueOrNil labels m = None" and "metric_ok m'"
      and "AppendLabelValue \<lparr>lv_Labels = labels, lv_Value = length ds, lv_Expiry = 0\<rparr> m = Inr m'"
      and "GetDatum fo now labels m ds = Inr (length ds, m', ds @ [new_datum fo now m])"
proof (cases "FindLabelValueOrNil labels m")
  case None
  obtain m' where a: "AppendLabelValue \<lparr>lv_Labels = labels, lv_Value = length ds, lv_Expiry = 0\<rparr> m = Inr m'"
    using len by (auto simp: AppendLabelValue_def)
  from metric_ok_Append(1)[OF ok _ a] None a len show ?thesis by (intro created[of m']) (simp_all add: GetDatum_def)
next
  case (Some i)
  with Find_SomeD[OF ok Some] len show ?thesis by (intro found[of i]) (simp_all add: GetDatum_def)
qed

lemma metric_ok_GetDatum:
  assumes ok: "metric_ok m" and g: "GetDatum fo now labels m ds = Inr (d, m', ds')"
  shows "metric_ok m'"
proof -
  have len: "length labels = length (mm_Keys m)" using g by (auto simp: GetDatum_def split: if_splits)
  show ?thesis by (rule GetDatum_cases[OF ok len, of fo now ds]) (use ok g in auto)
qed

subsection \<open>The keys of label values\<close>

lemma ReplaceAll_dash:
  "ReplaceAll ''-'' [CHR 0x5C, CHR ''-''] l = concat (map (\<lambda>c. if c = CHR ''-'' then [CHR 0x5C, CHR ''-''] else [c]) l)"
  by (induction l) (auto simp: prefix_def)

lemma escape_split:
  assumes "CHR 0x5C \<notin> set a" and "CHR 0x5C \<notin> set b"
    and "ReplaceAll ''-'' [CHR 0x5C, CHR ''-''] a @ CHR ''-'' # s = ReplaceAll ''-'' [CHR 0x5C, CHR ''-''] b @ CHR ''-'' # t"
  shows "a = b \<and> s = t"
  using assms
proof (induction a arbitrary: b)
  case Nil
  then show ?case by (cases b) (auto simp: ReplaceAll_dash split: if_splits)
next
  case (Cons c a)
  show ?case
  proof (cases b)
    case Nil
    with Cons.prems show ?thesis by (auto simp: ReplaceAll_dash split: if_splits)
  next
    case (Cons c' b')
    with Cons.prems Cons.IH[of b'] show ?thesis by (auto simp: ReplaceAll_dash split: if_splits)
  qed
qed

lemma buildLabelValueKey_Cons: "buildLabelValueKey (l # ls) = ReplaceAll ''-'' [CHR 0x5C, CHR ''-''] l @ CHR ''-'' # buildLabelValueKey ls"
  by (simp add: buildLabelValueKey_def)

definition plain_labels :: "string list \<Rightarrow> bool" where
  "plain_labels ls \<longleftrightarrow> list_all (\<lambda>l. CHR 0x5C \<notin> set l) ls"

lemma plain_key_inj:
  assumes "plain_labels xs" and "plain_labels ys" and "length xs = length ys"
  shows "buildLabelValueKey xs = buildLabelValueKey ys \<longleftrightarrow> xs = ys"
  using assms(3,1,2)
proof (induction xs ys rule: list_induct2)
  case (Cons x xs y ys)
  then show ?case using escape_split[of x y] by (auto simp: plain_labels_def buildLabelValueKey_Cons)
qed simp

subsection \<open>What garbage collection removes\<close>

text \<open>The loop removes the expired label values from position \<open>i\<close> on, and it ends.\<close>

lemma gc_expire_filter:
  assumes "metric_ok m"
  shows "\<exists>m'. gc_expire now ds i m = Some (Inr m') \<and> metric_ok m' \<and> mm_lvs m' = mm_lvs m \<and> mm_Keys m' = mm_Keys m \<and> mm_Limit m' = mm_Limit m \<and>
    mm_LabelValues m' = take i (mm_LabelValues m) @ filter (\<lambda>j. \<not> expired now ds m j) (drop i (mm_LabelValues m))"
  using assms
proof (induction "length (mm_LabelValues m) - i" arbitrary: i m)
  case 0
  then show ?case by (subst gc_expire.simps) simp
next
  case (Suc n)
  let ?l = "mm_LabelValues m"
  let ?j = "?l ! i"
  have i: "i < length ?l" using Suc.hyps(2) by simp
  then have j: "?j \<in> set ?l" by simp
  have cons: "drop i ?l = ?j # drop (Suc i) ?l" using i by (simp add: Cons_nth_drop_Suc)
  show ?case
  proof (cases "expired now ds m ?j")
    case False
    have "n = length ?l - (i + 1)" using Suc.hyps(2) by simp
    from Suc.hyps(1)[OF this Suc.prems] obtain m' where m': "gc_expire now ds (i + 1) m = Some (Inr m')"
      "metric_ok m'" "mm_lvs m' = mm_lvs m" "mm_Keys m' = mm_Keys m" "mm_Limit m' = mm_Limit m"
      "mm_LabelValues m' = take (i + 1) ?l @ filter (\<lambda>j. \<not> expired now ds m j) (drop (i + 1) ?l)" by blast
    have "gc_expire now ds i m = Some (Inr m')" using m'(1) i False by (subst gc_expire.simps) simp
    with m' False i show ?thesis by (intro exI[of _ m']) (simp add: cons take_Suc_conv_app_nth)
  next
    case True
    let ?m = "without_lv ?j m"
    have l: "remove1 ?j ?l = take i ?l @ drop (Suc i) ?l"
    proof -
      have "?j \<notin> set (take i ?l)" using metric_ok_distinct[OF Suc.prems] i by (metis distinct_take id_take_nth_drop distinct.simps(2) distinct_append not_distinct_conv_prefix in_set_conv_decomp)
      then have "remove1 ?j (take i ?l @ ?j # drop (Suc i) ?l) = take i ?l @ drop (Suc i) ?l" by (simp add: remove1_append)
      then show ?thesis using id_take_nth_drop[OF i] by simp
    qed
    then have len: "n = length (mm_LabelValues ?m) - i" using Suc.hyps(2) i by simp
    from Suc.hyps(1)[OF len metric_ok_without[OF Suc.prems j]] obtain m' where m': "gc_expire now ds i ?m = Some (Inr m')"
      "metric_ok m'" "mm_lvs m' = mm_lvs m" "mm_Keys m' = mm_Keys m" "mm_Limit m' = mm_Limit m"
      "mm_LabelValues m' = take i (remove1 ?j ?l) @ filter (\<lambda>j. \<not> expired now ds m j) (drop i (remove1 ?j ?l))" by auto
    have "gc_expire now ds i m = Some (Inr m')"
      using m'(1) i True RemoveDatum_self[OF Suc.prems j] by (subst gc_expire.simps) simp
    with m' True i show ?thesis by (intro exI[of _ m']) (simp add: cons l min_def)
  qed
qed

lemma subseq_remove1: "subseq (remove1 x xs) xs"
  by (induction xs) auto

lemma oldest_lv_least:
  assumes "mm_LabelValues m \<noteq> []"
  shows "\<exists>i \<in> set (mm_LabelValues m). oldest_lv ds m = Some i \<and> (\<forall>j \<in> set (mm_LabelValues m). lv_time ds m i \<le> lv_time ds m j)"
proof -
  let ?f = "\<lambda>oldest i. case oldest of None \<Rightarrow> Some i | Some j \<Rightarrow> if lv_time ds m i < lv_time ds m j then Some i else Some j"
  have "\<exists>i \<in> insert k (set xs). foldl ?f (Some k) xs = Some i \<and> (\<forall>j \<in> insert k (set xs). lv_time ds m i \<le> lv_time ds m j)" for xs k
  proof (induction xs arbitrary: k)
    case (Cons x xs)
    let ?k = "if lv_time ds m x < lv_time ds m k then x else k"
    obtain i where i: "i \<in> insert ?k (set xs)" "foldl ?f (Some ?k) xs = Some i"
      "\<forall>j \<in> insert ?k (set xs). lv_time ds m i \<le> lv_time ds m j" using Cons.IH[of ?k] by blast
    then have "foldl ?f (Some k) (x # xs) = Some i" by (simp split: if_splits)
    moreover have "lv_time ds m i \<le> lv_time ds m ?k" using i(3) by blast
    then have "lv_time ds m i \<le> lv_time ds m x" "lv_time ds m i \<le> lv_time ds m k" by (auto split: if_splits)
    ultimately show ?case using i(1,3) by (intro bexI[of _ i]) (auto split: if_splits)
  qed simp
  from this[of "hd (mm_LabelValues m)" "tl (mm_LabelValues m)"] assms show ?thesis
    by (cases "mm_LabelValues m") (auto simp: oldest_lv_def)
qed

text \<open>Removing the oldest label values \<open>n\<close> times leaves the newest ones, in order.\<close>

lemma RemoveOldest_newest:
  assumes "metric_ok m" and "n \<le> length (mm_LabelValues m)"
  shows "\<exists>m'. (RemoveOldestDatum ds ^^ n) m = m' \<and> metric_ok m' \<and> mm_lvs m' = mm_lvs m \<and> mm_Keys m' = mm_Keys m \<and> mm_Limit m' = mm_Limit m \<and>
    subseq (mm_LabelValues m') (mm_LabelValues m) \<and> length (mm_LabelValues m') = length (mm_LabelValues m) - n \<and>
    (\<forall>i \<in> set (mm_LabelValues m) - set (mm_LabelValues m'). \<forall>j \<in> set (mm_LabelValues m'). lv_time ds m i \<le> lv_time ds m j)"
  using assms
proof (induction n)
  case 0
  then show ?case by auto
next
  case (Suc n)
  then obtain m' where m': "(RemoveOldestDatum ds ^^ n) m = m'" "metric_ok m'" "mm_lvs m' = mm_lvs m" "mm_Keys m' = mm_Keys m" "mm_Limit m' = mm_Limit m"
    "subseq (mm_LabelValues m') (mm_LabelValues m)" "length (mm_LabelValues m') = length (mm_LabelValues m) - n"
    "\<forall>i \<in> set (mm_LabelValues m) - set (mm_LabelValues m'). \<forall>j \<in> set (mm_LabelValues m'). lv_time ds m i \<le> lv_time ds m j" by auto
  have t: "lv_time ds m' = lv_time ds m" using m'(3) by (simp add: lv_time_def fun_eq_iff)
  have "mm_LabelValues m' \<noteq> []" using m'(7) Suc.prems(2) by auto
  then obtain o' where o': "o' \<in> set (mm_LabelValues m')" "oldest_lv ds m' = Some o'" "\<forall>j \<in> set (mm_LabelValues m'). lv_time ds m o' \<le> lv_time ds m j"
    using oldest_lv_least[of m' ds] t by auto
  have r: "(RemoveOldestDatum ds ^^ Suc n) m = without_lv o' m'"
    using m'(1) o'(2) RemoveDatum_self[OF m'(2) o'(1)] by (simp add: RemoveOldestDatum_def)
  have "subseq (remove1 o' (mm_LabelValues m')) (mm_LabelValues m')" by (rule subseq_remove1)
  then show ?case
    unfolding r using m' o' metric_ok_without[OF m'(2) o'(1)] metric_ok_distinct[OF m'(2)]
    by (auto simp: length_remove1 intro: subseq_order.order_trans)
qed

definition heap_ok :: "'f mt_heap \<Rightarrow> bool" where
  "heap_ok h \<longleftrightarrow> (\<forall>m \<in> set (mh_metrics h). metric_ok m \<and> (\<forall>i \<in> set (mm_LabelValues m). lv_Value (mm_lvs m ! i) < length (mh_data h)))"

text \<open>What garbage collection leaves of a metric: of its newest label values, as many as the limit allows, those that have not expired.\<close>

definition gc_result :: "int \<Rightarrow> 'f datum list \<Rightarrow> 'f mt_metric \<Rightarrow> 'f mt_metric \<Rightarrow> bool" where
  "gc_result now ds m m' \<longleftrightarrow>
     mm_lvs m' = mm_lvs m \<and>
     (\<exists>newest. subseq newest (mm_LabelValues m) \<and>
        length newest = (if mm_Limit m > 0 then min (nat (mm_Limit m)) (length (mm_LabelValues m)) else length (mm_LabelValues m)) \<and>
        (\<forall>i \<in> set (mm_LabelValues m) - set newest. \<forall>j \<in> set newest. lv_time ds m i \<le> lv_time ds m j) \<and>
        mm_LabelValues m' = filter (\<lambda>i. \<not> expired now ds m i) newest)"

lemma gc_metric:
  assumes ok: "metric_ok m"
  shows "\<exists>m'. gc_expire now ds 0 (gc_limit ds m) = Some (Inr m') \<and> metric_ok m' \<and> gc_result now ds m m'"
proof -
  let ?n = "if mm_Limit m > 0 then nat (int (length (mm_LabelValues m)) - mm_Limit m) else 0"
  have l: "gc_limit ds m = (RemoveOldestDatum ds ^^ ?n) m" by (auto simp: gc_limit_def Let_def)
  have "?n \<le> length (mm_LabelValues m)" by auto
  from RemoveOldest_newest[OF ok this, of ds] obtain m1 where m1: "gc_limit ds m = m1" "metric_ok m1" "mm_lvs m1 = mm_lvs m"
    "subseq (mm_LabelValues m1) (mm_LabelValues m)" "length (mm_LabelValues m1) = length (mm_LabelValues m) - ?n"
    "\<forall>i \<in> set (mm_LabelValues m) - set (mm_LabelValues m1). \<forall>j \<in> set (mm_LabelValues m1). lv_time ds m i \<le> lv_time ds m j"
    unfolding l by blast
  obtain m' where m': "gc_expire now ds 0 m1 = Some (Inr m')" "metric_ok m'" "mm_lvs m' = mm_lvs m1"
    "mm_LabelValues m' = filter (\<lambda>j. \<not> expired now ds m1 j) (mm_LabelValues m1)"
    using gc_expire_filter[OF m1(2), of now ds 0] by auto
  have "expired now ds m1 = expired now ds m" using m1(3) by (simp add: expired_def lv_time_def fun_eq_iff)
  then have "gc_result now ds m m'"
    unfolding gc_result_def using m1 m' by (auto intro!: exI[of _ "mm_LabelValues m1"] simp: nat_diff_distrib min_def)
  with m1(1) m' show ?thesis by auto
qed

lemma gc_result_subset: "gc_result now ds m m' \<Longrightarrow> set (mm_LabelValues m') \<subseteq> set (mm_LabelValues m) \<and> mm_lvs m' = mm_lvs m"
  by (auto simp: gc_result_def elim: list_emb_set)

lemma Gc_range_removes:
  assumes "heap_ok h" and "distinct ids" and "\<forall>i \<in> set ids. i < length (mh_metrics h)"
  shows "\<exists>h'. Gc_range now ids h = Some (Inr h') \<and> heap_ok h' \<and> mh_data h' = mh_data h \<and> length (mh_metrics h') = length (mh_metrics h) \<and>
    (\<forall>i. if i \<in> set ids then gc_result now (mh_data h) (mh_metrics h ! i) (mh_metrics h' ! i) else mh_metrics h' ! i = mh_metrics h ! i)"
  using assms
proof (induction ids arbitrary: h)
  case (Cons i ids)
  let ?m = "mh_metrics h ! i"
  have mem: "?m \<in> set (mh_metrics h)" using Cons.prems(3) by simp
  then have ok: "metric_ok ?m" using Cons.prems(1) by (simp add: heap_ok_def)
  obtain m' where m': "gc_expire now (mh_data h) 0 (gc_limit (mh_data h) ?m) = Some (Inr m')" "metric_ok m'" "gc_result now (mh_data h) ?m m'"
    using gc_metric[OF ok] by blast
  define h1 where "h1 = h\<lparr>mh_metrics := (mh_metrics h)[i := m']\<rparr>"
  have s: "set (mh_metrics h1) \<subseteq> insert m' (set (mh_metrics h))" by (simp add: h1_def set_update_subset_insert)
  have "\<forall>i \<in> set (mm_LabelValues m'). lv_Value (mm_lvs m' ! i) < length (mh_data h)"
    using gc_result_subset[OF m'(3)] Cons.prems(1) mem by (auto simp: heap_ok_def)
  then have "heap_ok h1" using s Cons.prems(1) m'(2) by (auto simp: heap_ok_def h1_def)
  moreover have "distinct ids" "\<forall>i \<in> set ids. i < length (mh_metrics h1)" using Cons.prems(2,3) by (simp_all add: h1_def)
  ultimately obtain h' where h': "Gc_range now ids h1 = Some (Inr h')" "heap_ok h'" "mh_data h' = mh_data h1" "length (mh_metrics h') = length (mh_metrics h1)"
    "\<forall>i. if i \<in> set ids then gc_result now (mh_data h1) (mh_metrics h1 ! i) (mh_metrics h' ! i) else mh_metrics h' ! i = mh_metrics h1 ! i"
    using Cons.IH[of h1] by blast
  have "if j \<in> set (i # ids) then gc_result now (mh_data h) (mh_metrics h ! j) (mh_metrics h' ! j) else mh_metrics h' ! j = mh_metrics h ! j" for j
    using h'(5)[rule_format, of j] m'(3) Cons.prems(2,3) by (cases "j = i") (auto simp: h1_def split: if_splits)
  with h' m'(1) show ?case by (intro exI[of _ h']) (simp add: h1_def)
qed auto

text \<open>C20: garbage collection of the metrics of mtail. When the slice and the map of every metric agree, \<open>Gc\<close> ends without an error
  (its inner loop steps back after each removal, so a removal that found nothing would be repeated for
  ever). Of each metric of the store it keeps, in order, those of its newest label values within the limit that
  have not expired; no label value that was removed for the limit is newer than one that was kept. Other metrics and the data
  are left alone and the agreement is kept.\<close>

theorem Gc_removes:
  assumes "heap_ok h" and "distinct (concat (map snd s))" and "list_all (\<lambda>i. i < length (mh_metrics h)) (concat (map snd s))"
  shows "\<exists>h'. Gc now s h = Some (Inr h') \<and> heap_ok h' \<and> mh_data h' = mh_data h \<and>
    (\<forall>i. if i \<in> set (concat (map snd s)) then gc_result now (mh_data h) (mh_metrics h ! i) (mh_metrics h' ! i)
         else mh_metrics h' ! i = mh_metrics h ! i)"
  unfolding Gc_def using Gc_range_removes[OF assms(1,2), of now] assms(3) by (auto simp: list_all_iff)

definition gc_example :: "nat mt_heap" where
  "gc_example =
     \<lparr>mh_data = [\<lparr>dt_Time = 10, dt_Value = DInt 1\<rparr>, \<lparr>dt_Time = 5, dt_Value = DInt 2\<rparr>, \<lparr>dt_Time = 30, dt_Value = DInt 3\<rparr>],
      mh_metrics = [(NewMetric ''m'' ''p'' Counter TInt [''k''])
        \<lparr>mm_lvs := [\<lparr>lv_Labels = [''a''], lv_Value = 0, lv_Expiry = 20\<rparr>, \<lparr>lv_Labels = [''b''], lv_Value = 1, lv_Expiry = 0\<rparr>,
                    \<lparr>lv_Labels = [''c''], lv_Value = 2, lv_Expiry = 20\<rparr>],
         mm_LabelValues := [0, 1, 2], mm_labelValuesMap := [(''a-'', 0), (''b-'', 1), (''c-'', 2)], mm_Limit := 2\<rparr>]\<rparr>"

theorem Gc_removes_witness:
  "heap_ok gc_example \<and> (\<exists>h'. Gc 40 [(''m'', [0])] gc_example = Some (Inr h') \<and> heap_ok h' \<and>
     gc_result 40 (mh_data gc_example) (mh_metrics gc_example ! 0) (mh_metrics h' ! 0))"
proof -
  have ok: "heap_ok gc_example"
    by (auto simp: heap_ok_def gc_example_def metric_ok_def NewMetric_def lv_key_def buildLabelValueKey_def ReplaceAll_dash)
  have d: "distinct (concat (map snd [(''m'', [0 :: nat])]))"
    "list_all (\<lambda>i. i < length (mh_metrics gc_example)) (concat (map snd [(''m'', [0 :: nat])]))"
    by (simp_all add: gc_example_def)
  have "0 \<in> set (concat (map snd [(''m'', [0 :: nat])]))" by simp
  with Gc_removes[OF ok d, of 40] ok show ?thesis by metis
qed

subsection \<open>Loading a program again\<close>

text \<open>The data of a metric by key, and by label values.\<close>

definition key_view :: "'f mt_metric \<Rightarrow> string \<rightharpoonup> nat" where
  "key_view m k = map_option (\<lambda>i. lv_Value (mm_lvs m ! i)) (map_of (mm_labelValuesMap m) k)"

definition datum_of :: "'f mt_metric \<Rightarrow> string list \<rightharpoonup> nat" where
  "datum_of m labels = map_option (\<lambda>i. lv_Value (mm_lvs m ! i)) (FindLabelValueOrNil labels m)"

lemma datum_of_key: "datum_of m labels = key_view m (buildLabelValueKey labels)"
  by (simp add: datum_of_def key_view_def FindLabelValueOrNil_def)

lemma key_view_without:
  assumes "metric_ok m" and "i \<in> set (mm_LabelValues m)"
  shows "key_view (without_lv i m) = (key_view m)(lv_key m i := None)"
  by (simp add: key_view_def without_lv_def AList.delete_conv' fun_eq_iff)

lemma key_view_Append:
  assumes ok: "metric_ok m" and a: "AppendLabelValue lv m = Inr m'"
  shows "key_view m' = (key_view m)(buildLabelValueKey (lv_Labels lv) \<mapsto> lv_Value lv)"
proof
  fix k
  have m': "mm_lvs m' = mm_lvs m @ [lv]"
    "mm_labelValuesMap m' = AList.update (buildLabelValueKey (lv_Labels lv)) (length (mm_lvs m)) (mm_labelValuesMap m)"
    using a by (auto simp: AppendLabelValue_def split: if_splits)
  show "key_view m' k = ((key_view m)(buildLabelValueKey (lv_Labels lv) \<mapsto> lv_Value lv)) k"
  proof (cases "map_of (mm_labelValuesMap m) k")
    case (Some i)
    then have "i < length (mm_lvs m)" using lv_map_Some[OF ok] metric_okD(2)[OF ok] by blast
    with Some show ?thesis by (simp add: key_view_def m' update_conv' nth_append)
  qed (simp add: key_view_def m' update_conv')
qed

definition same_shape :: "'f mt_metric \<Rightarrow> 'f mt_metric \<Rightarrow> bool" where
  "same_shape m m' \<longleftrightarrow> mm_Name m' = mm_Name m \<and> mm_Program m' = mm_Program m \<and> mm_Kind m' = mm_Kind m \<and> mm_Type m' = mm_Type m \<and>
     mm_Source m' = mm_Source m \<and> mm_Keys m' = mm_Keys m \<and> mm_Limit m' = mm_Limit m \<and> mm_Hidden m' = mm_Hidden m \<and> mm_Buckets m' = mm_Buckets m"

lemma same_shape_refl [simp]: "same_shape m m" and same_shape_trans: "same_shape m m1 \<Longrightarrow> same_shape m1 m2 \<Longrightarrow> same_shape m m2"
  by (auto simp: same_shape_def)

lemma same_shape_without [simp]: "same_shape m (without_lv i m)"
  by (simp add: same_shape_def without_lv_def)

lemma same_shape_Append: "AppendLabelValue lv m = Inr m' \<Longrightarrow> same_shape m m'"
  by (auto simp: AppendLabelValue_def same_shape_def split: if_splits)

definition values_ok :: "'f mt_heap \<Rightarrow> 'f mt_metric \<Rightarrow> bool" where
  "values_ok h m \<longleftrightarrow> (\<forall>i \<in> set (mm_LabelValues m). lv_Value (mm_lvs m ! i) < length (mh_data h))"

lemma heap_ok_iff: "heap_ok h \<longleftrightarrow> (\<forall>m \<in> set (mh_metrics h). metric_ok m \<and> values_ok h m)"
  by (simp add: heap_ok_def values_ok_def)

lemma heap_ok_update:
  assumes "heap_ok h" and "metric_ok m" and "values_ok h m"
  shows "heap_ok (h\<lparr>mh_metrics := (mh_metrics h)[i := m]\<rparr>)"
  using assms set_update_subset_insert[of "mh_metrics h" i m] by (auto simp: heap_ok_iff values_ok_def)

lemma copy_label_ok:
  assumes h: "heap_ok h" and id: "vid \<noteq> mid" "vid < length (mh_metrics h)" "mid < length (mh_metrics h)"
    and keys: "mm_Keys (mh_metrics h ! vid) = mm_Keys (mh_metrics h ! mid)" and i: "i \<in> set (mm_LabelValues (mh_metrics h ! vid))"
  defines "v \<equiv> mh_metrics h ! vid" and "m \<equiv> mh_metrics h ! mid"
  shows "\<exists>m'. copy_label fo now vid mid h i = Inr (h\<lparr>mh_metrics := (mh_metrics h)[mid := m']\<rparr>) \<and> metric_ok m' \<and> values_ok h m' \<and>
    same_shape m m' \<and> key_view m' = (key_view m)(lv_key v i \<mapsto> lv_Value (mm_lvs v ! i))"
proof -
  let ?labels = "lv_Labels (mm_lvs v ! i)"
  have ok: "metric_ok v" "metric_ok m" "values_ok h v" "values_ok h m" using h id by (auto simp: heap_ok_iff v_def m_def)
  have iv: "i \<in> set (mm_LabelValues v)" using i by (simp add: v_def)
  have len: "length ?labels = length (mm_Keys v)" "length ?labels = length (mm_Keys m)"
    using metric_okD(2)[OF ok(1) iv] keys by (simp_all add: v_def m_def)
  have find: "FindLabelValueOrNil ?labels v = Some i"
    using lv_map_Some[OF ok(1)] iv by (simp add: FindLabelValueOrNil_def lv_key_def)
  have g: "GetDatum fo now ?labels v (mh_data h) = Inr (lv_Value (mm_lvs v ! i), v, mh_data h)"
    using find len by (simp add: GetDatum_def)
  define m1 where "m1 = (case FindLabelValueOrNil ?labels m of None \<Rightarrow> m | Some j \<Rightarrow> without_lv j m)"
  have r: "RemoveDatum ?labels m = Inr m1" using RemoveDatum_ok[OF ok(2) len(2)] by (simp add: m1_def)
  have ok1: "metric_ok m1" by (rule metric_ok_RemoveDatum[OF ok(2) r])
  have v1: "values_ok h m1" and s1: "same_shape m m1"
    using ok(4) set_remove1_subset by (auto simp: m1_def values_ok_def split: option.split)
  have kv1: "key_view m1 = (key_view m)(lv_key v i := None)" and none: "FindLabelValueOrNil ?labels m1 = None"
  proof -
    show kv: "key_view m1 = (key_view m)(lv_key v i := None)"
    proof (cases "FindLabelValueOrNil ?labels m")
      case None
      then show ?thesis by (auto simp: m1_def key_view_def FindLabelValueOrNil_def lv_key_def)
    next
      case (Some j)
      with Find_SomeD[OF ok(2) Some] show ?thesis by (simp add: m1_def key_view_without[OF ok(2)] lv_key_def)
    qed
    have "datum_of m1 ?labels = None" unfolding datum_of_key kv by (simp add: lv_key_def)
    then show "FindLabelValueOrNil ?labels m1 = None" by (simp add: datum_of_def)
  qed
  let ?lv = "\<lparr>lv_Labels = ?labels, lv_Value = lv_Value (mm_lvs v ! i), lv_Expiry = 0\<rparr>"
  obtain m2 where a: "AppendLabelValue ?lv m1 = Inr m2" using len s1 by (auto simp: AppendLabelValue_def same_shape_def)
  note A = metric_ok_Append[OF ok1 _ a, simplified, OF none]
  have v2: "values_ok h m2" using v1 ok(3) iv metric_okD(2)[OF ok1] by (auto simp: values_ok_def A(2,3) nth_append)
  have s2: "same_shape m m2" by (rule same_shape_trans[OF s1 same_shape_Append[OF a]])
  have kv2: "key_view m2 = (key_view m)(lv_key v i \<mapsto> lv_Value (mm_lvs v ! i))"
    unfolding key_view_Append[OF ok1 a] kv1 by (auto simp: lv_key_def)
  have "(mh_metrics h)[vid := v] = mh_metrics h" by (simp add: v_def)
  then have "copy_label fo now vid mid h i = Inr (h\<lparr>mh_metrics := (mh_metrics h)[mid := m2]\<rparr>)"
    using g r a id by (simp add: copy_label_def Let_def flip: v_def m_def)
  with A(1) v2 s2 kv2 show ?thesis by blast
qed

lemma copy_labels_ok:
  assumes "heap_ok h" and "vid \<noteq> mid" and "vid < length (mh_metrics h)" and "mid < length (mh_metrics h)"
    and "mm_Keys (mh_metrics h ! vid) = mm_Keys (mh_metrics h ! mid)" and "set ls \<subseteq> set (mm_LabelValues (mh_metrics h ! vid))"
  shows "\<exists>m'. foldM (copy_label fo now vid mid) h ls = Inr (h\<lparr>mh_metrics := (mh_metrics h)[mid := m']\<rparr>) \<and> metric_ok m' \<and> values_ok h m' \<and>
    same_shape (mh_metrics h ! mid) m' \<and>
    key_view m' = foldl (\<lambda>f i. f(lv_key (mh_metrics h ! vid) i \<mapsto> lv_Value (mm_lvs (mh_metrics h ! vid) ! i))) (key_view (mh_metrics h ! mid)) ls"
  using assms
proof (induction ls arbitrary: h)
  case Nil
  then show ?case by (auto intro!: exI[of _ "mh_metrics h ! mid"] simp: heap_ok_iff)
next
  case (Cons i ls)
  let ?v = "mh_metrics h ! vid"
  obtain m1 where m1: "copy_label fo now vid mid h i = Inr (h\<lparr>mh_metrics := (mh_metrics h)[mid := m1]\<rparr>)" "metric_ok m1" "values_ok h m1"
    "same_shape (mh_metrics h ! mid) m1" "key_view m1 = (key_view (mh_metrics h ! mid))(lv_key ?v i \<mapsto> lv_Value (mm_lvs ?v ! i))"
    using copy_label_ok[OF Cons.prems(1-5), of i fo now] Cons.prems(6) by auto
  define h1 where "h1 = h\<lparr>mh_metrics := (mh_metrics h)[mid := m1]\<rparr>"
  have h1: "heap_ok h1" "mh_metrics h1 ! vid = ?v" "mh_metrics h1 ! mid = m1" "length (mh_metrics h1) = length (mh_metrics h)"
    using heap_ok_update[OF Cons.prems(1) m1(2,3)] Cons.prems(2-4) by (simp_all add: h1_def)
  have k: "mm_Keys (mh_metrics h1 ! vid) = mm_Keys (mh_metrics h1 ! mid)" using Cons.prems(5) m1(4) h1 by (simp add: same_shape_def)
  obtain m' where m': "foldM (copy_label fo now vid mid) h1 ls = Inr (h1\<lparr>mh_metrics := (mh_metrics h1)[mid := m']\<rparr>)" "metric_ok m'" "values_ok h1 m'"
    "same_shape m1 m'" "key_view m' = foldl (\<lambda>f i. f(lv_key ?v i \<mapsto> lv_Value (mm_lvs ?v ! i))) (key_view m1) ls"
    using Cons.IH[OF h1(1) Cons.prems(2) _ _ k] Cons.prems(3,4,6) unfolding h1(2-4) by (auto simp del: fun_upd_apply)
  have "foldM (copy_label fo now vid mid) h (i # ls) = Inr (h\<lparr>mh_metrics := (mh_metrics h)[mid := m']\<rparr>)"
    using m1(1) m'(1) by (simp add: h1_def)
  moreover have "values_ok h m'" using m'(3) by (simp add: values_ok_def h1_def)
  ultimately show ?case using m' m1(4,5) same_shape_trans by (intro exI[of _ m']) (auto simp del: fun_upd_apply)
qed

lemma fold_map_upds: "foldl (\<lambda>f i. f(g i \<mapsto> w i)) f ls = f ++ map_of (rev (map (\<lambda>i. (g i, w i)) ls))"
  by (induction ls arbitrary: f) (auto simp: map_add_def fun_eq_iff split: option.split)

lemma key_view_slice:
  assumes "metric_ok m"
  shows "key_view m = map_of (rev (map (\<lambda>i. (lv_key m i, lv_Value (mm_lvs m ! i))) (mm_LabelValues m)))"
proof -
  have "map_of (map (\<lambda>i. (lv_key m i, lv_Value (mm_lvs m ! i))) xs) k = map_option (\<lambda>i. lv_Value (mm_lvs m ! i)) (map_of (map (\<lambda>i. (lv_key m i, i)) xs) k)" for xs k
    by (induction xs) auto
  moreover have "distinct (map fst (map (\<lambda>i. (lv_key m i, lv_Value (mm_lvs m ! i))) (mm_LabelValues m)))"
    using metric_okD(1)[OF assms] by (simp add: comp_def)
  then have "map_of (rev (map (\<lambda>i. (lv_key m i, lv_Value (mm_lvs m ! i))) (mm_LabelValues m))) =
      map_of (map (\<lambda>i. (lv_key m i, lv_Value (mm_lvs m ! i))) (mm_LabelValues m))"
    by (subst map_of_inject_set) (simp_all flip: rev_map)
  ultimately show ?thesis by (simp add: key_view_def metric_okD(3)[OF assms] fun_eq_iff)
qed

definition replaces :: "'f mt_metric \<Rightarrow> 'f mt_metric \<Rightarrow> bool" where
  "replaces m v \<longleftrightarrow> mm_Program v = mm_Program m \<and> mm_Type v = mm_Type m \<and> mm_Source v = mm_Source m"

lemma add_scan_skip:
  assumes "\<forall>v \<in> set vs. \<not> replaces (mh_metrics h ! mid) (mh_metrics h ! v)"
  shows "add_scan fo now mid i (vs @ rest) (h, dupe) = add_scan fo now mid (i + length vs) rest (h, dupe)"
  using assms by (induction vs arbitrary: i) (auto simp: replaces_def Let_def)

text \<open>C21: a program that is loaded again goes on counting. When a metric \<open>mid\<close> is added to the store and one metric there with
  the same name, kind, program, type and source has the same keys, the new metric takes its place: for
  every list of label values it uses the very datum the old metric had for them, and otherwise what
  it had itself. Nothing else on the heap changes.\<close>

theorem Store_Add_keeps_values:
  assumes h: "heap_ok h" and mid: "mid < length (mh_metrics h)" "mid \<notin> set ml" and ml: "list_all (\<lambda>i. i < length (mh_metrics h)) ml"
    and s: "map_of s (mm_Name (mh_metrics h ! mid)) = Some ml" "ml = before @ vid # after"
    and kind: "mm_Kind (mh_metrics h ! (ml ! 0)) = mm_Kind (mh_metrics h ! mid)"
    and v: "replaces (mh_metrics h ! mid) (mh_metrics h ! vid)" "mm_Keys (mh_metrics h ! vid) = mm_Keys (mh_metrics h ! mid)"
    and others: "list_all (\<lambda>w. \<not> replaces (mh_metrics h ! mid) (mh_metrics h ! w)) (before @ after)"
  shows "\<exists>m'. Store_Add fo now mid s h =
      Inr (AList.update (mm_Name (mh_metrics h ! mid)) (before @ after @ [mid]) s, h\<lparr>mh_metrics := (mh_metrics h)[mid := m']\<rparr>) \<and>
    heap_ok (h\<lparr>mh_metrics := (mh_metrics h)[mid := m']\<rparr>) \<and> same_shape (mh_metrics h ! mid) m' \<and>
    datum_of m' = datum_of (mh_metrics h ! mid) ++ datum_of (mh_metrics h ! vid)"
proof -
  let ?m = "mh_metrics h ! mid" and ?v = "mh_metrics h ! vid"
  have id: "vid \<noteq> mid" "vid < length (mh_metrics h)" using mid ml s(2) by (auto simp: list_all_iff)
  obtain m' where m': "foldM (copy_label fo now vid mid) h (mm_LabelValues ?v) = Inr (h\<lparr>mh_metrics := (mh_metrics h)[mid := m']\<rparr>)"
    "metric_ok m'" "values_ok h m'" "same_shape ?m m'"
    "key_view m' = foldl (\<lambda>f i. f(lv_key ?v i \<mapsto> lv_Value (mm_lvs ?v ! i))) (key_view ?m) (mm_LabelValues ?v)"
    using copy_labels_ok[OF h id mid(1) v(2) order.refl, of fo now] by blast
  let ?h = "h\<lparr>mh_metrics := (mh_metrics h)[mid := m']\<rparr>"
  have ok: "metric_ok ?v" using h id(2) by (auto simp: heap_ok_iff)
  have kv: "key_view m' = key_view ?m ++ key_view ?v" unfolding m'(5) fold_map_upds key_view_slice[OF ok] ..
  then have d: "datum_of m' = datum_of ?m ++ datum_of ?v" by (simp add: datum_of_key map_add_def fun_eq_iff split: option.split)
  have nb: "\<forall>w \<in> set before. \<not> replaces ?m (mh_metrics h ! w)" using others by (auto simp: list_all_iff)
  have na: "\<forall>w \<in> set after. \<not> replaces (mh_metrics ?h ! mid) (mh_metrics ?h ! w)"
  proof
    fix w assume w: "w \<in> set after"
    then have "w \<noteq> mid" using mid s(2) by auto
    then have "mh_metrics ?h ! w = mh_metrics h ! w" "mh_metrics ?h ! mid = m'" using mid(1) by simp_all
    moreover have "\<not> replaces m' (mh_metrics h ! w)" using others m'(4) w by (simp add: list_all_iff replaces_def same_shape_def)
    ultimately show "\<not> replaces (mh_metrics ?h ! mid) (mh_metrics ?h ! w)" by simp
  qed
  have "add_scan fo now mid 0 ml (h, None) = add_scan fo now mid (length before) (vid # after) (h, None)"
    unfolding s(2) using add_scan_skip[OF nb, of fo now 0] by simp
  also have "\<dots> = add_scan fo now mid (length before + 1) after (?h, Some (length before))"
    using m'(1) v by (simp add: replaces_def Let_def)
  also have "\<dots> = Inr (?h, Some (length before))" using add_scan_skip[OF na, of fo now "length before + 1" "[]"] by simp
  finally have "add_scan fo now mid 0 ml (h, None) = Inr (?h, Some (length before))" .
  moreover have "take (length before) (ml @ [mid]) @ drop (length before + 1) (ml @ [mid]) = before @ after @ [mid]" by (simp add: s(2))
  moreover have "0 < length ml" by (simp add: s(2))
  ultimately have "Store_Add fo now mid s h = Inr (AList.update (mm_Name ?m) (before @ after @ [mid]) s, ?h)"
    using s(1) kind unfolding Store_Add_def by (simp add: Let_def)
  with m' d heap_ok_update[OF h m'(2,3)] show ?thesis by blast
qed

text \<open>Adding to the store fails only for a metric of another kind, before anything has changed; otherwise only the new metric is written to.\<close>

lemma add_scan_ok:
  assumes "heap_ok h" and "mid < length (mh_metrics h)" and "\<forall>v \<in> set vs. v \<noteq> mid \<and> v < length (mh_metrics h)"
  shows "\<exists>m' d. add_scan fo now mid i vs (h, dupe) = Inr (h\<lparr>mh_metrics := (mh_metrics h)[mid := m']\<rparr>, d) \<and>
    metric_ok m' \<and> values_ok h m' \<and> same_shape (mh_metrics h ! mid) m'"
  using assms
proof (induction vs arbitrary: h i dupe)
  case Nil
  then show ?case by (auto intro!: exI[of _ "mh_metrics h ! mid"] simp: heap_ok_iff)
next
  case (Cons vid vs)
  let ?v = "mh_metrics h ! vid" and ?m = "mh_metrics h ! mid"
  consider "\<not> replaces ?m ?v" | "replaces ?m ?v" "mm_Keys ?v \<noteq> mm_Keys ?m" | "replaces ?m ?v" "mm_Keys ?v = mm_Keys ?m" by blast
  then show ?case
  proof cases
    case 1
    then show ?thesis using Cons.IH[OF Cons.prems(1,2), of "i + 1" dupe] Cons.prems(3) add_scan_skip[of "[vid]" h mid fo now i vs dupe] by simp
  next
    case 2
    then have "add_scan fo now mid i (vid # vs) (h, dupe) = Inr (h, Some i)" by (auto simp: replaces_def Let_def)
    then show ?thesis using Cons.prems(1,2) by (auto intro!: exI[of _ ?m] simp: heap_ok_iff)
  next
    case 3
    obtain m1 where m1: "foldM (copy_label fo now vid mid) h (mm_LabelValues ?v) = Inr (h\<lparr>mh_metrics := (mh_metrics h)[mid := m1]\<rparr>)"
        "metric_ok m1" "values_ok h m1" "same_shape ?m m1"
      using copy_labels_ok[OF Cons.prems(1), of vid mid "mm_LabelValues ?v" fo now] Cons.prems(2,3) 3(2) by auto
    let ?h = "h\<lparr>mh_metrics := (mh_metrics h)[mid := m1]\<rparr>"
    have "add_scan fo now mid i (vid # vs) (h, dupe) = add_scan fo now mid (i + 1) vs (?h, Some i)"
      using 3 m1(1) by (auto simp: replaces_def Let_def)
    moreover obtain m' d where "add_scan fo now mid (i + 1) vs (?h, Some i) = Inr (?h\<lparr>mh_metrics := (mh_metrics ?h)[mid := m']\<rparr>, d)"
        "metric_ok m'" "values_ok ?h m'" "same_shape (mh_metrics ?h ! mid) m'"
      using Cons.IH[OF heap_ok_update[OF Cons.prems(1) m1(2,3), of mid], of "i + 1" "Some i"] Cons.prems(2,3) by auto
    ultimately show ?thesis using same_shape_trans[OF m1(4)] Cons.prems(2)
      by (intro exI[of _ m'] exI[of _ d]) (simp add: values_ok_def)
  qed
qed

lemma Store_Add_total:
  assumes h: "heap_ok h" "mid < length (mh_metrics h)"
    and s: "\<forall>v \<in> set (concat (map snd s)). v \<noteq> mid \<and> v < length (mh_metrics h)"
  shows "Store_Add fo now mid s h = Inl DifferentKind \<or>
    (\<exists>s' m'. Store_Add fo now mid s h = Inr (s', h\<lparr>mh_metrics := (mh_metrics h)[mid := m']\<rparr>) \<and> metric_ok m' \<and> values_ok h m' \<and>
       same_shape (mh_metrics h ! mid) m' \<and> set (concat (map snd s')) \<subseteq> insert mid (set (concat (map snd s))))"
proof -
  let ?m = "mh_metrics h ! mid"
  define ml where "ml = (case map_of s (mm_Name ?m) of None \<Rightarrow> [] | Some l \<Rightarrow> l)"
  have ml: "set ml \<subseteq> set (concat (map snd s))"
  proof (cases "map_of s (mm_Name ?m)")
    case (Some l)
    then show ?thesis using map_of_SomeD[OF Some] by (force simp: ml_def)
  qed (simp add: ml_def)
  have upd: "set (concat (map snd (AList.update k l s))) \<subseteq> set l \<union> set (concat (map snd s))" for k l
    by (induction s) auto
  obtain m' d where a: "(if length ml > 0 then add_scan fo now mid 0 ml (h, None) else Inr (h, None)) =
      Inr (h\<lparr>mh_metrics := (mh_metrics h)[mid := m']\<rparr>, d)" "metric_ok m'" "values_ok h m'" "same_shape ?m m'"
  proof (cases "length ml > 0")
    case True
    have "\<forall>v \<in> set ml. v \<noteq> mid \<and> v < length (mh_metrics h)" using ml s by blast
    from add_scan_ok[OF h this, of fo now 0 None] True that show ?thesis by (elim exE conjE) simp
  next
    case False
    with h that[of ?m None] show ?thesis by (simp add: heap_ok_iff)
  qed
  show ?thesis
  proof (cases "length ml > 0 \<and> mm_Kind ?m \<noteq> mm_Kind (mh_metrics h ! (ml ! 0))")
    case True
    then show ?thesis by (simp add: Store_Add_def Let_def flip: ml_def)
  next
    case False
    define l where "l = (case d of None \<Rightarrow> ml @ [mid] | Some k \<Rightarrow> take k (ml @ [mid]) @ drop (k + 1) (ml @ [mid]))"
    have "Store_Add fo now mid s h = Inr (AList.update (mm_Name ?m) l s, h\<lparr>mh_metrics := (mh_metrics h)[mid := m']\<rparr>)"
      using False a(1) by (auto simp: Store_Add_def Let_def l_def simp flip: ml_def)
    moreover have "set l \<subseteq> insert mid (set ml)" by (auto simp: l_def split: option.split dest: in_set_takeD in_set_dropD)
    ultimately show ?thesis using a upd[of "mm_Name ?m" l] ml by blast
  qed
qed

text \<open>Natural numbers as floating point, for the examples.\<close>

definition nat_floats :: "nat float_ops" where
  "nat_floats = \<lparr>fo_zero = 0, fo_inf = 1000, fo_lt = (<), fo_le = (\<le>), fo_eq = (=), fo_add = (+), fo_sub = (-), fo_mul = (*),
     fo_div = (div), fo_mod = (mod), fo_pow = (\<lambda>a b. a ^ b), fo_of_int = unat, fo_to_int = of_nat, fo_parse = atoi, fo_formatG = itoa, fo_format_g = itoa\<rparr>"

definition reload_example :: "nat mt_heap" where
  "reload_example = gc_example\<lparr>mh_metrics := mh_metrics gc_example @ [NewMetric ''m'' ''p'' Counter TInt [''k'']]\<rparr>"

theorem Store_Add_keeps_values_witness:
  "\<exists>m'. Store_Add nat_floats 0 1 [(''m'', [0])] reload_example = Inr ([(''m'', [1])], reload_example\<lparr>mh_metrics := (mh_metrics reload_example)[1 := m']\<rparr>) \<and>
     datum_of m' [''b''] = Some 1"
proof -
  let ?h = reload_example
  have ok: "heap_ok ?h"
    by (auto simp: heap_ok_def reload_example_def gc_example_def metric_ok_def NewMetric_def lv_key_def buildLabelValueKey_def ReplaceAll_dash)
  have n: "mm_Name (mh_metrics ?h ! 1) = ''m''" by (simp add: reload_example_def gc_example_def NewMetric_def)
  obtain m' where m': "Store_Add nat_floats 0 1 [(''m'', [0])] ?h = Inr (AList.update ''m'' ([] @ [] @ [1]) [(''m'', [0])], ?h\<lparr>mh_metrics := (mh_metrics ?h)[1 := m']\<rparr>)"
    "datum_of m' = datum_of (mh_metrics ?h ! 1) ++ datum_of (mh_metrics ?h ! 0)"
    using Store_Add_keeps_values[of ?h 1 "[0]" "[(''m'', [0])]" "[]" 0 "[]" nat_floats 0] ok n
    by (auto simp: reload_example_def gc_example_def NewMetric_def replaces_def)
  have "datum_of (mh_metrics ?h ! 0) [''b''] = Some 1"
    by (simp add: datum_of_def FindLabelValueOrNil_def reload_example_def gc_example_def buildLabelValueKey_def ReplaceAll_dash NewMetric_def)
  with m' show ?thesis by auto
qed

subsection \<open>Data are kept apart by their labels\<close>

text \<open>C22: a metric as a map from lists of label values to data. \<open>GetDatum\<close> on as many values as the metric has keys never fails: it returns
  the datum these values have, or gives them a new one at the end of the heap, and no other list of values without
  a backslash is affected. A backslash can make the keys of two lists the same, and they then share a datum.\<close>

theorem GetDatum_separates:
  assumes ok: "metric_ok m" and len: "length labels = length (mm_Keys m)"
  shows "(\<exists>d m' ds'. GetDatum fo now labels m ds = Inr (d, m', ds') \<and> metric_ok m' \<and> datum_of m' labels = Some d \<and>
      (case datum_of m labels of
         Some d0 \<Rightarrow> d = d0 \<and> m' = m \<and> ds' = ds
       | None \<Rightarrow> d = length ds \<and> ds' = ds @ [new_datum fo now m]) \<and>
      (\<forall>other. plain_labels labels \<and> plain_labels other \<and> length other = length labels \<and> other \<noteq> labels \<longrightarrow> datum_of m' other = datum_of m other)) \<and>
    buildLabelValueKey [''x'' @ [CHR 0x5C], ''y-z''] = buildLabelValueKey [''x-y'' @ [CHR 0x5C], ''z'']"
proof (intro conjI)
  show "buildLabelValueKey [''x'' @ [CHR 0x5C], ''y-z''] = buildLabelValueKey [''x-y'' @ [CHR 0x5C], ''z'']"
    by (simp add: buildLabelValueKey_def ReplaceAll_dash)
next
  show "\<exists>d m' ds'. GetDatum fo now labels m ds = Inr (d, m', ds') \<and> metric_ok m' \<and> datum_of m' labels = Some d \<and>
      (case datum_of m labels of Some d0 \<Rightarrow> d = d0 \<and> m' = m \<and> ds' = ds | None \<Rightarrow> d = length ds \<and> ds' = ds @ [new_datum fo now m]) \<and>
      (\<forall>other. plain_labels labels \<and> plain_labels other \<and> length other = length labels \<and> other \<noteq> labels \<longrightarrow> datum_of m' other = datum_of m other)"
  proof (rule GetDatum_cases[OF ok len, of fo now ds])
    fix i assume "FindLabelValueOrNil labels m = Some i" "GetDatum fo now labels m ds = Inr (lv_Value (mm_lvs m ! i), m, ds)"
    then show ?thesis using ok by (intro exI[of _ "lv_Value (mm_lvs m ! i)"] exI[of _ m] exI[of _ ds]) (simp add: datum_of_def)
  next
    fix m' assume m': "FindLabelValueOrNil labels m = None" "metric_ok m'"
      "AppendLabelValue \<lparr>lv_Labels = labels, lv_Value = length ds, lv_Expiry = 0\<rparr> m = Inr m'"
      "GetDatum fo now labels m ds = Inr (length ds, m', ds @ [new_datum fo now m])"
    have kv: "key_view m' = (key_view m)(buildLabelValueKey labels \<mapsto> length ds)" using key_view_Append[OF ok m'(3)] by simp
    have "datum_of m labels = None" using m'(1) by (simp add: datum_of_def)
    moreover have "datum_of m' other = datum_of m other"
      if "plain_labels labels" "plain_labels other" "length other = length labels" "other \<noteq> labels" for other
      using plain_key_inj[OF that(2,1,3)] that(4) by (simp add: datum_of_key kv)
    ultimately show ?thesis using m' kv
      by (intro exI[of _ "length ds"] exI[of _ m'] exI[of _ "ds @ [new_datum fo now m]"]) (simp add: datum_of_key)
  qed
qed

theorem GetDatum_separates_witness:
  "\<exists>d m' ds'. GetDatum nat_floats 7 [''a-b'', ''c''] (NewMetric ''m'' ''p'' Counter TInt [''k'', ''l''] :: nat mt_metric) [] = Inr (d, m', ds') \<and>
     datum_of m' [''a-b'', ''c''] = Some d \<and> datum_of m' [''a'', ''b-c''] = None"
proof -
  let ?m = "NewMetric ''m'' ''p'' Counter TInt [''k'', ''l''] :: nat mt_metric"
  have "length [''a-b'', ''c''] = length (mm_Keys ?m)" by (simp add: NewMetric_def)
  from GetDatum_separates[OF metric_ok_New this, of nat_floats 7 "[]"] obtain d m' ds' where
    g: "GetDatum nat_floats 7 [''a-b'', ''c''] ?m [] = Inr (d, m', ds')" "datum_of m' [''a-b'', ''c''] = Some d"
      "plain_labels [''a-b'', ''c''] \<and> plain_labels [''a'', ''b-c''] \<and> length [''a'', ''b-c''] = length [''a-b'', ''c''] \<and> [''a'', ''b-c''] \<noteq> [''a-b'', ''c''] \<longrightarrow>
        datum_of m' [''a'', ''b-c''] = datum_of ?m [''a'', ''b-c'']"
    by blast
  moreover have "plain_labels [''a-b'', ''c'']" "plain_labels [''a'', ''b-c'']" by (simp_all add: plain_labels_def)
  moreover have "datum_of ?m [''a'', ''b-c''] = None" by (simp add: datum_of_def FindLabelValueOrNil_def NewMetric_def)
  ultimately show ?thesis by auto
qed

subsection \<open>Histograms\<close>

lemma sum_count_bucket:
  assumes "\<exists>b \<in> set bs. fo_le fo v (snd (fst b))"
  shows "sum_list (map snd (count_bucket fo v bs)) = sum_list (map snd bs) + 1" and "map fst (count_bucket fo v bs) = map fst bs"
  using assms by (induction fo v bs rule: count_bucket.induct) (auto simp: algebra_simps)

text \<open>The counts of the buckets add up to the count of the histogram, and the last bucket is unbounded.\<close>

definition buckets_ok :: "'f float_ops \<Rightarrow> 'f datum \<Rightarrow> bool" where
  "buckets_ok fo d \<longleftrightarrow>
     (case dt_Value d of DBuckets bs n s \<Rightarrow> sum_list (map snd bs) = n \<and> (\<exists>b \<in> set bs. snd (fst b) = fo_inf fo) | _ \<Rightarrow> False)"

lemma MakeBuckets_fold:
  assumes "fold_result = foldl (\<lambda>(bs, seenInf, highest) b.
            if fo_eq fo (snd b) (fo_inf fo) then (bs @ [(b, 0)], True, highest)
            else if fo_lt fo highest (snd b) then (bs @ [(b, 0)], seenInf, snd b)
            else (bs @ [(b, 0)], seenInf, highest)) (bs0, seen0, h0) buckets"
    and "sum_list (map snd bs0) = (0 :: 64 word)" and "seen0 \<longrightarrow> (\<exists>b \<in> set bs0. fo_eq fo (snd (fst b)) (fo_inf fo))"
  shows "case fold_result of (bs, seen, h) \<Rightarrow> sum_list (map snd bs) = 0 \<and> (seen \<longrightarrow> (\<exists>b \<in> set bs. fo_eq fo (snd (fst b)) (fo_inf fo)))"
  using assms by (induction buckets arbitrary: bs0 seen0 h0 fold_result) (auto split: if_splits)

text \<open>Histograms. A new histogram is consistent (its bucket counts add up to its count and one bucket is unbounded), and every observation of
  a value that is at most infinity, which is every value but NaN, keeps it so: the value is counted in exactly one bucket,
  also when the 64 bit counters wrap around.\<close>

theorem Observe_consistent:
  assumes eq: "\<And>x. fo_eq fo x (fo_inf fo) \<Longrightarrow> x = fo_inf fo"
  shows "buckets_ok fo (MakeBuckets fo ranges) \<and>
    (\<forall>d v now ts. buckets_ok fo d \<and> fo_le fo v (fo_inf fo) \<longrightarrow>
       (\<exists>d' bs n s. dt_Value d = DBuckets bs n s \<and> Observe fo now v ts d = Inr d' \<and> buckets_ok fo d' \<and>
          dt_Value d' = DBuckets (count_bucket fo v bs) (n + 1) (fo_add fo s v)))"
proof (intro conjI allI impI)
  let ?f = "\<lambda>(bs, seenInf, highest) b.
            if fo_eq fo (snd b) (fo_inf fo) then (bs @ [(b, 0)], True, highest)
            else if fo_lt fo highest (snd b) then (bs @ [(b, 0)], seenInf, snd b)
            else (bs @ [(b, 0 :: 64 word)], seenInf, highest)"
  obtain bs seen hi where r: "foldl ?f ([], False, fo_zero fo) ranges = (bs, seen, hi)" by (cases "foldl ?f ([], False, fo_zero fo) ranges")
  from MakeBuckets_fold[OF r[symmetric]] have "sum_list (map snd bs) = 0" "seen \<longrightarrow> (\<exists>b \<in> set bs. fo_eq fo (snd (fst b)) (fo_inf fo))"
    by auto
  then show "buckets_ok fo (MakeBuckets fo ranges)" unfolding MakeBuckets_def r Let_def
    by (auto simp: buckets_ok_def dest: eq)
next
  fix d :: "'a datum" and v now ts
  assume d: "buckets_ok fo d \<and> fo_le fo v (fo_inf fo)"
  then obtain bs n s where v: "dt_Value d = DBuckets bs n s" "sum_list (map snd bs) = n" "\<exists>b \<in> set bs. snd (fst b) = fo_inf fo"
    by (auto simp: buckets_ok_def split: datum_value.splits)
  then have ex: "\<exists>b \<in> set bs. fo_le fo v (snd (fst b))" using d by force
  note C = sum_count_bucket[where fo = fo and v = v, OF ex]
  let ?d = "set_value now (DBuckets (count_bucket fo v bs) (n + 1) (fo_add fo s v)) ts d"
  have "\<exists>r \<in> set (map fst bs). snd r = fo_inf fo" using v(3) by auto
  then have "\<exists>r \<in> set (map fst (count_bucket fo v bs)). snd r = fo_inf fo" unfolding C(2) .
  then have "buckets_ok fo ?d" using C(1) v(2) by (auto simp: buckets_ok_def set_value_def stamp_def)
  moreover have "dt_Value ?d = DBuckets (count_bucket fo v bs) (n + 1) (fo_add fo s v)" by (simp add: set_value_def stamp_def)
  moreover have "Observe fo now v ts d = Inr ?d" using v(1) by (simp add: Observe_def)
  ultimately show "\<exists>d' bs n s. dt_Value d = DBuckets bs n s \<and> Observe fo now v ts d = Inr d' \<and> buckets_ok fo d' \<and>
          dt_Value d' = DBuckets (count_bucket fo v bs) (n + 1) (fo_add fo s v)" using v(1) by blast
qed

theorem Observe_consistent_witness:
  "\<exists>d. Observe nat_floats 9 4 9 (MakeBuckets nat_floats [(0, 2), (2, 8)]) = Inr d \<and> buckets_ok nat_floats d"
proof -
  have "fo_le nat_floats 4 (fo_inf nat_floats)" "\<And>x. fo_eq nat_floats x (fo_inf nat_floats) \<Longrightarrow> x = fo_inf nat_floats"
    by (simp_all add: nat_floats_def)
  then show ?thesis using Observe_consistent[of nat_floats "[(0, 2), (2, 8)]"] by blast
qed

end
