(* ===== verification/Mtail_VM.thy ===== *)
theory Mtail_VM
  imports Mtail_Metrics Go_Utf8
begin

unbundle bit_operations_syntax

text \<open>
  The virtual machine that runs mtail programs: \<open>src/inputs/mtail/internal/runtime/vm/vm.go\<close> on the code of
  \<open>runtime/code\<close>. A program runs once per log line on a fresh thread; its metrics and the cache of parsed times
  outlive the line. A run-time error and a panic that \<open>execute\<close> recovers both end the line, which is the
  result \<open>None\<close> of an instruction. Regular expressions, floating point, the parsing of times and the cache library
  are parameters.
\<close>

subsection \<open>Code and values\<close>

datatype opcode =
    OBad | OStop | OMatch | OSmatch | OCmp | OJnm | OJm | OJmp | OInc | ODec | OStrptime | OTimestamp | OSettime
  | OPush | OCapref | OStr | OSset | OIset | OIadd | OIsub | OImul | OIdiv | OImod | OIpow | OAnd | OOr | OXor
  | ONeg | ONot | OShl | OShr | OMload | ODload | OIget | OFget | OSget | OTolower | OLength | OCat | OSetmatched
  | OOtherwise | ODel | OExpire | OFadd | OFsub | OFmul | OFdiv | OFmod | OFpow | OFset | OGetfilename | OI2f
  | OS2i | OS2f | OI2s | OF2s | OIcmp | OFcmp | OScmp | OSubst | ORsubst | OIllegal

datatype 'f vm_value =
    VNil
  | VInt64 "64 word"
  | VInt int
  | VFloat 'f
  | VString string
  | VBool bool
  | VTime int
  | VDuration "64 word"
  | VDatum nat
  | VMetric nat

record 'f instr =
  Opcode :: opcode
  Operand :: "'f vm_value"

record ('f, 'r) vm =
  vm_prog :: "'f instr list"
  vm_re :: "'r list"
  vm_str :: "string list"
  vm_Metrics :: "nat list"
  vm_syslogUseCurrentYear :: bool

record logline =
  ll_Filename :: string
  ll_Line :: string

record ('f, 'r, 'c) vm_env =
  en_fo :: "'f float_ops"
  en_now :: int
  en_FindStringSubmatch :: "'r \<Rightarrow> string \<Rightarrow> string list option"
  en_ReplaceAllLiteralString :: "'r \<Rightarrow> string \<Rightarrow> string \<Rightarrow> string"
  en_ToLower :: "string \<Rightarrow> string"
  en_time_Parse :: "string \<Rightarrow> string \<Rightarrow> int option"
  en_Year :: "int \<Rightarrow> int"
  en_AddYears :: "int \<Rightarrow> int \<Rightarrow> int"
  en_memo_Get :: "string \<Rightarrow> 'c \<Rightarrow> (int \<times> 'c) option"
  en_memo_Add :: "string \<Rightarrow> int \<Rightarrow> 'c \<Rightarrow> 'c"

text \<open>The thread, and what outlives it: the heap of metrics, the cache, the flag that ends the line and the number of instructions that failed. The top of the stack is its head.\<close>

record ('f, 'c) vm_state =
  vs_pc :: int
  vs_matched :: bool
  vs_matches :: "int \<Rightarrow> string list"
  vs_time :: int
  vs_stack :: "'f vm_value list"
  vs_heap :: "'f mt_heap"
  vs_memos :: 'c
  vs_terminate :: bool
  vs_errors :: nat

subsection \<open>Steps that can fail\<close>

type_synonym ('f, 'c, 'a) vmm = "('f, 'c) vm_state \<Rightarrow> 'a option \<times> ('f, 'c) vm_state"

definition vret :: "'a \<Rightarrow> ('f, 'c, 'a) vmm" where
  "vret x s = (Some x, s)"

definition vfail :: "('f, 'c, 'a) vmm" where
  "vfail s = (None, s)"

definition vbind :: "('f, 'c, 'a) vmm \<Rightarrow> ('a \<Rightarrow> ('f, 'c, 'b) vmm) \<Rightarrow> ('f, 'c, 'b) vmm" where
  "vbind m f s = (case m s of (None, s') \<Rightarrow> (None, s') | (Some x, s') \<Rightarrow> f x s')"

definition vget :: "(('f, 'c) vm_state \<Rightarrow> 'a) \<Rightarrow> ('f, 'c, 'a) vmm" where
  "vget f s = (Some (f s), s)"

definition vmodify :: "(('f, 'c) vm_state \<Rightarrow> ('f, 'c) vm_state) \<Rightarrow> ('f, 'c, unit) vmm" where
  "vmodify f s = (Some (), f s)"

definition vgo :: "'a go \<Rightarrow> ('f, 'c, 'a) vmm" where
  "vgo r = (case r of Inl _ \<Rightarrow> vfail | Inr x \<Rightarrow> vret x)"

definition voption :: "'a option \<Rightarrow> ('f, 'c, 'a) vmm" where
  "voption r = (case r of None \<Rightarrow> vfail | Some x \<Rightarrow> vret x)"

text \<open>Indexing a slice panics out of range.\<close>

definition at_int :: "'a list \<Rightarrow> int \<Rightarrow> 'a option" where
  "at_int xs i = (if 0 \<le> i \<and> i < int (length xs) then Some (xs ! nat i) else None)"

definition Push :: "'f vm_value \<Rightarrow> ('f, 'c, unit) vmm" where
  "Push v = vmodify (\<lambda>s. s\<lparr>vs_stack := v # vs_stack s\<rparr>)"

definition Pop :: "('f, 'c, 'f vm_value) vmm" where
  "Pop s = (case vs_stack s of [] \<Rightarrow> (None, s) | v # vs \<Rightarrow> (Some v, s\<lparr>vs_stack := vs\<rparr>))"

definition load_datum :: "nat \<Rightarrow> ('f, 'c, 'f datum) vmm" where
  "load_datum d = vget (\<lambda>s. mh_data (vs_heap s) ! d)"

definition store_datum :: "nat \<Rightarrow> 'f datum \<Rightarrow> ('f, 'c, unit) vmm" where
  "store_datum d x = vmodify (\<lambda>s. s\<lparr>vs_heap := (vs_heap s)\<lparr>mh_data := (mh_data (vs_heap s))[d := x]\<rparr>\<rparr>)"

definition time_Unix :: "int \<Rightarrow> 64 word" where
  "time_Unix t = word_of_int (t div 1000000000)"

definition PopInt :: "('f, 'c, 64 word) vmm" where
  "PopInt = vbind Pop (\<lambda>val. case val of
       VInt64 n \<Rightarrow> vret n
     | VInt n \<Rightarrow> vret (word_of_int n)
     | VString n \<Rightarrow> voption (map_option word_of_int (ParseInt n))
     | VTime n \<Rightarrow> vret (time_Unix n)
     | VDatum n \<Rightarrow> vbind (load_datum n) (\<lambda>d. vgo (GetInt d))
     | _ \<Rightarrow> vfail)"

definition PopFloat :: "'f float_ops \<Rightarrow> ('f, 'c, 'f) vmm" where
  "PopFloat fo = vbind Pop (\<lambda>val. case val of
       VFloat n \<Rightarrow> vret n
     | VInt n \<Rightarrow> vret (fo_of_int fo (word_of_int n))
     | VString n \<Rightarrow> voption (fo_parse fo n)
     | VDatum n \<Rightarrow> vbind (load_datum n) (\<lambda>d. vgo (GetFloat d))
     | _ \<Rightarrow> vfail)"

definition PopString :: "'f float_ops \<Rightarrow> ('f, 'c, string) vmm" where
  "PopString fo = vbind Pop (\<lambda>val. case val of
       VString n \<Rightarrow> vret n
     | VFloat n \<Rightarrow> vret (fo_formatG fo n)
     | VInt n \<Rightarrow> vret (FormatInt n)
     | VInt64 n \<Rightarrow> vret (FormatInt (sint n))
     | VDatum n \<Rightarrow> vbind (load_datum n) (\<lambda>d. vgo (GetString d))
     | _ \<Rightarrow> vfail)"

subsection \<open>Comparisons\<close>

definition compare_by :: "bool \<Rightarrow> bool \<Rightarrow> bool \<Rightarrow> int \<Rightarrow> bool option" where
  "compare_by lt eq gt opnd = (if opnd = -1 then Some lt else if opnd = 0 then Some eq else if opnd = 1 then Some gt else None)"

definition compareInt :: "64 word \<Rightarrow> 64 word \<Rightarrow> int \<Rightarrow> bool option" where
  "compareInt a b opnd = compare_by (sint a < sint b) (a = b) (sint b < sint a) opnd"

definition compareFloat :: "'f float_ops \<Rightarrow> 'f \<Rightarrow> 'f \<Rightarrow> int \<Rightarrow> bool option" where
  "compareFloat fo a b opnd = compare_by (fo_lt fo a b) (fo_eq fo a b) (fo_lt fo b a) opnd"

definition compareString :: "string \<Rightarrow> string \<Rightarrow> int \<Rightarrow> bool option" where
  "compareString a b opnd = compare_by (a < b) (a = b) (b < a) opnd"

fun as_int64 :: "'f vm_value \<Rightarrow> (64 word) option" where
  "as_int64 (VInt n) = Some (word_of_int n)"
| "as_int64 (VInt64 n) = Some n"
| "as_int64 _ = None"

text \<open>\<open>compare\<close> for a float or integer on the left. An integer is compared with a text as if it were zero: the code passes the float reading of the left value, which is unset.\<close>

definition compare_float :: "'f float_ops \<Rightarrow> 'f \<Rightarrow> 'f vm_value \<Rightarrow> int \<Rightarrow> bool option" where
  "compare_float fo lxF b opnd =
     (case b of
        VFloat rxF \<Rightarrow> compareFloat fo lxF rxF opnd
      | VString rxS \<Rightarrow> (case fo_parse fo rxS of None \<Rightarrow> None | Some rx \<Rightarrow> compareFloat fo lxF rx opnd)
      | _ \<Rightarrow> (case as_int64 b of Some rxI \<Rightarrow> compareFloat fo lxF (fo_of_int fo rxI) opnd | None \<Rightarrow> None))"

definition compare_int :: "'f float_ops \<Rightarrow> 64 word \<Rightarrow> 'f vm_value \<Rightarrow> int \<Rightarrow> bool option" where
  "compare_int fo lxI b opnd =
     (case b of
        VFloat rxF \<Rightarrow> compareFloat fo (fo_of_int fo lxI) rxF opnd
      | VString rxS \<Rightarrow> (case fo_parse fo rxS of None \<Rightarrow> None | Some rx \<Rightarrow> compareFloat fo (fo_zero fo) rx opnd)
      | _ \<Rightarrow> (case as_int64 b of Some rxI \<Rightarrow> compareInt lxI rxI opnd | None \<Rightarrow> None))"

definition compare :: "'f float_ops \<Rightarrow> 'f vm_value \<Rightarrow> 'f vm_value \<Rightarrow> int \<Rightarrow> bool option" where
  "compare fo a b opnd =
     (case a of
        VFloat lxF \<Rightarrow> compare_float fo lxF b opnd
      | VString lxS \<Rightarrow>
          (case fo_parse fo lxS of
             Some lx \<Rightarrow> compare_float fo lx b opnd
           | None \<Rightarrow>
               (case (case ParseInt lxS of Some lx \<Rightarrow> if - (2 ^ 31) \<le> lx \<and> lx < 2 ^ 31 then Some lx else None | None \<Rightarrow> None) of
                  Some lx \<Rightarrow> compare_int fo (word_of_int lx) b opnd
                | None \<Rightarrow> (case b of VString rxS \<Rightarrow> compareString lxS rxS opnd | _ \<Rightarrow> None)))
      | _ \<Rightarrow> (case as_int64 a of Some lxI \<Rightarrow> compare_int fo lxI b opnd | None \<Rightarrow> None))"

subsection \<open>Instructions\<close>

definition opnd_int :: "'f instr \<Rightarrow> ('f, 'c, int) vmm" where
  "opnd_int i = (case Operand i of VInt n \<Rightarrow> vret n | _ \<Rightarrow> vfail)"

definition set_matches :: "int \<Rightarrow> string list option \<Rightarrow> ('f, 'c, unit) vmm" where
  "set_matches index r =
     vbind (vmodify (\<lambda>s. s\<lparr>vs_matches := (vs_matches s)(index := (case r of None \<Rightarrow> [] | Some ms \<Rightarrow> ms))\<rparr>)) (\<lambda>_. Push (VBool (r \<noteq> None)))"

definition exec_Match :: "('f, 'r, 'c) vm_env \<Rightarrow> ('f, 'r) vm \<Rightarrow> logline \<Rightarrow> 'f instr \<Rightarrow> ('f, 'c, unit) vmm" where
  "exec_Match E v line i =
     vbind (opnd_int i) (\<lambda>index. vbind (voption (at_int (vm_re v) index)) (\<lambda>re. set_matches index (en_FindStringSubmatch E re (ll_Line line))))"

definition exec_Smatch :: "('f, 'r, 'c) vm_env \<Rightarrow> ('f, 'r) vm \<Rightarrow> 'f instr \<Rightarrow> ('f, 'c, unit) vmm" where
  "exec_Smatch E v i =
     vbind (opnd_int i) (\<lambda>index. vbind (PopString (en_fo E)) (\<lambda>line.
       vbind (voption (at_int (vm_re v) index)) (\<lambda>re. set_matches index (en_FindStringSubmatch E re line))))"

definition push_match :: "bool option \<Rightarrow> ('f, 'c, unit) vmm" where
  "push_match r = vbind (voption r) (\<lambda>b. Push (VBool b))"

definition exec_Cmp :: "'f float_ops \<Rightarrow> 'f instr \<Rightarrow> ('f, 'c, unit) vmm" where
  "exec_Cmp fo i = vbind Pop (\<lambda>b. vbind Pop (\<lambda>a. vbind (opnd_int i) (\<lambda>n. push_match (compare fo a b n))))"

definition exec_Icmp :: "'f instr \<Rightarrow> ('f, 'c, unit) vmm" where
  "exec_Icmp i = vbind PopInt (\<lambda>b. vbind PopInt (\<lambda>a. vbind (opnd_int i) (\<lambda>n. push_match (compareInt a b n))))"

text \<open>A left value that is no float is an error after which the code still compares zero and pushes the result; the line ends after the instruction and its stack is dropped, so that only the error remains.\<close>

definition exec_Fcmp :: "'f float_ops \<Rightarrow> 'f instr \<Rightarrow> ('f, 'c, unit) vmm" where
  "exec_Fcmp fo i = vbind (PopFloat fo) (\<lambda>b. vbind (PopFloat fo) (\<lambda>a. vbind (opnd_int i) (\<lambda>n. push_match (compareFloat fo a b n))))"

definition exec_Scmp :: "'f float_ops \<Rightarrow> 'f instr \<Rightarrow> ('f, 'c, unit) vmm" where
  "exec_Scmp fo i = vbind (PopString fo) (\<lambda>b. vbind (PopString fo) (\<lambda>a. vbind (opnd_int i) (\<lambda>n. push_match (compareString a b n))))"

definition jump :: "'f instr \<Rightarrow> ('f, 'c, unit) vmm" where
  "jump i = vbind (opnd_int i) (\<lambda>n. vmodify (\<lambda>s. s\<lparr>vs_pc := n\<rparr>))"

text \<open>A value that is neither a bool nor an \<open>int64\<close> never jumps.\<close>

definition exec_Jnm :: "'f instr \<Rightarrow> ('f, 'c, unit) vmm" where
  "exec_Jnm i = vbind Pop (\<lambda>val. case val of
       VBool match \<Rightarrow> if \<not> match then jump i else vret ()
     | VInt64 match \<Rightarrow> if match = 0 then jump i else vret ()
     | _ \<Rightarrow> vret ())"

definition exec_Jm :: "'f instr \<Rightarrow> ('f, 'c, unit) vmm" where
  "exec_Jm i = vbind Pop (\<lambda>val. case val of
       VBool match \<Rightarrow> if match then jump i else vret ()
     | VInt64 match \<Rightarrow> if match \<noteq> 0 then jump i else vret ()
     | _ \<Rightarrow> vret ())"

definition pop_datum :: "('f, 'c, nat) vmm" where
  "pop_datum = vbind Pop (\<lambda>val. case val of VDatum n \<Rightarrow> vret n | _ \<Rightarrow> vfail)"

text \<open>Updates the datum on the stack with a function that sees its value and the time register.\<close>

definition update_datum :: "(int \<Rightarrow> 'f datum \<Rightarrow> 'f datum go) \<Rightarrow> ('f, 'c, nat) vmm" where
  "update_datum f =
     vbind pop_datum (\<lambda>n. vbind (vget vs_time) (\<lambda>ts. vbind (load_datum n) (\<lambda>d. vbind (vgo (f ts d)) (\<lambda>d'.
       vbind (store_datum n d') (\<lambda>_. vret n)))))"

definition push_int_of :: "nat \<Rightarrow> ('f, 'c, unit) vmm" where
  "push_int_of n = vbind (load_datum n) (\<lambda>d. vbind (vgo (GetInt d)) (\<lambda>w. Push (VInt64 w)))"

definition pop_delta :: "'f instr \<Rightarrow> ('f, 'c, 64 word) vmm" where
  "pop_delta i = (case Operand i of VNil \<Rightarrow> vret 1 | _ \<Rightarrow> PopInt)"

definition exec_Inc :: "int \<Rightarrow> 'f instr \<Rightarrow> ('f, 'c, unit) vmm" where
  "exec_Inc now i = vbind (pop_delta i) (\<lambda>delta. vbind (update_datum (IncIntBy now delta)) push_int_of)"

definition exec_Dec :: "int \<Rightarrow> 'f instr \<Rightarrow> ('f, 'c, unit) vmm" where
  "exec_Dec now i = vbind (pop_delta i) (\<lambda>delta. vbind (update_datum (DecIntBy now delta)) push_int_of)"

definition exec_Iset :: "'f float_ops \<Rightarrow> int \<Rightarrow> ('f, 'c, unit) vmm" where
  "exec_Iset fo now = vbind PopInt (\<lambda>w. vbind (update_datum (SetInt fo now w)) (\<lambda>_. vret ()))"

definition exec_Fset :: "'f float_ops \<Rightarrow> int \<Rightarrow> ('f, 'c, unit) vmm" where
  "exec_Fset fo now = vbind (PopFloat fo) (\<lambda>w. vbind (update_datum (SetFloat fo now w)) (\<lambda>_. vret ()))"

definition exec_Sset :: "'f float_ops \<Rightarrow> int \<Rightarrow> ('f, 'c, unit) vmm" where
  "exec_Sset fo now = vbind (PopString fo) (\<lambda>w. vbind (update_datum (SetString now w)) (\<lambda>_. vret ()))"

text \<open>The time that is parsed; a failure is a run-time error and yields the zero time. \<open>en_time_Parse\<close> knows the location.\<close>

definition ParseTime :: "('f, 'r, 'c) vm_env \<Rightarrow> ('f, 'r) vm \<Rightarrow> string \<Rightarrow> string \<Rightarrow> int option" where
  "ParseTime E v layout text =
     (case en_time_Parse E layout text of
        None \<Rightarrow> None
      | Some tm \<Rightarrow> Some (if en_Year E tm = 0 \<and> vm_syslogUseCurrentYear v then en_AddYears E tm (en_Year E (en_now E)) else tm))"

definition pop_time_text :: "('f, 'c, string) vmm" where
  "pop_time_text = vbind Pop (\<lambda>val. case val of
       VString s \<Rightarrow> vret s
     | VInt s \<Rightarrow>
         vbind PopInt (\<lambda>re. if sint re < 0 \<or> sint re \<ge> 2 ^ 31 - 1 then vfail
           else vbind (vget vs_matches) (\<lambda>ms. voption (at_int (ms (sint re)) s)))
     | _ \<Rightarrow> vret [])"

text \<open>The result of a parse is remembered under the text alone, also when it failed.\<close>

definition exec_Strptime :: "('f, 'r, 'c) vm_env \<Rightarrow> ('f, 'r) vm \<Rightarrow> ('f, 'c, unit) vmm" where
  "exec_Strptime E v =
     vbind (PopString (en_fo E)) (\<lambda>layout. vbind pop_time_text (\<lambda>ts. vbind (vget vs_memos) (\<lambda>memos.
       case en_memo_Get E ts memos of
         Some (tm, memos') \<Rightarrow> vmodify (\<lambda>s. s\<lparr>vs_time := tm, vs_memos := memos'\<rparr>)
       | None \<Rightarrow>
           (let r = ParseTime E v layout ts; tm = (case r of None \<Rightarrow> zeroTime | Some t \<Rightarrow> t) in
            vbind (vmodify (\<lambda>s. s\<lparr>vs_time := tm, vs_memos := en_memo_Add E ts tm memos\<rparr>)) (\<lambda>_. if r = None then vfail else vret ())))))"

definition exec_Timestamp :: "int \<Rightarrow> ('f, 'c, unit) vmm" where
  "exec_Timestamp now = vbind (vget vs_time) (\<lambda>t. if t = zeroTime then Push (VInt64 (time_Unix now)) else Push (VInt64 (time_Unix t)))"

definition exec_Settime :: "('f, 'c, unit) vmm" where
  "exec_Settime = vbind Pop (\<lambda>val. case val of VInt64 ts \<Rightarrow> vmodify (\<lambda>s. s\<lparr>vs_time := sint ts * 1000000000\<rparr>) | _ \<Rightarrow> vfail)"

definition exec_Capref :: "'f instr \<Rightarrow> ('f, 'c, unit) vmm" where
  "exec_Capref i = vbind Pop (\<lambda>val. case val of
       VInt re \<Rightarrow>
         vbind (opnd_int i) (\<lambda>op. vbind (vget vs_matches) (\<lambda>ms.
           if int (length (ms re)) \<le> op then vfail else vbind (voption (at_int (ms re) op)) (\<lambda>s. Push (VString s))))
     | _ \<Rightarrow> vfail)"

definition exec_float_op :: "'f float_ops \<Rightarrow> opcode \<Rightarrow> ('f, 'c, unit) vmm" where
  "exec_float_op fo op =
     vbind (PopFloat fo) (\<lambda>b. vbind (PopFloat fo) (\<lambda>a.
       Push (VFloat
         (case op of
            OFadd \<Rightarrow> fo_add fo a b | OFsub \<Rightarrow> fo_sub fo a b | OFmul \<Rightarrow> fo_mul fo a b
          | OFdiv \<Rightarrow> fo_div fo a b | OFmod \<Rightarrow> fo_mod fo a b | _ \<Rightarrow> fo_pow fo a b))))"

definition shift_ok :: "64 word \<Rightarrow> bool" where
  "shift_ok b \<longleftrightarrow> \<not> (sint b < 0 \<or> sint b \<ge> 2 ^ 31 - 1)"

text \<open>\<open>None\<close> is a run-time error: a division by zero or a shift count out of range.\<close>

definition int_op :: "'f float_ops \<Rightarrow> opcode \<Rightarrow> 64 word \<Rightarrow> 64 word \<Rightarrow> (64 word) option" where
  "int_op fo op a b =
     (case op of
        OIadd \<Rightarrow> Some (a + b)
      | OIsub \<Rightarrow> Some (a - b)
      | OImul \<Rightarrow> Some (a * b)
      | OIdiv \<Rightarrow> if b = 0 then None else Some (word_of_int (go_div (sint a) (sint b)))
      | OImod \<Rightarrow> if b = 0 then None else Some (word_of_int (go_mod (sint a) (sint b)))
      | OIpow \<Rightarrow> Some (fo_to_int fo (fo_pow fo (fo_of_int fo a) (fo_of_int fo b)))
      | OShl \<Rightarrow> if shift_ok b then Some (push_bit (unat b) a) else None
      | OShr \<Rightarrow> if shift_ok b then Some (signed_drop_bit (unat b) a) else None
      | OAnd \<Rightarrow> Some (a AND b)
      | OOr \<Rightarrow> Some (a OR b)
      | _ \<Rightarrow> Some (a XOR b))"

definition exec_int_op :: "'f float_ops \<Rightarrow> opcode \<Rightarrow> ('f, 'c, unit) vmm" where
  "exec_int_op fo op = vbind PopInt (\<lambda>b. vbind PopInt (\<lambda>a. vbind (voption (int_op fo op a b)) (\<lambda>w. Push (VInt64 w))))"

subsection \<open>Instructions on metrics\<close>

fun pop_strings :: "'f float_ops \<Rightarrow> nat \<Rightarrow> ('f, 'c, string list) vmm" where
  "pop_strings fo 0 = vret []"
| "pop_strings fo (Suc n) = vbind (PopString fo) (\<lambda>x. vbind (pop_strings fo n) (\<lambda>xs. vret (xs @ [x])))"

definition pop_metric_keys :: "'f float_ops \<Rightarrow> 'f instr \<Rightarrow> ('f, 'c, nat \<times> string list) vmm" where
  "pop_metric_keys fo i =
     vbind Pop (\<lambda>val. case val of
         VMetric m \<Rightarrow>
           vbind (opnd_int i) (\<lambda>n. if n < 0 then vfail
             else vbind (pop_strings fo (nat n)) (\<lambda>keys. vret (m, keys)))
       | _ \<Rightarrow> vfail)"

definition load_metric :: "nat \<Rightarrow> ('f, 'c, 'f mt_metric) vmm" where
  "load_metric m = vget (\<lambda>s. mh_metrics (vs_heap s) ! m)"

definition store_metric :: "nat \<Rightarrow> 'f mt_metric \<Rightarrow> ('f, 'c, unit) vmm" where
  "store_metric m x = vmodify (\<lambda>s. s\<lparr>vs_heap := (vs_heap s)\<lparr>mh_metrics := (mh_metrics (vs_heap s))[m := x]\<rparr>\<rparr>)"

definition verr :: "'e + 'a \<Rightarrow> ('f, 'c, 'a) vmm" where
  "verr r = (case r of Inl _ \<Rightarrow> vfail | Inr x \<Rightarrow> vret x)"

definition exec_Dload :: "('f, 'r, 'c) vm_env \<Rightarrow> 'f instr \<Rightarrow> ('f, 'c, unit) vmm" where
  "exec_Dload E i =
     vbind (pop_metric_keys (en_fo E) i) (\<lambda>(m, keys). vbind (load_metric m) (\<lambda>mt. vbind (vget (\<lambda>s. mh_data (vs_heap s))) (\<lambda>ds.
       vbind (verr (GetDatum (en_fo E) (en_now E) keys mt ds)) (\<lambda>(d, mt', ds').
         vbind (vmodify (\<lambda>s. s\<lparr>vs_heap := \<lparr>mh_data = ds', mh_metrics = (mh_metrics (vs_heap s))[m := mt']\<rparr>\<rparr>)) (\<lambda>_. Push (VDatum d))))))"

definition exec_Del :: "'f float_ops \<Rightarrow> 'f instr \<Rightarrow> ('f, 'c, unit) vmm" where
  "exec_Del fo i =
     vbind (pop_metric_keys fo i) (\<lambda>(m, keys). vbind (load_metric m) (\<lambda>mt. vbind (verr (RemoveDatum keys mt)) (store_metric m)))"

definition exec_Expire :: "'f float_ops \<Rightarrow> 'f instr \<Rightarrow> ('f, 'c, unit) vmm" where
  "exec_Expire fo i =
     vbind (pop_metric_keys fo i) (\<lambda>(m, keys). vbind Pop (\<lambda>val. case val of
         VDuration expiry \<Rightarrow> vbind (load_metric m) (\<lambda>mt. vbind (verr (ExpireDatum expiry keys mt)) (store_metric m))
       | _ \<Rightarrow> vfail))"

definition exec_get :: "opcode \<Rightarrow> ('f, 'c, unit) vmm" where
  "exec_get op =
     vbind pop_datum (\<lambda>n. vbind (load_datum n) (\<lambda>d.
       case op of
         OIget \<Rightarrow> vbind (vgo (GetInt d)) (\<lambda>w. Push (VInt64 w))
       | OFget \<Rightarrow> vbind (vgo (GetFloat d)) (\<lambda>w. Push (VFloat w))
       | _ \<Rightarrow> vbind (vgo (GetString d)) (\<lambda>w. Push (VString w))))"

subsection \<open>Instructions on texts\<close>

definition digit_value :: "char \<Rightarrow> nat option" where
  "digit_value c =
     (let b = byte c in
      if 48 \<le> b \<and> b \<le> 57 then Some (b - 48)
      else if 97 \<le> b \<and> b \<le> 122 then Some (b - 87)
      else if 65 \<le> b \<and> b \<le> 90 then Some (b - 55)
      else None)"

fun parse_digits :: "nat \<Rightarrow> nat \<Rightarrow> string \<Rightarrow> nat option" where
  "parse_digits base n [] = Some n"
| "parse_digits base n (c # cs) =
     (case digit_value c of None \<Rightarrow> None | Some d \<Rightarrow> if d < base then parse_digits base (n * base + d) cs else None)"

text \<open>\<open>strconv.ParseInt(s, base, 64)\<close> for a positive base.\<close>

definition ParseInt_base :: "nat \<Rightarrow> string \<Rightarrow> int option" where
  "ParseInt_base base s =
     (let (neg, ds) = (case s of [] \<Rightarrow> (False, []) | c # cs \<Rightarrow> if c = CHR ''-'' then (True, cs) else if c = CHR ''+'' then (False, cs) else (False, s)) in
      if ds = [] \<or> base < 2 \<or> base > 36 then None
      else
        (case parse_digits base 0 ds of
           None \<Rightarrow> None
         | Some n \<Rightarrow> (let z = (if neg then - int n else int n) in if in_int64 z then Some z else None)))"

definition exec_S2i :: "'f float_ops \<Rightarrow> 'f instr \<Rightarrow> ('f, 'c, unit) vmm" where
  "exec_S2i fo i =
     vbind (case Operand i of
              VNil \<Rightarrow> vret 10
            | _ \<Rightarrow> vbind PopInt (\<lambda>val. if sint val \<le> 0 \<or> sint val \<ge> 2 ^ 31 - 1 then vfail else vret (unat val)))
       (\<lambda>base. vbind (PopString fo) (\<lambda>str. vbind (voption (ParseInt_base base str)) (\<lambda>z. Push (VInt64 (word_of_int z)))))"

text \<open>\<open>strings.ReplaceAll\<close>: an empty text occurs before every rune and at the end.\<close>

function replace_empty :: "string \<Rightarrow> string \<Rightarrow> string" where
  "replace_empty new s =
     (if s = [] then new
      else new @ take (snd (DecodeRune s)) s @ replace_empty new (drop (snd (DecodeRune s)) s))"
  by pat_completeness auto
termination
  by (relation "measure (\<lambda>(new, s). length s)") (use DecodeRune_width in \<open>fastforce+\<close>)

declare replace_empty.simps [simp del]

definition strings_ReplaceAll :: "string \<Rightarrow> string \<Rightarrow> string \<Rightarrow> string" where
  "strings_ReplaceAll s old new = (if old = [] then replace_empty new s else ReplaceAll old new s)"

definition exec_Cat :: "'f float_ops \<Rightarrow> ('f, 'c, unit) vmm" where
  "exec_Cat fo = vbind (PopString fo) (\<lambda>b. vbind (PopString fo) (\<lambda>a. Push (VString (a @ b))))"

definition exec_Subst :: "'f float_ops \<Rightarrow> ('f, 'c, unit) vmm" where
  "exec_Subst fo =
     vbind (PopString fo) (\<lambda>val. vbind (PopString fo) (\<lambda>repl. vbind (PopString fo) (\<lambda>old. Push (VString (strings_ReplaceAll val old repl)))))"

definition exec_Rsubst :: "('f, 'r, 'c) vm_env \<Rightarrow> ('f, 'r) vm \<Rightarrow> ('f, 'c, unit) vmm" where
  "exec_Rsubst E v =
     vbind PopInt (\<lambda>pat. vbind (PopString (en_fo E)) (\<lambda>val. vbind (PopString (en_fo E)) (\<lambda>repl.
       vbind (voption (at_int (vm_re v) (sint pat))) (\<lambda>re. Push (VString (en_ReplaceAllLiteralString E re val repl))))))"

subsection \<open>The fetch-execute cycle\<close>

definition exec_instr :: "('f, 'r, 'c) vm_env \<Rightarrow> ('f, 'r) vm \<Rightarrow> logline \<Rightarrow> 'f instr \<Rightarrow> ('f, 'c, unit) vmm" where
  "exec_instr E v line i =
     (let fo = en_fo E; now = en_now E in
      case Opcode i of
        OBad \<Rightarrow> vfail
      | OStop \<Rightarrow> vmodify (\<lambda>s. s\<lparr>vs_terminate := True\<rparr>)
      | OMatch \<Rightarrow> exec_Match E v line i
      | OSmatch \<Rightarrow> exec_Smatch E v i
      | OCmp \<Rightarrow> exec_Cmp fo i
      | OIcmp \<Rightarrow> exec_Icmp i
      | OFcmp \<Rightarrow> exec_Fcmp fo i
      | OScmp \<Rightarrow> exec_Scmp fo i
      | OJnm \<Rightarrow> exec_Jnm i
      | OJm \<Rightarrow> exec_Jm i
      | OJmp \<Rightarrow> jump i
      | OInc \<Rightarrow> exec_Inc now i
      | ODec \<Rightarrow> exec_Dec now i
      | OIset \<Rightarrow> exec_Iset fo now
      | OFset \<Rightarrow> exec_Fset fo now
      | OSset \<Rightarrow> exec_Sset fo now
      | OStrptime \<Rightarrow> exec_Strptime E v
      | OTimestamp \<Rightarrow> exec_Timestamp now
      | OSettime \<Rightarrow> exec_Settime
      | OCapref \<Rightarrow> exec_Capref i
      | OStr \<Rightarrow> vbind (opnd_int i) (\<lambda>n. vbind (voption (at_int (vm_str v) n)) (\<lambda>x. Push (VString x)))
      | OPush \<Rightarrow> Push (Operand i)
      | OFadd \<Rightarrow> exec_float_op fo OFadd
      | OFsub \<Rightarrow> exec_float_op fo OFsub
      | OFmul \<Rightarrow> exec_float_op fo OFmul
      | OFdiv \<Rightarrow> exec_float_op fo OFdiv
      | OFmod \<Rightarrow> exec_float_op fo OFmod
      | OFpow \<Rightarrow> exec_float_op fo OFpow
      | OIadd \<Rightarrow> exec_int_op fo OIadd
      | OIsub \<Rightarrow> exec_int_op fo OIsub
      | OImul \<Rightarrow> exec_int_op fo OImul
      | OIdiv \<Rightarrow> exec_int_op fo OIdiv
      | OImod \<Rightarrow> exec_int_op fo OImod
      | OIpow \<Rightarrow> exec_int_op fo OIpow
      | OShl \<Rightarrow> exec_int_op fo OShl
      | OShr \<Rightarrow> exec_int_op fo OShr
      | OAnd \<Rightarrow> exec_int_op fo OAnd
      | OOr \<Rightarrow> exec_int_op fo OOr
      | OXor \<Rightarrow> exec_int_op fo OXor
      | ONeg \<Rightarrow> vbind PopInt (\<lambda>a. Push (VInt64 (NOT a)))
      | ONot \<Rightarrow> vbind Pop (\<lambda>val. case val of VBool a \<Rightarrow> Push (VBool (\<not> a)) | _ \<Rightarrow> vfail)
      | OMload \<Rightarrow> vbind (opnd_int i) (\<lambda>n. vbind (voption (at_int (vm_Metrics v) n)) (\<lambda>m. Push (VMetric m)))
      | ODload \<Rightarrow> exec_Dload E i
      | OIget \<Rightarrow> exec_get OIget
      | OFget \<Rightarrow> exec_get OFget
      | OSget \<Rightarrow> exec_get OSget
      | ODel \<Rightarrow> exec_Del fo i
      | OExpire \<Rightarrow> exec_Expire fo i
      | OTolower \<Rightarrow> vbind (PopString fo) (\<lambda>x. Push (VString (en_ToLower E x)))
      | OLength \<Rightarrow> vbind (PopString fo) (\<lambda>x. Push (VInt (int (length x))))
      | OS2i \<Rightarrow> exec_S2i fo i
      | OS2f \<Rightarrow> vbind (PopString fo) (\<lambda>x. vbind (voption (fo_parse fo x)) (\<lambda>f. Push (VFloat f)))
      | OI2f \<Rightarrow> vbind PopInt (\<lambda>w. Push (VFloat (fo_of_int fo w)))
      | OI2s \<Rightarrow> vbind PopInt (\<lambda>w. Push (VString (FormatInt (sint w))))
      | OF2s \<Rightarrow> vbind (PopFloat fo) (\<lambda>f. Push (VString (fo_format_g fo f)))
      | OSetmatched \<Rightarrow> (case Operand i of VBool b \<Rightarrow> vmodify (\<lambda>s. s\<lparr>vs_matched := b\<rparr>) | _ \<Rightarrow> vfail)
      | OOtherwise \<Rightarrow> vbind (vget vs_matched) (\<lambda>b. Push (VBool (\<not> b)))
      | OGetfilename \<Rightarrow> Push (VString (ll_Filename line))
      | OCat \<Rightarrow> exec_Cat fo
      | OSubst \<Rightarrow> exec_Subst fo
      | ORsubst \<Rightarrow> exec_Rsubst E v
      | OIllegal \<Rightarrow> vfail)"

definition execute :: "('f, 'r, 'c) vm_env \<Rightarrow> ('f, 'r) vm \<Rightarrow> logline \<Rightarrow> 'f instr \<Rightarrow> ('f, 'c) vm_state \<Rightarrow> ('f, 'c) vm_state" where
  "execute E v line i s =
     (case exec_instr E v line i s of
        (Some _, s') \<Rightarrow> s'
      | (None, s') \<Rightarrow> s'\<lparr>vs_terminate := True, vs_errors := vs_errors s' + 1\<rparr>)"

text \<open>The loop of a line; \<open>None\<close> is a line that never ends, \<open>Inl\<close> a panic outside \<open>execute\<close>.\<close>

partial_function (option) vm_loop :: "('f, 'r, 'c) vm_env \<Rightarrow> ('f, 'r) vm \<Rightarrow> logline \<Rightarrow> ('f, 'c) vm_state \<Rightarrow> (go_panic + ('f, 'c) vm_state) option" where
  "vm_loop E v line s =
     (if vs_pc s \<ge> int (length (vm_prog v)) then Some (Inr s)
      else if vs_pc s < 0 then Some (Inl IndexOutOfRange)
      else
        (let s' = execute E v line (vm_prog v ! nat (vs_pc s)) (s\<lparr>vs_pc := vs_pc s + 1\<rparr>) in
         if vs_terminate s' then Some (Inr (s'\<lparr>vs_terminate := False\<rparr>)) else vm_loop E v line s'))"

declare vm_loop.simps [code]

definition new_thread :: "('f, 'c) vm_state \<Rightarrow> ('f, 'c) vm_state" where
  "new_thread s = s\<lparr>vs_pc := 0, vs_matched := False, vs_matches := (\<lambda>_. []), vs_time := zeroTime, vs_stack := []\<rparr>"

definition ProcessLogLine :: "('f, 'r, 'c) vm_env \<Rightarrow> ('f, 'r) vm \<Rightarrow> logline \<Rightarrow> ('f, 'c) vm_state \<Rightarrow> (go_panic + ('f, 'c) vm_state) option" where
  "ProcessLogLine E v line s = vm_loop E v line (new_thread s)"

text \<open>\<open>Run\<close>: the lines of the channel, one after the other, each with the time at which it is processed (the clock stands still during a line).\<close>

fun vm_Run :: "('f, 'r, 'c) vm_env \<Rightarrow> ('f, 'r) vm \<Rightarrow> (int \<times> logline) list \<Rightarrow> ('f, 'c) vm_state \<Rightarrow> (go_panic + ('f, 'c) vm_state) option" where
  "vm_Run E v [] s = Some (Inr s)"
| "vm_Run E v ((now, l) # ls) s =
     (case ProcessLogLine (E\<lparr>en_now := now\<rparr>) v l s of None \<Rightarrow> None | Some (Inl p) \<Rightarrow> Some (Inl p) | Some (Inr s') \<Rightarrow> vm_Run E v ls s')"

subsection \<open>Where an instruction can go\<close>

definition pc_frame :: "('f, 'c, 'a) vmm \<Rightarrow> bool" where
  "pc_frame m \<longleftrightarrow> (\<forall>s. vs_pc (snd (m s)) = vs_pc s)"

named_theorems vm_frame \<open>instructions that leave the program counter alone\<close>

lemma pc_frame_vbind [vm_frame]:
  assumes "pc_frame m" and "\<And>x. pc_frame (f x)"
  shows "pc_frame (vbind m f)"
  unfolding pc_frame_def
proof
  fix s
  obtain r s' where r: "m s = (r, s')" by fastforce
  then have "vs_pc s' = vs_pc s" using assms(1) by (metis pc_frame_def snd_conv)
  then show "vs_pc (snd (vbind m f s)) = vs_pc s" using assms(2) r by (simp add: vbind_def pc_frame_def split: option.split)
qed

lemma pc_frame_basic [vm_frame]:
  "pc_frame (vret x)" "pc_frame vfail" "pc_frame (vget f)" "pc_frame Pop" "pc_frame (Push v)"
  "pc_frame (voption r)" "pc_frame (vgo g)" "pc_frame (verr e)" "pc_frame (load_datum d)" "pc_frame (store_datum d x')"
  "pc_frame (load_metric m)" "pc_frame (store_metric m mt)" "pc_frame (opnd_int i)"
  by (auto simp: pc_frame_def vret_def vfail_def vget_def Pop_def Push_def vmodify_def voption_def vgo_def verr_def load_datum_def store_datum_def
      load_metric_def store_metric_def opnd_int_def split: option.split sum.split list.split vm_value.split)

lemma pc_frame_vmodify [vm_frame]: "(\<And>s. vs_pc (f s) = vs_pc s) \<Longrightarrow> pc_frame (vmodify f)"
  by (simp add: pc_frame_def vmodify_def)

lemma pc_frame_pops [vm_frame]:
  "pc_frame PopInt" "pc_frame (PopFloat fo)" "pc_frame (PopString fo)" "pc_frame pop_datum" "pc_frame (set_matches k r)" "pc_frame (push_match b)"
  "pc_frame (pop_delta i)" "pc_frame (push_int_of n)" "pc_frame (update_datum g)" "pc_frame pop_time_text"
  by (auto simp: PopInt_def PopFloat_def PopString_def pop_datum_def set_matches_def push_match_def pop_delta_def push_int_of_def update_datum_def pop_time_text_def
      intro!: vm_frame split: vm_value.split)

lemma pc_frame_strings [vm_frame]: "pc_frame (pop_strings fo n)" "pc_frame (pop_metric_keys fo i)"
proof -
  show "pc_frame (pop_strings fo n)" for n by (induction n) (auto intro!: vm_frame)
  then show "pc_frame (pop_metric_keys fo i)" by (auto simp: pop_metric_keys_def intro!: vm_frame split: vm_value.split)
qed

lemma pc_frame_exec [vm_frame]:
  "pc_frame (exec_Match E v line i)" "pc_frame (exec_Smatch E v i)" "pc_frame (exec_Cmp fo i)" "pc_frame (exec_Icmp i)" "pc_frame (exec_Fcmp fo i)"
  "pc_frame (exec_Scmp fo i)" "pc_frame (exec_Inc now i)" "pc_frame (exec_Dec now i)" "pc_frame (exec_Iset fo now)" "pc_frame (exec_Fset fo now)"
  "pc_frame (exec_Sset fo now)" "pc_frame (exec_Strptime E v)" "pc_frame (exec_Timestamp now)" "pc_frame exec_Settime" "pc_frame (exec_Capref i)"
  "pc_frame (exec_float_op fo op)" "pc_frame (exec_int_op fo op)" "pc_frame (exec_Dload E i)" "pc_frame (exec_Del fo i)" "pc_frame (exec_Expire fo i)"
  "pc_frame (exec_get op)" "pc_frame (exec_S2i fo i)" "pc_frame (exec_Cat fo)" "pc_frame (exec_Subst fo)" "pc_frame (exec_Rsubst E v)"
  by (auto simp: exec_Match_def exec_Smatch_def exec_Cmp_def exec_Icmp_def exec_Fcmp_def exec_Scmp_def exec_Inc_def exec_Dec_def exec_Iset_def exec_Fset_def
      exec_Sset_def exec_Strptime_def exec_Timestamp_def exec_Settime_def exec_Capref_def exec_float_op_def exec_int_op_def exec_Dload_def exec_Del_def
      exec_Expire_def exec_get_def exec_S2i_def exec_Cat_def exec_Subst_def exec_Rsubst_def Let_def
      intro!: vm_frame split: vm_value.split option.split opcode.split)

definition is_jump :: "'f instr \<Rightarrow> bool" where
  "is_jump i \<longleftrightarrow> Opcode i \<in> {OJmp, OJm, OJnm}"

lemma pc_frame_instr:
  assumes "\<not> is_jump i"
  shows "pc_frame (exec_instr E v line i)"
  using assms unfolding exec_instr_def Let_def is_jump_def
  by (cases "Opcode i") (auto intro!: vm_frame split: vm_value.split)

lemma jump_pc: "vs_pc (snd (jump i s)) = vs_pc s \<or> Operand i = VInt (vs_pc (snd (jump i s)))"
  by (auto simp: jump_def opnd_int_def vbind_def vret_def vfail_def vmodify_def split: vm_value.split)

lemma jump_instr_pc:
  assumes "is_jump i"
  shows "vs_pc (snd (exec_instr E v line i s)) = vs_pc s \<or> Operand i = VInt (vs_pc (snd (exec_instr E v line i s)))"
proof -
  have P: "vs_pc (snd (vbind Pop (\<lambda>x. if b x then jump i else vret ()) s)) = vs_pc s \<or>
      Operand i = VInt (vs_pc (snd (vbind Pop (\<lambda>x. if b x then jump i else vret ()) s)))" for b
  proof (cases "vs_stack s")
    case (Cons x xs)
    then show ?thesis using jump_pc[of i "s\<lparr>vs_stack := xs\<rparr>"] by (auto simp: vbind_def Pop_def vret_def)
  qed (simp add: vbind_def Pop_def)
  have e: "exec_Jnm i = vbind Pop (\<lambda>x. if (case x of VBool m \<Rightarrow> \<not> m | VInt64 m \<Rightarrow> m = 0 | _ \<Rightarrow> False) then jump i else vret ())"
    "exec_Jm i = vbind Pop (\<lambda>x. if (case x of VBool m \<Rightarrow> m | VInt64 m \<Rightarrow> m \<noteq> 0 | _ \<Rightarrow> False) then jump i else vret ())"
    unfolding exec_Jnm_def exec_Jm_def by (rule arg_cong[where f = "vbind Pop"], rule ext, simp split: vm_value.split)+
  have "vs_pc (snd (exec_Jnm i s)) = vs_pc s \<or> Operand i = VInt (vs_pc (snd (exec_Jnm i s)))"
    "vs_pc (snd (exec_Jm i s)) = vs_pc s \<or> Operand i = VInt (vs_pc (snd (exec_Jm i s)))"
    unfolding e by (rule P)+
  then show ?thesis using assms jump_pc[of i s] by (cases "Opcode i") (simp_all add: is_jump_def exec_instr_def Let_def)
qed

lemma execute_pc: "vs_pc (execute E v line i s) = vs_pc s \<or> (is_jump i \<and> Operand i = VInt (vs_pc (execute E v line i s)))"
proof -
  have "vs_pc (execute E v line i s) = vs_pc (snd (exec_instr E v line i s))"
    by (cases "exec_instr E v line i s") (simp add: execute_def split: option.split)
  then show ?thesis using pc_frame_instr[of i E v line] jump_instr_pc[of i E v line s] by (auto simp: pc_frame_def)
qed

text \<open>Every jump goes forward and at most to the end.\<close>

definition forward_jumps :: "'f instr list \<Rightarrow> bool" where
  "forward_jumps prog \<longleftrightarrow>
     (\<forall>j < length prog. is_jump (prog ! j) \<longrightarrow> (\<exists>n. Operand (prog ! j) = VInt n \<and> int j < n \<and> n \<le> int (length prog)))"

subsection \<open>The heap under a program\<close>

fun value_ok :: "nat \<Rightarrow> nat \<Rightarrow> 'f vm_value \<Rightarrow> bool" where
  "value_ok nd nm (VDatum d) \<longleftrightarrow> d < nd"
| "value_ok nd nm (VMetric m) \<longleftrightarrow> m < nm"
| "value_ok nd nm _ \<longleftrightarrow> True"

definition no_address :: "'f vm_value \<Rightarrow> bool" where
  "no_address x \<longleftrightarrow> (\<forall>n. x \<noteq> VDatum n \<and> x \<noteq> VMetric n)"

lemma value_ok_no_address: "no_address x \<Longrightarrow> value_ok nd nm x"
  by (cases x) (auto simp: no_address_def)

lemma value_ok_mono: "value_ok nd nm x \<Longrightarrow> nd \<le> nd' \<Longrightarrow> value_ok nd' nm x"
  by (cases x) auto

text \<open>The metrics are consistent, and the addresses on the stack exist. \<open>nm\<close> is the number of metrics on the heap.\<close>

definition vm_inv :: "nat \<Rightarrow> ('f, 'c) vm_state \<Rightarrow> bool" where
  "vm_inv nm s \<longleftrightarrow> heap_ok (vs_heap s) \<and> length (mh_metrics (vs_heap s)) = nm \<and>
     list_all (value_ok (length (mh_data (vs_heap s))) nm) (vs_stack s)"

definition keeps :: "nat \<Rightarrow> ('f, 'c, 'a) vmm \<Rightarrow> bool" where
  "keeps nm m \<longleftrightarrow> (\<forall>s. vm_inv nm s \<longrightarrow> vm_inv nm (snd (m s)))"

named_theorems vm_keeps \<open>instructions that keep the invariant of the machine\<close>

lemma keeps_vbind [vm_keeps]:
  fixes m :: "('f, 'c, 'a) vmm"
  assumes "keeps nm m" and "\<And>x. keeps nm (f x)"
  shows "keeps nm (vbind m f)"
  unfolding keeps_def
proof (intro allI impI)
  fix s :: "('f, 'c) vm_state" assume s: "vm_inv nm s"
  obtain r s' where r: "m s = (r, s')" by fastforce
  then have "vm_inv nm s'" using assms(1) s by (metis keeps_def snd_conv)
  then show "vm_inv nm (snd (vbind m f s))" using assms(2) r by (simp add: vbind_def keeps_def split: option.split)
qed

lemma keeps_vmodify [vm_keeps]: "(\<And>s. vs_heap (f s) = vs_heap s \<and> vs_stack (f s) = vs_stack s) \<Longrightarrow> keeps nm (vmodify f)"
  by (simp add: keeps_def vmodify_def vm_inv_def)

lemma keeps_Push [vm_keeps]: "no_address x \<Longrightarrow> keeps nm (Push x)"
  by (simp add: keeps_def Push_def vmodify_def vm_inv_def value_ok_no_address)

lemma no_address_simps [simp]:
  "no_address VNil" "no_address (VInt64 w)" "no_address (VInt n)" "no_address (VFloat f)" "no_address (VString x)" "no_address (VBool b)"
  "no_address (VTime t)" "no_address (VDuration d)"
  by (simp_all add: no_address_def)

lemma keeps_basic [vm_keeps]:
  "keeps nm (vret x)" "keeps nm vfail" "keeps nm (vget f)" "keeps nm Pop" "keeps nm (voption r)" "keeps nm (vgo g)" "keeps nm (verr e)"
  "keeps nm (load_datum d)" "keeps nm (load_metric m)" "keeps nm (opnd_int i)"
  by (auto simp: keeps_def vret_def vfail_def vget_def Pop_def voption_def vgo_def verr_def load_datum_def load_metric_def opnd_int_def vm_inv_def
      split: option.split sum.split list.split vm_value.split)

lemma keeps_store_datum [vm_keeps]: "keeps nm (store_datum d x)"
  by (auto simp: keeps_def store_datum_def vmodify_def vm_inv_def heap_ok_def)

lemma keeps_jump [vm_keeps]: "keeps nm (jump i)"
  by (auto simp: jump_def intro!: vm_keeps)

lemma keeps_pops [vm_keeps]:
  "keeps nm PopInt" "keeps nm (PopFloat fo)" "keeps nm (PopString fo)" "keeps nm pop_datum" "keeps nm (set_matches k r)" "keeps nm (push_match b)"
  "keeps nm (pop_delta i)" "keeps nm (push_int_of n)" "keeps nm (update_datum g)" "keeps nm pop_time_text"
  by (auto simp: PopInt_def PopFloat_def PopString_def pop_datum_def set_matches_def push_match_def pop_delta_def push_int_of_def update_datum_def pop_time_text_def
      intro!: vm_keeps split: vm_value.split)

lemma keeps_strings [vm_keeps]: "keeps nm (pop_strings fo n)"
  by (induction n) (auto intro!: vm_keeps)

lemma keeps_exec [vm_keeps]:
  "keeps nm (exec_Match E v line i)" "keeps nm (exec_Smatch E v i)" "keeps nm (exec_Cmp fo i)" "keeps nm (exec_Icmp i)" "keeps nm (exec_Fcmp fo i)"
  "keeps nm (exec_Scmp fo i)" "keeps nm (exec_Jnm i)" "keeps nm (exec_Jm i)" "keeps nm (exec_Inc now i)" "keeps nm (exec_Dec now i)"
  "keeps nm (exec_Iset fo now)" "keeps nm (exec_Fset fo now)" "keeps nm (exec_Sset fo now)" "keeps nm (exec_Strptime E v)" "keeps nm (exec_Timestamp now)"
  "keeps nm exec_Settime" "keeps nm (exec_Capref i)" "keeps nm (exec_float_op fo op)" "keeps nm (exec_int_op fo op)" "keeps nm (exec_get op)"
  "keeps nm (exec_S2i fo i)" "keeps nm (exec_Cat fo)" "keeps nm (exec_Subst fo)" "keeps nm (exec_Rsubst E v)"
  by (auto simp: exec_Match_def exec_Smatch_def exec_Cmp_def exec_Icmp_def exec_Fcmp_def exec_Scmp_def exec_Jnm_def exec_Jm_def exec_Inc_def exec_Dec_def exec_Iset_def exec_Fset_def
      exec_Sset_def exec_Strptime_def exec_Timestamp_def exec_Settime_def exec_Capref_def exec_float_op_def exec_int_op_def
      exec_get_def exec_S2i_def exec_Cat_def exec_Subst_def exec_Rsubst_def Let_def
      intro!: vm_keeps split: vm_value.split option.split opcode.split)

text \<open>Popping a metric with its keys, and what is done with them.\<close>

lemma pop_metric_keys_inv:
  assumes s: "vm_inv nm s" and p: "pop_metric_keys fo i s = (r, s')"
  shows "vm_inv nm s' \<and> (\<forall>m keys. r = Some (m, keys) \<longrightarrow> m < nm)"
proof (cases "vs_stack s")
  case Nil
  with p s show ?thesis by (auto simp: pop_metric_keys_def vbind_def Pop_def)
next
  case (Cons x xs)
  let ?s = "s\<lparr>vs_stack := xs\<rparr>"
  have s1: "vm_inv nm ?s" "value_ok (length (mh_data (vs_heap s))) nm x" using s Cons by (auto simp: vm_inv_def)
  show ?thesis
  proof (cases x)
    case (VMetric m)
    let ?f = "vbind (opnd_int i) (\<lambda>n. if n < 0 then vfail else vbind (pop_strings fo (nat n)) (\<lambda>keys. vret (m, keys)))"
    have f: "?f ?s = (r, s')" using p Cons VMetric by (simp add: pop_metric_keys_def vbind_def Pop_def)
    have "vm_inv nm (snd (?f ?s))" by (rule keeps_def[THEN iffD1, rule_format, OF _ s1(1)]) (auto intro!: vm_keeps)
    then have "vm_inv nm s'" using f by simp
    moreover have "\<forall>m' keys. r = Some (m', keys) \<longrightarrow> m' = m"
    proof (cases "Operand i")
      case (VInt n)
      then show ?thesis using f
        by (cases "n < 0"; cases "pop_strings fo (nat n) ?s"; cases "fst (pop_strings fo (nat n) ?s)") (auto simp: vbind_def opnd_int_def vret_def vfail_def)
    qed (use f in \<open>auto simp: vbind_def opnd_int_def vfail_def\<close>)
    ultimately show ?thesis using s1(2) VMetric by auto
  qed (use p Cons s1 in \<open>simp_all add: pop_metric_keys_def vbind_def Pop_def vfail_def\<close>)
qed

lemma keeps_with_metric:
  fixes f :: "_ \<Rightarrow> ('f, 'c, 'a) vmm"
  assumes "\<And>m keys. m < nm \<Longrightarrow> keeps nm (f (m, keys))"
  shows "keeps nm (vbind (pop_metric_keys fo i) f)"
  unfolding keeps_def
proof (intro allI impI)
  fix s :: "('f, 'c) vm_state" assume s: "vm_inv nm s"
  obtain r s' where r: "pop_metric_keys fo i s = (r, s')" by fastforce
  from pop_metric_keys_inv[OF s r] assms r show "vm_inv nm (snd (vbind (pop_metric_keys fo i) f s))"
    by (auto simp: vbind_def keeps_def split: option.split)
qed

lemma vm_inv_metric:
  assumes "vm_inv nm s" and "m < nm"
  shows "metric_ok (mh_metrics (vs_heap s) ! m)" and "values_ok (vs_heap s) (mh_metrics (vs_heap s) ! m)"
  using assms by (auto simp: vm_inv_def heap_ok_iff)

lemma vm_inv_store_metric:
  assumes "vm_inv nm s" and "metric_ok mt" and "values_ok (vs_heap s) mt"
  shows "vm_inv nm (s\<lparr>vs_heap := (vs_heap s)\<lparr>mh_metrics := (mh_metrics (vs_heap s))[m := mt]\<rparr>\<rparr>)"
  using assms heap_ok_update[of "vs_heap s" mt m] by (simp add: vm_inv_def)

lemma values_ok_RemoveDatum:
  assumes ok: "metric_ok m" and v: "values_ok h m" and r: "RemoveDatum labels m = Inr m'"
  shows "values_ok h m'"
proof -
  have "length labels = length (mm_Keys m)" using r by (auto simp: RemoveDatum_def split: if_splits)
  from RemoveDatum_ok[OF ok this] r v set_remove1_subset show ?thesis by (fastforce simp: values_ok_def split: option.splits)
qed

lemma values_ok_ExpireDatum:
  assumes ok: "metric_ok m" and v: "values_ok h m" and e: "ExpireDatum expiry labels m = Inr m'"
  shows "values_ok h m'"
proof -
  obtain i where m': "m' = m\<lparr>mm_lvs := (mm_lvs m)[i := (mm_lvs m ! i)\<lparr>lv_Expiry := expiry\<rparr>]\<rparr>"
    using e by (auto simp: ExpireDatum_def split: if_splits option.splits)
  have "lv_Value (mm_lvs m' ! j) = lv_Value (mm_lvs m ! j)" for j
    using m' by (cases "j = i \<and> i < length (mm_lvs m)") (auto simp: nth_list_update list_update_beyond)
  with v m' show ?thesis by (simp add: values_ok_def)
qed

lemma keeps_Del: "m < nm \<Longrightarrow> keeps nm (vbind (load_metric m) (\<lambda>mt. vbind (verr (RemoveDatum keys mt)) (store_metric m)))"
  unfolding keeps_def
  by (auto simp: vbind_def load_metric_def vget_def verr_def vfail_def vret_def store_metric_def vmodify_def
      intro!: vm_inv_store_metric split: sum.split
      intro: metric_ok_RemoveDatum[OF vm_inv_metric(1)] values_ok_RemoveDatum[OF vm_inv_metric])

lemma keeps_Expire: "m < nm \<Longrightarrow> keeps nm (vbind (load_metric m) (\<lambda>mt. vbind (verr (ExpireDatum expiry keys mt)) (store_metric m)))"
  unfolding keeps_def
  by (auto simp: vbind_def load_metric_def vget_def verr_def vfail_def vret_def store_metric_def vmodify_def
      intro!: vm_inv_store_metric split: sum.split
      intro: metric_ok_ExpireDatum[OF vm_inv_metric(1)] values_ok_ExpireDatum[OF vm_inv_metric])

lemma keeps_Dload:
  fixes fo :: "'f float_ops"
  assumes "m < nm"
  shows "(keeps nm :: ('f, 'c, unit) vmm \<Rightarrow> bool) (vbind (load_metric m) (\<lambda>mt. vbind (vget (\<lambda>s. mh_data (vs_heap s))) (\<lambda>ds.
       vbind (verr (GetDatum fo now keys mt ds)) (\<lambda>(d, mt', ds').
         vbind (vmodify (\<lambda>s. s\<lparr>vs_heap := \<lparr>mh_data = ds', mh_metrics = (mh_metrics (vs_heap s))[m := mt']\<rparr>\<rparr>)) (\<lambda>_. Push (VDatum d))))))"
  unfolding keeps_def
proof (intro allI impI)
  fix s :: "('f, 'c) vm_state" assume s: "vm_inv nm s"
  let ?mt = "mh_metrics (vs_heap s) ! m" and ?ds = "mh_data (vs_heap s)"
  let ?f = "vbind (load_metric m) (\<lambda>mt. vbind (vget (\<lambda>s. mh_data (vs_heap s))) (\<lambda>ds.
       vbind (verr (GetDatum fo now keys mt ds)) (\<lambda>(d, mt', ds').
         vbind (vmodify (\<lambda>s. s\<lparr>vs_heap := \<lparr>mh_data = ds', mh_metrics = (mh_metrics (vs_heap s))[m := mt']\<rparr>\<rparr>)) (\<lambda>_. Push (VDatum d))))) :: ('f, 'c, unit) vmm"
  note M = vm_inv_metric[OF s assms]
  show "vm_inv nm (snd (?f s))"
  proof (cases "length keys = length (mm_Keys ?mt)")
    case False
    then show ?thesis using s by (simp add: vbind_def load_metric_def vget_def verr_def GetDatum_def vfail_def)
  next
    case True
    show ?thesis
    proof (rule GetDatum_cases[OF M(1) True, of fo now ?ds])
      fix i assume i: "i \<in> set (mm_LabelValues ?mt)" "GetDatum fo now keys ?mt ?ds = Inr (lv_Value (mm_lvs ?mt ! i), ?mt, ?ds)"
      have "lv_Value (mm_lvs ?mt ! i) < length ?ds" using M(2) i(1) by (simp add: values_ok_def)
      then show ?thesis using s i(2) by (simp add: vbind_def load_metric_def vget_def verr_def vret_def vmodify_def Push_def vm_inv_def heap_ok_def)
    next
      fix mt' assume a: "FindLabelValueOrNil keys ?mt = None" "metric_ok mt'"
        "AppendLabelValue \<lparr>lv_Labels = keys, lv_Value = length ?ds, lv_Expiry = 0\<rparr> ?mt = Inr mt'"
        "GetDatum fo now keys ?mt ?ds = Inr (length ?ds, mt', ?ds @ [new_datum fo now ?mt])"
      let ?h = "\<lparr>mh_data = ?ds @ [new_datum fo now ?mt], mh_metrics = mh_metrics (vs_heap s)\<rparr>"
      have h: "heap_ok ?h" using s by (auto simp: vm_inv_def heap_ok_def intro: less_SucI)
      have v: "values_ok ?h mt'" using M(2) metric_okD(2)[OF M(1)] metric_ok_Append(2,3)[OF M(1) _ a(3)] a(1)
        by (auto simp: values_ok_def nth_append intro: less_SucI)
      have "list_all (value_ok (Suc (length ?ds)) nm) (vs_stack s)"
        using s value_ok_mono[of "length ?ds" nm _ "Suc (length ?ds)"] by (auto simp: vm_inv_def list_all_iff)
      then show ?thesis using s a(4) heap_ok_update[OF h a(2) v, of m]
        by (simp add: vbind_def load_metric_def vget_def verr_def vret_def vmodify_def Push_def vm_inv_def)
    qed
  qed
qed

lemma keeps_metric_ops [vm_keeps]:
  "keeps nm (exec_Dload E i)" "keeps nm (exec_Del fo i)" "keeps nm (exec_Expire fo i)"
proof -
  show "keeps nm (exec_Dload E i)" unfolding exec_Dload_def by (rule keeps_with_metric, simp only: prod.case, erule keeps_Dload)
  show "keeps nm (exec_Del fo i)" unfolding exec_Del_def by (rule keeps_with_metric, simp only: prod.case, erule keeps_Del)
  show "keeps nm (exec_Expire fo i)" unfolding exec_Expire_def
    by (rule keeps_with_metric, simp only: prod.case, rule keeps_vbind[OF keeps_basic(4)])
      (auto intro!: keeps_Expire keeps_basic split: vm_value.split)
qed

definition vm_ok :: "nat \<Rightarrow> ('f, 'r) vm \<Rightarrow> bool" where
  "vm_ok nm v \<longleftrightarrow> list_all (\<lambda>m. m < nm) (vm_Metrics v) \<and> list_all (\<lambda>i. no_address (Operand i)) (vm_prog v)"

lemma keeps_Mload:
  assumes "list_all (\<lambda>m. m < nm) ms"
  shows "keeps nm (vbind (voption (at_int ms n)) (\<lambda>m. Push (VMetric m)))"
proof (cases "at_int ms n")
  case None
  then show ?thesis by (simp add: keeps_def vbind_def voption_def vfail_def)
next
  case (Some m)
  then have "m < nm" using assms by (auto simp: at_int_def list_all_length split: if_splits)
  with Some show ?thesis by (simp add: keeps_def vbind_def voption_def vret_def Push_def vmodify_def vm_inv_def)
qed

lemma keeps_instr:
  assumes "vm_ok nm v" and "no_address (Operand i)"
  shows "keeps nm (exec_instr E v line i)"
proof -
  have "keeps nm (vbind (voption (at_int (vm_Metrics v) n)) (\<lambda>m. Push (VMetric m)))" for n
    using assms(1) by (intro keeps_Mload) (simp add: vm_ok_def)
  then have "keeps nm (vbind (opnd_int i) (\<lambda>n. vbind (voption (at_int (vm_Metrics v) n)) (\<lambda>m. Push (VMetric m))))"
    by (rule keeps_vbind[OF keeps_basic(10)])
  then show ?thesis using assms(2) unfolding exec_instr_def Let_def
    by (cases "Opcode i") (simp_all, (auto intro!: vm_keeps split: vm_value.split)+)
qed

lemma execute_inv:
  assumes "vm_ok nm v" and "no_address (Operand i)" and "vm_inv nm s"
  shows "vm_inv nm (execute E v line i s)"
  using keeps_instr[OF assms(1,2), of E line] assms(3)
  by (cases "exec_instr E v line i s") (auto simp: execute_def keeps_def vm_inv_def split: option.split dest!: spec[of _ s])

lemma vm_loop_ends:
  assumes "forward_jumps (vm_prog v)" and v: "vm_ok nm v" and "0 \<le> vs_pc s" and "vm_inv nm s"
  shows "\<exists>s'. vm_loop E v line s = Some (Inr s') \<and> vm_inv nm s'"
  using assms(3,4)
proof (induction "nat (int (length (vm_prog v)) - vs_pc s)" arbitrary: s rule: less_induct)
  case less
  show ?case
  proof (cases "vs_pc s \<ge> int (length (vm_prog v))")
    case False
    let ?i = "vm_prog v ! nat (vs_pc s)" and ?s = "s\<lparr>vs_pc := vs_pc s + 1\<rparr>"
    define s' where "s' = execute E v line ?i ?s"
    have j: "nat (vs_pc s) < length (vm_prog v)" using False less.prems(1) by linarith
    have pc: "vs_pc s < vs_pc s'"
      using execute_pc[of E v line ?i ?s] assms(1) j less.prems(1) unfolding s'_def forward_jumps_def by auto
    have "no_address (Operand ?i)" using v j by (auto simp: vm_ok_def list_all_length)
    from execute_inv[OF v this, of ?s E line] less.prems(2) have inv: "vm_inv nm s'" unfolding s'_def by (simp add: vm_inv_def)
    show ?thesis
    proof (cases "vs_terminate s'")
      case True
      then have "vm_loop E v line s = Some (Inr (s'\<lparr>vs_terminate := False\<rparr>))"
        using False less.prems(1) by (subst vm_loop.simps) (simp add: Let_def s'_def)
      with inv show ?thesis by (auto simp: vm_inv_def)
    next
      case running: False
      then have "vm_loop E v line s = vm_loop E v line s'" using False less.prems(1) by (subst vm_loop.simps) (simp add: Let_def s'_def)
      with less.hyps[of s'] pc inv False less.prems(1) show ?thesis by auto
    qed
  qed (subst vm_loop.simps, use less.prems in simp)
qed

lemma ProcessLogLine_ends:
  assumes "forward_jumps (vm_prog v)" and "vm_ok nm v" and "heap_ok (vs_heap s)" and "length (mh_metrics (vs_heap s)) = nm"
  shows "\<exists>s'. ProcessLogLine E v line s = Some (Inr s') \<and> heap_ok (vs_heap s') \<and> length (mh_metrics (vs_heap s')) = nm"
proof -
  have "vm_inv nm (new_thread s)" using assms(3,4) by (simp add: vm_inv_def new_thread_def)
  from vm_loop_ends[OF assms(1,2) _ this, of E line] show ?thesis by (auto simp: ProcessLogLine_def new_thread_def vm_inv_def)
qed

lemma vm_Run_ends:
  assumes "forward_jumps (vm_prog v)" and "vm_ok nm v" and "heap_ok (vs_heap s)" and "length (mh_metrics (vs_heap s)) = nm"
  shows "\<exists>s'. vm_Run E v ls s = Some (Inr s') \<and> heap_ok (vs_heap s') \<and> length (mh_metrics (vs_heap s')) = nm"
  using assms(3,4)
proof (induction ls arbitrary: s)
  case (Cons l ls)
  obtain now line where l: "l = (now, line)" by fastforce
  obtain s1 where "ProcessLogLine (E\<lparr>en_now := now\<rparr>) v line s = Some (Inr s1)" "heap_ok (vs_heap s1)" "length (mh_metrics (vs_heap s1)) = nm"
    using ProcessLogLine_ends[OF assms(1,2) Cons.prems] by blast
  with Cons.IH[of s1] show ?case by (simp add: l)
qed simp

subsection \<open>The memory of parsed times\<close>

lemmas vm_step_simps = vbind_def vret_def vfail_def vget_def vmodify_def voption_def Pop_def Push_def PopString_def

lemma exec_Strptime_texts:
  assumes "vs_stack s = VString layout # VString ts # st"
  shows "exec_Strptime E v s =
    (case en_memo_Get E ts (vs_memos s) of
       Some (tm, memos) \<Rightarrow> (Some (), s\<lparr>vs_stack := st, vs_time := tm, vs_memos := memos\<rparr>)
     | None \<Rightarrow>
         (case ParseTime E v layout ts of
            Some tm \<Rightarrow> (Some (), s\<lparr>vs_stack := st, vs_time := tm, vs_memos := en_memo_Add E ts tm (vs_memos s)\<rparr>)
          | None \<Rightarrow> (None, s\<lparr>vs_stack := st, vs_time := zeroTime, vs_memos := en_memo_Add E ts zeroTime (vs_memos s)\<rparr>)))"
  using assms by (simp add: exec_Strptime_def pop_time_text_def vm_step_simps Let_def split: option.split)

text \<open>An integer on the left of a text is not compared at all: only the sign of the text counts.\<close>

lemma compare_int_text: "compare fo (VInt64 a) (VString x) n = compare fo (VInt64 a') (VString x) n"
  by (simp add: compare_def compare_int_def)


text \<open>An environment in which only the layout \<open>b\<close> parses, with a cache that keeps every entry.\<close>

definition memo_env :: "(nat, string, (string \<times> int) list) vm_env" where
  "memo_env = \<lparr>en_fo = nat_floats, en_now = 1, en_FindStringSubmatch = (\<lambda>_ _. None), en_ReplaceAllLiteralString = (\<lambda>_ l _. l), en_ToLower = (\<lambda>l. l),
     en_time_Parse = (\<lambda>layout _. if layout = ''b'' then Some 7 else None), en_Year = (\<lambda>_. 2024), en_AddYears = (\<lambda>t _. t),
     en_memo_Get = (\<lambda>k m. map_option (\<lambda>t. (t, m)) (map_of m k)), en_memo_Add = (\<lambda>k t m. (k, t) # m)\<rparr>"

definition memo_state :: "string \<Rightarrow> (nat, (string \<times> int) list) vm_state" where
  "memo_state layout = \<lparr>vs_pc = 1, vs_matched = False, vs_matches = (\<lambda>_. []), vs_time = zeroTime, vs_stack = [VString layout, VString ''x''],
     vs_heap = \<lparr>mh_data = [], mh_metrics = []\<rparr>, vs_memos = [], vs_terminate = False, vs_errors = 0\<rparr>"

end
