(* ===== verification/Mtail_Codegen.thy ===== *)
theory Mtail_Codegen
  imports Mtail_VM
begin

text \<open>
  The code generator of mtail: \<open>src/inputs/mtail/internal/runtime/compiler/codegen/codegen.go\<close> with the walk of \<open>ast/walk.go\<close>, on the
  syntax tree of \<open>ast/ast.go\<close> as the checker leaves it, with the type of each node. Nodes that the generator
  writes to (symbols, patterns) carry an identity. A decorator statement holds the block of the declaration it names. The
  generator follows \<open>next\<close> to blocks on a stack, so that its recursion is not on the tree alone: it
  runs on fuel, with \<open>None\<close> for running out, and a lemma shows that enough fuel always exists.
\<close>

subsection \<open>Types\<close>

text \<open>A type operator notes whether it is the predeclared object itself (the generator compares some types by identity). A bound variable stands for its instance.\<close>

datatype ty = TyVar nat | TyBound ty | TyOp bool string "ty list" | TyErr

fun Root :: "ty \<Rightarrow> ty" where
  "Root (TyBound t) = Root t"
| "Root t = t"

fun occursInType :: "nat \<Rightarrow> ty \<Rightarrow> bool" where
  "occursInType v (TyVar w) \<longleftrightarrow> v = w"
| "occursInType v (TyBound t) \<longleftrightarrow> occursInType v t"
| "occursInType v (TyOp _ _ args) \<longleftrightarrow> list_ex (occursInType v) args"
| "occursInType v TyErr \<longleftrightarrow> False"

fun Equals :: "ty \<Rightarrow> ty \<Rightarrow> bool" and Equals_args :: "ty list \<Rightarrow> ty list \<Rightarrow> bool" where
  "Equals (TyBound t) t2 = Equals t t2"
| "Equals (TyVar v) t2 = occursInType v t2"
| "Equals (TyOp _ n xs) t2 = (case Root t2 of TyOp _ m ys \<Rightarrow> n = m \<and> length xs = length ys \<and> Equals_args xs ys | _ \<Rightarrow> False)"
| "Equals TyErr t2 = False"
| "Equals_args [] ys = True"
| "Equals_args (x # xs) ys = (case ys of [] \<Rightarrow> True | y # ys' \<Rightarrow> Equals x y \<and> Equals_args xs ys')"

definition T_Int :: ty where "T_Int = TyOp True ''Int'' []"
definition T_Float :: ty where "T_Float = TyOp True ''Float'' []"
definition T_String :: ty where "T_String = TyOp True ''String'' []"
definition T_Bool :: ty where "T_Bool = TyOp True ''Bool'' []"
definition T_Pattern :: ty where "T_Pattern = TyOp True ''Pattern'' []"
definition T_Buckets :: ty where "T_Buckets = TyOp True ''Buckets'' []"
definition T_None :: ty where "T_None = TyOp True ''None'' []"

definition dimensionName :: string where
  "dimensionName = [CHR 0xE2, CHR 0xA8, CHR 0xAF]"

text \<open>The element type of a dimension; any other type is its own.\<close>

definition element_type :: "ty \<Rightarrow> ty" where
  "element_type t = (case t of TyOp _ n args \<Rightarrow> if n = dimensionName then last args else t | _ \<Rightarrow> t)"

subsection \<open>The syntax tree\<close>

datatype binop =
    B_AND | B_OR | B_ADD_ASSIGN | B_LT | B_GT | B_LE | B_GE | B_EQ | B_NE | B_PLUS | B_MINUS | B_MUL | B_DIV | B_MOD | B_POW
  | B_ASSIGN | B_BITAND | B_BITOR | B_XOR | B_SHL | B_SHR | B_MATCH | B_NOT_MATCH | B_other

datatype unop = U_INC | U_DEC | U_NOT | U_MATCH | U_other

record 'f var_decl =
  vd_Name :: string
  vd_ExportedName :: string
  vd_Hidden :: bool
  vd_Keys :: "string list"
  vd_Limit :: int
  vd_Buckets :: "'f list"
  vd_Kind :: mt_kind
  vd_Symbol :: nat
  vd_Type :: ty
  vd_Pos :: string

datatype 'f node =
    StmtList "'f node list"
  | ExprList "'f node list" ty
  | CondStmt "'f node option" "'f node" "'f node option"
  | IDTerm "nat option" bool ty
  | CaprefTerm "(nat \<times> int) option" ty
  | BuiltinExpr string "'f node list option" ty
  | BinaryExpr "'f node" "'f node" binop ty
  | UnaryExpr "'f node" unop ty
  | IndexedExpr "'f node" "'f node" ty
  | VarDecl "'f var_decl"
  | StringLit string
  | IntLit "64 word"
  | FloatLit 'f
  | PatternExpr nat string
  | PatternFragment
  | DecoDecl
  | DecoStmt "'f node option" "'f node"
  | NextStmt
  | OtherwiseStmt
  | DelStmt "'f node" "64 word"
  | StopStmt
  | ConvExpr "'f node" ty

text \<open>\<open>vd_Type\<close> is the type of the declared symbol. Literals of patterns only occur below a pattern, where the generator does not walk, and
  the parser leaves no error node in a tree that it accepts.\<close>

definition decl_Type :: "'f var_decl \<Rightarrow> ty" where
  "decl_Type d = (if vd_Kind d = Histogram then T_Buckets else vd_Type d)"

fun node_Type :: "'f node \<Rightarrow> ty" where
  "node_Type (ExprList _ t) = t"
| "node_Type (IDTerm _ _ t) = t"
| "node_Type (CaprefTerm _ t) = t"
| "node_Type (BuiltinExpr _ _ t) = t"
| "node_Type (BinaryExpr _ _ _ t) = t"
| "node_Type (UnaryExpr _ _ t) = t"
| "node_Type (IndexedExpr _ _ t) = t"
| "node_Type (VarDecl d) = decl_Type d"
| "node_Type (StringLit _) = T_String"
| "node_Type (IntLit _) = T_Int"
| "node_Type (FloatLit _) = T_Float"
| "node_Type (PatternExpr _ _) = T_Pattern"
| "node_Type PatternFragment = T_Pattern"
| "node_Type (ConvExpr _ t) = t"
| "node_Type _ = T_None"

subsection \<open>The state of the generator\<close>

record ('f, 'r) codegen =
  cg_errors :: nat
  cg_Program :: "'f instr list"
  cg_Strings :: "string list"
  cg_Regexps :: "'r list"
  cg_heap :: "'f mt_heap"
  cg_Metrics :: "nat list"
  cg_l :: "int list"
  cg_decos :: "'f node list"
  cg_binding :: "nat \<Rightarrow> (nat \<times> int) option"
  cg_Index :: "nat \<Rightarrow> int"

record ('f, 'r) cg_env =
  ce_fo :: "'f float_ops"
  ce_now :: int
  ce_name :: string
  ce_Compile :: "string \<Rightarrow> 'r option"

definition cg_errorf :: "('f, 'r) codegen \<Rightarrow> ('f, 'r) codegen" where
  "cg_errorf c = c\<lparr>cg_errors := cg_errors c + 1\<rparr>"

definition emit :: "opcode \<Rightarrow> 'f vm_value \<Rightarrow> ('f, 'r) codegen \<Rightarrow> ('f, 'r) codegen" where
  "emit op operand c = c\<lparr>cg_Program := cg_Program c @ [\<lparr>Opcode = op, Operand = operand\<rparr>]\<rparr>"

definition newLabel :: "('f, 'r) codegen \<Rightarrow> int \<times> ('f, 'r) codegen" where
  "newLabel c = (int (length (cg_l c)), c\<lparr>cg_l := cg_l c @ [-1]\<rparr>)"

definition cg_pc :: "('f, 'r) codegen \<Rightarrow> int" where
  "cg_pc c = int (length (cg_Program c)) - 1"

definition setLabel :: "int \<Rightarrow> ('f, 'r) codegen \<Rightarrow> ('f, 'r) codegen" where
  "setLabel l c = c\<lparr>cg_l := (cg_l c)[nat l := cg_pc c + 1]\<rparr>"

subsection \<open>Declarations\<close>

definition metric_type :: "ty \<Rightarrow> mt_type" where
  "metric_type t0 =
     (let t = element_type t0 in
      if Equals T_Float t then TFloat else if Equals T_String t then TString else if Equals T_Buckets t then TBuckets else TInt)"

fun more_buckets :: "'f float_ops \<Rightarrow> 'f \<Rightarrow> 'f list \<Rightarrow> 'f range list option" where
  "more_buckets fo mn [] = Some [(mn, fo_inf fo)]"
| "more_buckets fo mn (mx # rest) = (if fo_le fo mx mn then None else map_option (\<lambda>rs. (mn, mx) # rs) (more_buckets fo mx rest))"

text \<open>The ranges of a histogram, \<open>None\<close> for boundaries that are too few or out of order.\<close>

definition histogram_ranges :: "'f float_ops \<Rightarrow> 'f list \<Rightarrow> 'f range list option" where
  "histogram_ranges fo bs =
     (case bs of
        b0 # b1 # rest \<Rightarrow>
          if fo_le fo b1 b0 then None
          else
            map_option (\<lambda>rs. (if fo_lt fo (fo_zero fo) b0 then [(fo_zero fo, b0)] else []) @ (b0, b1) # rs) (more_buckets fo b1 rest)
      | _ \<Rightarrow> None)"

text \<open>A metric with its data heap, or an error.\<close>

definition zero_counter :: "('f, 'r) cg_env \<Rightarrow> mt_type \<Rightarrow> 'f mt_metric \<times> 'f datum list \<Rightarrow> ('f mt_metric \<times> 'f datum list) option" where
  "zero_counter E dtyp md =
     (case md of (m, ds) \<Rightarrow>
        case GetDatum (ce_fo E) (ce_now E) [] m ds of
          Inl _ \<Rightarrow> None
        | Inr (d, m', ds') \<Rightarrow>
            (case dtyp of
               TInt \<Rightarrow> (case SetInt (ce_fo E) (ce_now E) 0 0 (ds' ! d) of Inl _ \<Rightarrow> None | Inr x \<Rightarrow> Some (m', ds'[d := x]))
             | TFloat \<Rightarrow> (case SetFloat (ce_fo E) (ce_now E) (fo_zero (ce_fo E)) 0 (ds' ! d) of Inl _ \<Rightarrow> None | Inr x \<Rightarrow> Some (m', ds'[d := x]))
             | _ \<Rightarrow> None))"

definition histogram_init :: "('f, 'r) cg_env \<Rightarrow> 'f var_decl \<Rightarrow> 'f mt_metric \<times> 'f datum list \<Rightarrow> ('f mt_metric \<times> 'f datum list) option" where
  "histogram_init E n md =
     (case md of (m, ds) \<Rightarrow>
        case histogram_ranges (ce_fo E) (vd_Buckets n) of
          None \<Rightarrow> None
        | Some rs \<Rightarrow>
            (let m1 = m\<lparr>mm_Buckets := rs\<rparr> in
             if vd_Keys n \<noteq> [] then Some (m1, ds)
             else (case GetDatum (ce_fo E) (ce_now E) [] m1 ds of Inl _ \<Rightarrow> None | Inr (_, m', ds') \<Rightarrow> Some (m', ds'))))"

definition gen_VarDecl :: "('f, 'r) cg_env \<Rightarrow> 'f var_decl \<Rightarrow> ('f, 'r) codegen \<Rightarrow> ('f, 'r) codegen" where
  "gen_VarDecl E n c =
     (let name = (if vd_ExportedName n \<noteq> [] then vd_ExportedName n else vd_Name n);
          dtyp = metric_type (decl_Type n);
          m0 = (NewMetric name (ce_name E) (vd_Kind n) dtyp (vd_Keys n))\<lparr>mm_Source := vd_Pos n\<rparr>;
          md0 = (m0, mh_data (cg_heap c));
          md1 = (if vd_Keys n = [] \<and> vd_Kind n = Counter then zero_counter E dtyp md0 else Some md0);
          md2 = (case md1 of None \<Rightarrow> None | Some md \<Rightarrow> if vd_Kind n = Histogram then histogram_init E n md else Some md) in
      case md2 of
        None \<Rightarrow> cg_errorf c
      | Some (m, ds) \<Rightarrow>
          (let id = length (mh_metrics (cg_heap c)) in
           c\<lparr>cg_heap := \<lparr>mh_data = ds, mh_metrics = mh_metrics (cg_heap c) @ [m\<lparr>mm_Hidden := vd_Hidden n, mm_Limit := vd_Limit n\<rparr>]\<rparr>,
             cg_binding := (cg_binding c)(vd_Symbol n \<mapsto> (id, int (length (cg_Metrics c)))),
             cg_Metrics := cg_Metrics c @ [id]\<rparr>))"

subsection \<open>Operators\<close>

definition typedOperators :: "binop \<Rightarrow> (ty \<times> opcode) list" where
  "typedOperators op =
     (case op of
        B_PLUS \<Rightarrow> [(T_Int, OIadd), (T_Float, OFadd), (T_String, OCat), (T_Pattern, OCat)]
      | B_MINUS \<Rightarrow> [(T_Int, OIsub), (T_Float, OFsub)]
      | B_MUL \<Rightarrow> [(T_Int, OImul), (T_Float, OFmul)]
      | B_DIV \<Rightarrow> [(T_Int, OIdiv), (T_Float, OFdiv)]
      | B_MOD \<Rightarrow> [(T_Int, OImod), (T_Float, OFmod)]
      | B_POW \<Rightarrow> [(T_Int, OIpow), (T_Float, OFpow)]
      | B_ASSIGN \<Rightarrow> [(T_Int, OIset), (T_Float, OFset), (T_String, OSset)]
      | _ \<Rightarrow> [])"

text \<open>At most one entry has an equal type, so that the order of the map does not matter.\<close>

definition getOpcodeForType :: "binop \<Rightarrow> ty \<Rightarrow> opcode option" where
  "getOpcodeForType op opT = map_option snd (find (\<lambda>(t, _). Equals t opT) (typedOperators op))"

definition builtin_opcode :: "string \<Rightarrow> opcode" where
  "builtin_opcode name =
     (case map_of [(''getfilename'', OGetfilename), (''len'', OLength), (''settime'', OSettime), (''strptime'', OStrptime),
        (''strtol'', OS2i), (''subst'', OSubst), (''timestamp'', OTimestamp), (''tolower'', OTolower)] name of
        Some op \<Rightarrow> op | None \<Rightarrow> OBad)"

text \<open>The conversion that is emitted; \<open>None\<close> is an error.\<close>

definition emitConversion :: "ty \<Rightarrow> ty \<Rightarrow> ('f, 'r) codegen \<Rightarrow> ('f, 'r) codegen option" where
  "emitConversion inType outType c =
     (if Equals T_Int inType \<and> Equals T_Float outType then Some (emit OI2f VNil c)
      else if Equals T_String inType \<and> Equals T_Float outType then Some (emit OS2f VNil c)
      else if Equals T_String inType \<and> Equals T_Int outType then Some (emit OS2i VNil c)
      else if Equals T_Float inType \<and> Equals T_String outType then Some (emit OF2s VNil c)
      else if Equals T_Int inType \<and> Equals T_String outType then Some (emit OI2s VNil c)
      else if Equals T_Pattern inType \<and> Equals T_Bool outType then Some c
      else if Equals inType outType then Some c
      else None)"

definition or_error :: "('f, 'r) codegen \<Rightarrow> ('f, 'r) codegen option \<Rightarrow> ('f, 'r) codegen" where
  "or_error c r = (case r of None \<Rightarrow> cg_errorf c | Some c' \<Rightarrow> c')"

definition cmp_opcode :: "ty \<Rightarrow> ty \<Rightarrow> opcode" where
  "cmp_opcode lt rt =
     (if Equals lt rt then (if lt = T_Float then OFcmp else if lt = T_Int then OIcmp else if lt = T_String then OScmp else OCmp) else OCmp)"

definition cmp_args :: "binop \<Rightarrow> int \<times> opcode" where
  "cmp_args op =
     (case op of
        B_LT \<Rightarrow> (-1, OJnm) | B_GT \<Rightarrow> (1, OJnm) | B_LE \<Rightarrow> (1, OJm) | B_GE \<Rightarrow> (-1, OJm) | B_EQ \<Rightarrow> (0, OJnm) | _ \<Rightarrow> (0, OJm))"

definition gen_comparison :: "binop \<Rightarrow> ty \<Rightarrow> ty \<Rightarrow> ('f, 'r) codegen \<Rightarrow> ('f, 'r) codegen" where
  "gen_comparison op lt rt c =
     (let (lFail, c) = newLabel c;
          (lEnd, c) = newLabel c;
          (cmpArg, jumpOp) = cmp_args op;
          c = emit (cmp_opcode lt rt) (VInt cmpArg) c;
          c = emit jumpOp (VInt lFail) c;
          c = emit OPush (VBool True) c;
          c = emit OJmp (VInt lEnd) c;
          c = setLabel lFail c;
          c = emit OPush (VBool False) c in
      setLabel lEnd c)"

definition gen_add_assign :: "ty \<Rightarrow> ('f, 'r) codegen \<Rightarrow> ('f, 'r) codegen" where
  "gen_add_assign t c =
     (if Equals t T_Int then emit OInc (VInt 0) c
      else if Equals t T_Float \<or> Equals t T_String then
        (case getOpcodeForType B_PLUS t of
           None \<Rightarrow> cg_errorf c
         | Some op1 \<Rightarrow>
             (let c = emit op1 VNil c in
              case getOpcodeForType B_ASSIGN t of None \<Rightarrow> cg_errorf c | Some op2 \<Rightarrow> emit op2 VNil c))
      else cg_errorf c)"

text \<open>\<open>VisitAfter\<close> of a binary expression.\<close>

definition gen_binary :: "binop \<Rightarrow> 'f node \<Rightarrow> 'f node \<Rightarrow> ty \<Rightarrow> ('f, 'r) codegen \<Rightarrow> ('f, 'r) codegen" where
  "gen_binary op lhs rhs t c =
     (if op \<in> {B_LT, B_GT, B_LE, B_GE, B_EQ, B_NE} then gen_comparison op (node_Type lhs) (node_Type rhs) c
      else if op = B_ADD_ASSIGN then gen_add_assign t c
      else if op \<in> {B_PLUS, B_MINUS, B_MUL, B_DIV, B_MOD, B_POW, B_ASSIGN} then
        (case getOpcodeForType op t of None \<Rightarrow> cg_errorf c | Some opcode \<Rightarrow> emit opcode VNil c)
      else if op = B_BITAND then emit OAnd VNil c
      else if op = B_BITOR then emit OOr VNil c
      else if op = B_XOR then emit OXor VNil c
      else if op = B_SHL then emit OShl VNil c
      else if op = B_SHR then emit OShr VNil c
      else if op \<in> {B_MATCH, B_NOT_MATCH} then
        (case rhs of
           PatternExpr pid _ \<Rightarrow>
             (let c = emit OSmatch (VInt (cg_Index c pid)) c in if op = B_NOT_MATCH then emit ONot VNil c else c)
         | _ \<Rightarrow> cg_errorf c)
      else cg_errorf c)"

subsection \<open>The other nodes\<close>

definition gen_PatternExpr :: "('f, 'r) cg_env \<Rightarrow> nat \<Rightarrow> string \<Rightarrow> ('f, 'r) codegen \<Rightarrow> ('f, 'r) codegen" where
  "gen_PatternExpr E pid pat c =
     (case ce_Compile E pat of
        None \<Rightarrow> cg_errorf c
      | Some re \<Rightarrow> c\<lparr>cg_Regexps := cg_Regexps c @ [re], cg_Index := (cg_Index c)(pid := int (length (cg_Regexps c)))\<rparr>)"

definition gen_IDTerm :: "nat option \<Rightarrow> bool \<Rightarrow> ty \<Rightarrow> ('f, 'r) codegen \<Rightarrow> ('f, 'r) codegen" where
  "gen_IDTerm symb lvalue t0 c =
     (case symb of
        None \<Rightarrow> c
      | Some sid \<Rightarrow>
          (case cg_binding c sid of
             None \<Rightarrow> cg_errorf c
           | Some (m, addr) \<Rightarrow>
               (let c = emit OMload (VInt addr) c;
                    c = emit ODload (VInt (int (length (mm_Keys (mh_metrics (cg_heap c) ! m))))) c;
                    t = element_type t0 in
                if lvalue then c
                else if Equals t T_Float then emit OFget VNil c
                else if Equals t T_Int then emit OIget VNil c
                else if Equals t T_String then emit OSget VNil c
                else cg_errorf c)))"

definition gen_CaprefTerm :: "(nat \<times> int) option \<Rightarrow> ty \<Rightarrow> ('f, 'r) codegen \<Rightarrow> ('f, 'r) codegen" where
  "gen_CaprefTerm symb t c =
     (case symb of
        None \<Rightarrow> cg_errorf c
      | Some (rn, addr) \<Rightarrow>
          (let c = emit OPush (VInt (cg_Index c rn)) c;
               c = emit OCapref (VInt addr) c in
           if Equals t T_Float then emit OS2f VNil c else if Equals t T_Int then emit OS2i VNil c else c))"

text \<open>\<open>VisitAfter\<close> of a builtin and of a unary expression; \<open>Inl\<close> is a panic of the generator.\<close>

definition gen_builtin :: "string \<Rightarrow> 'f node list option \<Rightarrow> ty \<Rightarrow> ('f, 'r) codegen \<Rightarrow> ('f, 'r) codegen go" where
  "gen_builtin name args t c =
     (let arglen = (case args of None \<Rightarrow> 0 | Some ns \<Rightarrow> length ns) in
      if name = ''bool'' then Inr c
      else if name \<in> {''int'', ''float'', ''string''} then
        (if arglen > 1 then Inr (cg_errorf c)
         else (case args of
                 Some (a # _) \<Rightarrow> Inr (or_error c (emitConversion (node_Type a) t c))
               | Some [] \<Rightarrow> Inl IndexOutOfRange
               | None \<Rightarrow> Inl (ExplicitPanic ''interface conversion'')))
      else if name = ''subst'' then
        (case args of
           Some (a # _) \<Rightarrow>
             (if Equals (node_Type a) T_Pattern then
                (case a of
                   PatternExpr pid _ \<Rightarrow> Inr (emit ORsubst (VInt (int arglen)) (emit OPush (VInt (cg_Index c pid)) c))
                 | _ \<Rightarrow> Inl (ExplicitPanic ''interface conversion''))
              else Inr (emit OSubst (VInt (int arglen)) c))
         | Some [] \<Rightarrow> Inl IndexOutOfRange
         | None \<Rightarrow> Inl (ExplicitPanic ''interface conversion''))
      else Inr (emit (builtin_opcode name) (VInt (int arglen)) c))"

definition gen_unary :: "'f node \<Rightarrow> unop \<Rightarrow> ('f, 'r) codegen \<Rightarrow> ('f, 'r) codegen go" where
  "gen_unary e op c =
     (case op of
        U_INC \<Rightarrow> Inr (emit OInc VNil c)
      | U_DEC \<Rightarrow> Inr (emit ODec VNil c)
      | U_NOT \<Rightarrow> Inr (emit ONeg VNil c)
      | U_MATCH \<Rightarrow> (case e of PatternExpr pid _ \<Rightarrow> Inr (emit OMatch (VInt (cg_Index c pid)) c) | _ \<Rightarrow> Inl (ExplicitPanic ''interface conversion''))
      | U_other \<Rightarrow> Inr c)"

definition gen_index_conv :: "ty \<Rightarrow> ('f, 'r) codegen \<Rightarrow> ('f, 'r) codegen" where
  "gen_index_conv t c = (if Equals t T_Float then emit OF2s VNil c else if Equals t T_Int then emit OI2s VNil c else c)"

text \<open>The last instruction becomes a deletion.\<close>

definition overwrite_last :: "opcode \<Rightarrow> ('f, 'r) codegen \<Rightarrow> ('f, 'r) codegen go" where
  "overwrite_last op c =
     (if cg_Program c = [] then Inl IndexOutOfRange
      else Inr (c\<lparr>cg_Program := butlast (cg_Program c) @ [(last (cg_Program c))\<lparr>Opcode := op\<rparr>]\<rparr>))"

subsection \<open>The walk\<close>

type_synonym ('f, 'r) cg_result = "('f, 'r) codegen go option"

definition cgb :: "('f, 'r) cg_result \<Rightarrow> (('f, 'r) codegen \<Rightarrow> ('f, 'r) cg_result) \<Rightarrow> ('f, 'r) cg_result" where
  "cgb r f = (case r of None \<Rightarrow> None | Some (Inl p) \<Rightarrow> Some (Inl p) | Some (Inr c) \<Rightarrow> f c)"

definition ok :: "('f, 'r) codegen \<Rightarrow> ('f, 'r) cg_result" where
  "ok c = Some (Inr c)"

fun walk_list :: "('f node \<Rightarrow> ('f, 'r) codegen \<Rightarrow> ('f, 'r) cg_result) \<Rightarrow> 'f node list \<Rightarrow> ('f, 'r) codegen \<Rightarrow> ('f, 'r) cg_result" where
  "walk_list W [] c = ok c"
| "walk_list W (n # ns) c = cgb (W n c) (walk_list W ns)"

fun walk_index :: "('f node \<Rightarrow> ('f, 'r) codegen \<Rightarrow> ('f, 'r) cg_result) \<Rightarrow> 'f node list \<Rightarrow> ('f, 'r) codegen \<Rightarrow> ('f, 'r) cg_result" where
  "walk_index W [] c = ok c"
| "walk_index W (n # ns) c = cgb (W n c) (\<lambda>c. walk_index W ns (gen_index_conv (node_Type n) c))"

definition walk_opt :: "('f node \<Rightarrow> ('f, 'r) codegen \<Rightarrow> ('f, 'r) cg_result) \<Rightarrow> 'f node option \<Rightarrow> ('f, 'r) codegen \<Rightarrow> ('f, 'r) cg_result" where
  "walk_opt W n c = (case n of None \<Rightarrow> ok c | Some x \<Rightarrow> W x c)"

definition gen_cond :: "('f node \<Rightarrow> ('f, 'r) codegen \<Rightarrow> ('f, 'r) cg_result) \<Rightarrow> 'f node option \<Rightarrow> 'f node \<Rightarrow> 'f node option \<Rightarrow> ('f, 'r) codegen \<Rightarrow> ('f, 'r) cg_result" where
  "gen_cond W cond truth els c =
     (let (lElse, c) = newLabel c;
          (lEnd, c) = newLabel c in
      cgb (walk_opt W cond c) (\<lambda>c.
      let c = (if cond \<noteq> None then emit OJnm (VInt lElse) c else c);
          c = emit OSetmatched (VBool False) c in
      cgb (W truth c) (\<lambda>c.
      let c = emit OSetmatched (VBool True) c;
          c = (if els \<noteq> None then emit OJmp (VInt lEnd) c else c);
          c = setLabel lElse c in
      cgb (walk_opt W els c) (\<lambda>c. ok (setLabel lEnd c)))))"

text \<open>The short circuit of AND (\<open>jumpOp\<close> is \<open>OJnm\<close>, the exit pushes false) and of OR (\<open>OJm\<close>, true).\<close>

definition gen_short :: "('f node \<Rightarrow> ('f, 'r) codegen \<Rightarrow> ('f, 'r) cg_result) \<Rightarrow> opcode \<Rightarrow> bool \<Rightarrow> 'f node \<Rightarrow> 'f node \<Rightarrow> ('f, 'r) codegen \<Rightarrow> ('f, 'r) cg_result" where
  "gen_short W jumpOp exit lhs rhs c =
     (let (lExit, c) = newLabel c;
          (lEnd, c) = newLabel c in
      cgb (W lhs c) (\<lambda>c.
      cgb (W rhs (emit jumpOp (VInt lExit) c)) (\<lambda>c.
      let c = emit jumpOp (VInt lExit) c;
          c = emit OPush (VBool (\<not> exit)) c;
          c = emit OJmp (VInt lEnd) c;
          c = setLabel lExit c;
          c = emit OPush (VBool exit) c in
      ok (setLabel lEnd c))))"

primrec Walk :: "('f, 'r) cg_env \<Rightarrow> nat \<Rightarrow> 'f node \<Rightarrow> ('f, 'r) codegen \<Rightarrow> ('f, 'r) cg_result" where
  "Walk E 0 = (\<lambda>n c. None)"
| "Walk E (Suc fuel) = (\<lambda>node c.
     let W = Walk E fuel in
     case node of
       StmtList ns \<Rightarrow> walk_list W ns c
     | ExprList ns _ \<Rightarrow> walk_list W ns c
     | VarDecl d \<Rightarrow> ok (gen_VarDecl E d c)
     | CondStmt cond truth els \<Rightarrow> gen_cond W cond truth els c
     | PatternExpr pid pat \<Rightarrow> ok (gen_PatternExpr E pid pat c)
     | PatternFragment \<Rightarrow> ok c
     | StringLit text \<Rightarrow> ok (emit OStr (VInt (int (length (cg_Strings c)))) (c\<lparr>cg_Strings := cg_Strings c @ [text]\<rparr>))
     | IntLit i \<Rightarrow> ok (emit OPush (VInt64 i) c)
     | FloatLit f \<Rightarrow> ok (emit OPush (VFloat f) c)
     | StopStmt \<Rightarrow> ok (emit OStop VNil c)
     | IDTerm symb lvalue t \<Rightarrow> ok (gen_IDTerm symb lvalue t c)
     | CaprefTerm symb t \<Rightarrow> ok (gen_CaprefTerm symb t c)
     | IndexedExpr lhs index _ \<Rightarrow>
         cgb (case index of ExprList args _ \<Rightarrow> walk_index W args c | _ \<Rightarrow> ok c) (W lhs)
     | DecoDecl \<Rightarrow> ok c
     | DecoStmt decl block \<Rightarrow>
         (let c = c\<lparr>cg_decos := block # cg_decos c\<rparr> in case decl of None \<Rightarrow> ok (cg_errorf c) | Some b \<Rightarrow> W b c)
     | NextStmt \<Rightarrow> (case cg_decos c of [] \<Rightarrow> Some (Inl IndexOutOfRange) | block # rest \<Rightarrow> W block (c\<lparr>cg_decos := rest\<rparr>))
     | OtherwiseStmt \<Rightarrow> ok (emit OOtherwise VNil c)
     | DelStmt n expiry \<Rightarrow>
         cgb (W n (if 0 < sint expiry then emit OPush (VDuration expiry) c else c))
           (\<lambda>c. Some (overwrite_last (if 0 < sint expiry then OExpire else ODel) c))
     | BinaryExpr lhs rhs op t \<Rightarrow>
         (if op = B_AND then gen_short W OJnm False lhs rhs c
          else if op = B_OR then gen_short W OJm True lhs rhs c
          else
            cgb (if op = B_ADD_ASSIGN \<and> \<not> Equals t T_Int then W lhs c else ok c) (\<lambda>c.
            cgb (W lhs c) (\<lambda>c. cgb (W rhs c) (\<lambda>c. ok (gen_binary op lhs rhs t c)))))
     | BuiltinExpr name args t \<Rightarrow>
         cgb (case args of None \<Rightarrow> ok c | Some ns \<Rightarrow> walk_list W ns c) (\<lambda>c. Some (gen_builtin name args t c))
     | UnaryExpr e op _ \<Rightarrow> cgb (W e c) (\<lambda>c. Some (gen_unary e op c))
     | ConvExpr n t \<Rightarrow> cgb (W n c) (\<lambda>c. ok (or_error c (emitConversion (node_Type n) t c))))"

lemma Walk_node:
  "Walk E (Suc k) (StmtList ns) c = walk_list (Walk E k) ns c"
  "Walk E (Suc k) (VarDecl d) c = ok (gen_VarDecl E d c)"
  "Walk E (Suc k) (CondStmt cond truth els) c = gen_cond (Walk E k) cond truth els c"
  "Walk E (Suc k) (PatternExpr pid pat) c = ok (gen_PatternExpr E pid pat c)"
  "Walk E (Suc k) (IDTerm symb lvalue t) c = ok (gen_IDTerm symb lvalue t c)"
  "Walk E (Suc k) (UnaryExpr e op t) c = cgb (Walk E k e c) (\<lambda>c. Some (gen_unary e op c))"
  by simp_all

subsection \<open>Jumps\<close>

definition write_jump :: "int list \<Rightarrow> 'f instr \<Rightarrow> ('f instr \<times> bool) go" where
  "write_jump l i =
     (if is_jump i then
        (case Operand i of
           VInt index \<Rightarrow>
             (if index > int (length l) then Inr (i, False)
              else
                (case at_int l index of
                   None \<Rightarrow> Inl IndexOutOfRange
                 | Some offset \<Rightarrow> if offset < 0 then Inr (i, False) else Inr (i\<lparr>Operand := VInt offset\<rparr>, True)))
         | _ \<Rightarrow> Inl (ExplicitPanic ''interface conversion''))
      else Inr (i, True))"

definition writeJumps :: "('f, 'r) codegen \<Rightarrow> ('f, 'r) codegen go" where
  "writeJumps c =
     foldM (\<lambda>c j. and_then (write_jump (cg_l c) (cg_Program c ! j)) (\<lambda>(i, good).
         let c = c\<lparr>cg_Program := (cg_Program c)[j := i]\<rparr> in Inr (if good then c else cg_errorf c)))
       c [0..<length (cg_Program c)]"

definition new_codegen :: "'f mt_heap \<Rightarrow> ('f, 'r) codegen" where
  "new_codegen h = \<lparr>cg_errors = 0, cg_Program = [], cg_Strings = [], cg_Regexps = [], cg_heap = h, cg_Metrics = [], cg_l = [], cg_decos = [],
     cg_binding = Map.empty, cg_Index = (\<lambda>_. 0)\<rparr>"

text \<open>The object, or \<open>None\<close> when errors were reported; \<open>h\<close> is the heap on which the metrics are allocated.\<close>

definition CodeGen :: "('f, 'r) cg_env \<Rightarrow> nat \<Rightarrow> 'f mt_heap \<Rightarrow> 'f node \<Rightarrow> (('f, 'r) codegen option) go option" where
  "CodeGen E fuel h n =
     (case Walk E fuel n (new_codegen h) of
        None \<Rightarrow> None
      | Some (Inl p) \<Rightarrow> Some (Inl p)
      | Some (Inr c) \<Rightarrow> Some (and_then (writeJumps c) (\<lambda>c. Inr (if cg_errors c > 0 then None else Some c))))"

text \<open>The machine for the object.\<close>

definition vm_New :: "bool \<Rightarrow> ('f, 'r) codegen \<Rightarrow> ('f, 'r) vm" where
  "vm_New syslogUseCurrentYear c =
     \<lparr>vm_prog = cg_Program c, vm_re = cg_Regexps c, vm_str = cg_Strings c, vm_Metrics = cg_Metrics c, vm_syslogUseCurrentYear = syslogUseCurrentYear\<rparr>"

subsection \<open>Enough fuel\<close>

fun nweight :: "'f node \<Rightarrow> nat" where
  "nweight (StmtList ns) = 1 + sum_list (map nweight ns)"
| "nweight (ExprList ns _) = 1 + sum_list (map nweight ns)"
| "nweight (CondStmt cond truth els) = 1 + (case cond of None \<Rightarrow> 0 | Some n \<Rightarrow> nweight n) + nweight truth + (case els of None \<Rightarrow> 0 | Some n \<Rightarrow> nweight n)"
| "nweight (BuiltinExpr _ args _) = 1 + (case args of None \<Rightarrow> 0 | Some ns \<Rightarrow> sum_list (map nweight ns))"
| "nweight (BinaryExpr lhs rhs _ _) = 1 + 2 * nweight lhs + nweight rhs"
| "nweight (UnaryExpr e _ _) = 1 + nweight e"
| "nweight (IndexedExpr lhs index _) = 1 + nweight lhs + nweight index"
| "nweight (DecoStmt decl block) = 1 + (case decl of None \<Rightarrow> 0 | Some n \<Rightarrow> nweight n) + nweight block"
| "nweight (DelStmt n _) = 1 + nweight n"
| "nweight (ConvExpr n _) = 1 + nweight n"
| "nweight _ = 1"

definition dsum :: "('f, 'r) codegen \<Rightarrow> nat" where
  "dsum c = sum_list (map nweight (cg_decos c))"

text \<open>The walk returned, and the blocks that wait on the stack weigh at most \<open>b\<close>.\<close>

definition fits :: "nat \<Rightarrow> ('f, 'r) cg_result \<Rightarrow> bool" where
  "fits b r \<longleftrightarrow> (\<exists>x. r = Some x \<and> (\<forall>c. x = Inr c \<longrightarrow> dsum c \<le> b))"

lemma fits_ok [intro]: "dsum c \<le> b \<Longrightarrow> fits b (ok c)"
  by (simp add: fits_def ok_def)

lemma fits_go: "(\<And>c. r = Inr c \<Longrightarrow> dsum c \<le> b) \<Longrightarrow> fits b (Some r)"
  by (auto simp: fits_def)

lemma fits_cgb: "fits b r \<Longrightarrow> (\<And>c. dsum c \<le> b \<Longrightarrow> fits b' (f c)) \<Longrightarrow> fits b' (cgb r f)"
  by (cases r) (auto simp: fits_def cgb_def split: sum.split)

lemma dsum_simps [simp]:
  "dsum (emit op x c) = dsum c" "dsum (cg_errorf c) = dsum c" "dsum (setLabel l c) = dsum c" "dsum (snd (newLabel c)) = dsum c"
  "dsum (gen_VarDecl E d c) = dsum c" "dsum (gen_PatternExpr E p pat c) = dsum c" "dsum (c\<lparr>cg_Strings := ss\<rparr>) = dsum c"
  "dsum (c\<lparr>cg_l := ls\<rparr>) = dsum c" "dsum (gen_index_conv t c) = dsum c"
  by (auto simp: dsum_def emit_def cg_errorf_def setLabel_def newLabel_def gen_VarDecl_def gen_PatternExpr_def gen_index_conv_def Let_def split: option.split prod.split)

lemma dsum_gen [simp]:
  "dsum (gen_IDTerm symb lv t c) = dsum c" "dsum (gen_CaprefTerm csymb t c) = dsum c" "dsum (gen_comparison op lt rt c) = dsum c"
  "dsum (gen_add_assign t c) = dsum c"
  by (auto simp: gen_IDTerm_def gen_CaprefTerm_def gen_comparison_def gen_add_assign_def newLabel_def Let_def split: option.split prod.split)

lemma dsum_binary [simp]: "dsum (gen_binary op lhs rhs t c) = dsum c"
  by (auto simp: gen_binary_def Let_def split: option.split node.split)

lemma dsum_conv [simp]: "dsum (or_error c (emitConversion t u c)) = dsum c"
  by (auto simp: or_error_def emitConversion_def)

lemma dsum_builtin: "gen_builtin name args t c = Inr c' \<Longrightarrow> dsum c' = dsum c"
  by (auto simp: gen_builtin_def Let_def split: if_splits option.splits list.splits node.splits)

lemma dsum_unary: "gen_unary e op c = Inr c' \<Longrightarrow> dsum c' = dsum c"
  by (auto simp: gen_unary_def split: unop.splits node.splits)

lemma dsum_overwrite: "overwrite_last op c = Inr c' \<Longrightarrow> dsum c' = dsum c"
  by (auto simp: overwrite_last_def dsum_def split: if_splits)

definition walks :: "('f node \<Rightarrow> ('f, 'r) codegen \<Rightarrow> ('f, 'r) cg_result) \<Rightarrow> nat \<Rightarrow> bool" where
  "walks W k \<longleftrightarrow> (\<forall>n c. nweight n + dsum c < k \<longrightarrow> fits (dsum c + nweight n) (W n c))"

lemma walksD: "walks W k \<Longrightarrow> nweight n + dsum c < k \<Longrightarrow> dsum c + nweight n \<le> b \<Longrightarrow> fits b (W n c)"
  unfolding walks_def fits_def by (meson order.trans)

lemma walks_list:
  assumes "walks W k"
  shows "sum_list (map nweight ns) + dsum c < k \<Longrightarrow> dsum c + sum_list (map nweight ns) \<le> b \<Longrightarrow> fits b (walk_list W ns c)"
proof (induction ns arbitrary: c)
  case (Cons n ns)
  have "fits (dsum c + nweight n) (W n c)" using Cons.prems(1) by (intro walksD[OF assms]) auto
  then show ?case unfolding walk_list.simps
    by (rule fits_cgb) (use Cons.prems in \<open>auto intro!: Cons.IH\<close>)
qed auto

lemma walks_index:
  assumes "walks W k"
  shows "sum_list (map nweight ns) + dsum c < k \<Longrightarrow> dsum c + sum_list (map nweight ns) \<le> b \<Longrightarrow> fits b (walk_index W ns c)"
proof (induction ns arbitrary: c)
  case (Cons n ns)
  have "fits (dsum c + nweight n) (W n c)" using Cons.prems(1) by (intro walksD[OF assms]) auto
  then show ?case unfolding walk_index.simps
    by (rule fits_cgb) (use Cons.prems in \<open>auto intro!: Cons.IH\<close>)
qed auto

lemma walks_opt:
  assumes "walks W k" and "(case n of None \<Rightarrow> 0 | Some x \<Rightarrow> nweight x) + dsum c < k" and "dsum c + (case n of None \<Rightarrow> 0 | Some x \<Rightarrow> nweight x) \<le> b"
  shows "fits b (walk_opt W n c)"
  using assms by (cases n) (auto simp: walk_opt_def intro: walksD[OF assms(1)])

lemma walks_cond:
  assumes W: "walks W k" and k: "nweight (CondStmt cond truth els) + dsum c < Suc k"
  shows "fits (dsum c + nweight (CondStmt cond truth els)) (gen_cond W cond truth els c)"
proof -
  let ?c = "case cond of None \<Rightarrow> 0 | Some n \<Rightarrow> nweight n" and ?e = "case els of None \<Rightarrow> 0 | Some n \<Rightarrow> nweight n"
  have "fits (dsum c + ?c) (walk_opt W cond (c\<lparr>cg_l := cg_l c @ [-1] @ [-1]\<rparr>))" using k by (intro walks_opt[OF W]) auto
  then show ?thesis unfolding gen_cond_def newLabel_def Let_def prod.case
    apply simp
    apply (erule fits_cgb)
    apply (rule fits_cgb[where b = "dsum c + ?c + nweight truth"])
     apply (rule walksD[OF W]; use k in auto)
    apply (rule fits_cgb[where b = "dsum c + ?c + nweight truth + ?e"])
     apply (rule walks_opt[OF W]; use k in auto)
    apply auto
    done
qed

lemma walks_short:
  assumes W: "walks W k" and k: "1 + 2 * nweight lhs + nweight rhs + dsum c < Suc k"
  shows "fits (dsum c + (1 + 2 * nweight lhs + nweight rhs)) (gen_short W jop ex lhs rhs c)"
proof -
  have "fits (dsum c + nweight lhs) (W lhs (c\<lparr>cg_l := cg_l c @ [-1] @ [-1]\<rparr>))" using k by (intro walksD[OF W]) auto
  then show ?thesis unfolding gen_short_def newLabel_def Let_def prod.case
    apply simp
    apply (erule fits_cgb)
    apply (rule fits_cgb[where b = "dsum c + nweight lhs + nweight rhs"])
     apply (rule walksD[OF W]; use k in auto)
    apply auto
    done
qed

lemma Walk_walks: "walks (Walk E fuel :: 'f node \<Rightarrow> ('f, 'r) codegen \<Rightarrow> ('f, 'r) cg_result) fuel"
proof (induction fuel)
  case (Suc k)
  note W = walksD[OF Suc.IH]
  have "fits (dsum c + nweight n) (Walk E (Suc k) n c)" if k: "nweight n + dsum c < Suc k" for n :: "'f node" and c :: "('f, 'r) codegen"
  proof (cases n)
    case (StmtList ns)
    with k show ?thesis by (auto intro!: walks_list[OF Suc.IH])
  next
    case (ExprList ns t)
    with k show ?thesis by (auto intro!: walks_list[OF Suc.IH])
  next
    case (CondStmt cond truth els)
    with k show ?thesis using walks_cond[OF Suc.IH] by simp
  next
    case (IndexedExpr lhs index t)
    have "fits (dsum c + nweight index) (case index of ExprList args _ \<Rightarrow> walk_index (Walk E k) args c | _ \<Rightarrow> ok c)"
      using k IndexedExpr by (auto intro!: walks_index[OF Suc.IH] split: node.split)
    then have "fits (dsum c + nweight n) (cgb (case index of ExprList args _ \<Rightarrow> walk_index (Walk E k) args c | _ \<Rightarrow> ok c) (Walk E k lhs))"
      by (rule fits_cgb) (use k IndexedExpr in \<open>auto intro!: W\<close>)
    then show ?thesis by (simp add: IndexedExpr Let_def)
  next
    case (DecoStmt decl block)
    have "dsum (c\<lparr>cg_decos := block # cg_decos c\<rparr>) = nweight block + dsum c" by (simp add: dsum_def)
    with k DecoStmt show ?thesis by (auto intro!: W split: option.split)
  next
    case NextStmt
    show ?thesis
    proof (cases "cg_decos c")
      case Nil
      then show ?thesis by (simp add: NextStmt fits_def)
    next
      case (Cons block rest)
      then have "dsum c = nweight block + dsum (c\<lparr>cg_decos := rest\<rparr>)" by (simp add: dsum_def)
      with k NextStmt Cons show ?thesis by (auto intro!: W)
    qed
  next
    case (DelStmt m expiry)
    let ?c = "if 0 < sint expiry then emit OPush (VDuration expiry) c else c"
    have "fits (dsum c + nweight m) (Walk E k m ?c)" using k DelStmt by (auto intro!: W)
    then have "fits (dsum c + nweight n) (cgb (Walk E k m ?c) (\<lambda>c. Some (overwrite_last (if 0 < sint expiry then OExpire else ODel) c)))"
      by (rule fits_cgb) (use DelStmt in \<open>auto intro!: fits_go dest!: dsum_overwrite\<close>)
    then show ?thesis by (simp add: DelStmt)
  next
    case (BinaryExpr lhs rhs op t)
    show ?thesis
    proof (cases "op = B_AND \<or> op = B_OR")
      case True
      with k BinaryExpr show ?thesis using walks_short[OF Suc.IH, of lhs rhs c] by (auto simp del: One_nat_def)
    next
      case False
      have "fits (dsum c + nweight lhs) (if op = B_ADD_ASSIGN \<and> \<not> Equals t T_Int then Walk E k lhs c else ok c)"
        using k BinaryExpr by (auto intro!: W)
      then have "fits (dsum c + nweight n) (cgb (if op = B_ADD_ASSIGN \<and> \<not> Equals t T_Int then Walk E k lhs c else ok c) (\<lambda>c.
            cgb (Walk E k lhs c) (\<lambda>c. cgb (Walk E k rhs c) (\<lambda>c. ok (gen_binary op lhs rhs t c)))))"
      proof (rule fits_cgb)
        fix c1 :: "('f, 'r) codegen" assume c1: "dsum c1 \<le> dsum c + nweight lhs"
        have "fits (dsum c + 2 * nweight lhs) (Walk E k lhs c1)" using k BinaryExpr c1 by (auto intro!: W)
        then show "fits (dsum c + nweight n) (cgb (Walk E k lhs c1) (\<lambda>c. cgb (Walk E k rhs c) (\<lambda>c. ok (gen_binary op lhs rhs t c))))"
        proof (rule fits_cgb)
          fix c2 :: "('f, 'r) codegen" assume c2: "dsum c2 \<le> dsum c + 2 * nweight lhs"
          have "fits (dsum c + 2 * nweight lhs + nweight rhs) (Walk E k rhs c2)" using k BinaryExpr c2 by (auto intro!: W)
          then show "fits (dsum c + nweight n) (cgb (Walk E k rhs c2) (\<lambda>c. ok (gen_binary op lhs rhs t c)))"
            by (rule fits_cgb) (use BinaryExpr in auto)
        qed
      qed
      with False BinaryExpr show ?thesis by (simp add: Let_def)
    qed
  next
    case (BuiltinExpr name args t)
    have "fits (dsum c + nweight n) (case args of None \<Rightarrow> ok c | Some ns \<Rightarrow> walk_list (Walk E k) ns c)"
      using k BuiltinExpr by (auto intro!: walks_list[OF Suc.IH] split: option.split)
    then have "fits (dsum c + nweight n) (cgb (case args of None \<Rightarrow> ok c | Some ns \<Rightarrow> walk_list (Walk E k) ns c) (\<lambda>c. Some (gen_builtin name args t c)))"
      by (rule fits_cgb) (auto intro!: fits_go dest!: dsum_builtin)
    then show ?thesis by (simp add: BuiltinExpr Let_def)
  next
    case (UnaryExpr e op t)
    have "fits (dsum c + nweight e) (Walk E k e c)" using k UnaryExpr by (auto intro!: W)
    then have "fits (dsum c + nweight n) (cgb (Walk E k e c) (\<lambda>c. Some (gen_unary e op c)))"
      by (rule fits_cgb) (use UnaryExpr in \<open>auto intro!: fits_go dest!: dsum_unary\<close>)
    then show ?thesis by (simp add: UnaryExpr)
  next
    case (ConvExpr m t)
    have "fits (dsum c + nweight m) (Walk E k m c)" using k ConvExpr by (auto intro!: W)
    then have "fits (dsum c + nweight n) (cgb (Walk E k m c) (\<lambda>c. ok (or_error c (emitConversion (node_Type m) t c))))"
      by (rule fits_cgb) (use ConvExpr in auto)
    then show ?thesis by (simp add: ConvExpr)
  qed auto
  then show ?case by (simp add: walks_def)
qed (simp add: walks_def)

subsection \<open>The generated code\<close>

text \<open>Every jump names a label that is not yet set or points forward; operands are no addresses; the metrics exist and are consistent.\<close>

definition jump_ok :: "int list \<Rightarrow> nat \<Rightarrow> nat \<Rightarrow> 'f instr \<Rightarrow> bool" where
  "jump_ok l len j i \<longleftrightarrow> (is_jump i \<longrightarrow>
     (\<exists>k. Operand i = VInt (int k) \<and> k < length l \<and> (l ! k = -1 \<or> int j < l ! k \<and> l ! k \<le> int len)))"

definition cg_inv :: "('f, 'r) codegen \<Rightarrow> bool" where
  "cg_inv c \<longleftrightarrow>
     (\<forall>j < length (cg_Program c). jump_ok (cg_l c) (length (cg_Program c)) j (cg_Program c ! j)) \<and>
     list_all (\<lambda>i. no_address (Operand i)) (cg_Program c) \<and>
     heap_ok (cg_heap c) \<and> list_all (\<lambda>m. m < length (mh_metrics (cg_heap c))) (cg_Metrics c)"

definition cg_good :: "('f, 'r) codegen \<Rightarrow> ('f, 'r) codegen \<Rightarrow> bool" where
  "cg_good c c' \<longleftrightarrow> (cg_inv c \<longrightarrow> cg_inv c') \<and> prefix (cg_l c) (cg_l c')"

lemma cg_good_refl [simp]: "cg_good c c" and cg_good_trans: "cg_good c c1 \<Longrightarrow> cg_good c1 c2 \<Longrightarrow> cg_good c c2"
  by (auto simp: cg_good_def)

definition plain_op :: "opcode \<Rightarrow> bool" where
  "plain_op op \<longleftrightarrow> op \<notin> {OJmp, OJm, OJnm}"

lemma cg_good_emit:
  assumes "plain_op op" and "no_address x" and "cg_good c c1"
  shows "cg_good c (emit op x c1)"
proof -
  have "cg_inv (emit op x c1)" if i: "cg_inv c1"
    unfolding cg_inv_def
  proof (intro conjI allI impI)
    fix j assume "j < length (cg_Program (emit op x c1))"
    then consider "j < length (cg_Program c1)" | "j = length (cg_Program c1)" by (auto simp: emit_def less_Suc_eq)
    then show "jump_ok (cg_l (emit op x c1)) (length (cg_Program (emit op x c1))) j (cg_Program (emit op x c1) ! j)"
    proof cases
      case 1
      then have "jump_ok (cg_l c1) (length (cg_Program c1)) j (cg_Program c1 ! j)" using i by (simp add: cg_inv_def)
      with 1 show ?thesis by (force simp: emit_def nth_append jump_ok_def)
    next
      case 2
      then show ?thesis using assms(1) by (simp add: emit_def jump_ok_def is_jump_def plain_op_def)
    qed
  qed (use i assms(2) in \<open>auto simp: cg_inv_def emit_def\<close>)
  with assms(3) show ?thesis by (auto simp: cg_good_def emit_def)
qed

lemma cg_good_cong: "cg_Program c1 = cg_Program c2 \<Longrightarrow> cg_l c1 = cg_l c2 \<Longrightarrow> cg_heap c1 = cg_heap c2 \<Longrightarrow> cg_Metrics c1 = cg_Metrics c2 \<Longrightarrow> cg_good c c1 \<Longrightarrow> cg_good c c2"
  by (auto simp: cg_good_def cg_inv_def)

lemma cg_good_errorf [simp]: "cg_good c (cg_errorf c1) = cg_good c c1"
  by (auto simp: cg_good_def cg_errorf_def cg_inv_def)

lemma plain_ops [simp]:
  "plain_op OPush" "plain_op OStr" "plain_op OStop" "plain_op OMload" "plain_op ODload" "plain_op OFget" "plain_op OIget" "plain_op OSget" "plain_op OCapref"
  "plain_op OS2f" "plain_op OS2i" "plain_op OF2s" "plain_op OI2s" "plain_op OI2f" "plain_op OOtherwise" "plain_op OSetmatched" "plain_op OInc" "plain_op ODec"
  "plain_op ONeg" "plain_op ONot" "plain_op OMatch" "plain_op OSmatch" "plain_op OAnd" "plain_op OOr" "plain_op OXor" "plain_op OShl" "plain_op OShr"
  "plain_op ORsubst" "plain_op OSubst" "plain_op (builtin_opcode name)" "plain_op (cmp_opcode lt rt)" "plain_op OExpire" "plain_op ODel"
  by (auto simp: plain_op_def builtin_opcode_def cmp_opcode_def)

lemma plain_typed: "getOpcodeForType op t = Some opc \<Longrightarrow> plain_op opc"
proof -
  have "list_all (\<lambda>(t, opc). plain_op opc) (typedOperators op)" by (simp add: typedOperators_def plain_op_def split: binop.split)
  then show "getOpcodeForType op t = Some opc \<Longrightarrow> plain_op opc"
    by (auto simp: getOpcodeForType_def find_Some_iff list_all_length)
qed

lemma cg_good_conv: "cg_good c c1 \<Longrightarrow> cg_good c (or_error c1 (emitConversion t u c1))"
  by (auto simp: or_error_def emitConversion_def intro!: cg_good_emit)

lemma cg_good_index_conv: "cg_good c c1 \<Longrightarrow> cg_good c (gen_index_conv t c1)"
  by (auto simp: gen_index_conv_def intro!: cg_good_emit)

lemma cg_good_PatternExpr: "cg_good c (gen_PatternExpr E p pat c)"
  by (auto simp: gen_PatternExpr_def intro: cg_good_cong split: option.split)

lemma cg_good_IDTerm: "cg_good c (gen_IDTerm symb lv t c)"
  by (auto simp: gen_IDTerm_def Let_def intro!: cg_good_emit split: option.split)

lemma cg_good_CaprefTerm: "cg_good c (gen_CaprefTerm symb t c)"
  by (auto simp: gen_CaprefTerm_def Let_def intro!: cg_good_emit split: option.split)

lemma cg_good_add_assign: "cg_good c (gen_add_assign t c)"
  by (auto simp: gen_add_assign_def Let_def intro!: cg_good_emit dest: plain_typed split: option.split)

lemma cg_good_builtin: "gen_builtin name args t c = Inr c' \<Longrightarrow> cg_good c c'"
  by (auto simp: gen_builtin_def Let_def intro!: cg_good_emit cg_good_conv split: if_splits option.splits list.splits node.splits)

lemma cg_good_unary: "gen_unary e op c = Inr c' \<Longrightarrow> cg_good c c'"
  by (auto simp: gen_unary_def intro!: cg_good_emit split: unop.splits node.splits)

lemma cg_good_overwrite:
  assumes "plain_op op" and "overwrite_last op c = Inr c'"
  shows "cg_good c c'"
proof -
  have ne: "cg_Program c \<noteq> []" and c': "c' = c\<lparr>cg_Program := butlast (cg_Program c) @ [(last (cg_Program c))\<lparr>Opcode := op\<rparr>]\<rparr>"
    using assms(2) by (auto simp: overwrite_last_def split: if_splits)
  obtain p i where p: "cg_Program c = p @ [i]" using ne by (metis append_butlast_last_id)
  have "cg_inv c'" if i': "cg_inv c" unfolding cg_inv_def
  proof (intro conjI allI impI)
    fix j assume j: "j < length (cg_Program c')"
    show "jump_ok (cg_l c') (length (cg_Program c')) j (cg_Program c' ! j)"
    proof (cases "j < length p")
      case True
      then have "jump_ok (cg_l c) (length (cg_Program c)) j (cg_Program c ! j)" using i' p by (simp add: cg_inv_def)
      with True show ?thesis by (simp add: c' p nth_append)
    next
      case False
      with j assms(1) show ?thesis by (simp add: c' p jump_ok_def is_jump_def plain_op_def nth_append)
    qed
  qed (use i' p in \<open>auto simp: cg_inv_def c'\<close>)
  then show ?thesis by (simp add: cg_good_def c')
qed

lemma metric_ok_settings [simp]:
  "metric_ok (m\<lparr>mm_Buckets := rs\<rparr>) = metric_ok m" "metric_ok (m\<lparr>mm_Source := src\<rparr>) = metric_ok m"
  "metric_ok (m\<lparr>mm_Hidden := hid\<rparr>) = metric_ok m" "metric_ok (m\<lparr>mm_Limit := lim\<rparr>) = metric_ok m"
proof -
  have "lv_key (m\<lparr>mm_Buckets := rs\<rparr>) = lv_key m" "lv_key (m\<lparr>mm_Source := src\<rparr>) = lv_key m"
    "lv_key (m\<lparr>mm_Hidden := hid\<rparr>) = lv_key m" "lv_key (m\<lparr>mm_Limit := lim\<rparr>) = lv_key m"
    by (simp_all add: lv_key_def fun_eq_iff)
  then show "metric_ok (m\<lparr>mm_Buckets := rs\<rparr>) = metric_ok m" "metric_ok (m\<lparr>mm_Source := src\<rparr>) = metric_ok m"
    "metric_ok (m\<lparr>mm_Hidden := hid\<rparr>) = metric_ok m" "metric_ok (m\<lparr>mm_Limit := lim\<rparr>) = metric_ok m"
    by (simp_all add: metric_ok_def)
qed

definition md_ok :: "nat \<Rightarrow> 'f mt_metric \<times> 'f datum list \<Rightarrow> bool" where
  "md_ok n md \<longleftrightarrow> (case md of (m, ds) \<Rightarrow> metric_ok m \<and> n \<le> length ds \<and> (\<forall>i \<in> set (mm_LabelValues m). lv_Value (mm_lvs m ! i) < length ds))"

lemma md_ok_GetDatum:
  assumes "md_ok n (m, ds)" and g: "GetDatum fo now labels m ds = Inr (d, m', ds')"
  shows "md_ok n (m', ds')"
proof -
  have ok: "metric_ok m" and v: "\<forall>i \<in> set (mm_LabelValues m). lv_Value (mm_lvs m ! i) < length ds" and n: "n \<le> length ds"
    using assms(1) by (auto simp: md_ok_def)
  have len: "length labels = length (mm_Keys m)" using g by (auto simp: GetDatum_def split: if_splits)
  show ?thesis
  proof (rule GetDatum_cases[OF ok len, of fo now ds])
    fix i assume "GetDatum fo now labels m ds = Inr (lv_Value (mm_lvs m ! i), m, ds)"
    with g assms(1) show ?thesis by simp
  next
    fix m1 assume a: "FindLabelValueOrNil labels m = None" "metric_ok m1"
      "AppendLabelValue \<lparr>lv_Labels = labels, lv_Value = length ds, lv_Expiry = 0\<rparr> m = Inr m1"
      "GetDatum fo now labels m ds = Inr (length ds, m1, ds @ [new_datum fo now m])"
    with g v n metric_okD(2)[OF ok] metric_ok_Append(2,3)[OF ok _ a(3)] show ?thesis
      by (auto simp: md_ok_def nth_append intro: less_SucI)
  qed
qed

lemma md_ok_zero_counter:
  assumes "md_ok n md" and "zero_counter E dtyp md = Some md'"
  shows "md_ok n md'"
proof -
  obtain m ds where md: "md = (m, ds)" by fastforce
  show ?thesis
  proof (cases "GetDatum (ce_fo E) (ce_now E) [] m ds")
    case (Inr r)
    obtain d m' ds' where r: "r = (d, m', ds')" by (cases r)
    from md_ok_GetDatum[OF assms(1)[unfolded md] Inr[unfolded r]] have "md_ok n (m', ds'[d := x])" for x by (simp add: md_ok_def)
    with assms(2) Inr md r show ?thesis by (auto simp: zero_counter_def split: mt_type.splits sum.splits)
  qed (use assms(2) md in \<open>simp add: zero_counter_def\<close>)
qed

lemma md_ok_histogram_init:
  assumes "md_ok n md" and "histogram_init E v md = Some md'"
  shows "md_ok n md'"
proof -
  obtain m ds where md: "md = (m, ds)" by fastforce
  have "md_ok n (m\<lparr>mm_Buckets := rs\<rparr>, ds)" for rs using assms(1) md by (simp add: md_ok_def)
  with assms(2) md md_ok_GetDatum show ?thesis
    by (fastforce simp: histogram_init_def Let_def split: option.splits if_splits sum.splits)
qed

lemma cg_good_VarDecl: "cg_good c (gen_VarDecl E n c)"
proof -
  let ?dtyp = "metric_type (decl_Type n)" and ?h = "cg_heap c"
  let ?m0 = "(NewMetric (if vd_ExportedName n \<noteq> [] then vd_ExportedName n else vd_Name n) (ce_name E) (vd_Kind n) ?dtyp (vd_Keys n))\<lparr>mm_Source := vd_Pos n\<rparr>"
  let ?md0 = "(?m0, mh_data ?h)"
  let ?md1 = "if vd_Keys n = [] \<and> vd_Kind n = Counter then zero_counter E ?dtyp ?md0 else Some ?md0"
  let ?md2 = "case ?md1 of None \<Rightarrow> None | Some md \<Rightarrow> if vd_Kind n = Histogram then histogram_init E n md else Some md"
  have m0: "md_ok (length (mh_data ?h)) ?md0" by (simp add: md_ok_def) (simp add: NewMetric_def)
  have m1: "md_ok (length (mh_data ?h)) md" if "?md1 = Some md" for md
  proof (cases "vd_Keys n = [] \<and> vd_Kind n = Counter")
    case True
    with that have "zero_counter E ?dtyp ?md0 = Some md" by (simp only: if_True simp_thms)
    then show ?thesis by (rule md_ok_zero_counter[OF m0])
  next
    case False
    with that m0 show ?thesis by (simp only: if_False option.inject)
  qed
  have m2: "md_ok (length (mh_data ?h)) md" if "?md2 = Some md" for md
  proof (cases ?md1)
    case (Some md1)
    show ?thesis
    proof (cases "vd_Kind n = Histogram")
      case True
      with that have "histogram_init E n md1 = Some md" unfolding Some by (simp only: option.case simp_thms if_True)
      then show ?thesis by (rule md_ok_histogram_init[OF m1[OF Some]])
    next
      case False
      with that have "md1 = md" unfolding Some by (simp only: option.case if_False option.inject)
      with m1[OF Some] show ?thesis by simp
    qed
  next
    case None
    with that show ?thesis unfolding None by simp
  qed
  show ?thesis
  proof (cases ?md2)
    case None
    then have "gen_VarDecl E n c = cg_errorf c" unfolding gen_VarDecl_def Let_def by simp
    then show ?thesis by simp
  next
    case (Some md)
    obtain m ds where md: "md = (m, ds)" by fastforce
    let ?m = "m\<lparr>mm_Hidden := vd_Hidden n, mm_Limit := vd_Limit n\<rparr>"
    define c' where "c' = gen_VarDecl E n c"
    have c': "cg_heap c' = \<lparr>mh_data = ds, mh_metrics = mh_metrics ?h @ [?m]\<rparr>" "cg_Metrics c' = cg_Metrics c @ [length (mh_metrics ?h)]"
      "cg_Program c' = cg_Program c" "cg_l c' = cg_l c"
      unfolding c'_def gen_VarDecl_def Let_def Some md by simp_all
    have ok: "metric_ok ?m" "\<forall>i \<in> set (mm_LabelValues ?m). lv_Value (mm_lvs ?m ! i) < length ds" "length (mh_data ?h) \<le> length ds"
      using m2[OF Some] by (auto simp: md md_ok_def)
    have "heap_ok (cg_heap c')" if "heap_ok ?h" unfolding c'(1) heap_ok_def using that ok by (fastforce simp: heap_ok_def)
    then have "cg_inv c'" if "cg_inv c" using that c' unfolding cg_inv_def by (auto simp: list_all_iff)
    then show ?thesis by (simp add: cg_good_def c'(4) flip: c'_def)
  qed
qed

text \<open>A jump to a label that is not yet set, and setting a label.\<close>

lemma cg_inv_jump:
  assumes "cg_inv c" and "op \<in> {OJmp, OJm, OJnm}" and "k < length (cg_l c)" and "cg_l c ! k = -1"
  shows "cg_inv (emit op (VInt (int k)) c)"
  unfolding cg_inv_def
proof (intro conjI allI impI)
  let ?c = "emit op (VInt (int k)) c"
  fix j assume "j < length (cg_Program ?c)"
  then consider "j < length (cg_Program c)" | "j = length (cg_Program c)" by (auto simp: emit_def less_Suc_eq)
  then show "jump_ok (cg_l ?c) (length (cg_Program ?c)) j (cg_Program ?c ! j)"
  proof cases
    case 1
    then have "jump_ok (cg_l c) (length (cg_Program c)) j (cg_Program c ! j)" using assms(1) by (simp add: cg_inv_def)
    with 1 show ?thesis by (force simp: emit_def nth_append jump_ok_def)
  next
    case 2
    with assms show ?thesis by (auto simp: emit_def jump_ok_def)
  qed
qed (use assms(1) in \<open>auto simp: cg_inv_def emit_def\<close>)

lemma cg_inv_setLabel:
  assumes "cg_inv c"
  shows "cg_inv (setLabel (int k) c)"
proof -
  have "jump_ok ((cg_l c)[k := int (length (cg_Program c))]) (length (cg_Program c)) j i"
    if j: "j < length (cg_Program c)" and old: "jump_ok (cg_l c) (length (cg_Program c)) j i" for j i
  proof (cases "is_jump i")
    case True
    with old obtain k' where k': "Operand i = VInt (int k')" "k' < length (cg_l c)"
      "cg_l c ! k' = -1 \<or> int j < cg_l c ! k' \<and> cg_l c ! k' \<le> int (length (cg_Program c))" by (auto simp: jump_ok_def)
    then show ?thesis using j unfolding jump_ok_def by (intro impI exI[of _ k'], cases "k = k'") auto
  qed (simp add: jump_ok_def)
  with assms show ?thesis by (auto simp: cg_inv_def setLabel_def cg_pc_def)
qed

text \<open>A construct with two labels of its own: \<open>c\<close> is the state before they were made.\<close>

definition inside :: "('f, 'r) codegen \<Rightarrow> bool \<Rightarrow> ('f, 'r) codegen \<Rightarrow> bool" where
  "inside c first c' \<longleftrightarrow> (cg_inv c \<longrightarrow> cg_inv c') \<and> prefix (cg_l c) (cg_l c') \<and> length (cg_l c) + 2 \<le> length (cg_l c') \<and>
     (first \<longrightarrow> cg_l c' ! length (cg_l c) = -1) \<and> cg_l c' ! (length (cg_l c) + 1) = -1"

lemma inside_new: "inside c True (snd (newLabel (snd (newLabel c))))"
  by (auto simp: inside_def newLabel_def cg_inv_def jump_ok_def nth_append)

lemma inside_good:
  assumes "inside c b c1" and "cg_good c1 c2"
  shows "inside c b c2"
proof -
  have "cg_l c2 ! k = cg_l c1 ! k" if "k < length (cg_l c1)" for k using assms(2) that by (auto simp: cg_good_def prefix_def nth_append)
  with assms show ?thesis by (auto simp: inside_def cg_good_def dest: prefix_length_le)
qed

lemma inside_emit: "inside c b c1 \<Longrightarrow> plain_op op \<Longrightarrow> no_address x \<Longrightarrow> inside c b (emit op x c1)"
  by (erule inside_good) (simp add: cg_good_emit)

lemma inside_jump:
  assumes "inside c b c1" and "op \<in> {OJmp, OJm, OJnm}" and "b \<and> k = length (cg_l c) \<or> k = length (cg_l c) + 1"
  shows "inside c b (emit op (VInt (int k)) c1)"
  using assms cg_inv_jump[of c1 op k] by (auto simp: inside_def emit_def)

lemma inside_first:
  assumes "inside c b c1"
  shows "inside c False (setLabel (int (length (cg_l c))) c1)"
  using assms cg_inv_setLabel[of c1] by (auto simp: inside_def setLabel_def prefix_def list_update_append split: nat.split)

lemma inside_end:
  assumes "inside c False c1"
  shows "cg_good c (setLabel (int (length (cg_l c) + 1)) c1)"
  using assms cg_inv_setLabel[of c1 "length (cg_l c) + 1"] by (auto simp: inside_def cg_good_def setLabel_def prefix_def list_update_append nat_add_distrib)

subsection \<open>The walk keeps the invariant\<close>

definition cg_goods :: "('f, 'r) codegen \<Rightarrow> ('f, 'r) cg_result \<Rightarrow> bool" where
  "cg_goods c r \<longleftrightarrow> (\<forall>c'. r = Some (Inr c') \<longrightarrow> cg_good c c')"

lemma cg_goods_ok [simp]: "cg_goods c (ok c') \<longleftrightarrow> cg_good c c'"
  by (simp add: cg_goods_def ok_def)

lemma cgb_cases: "cgb r f = Some (Inr c') \<Longrightarrow> \<exists>c1. r = Some (Inr c1) \<and> f c1 = Some (Inr c')"
  by (auto simp: cgb_def split: option.splits sum.splits)

lemma cg_goods_cgb: "cg_goods c r \<Longrightarrow> (\<And>c1. cg_good c c1 \<Longrightarrow> cg_goods c (f c1)) \<Longrightarrow> cg_goods c (cgb r f)"
  by (auto simp: cg_goods_def dest!: cgb_cases)

lemma cg_goods_from: "cg_good c c1 \<Longrightarrow> cg_goods c1 r \<Longrightarrow> cg_goods c r"
  by (auto simp: cg_goods_def intro: cg_good_trans)

definition good_walk :: "('f node \<Rightarrow> ('f, 'r) codegen \<Rightarrow> ('f, 'r) cg_result) \<Rightarrow> bool" where
  "good_walk W \<longleftrightarrow> (\<forall>n c. cg_goods c (W n c))"

lemma good_walkD: "good_walk W \<Longrightarrow> cg_good c c1 \<Longrightarrow> cg_goods c (W n c1)"
  by (auto simp: good_walk_def intro: cg_goods_from)

lemma good_walk_list: "good_walk W \<Longrightarrow> cg_good c c1 \<Longrightarrow> cg_goods c (walk_list W ns c1)"
  by (induction ns arbitrary: c1) (auto intro!: cg_goods_cgb intro: good_walkD)

lemma good_walk_index: "good_walk W \<Longrightarrow> cg_good c c1 \<Longrightarrow> cg_goods c (walk_index W ns c1)"
  by (induction ns arbitrary: c1) (auto intro!: cg_goods_cgb intro: good_walkD cg_good_index_conv)

lemma walk_inside: "good_walk W \<Longrightarrow> inside c b c1 \<Longrightarrow> W n c1 = Some (Inr c2) \<Longrightarrow> inside c b c2"
  by (auto simp: good_walk_def cg_goods_def intro: inside_good)

lemma walk_opt_inside: "good_walk W \<Longrightarrow> inside c b c1 \<Longrightarrow> walk_opt W n c1 = Some (Inr c2) \<Longrightarrow> inside c b c2"
  by (auto simp: walk_opt_def ok_def intro: walk_inside split: option.splits)

lemma good_cond:
  assumes W: "good_walk W"
  shows "cg_goods c (gen_cond W cond truth els c)"
  unfolding cg_goods_def
proof (intro allI impI)
  fix c' assume g: "gen_cond W cond truth els c = Some (Inr c')"
  let ?n = "length (cg_l c)"
  define c0 where "c0 = snd (newLabel (snd (newLabel c)))"
  have i0: "inside c True c0" unfolding c0_def by (rule inside_new)
  define cL where "cL = c\<lparr>cg_l := cg_l c @ [-1]\<rparr>"
  have l: "newLabel c = (int ?n, cL)" "newLabel cL = (int (?n + 1), c0)"
    by (simp_all add: newLabel_def c0_def cL_def)
  obtain c1 where c1: "walk_opt W cond c0 = Some (Inr c1)"
    and g1: "cgb (W truth (emit OSetmatched (VBool False) (if cond \<noteq> None then emit OJnm (VInt (int ?n)) c1 else c1))) (\<lambda>c.
      cgb (walk_opt W els (setLabel (int ?n) (if els \<noteq> None then emit OJmp (VInt (int (?n + 1))) (emit OSetmatched (VBool True) c) else emit OSetmatched (VBool True) c)))
        (\<lambda>c. ok (setLabel (int (?n + 1)) c))) = Some (Inr c')"
    using cgb_cases[OF g[unfolded gen_cond_def l Let_def prod.case]] by (auto simp: Let_def)
  have i1: "inside c True c1" by (rule walk_opt_inside[OF W i0 c1])
  then have "inside c True (emit OSetmatched (VBool False) (if cond \<noteq> None then emit OJnm (VInt (int ?n)) c1 else c1))"
    by (auto intro!: inside_emit inside_jump)
  with cgb_cases[OF g1] obtain c2 where i2: "inside c True c2"
    and g2: "cgb (walk_opt W els (setLabel (int ?n) (if els \<noteq> None then emit OJmp (VInt (int (?n + 1))) (emit OSetmatched (VBool True) c2) else emit OSetmatched (VBool True) c2)))
        (\<lambda>c. ok (setLabel (int (?n + 1)) c)) = Some (Inr c')"
    using walk_inside[OF W] by blast
  have "inside c True (if els \<noteq> None then emit OJmp (VInt (int (?n + 1))) (emit OSetmatched (VBool True) c2) else emit OSetmatched (VBool True) c2)"
    using inside_emit[OF i2, of OSetmatched "VBool True"] inside_jump[of c True _ OJmp "?n + 1"] by (auto simp del: of_nat_add)
  from inside_first[OF this] cgb_cases[OF g2] obtain c3 where "inside c False c3" "ok (setLabel (int (?n + 1)) c3) = Some (Inr c')"
    using walk_opt_inside[OF W] by blast
  then show "cg_good c c'" using inside_end[of c c3] by (auto simp: ok_def)
qed

lemma good_short:
  assumes W: "good_walk W" and j: "jop \<in> {OJm, OJnm}"
  shows "cg_goods c (gen_short W jop ex lhs rhs c)"
  unfolding cg_goods_def
proof (intro allI impI)
  fix c' assume g: "gen_short W jop ex lhs rhs c = Some (Inr c')"
  let ?n = "length (cg_l c)"
  define c0 where "c0 = snd (newLabel (snd (newLabel c)))"
  have i0: "inside c True c0" unfolding c0_def by (rule inside_new)
  define cL where "cL = c\<lparr>cg_l := cg_l c @ [-1]\<rparr>"
  have l: "newLabel c = (int ?n, cL)" "newLabel cL = (int (?n + 1), c0)"
    by (simp_all add: newLabel_def c0_def cL_def)
  obtain c1 where c1: "W lhs c0 = Some (Inr c1)"
    and g1: "cgb (W rhs (emit jop (VInt (int ?n)) c1)) (\<lambda>c. ok (setLabel (int (?n + 1)) (emit OPush (VBool ex) (setLabel (int ?n)
      (emit OJmp (VInt (int (?n + 1))) (emit OPush (VBool (\<not> ex)) (emit jop (VInt (int ?n)) c))))))) = Some (Inr c')"
    using cgb_cases[OF g[unfolded gen_short_def l Let_def prod.case]] by (auto simp: Let_def)
  have "inside c True (emit jop (VInt (int ?n)) c1)" using walk_inside[OF W i0 c1] j by (intro inside_jump) auto
  with cgb_cases[OF g1] obtain c2 where i2: "inside c True c2"
    and c': "c' = setLabel (int (?n + 1)) (emit OPush (VBool ex) (setLabel (int ?n)
      (emit OJmp (VInt (int (?n + 1))) (emit OPush (VBool (\<not> ex)) (emit jop (VInt (int ?n)) c2)))))"
    using walk_inside[OF W] unfolding ok_def by blast
  have "inside c True (emit OJmp (VInt (int (?n + 1))) (emit OPush (VBool (\<not> ex)) (emit jop (VInt (int ?n)) c2)))"
    using i2 j by (intro inside_jump inside_emit) auto
  from inside_end[OF inside_emit[OF inside_first[OF this]], of OPush "VBool ex"] show "cg_good c c'" unfolding c' by simp
qed

lemma good_comparison: "cg_good c (gen_comparison op lt rt c)"
proof -
  let ?n = "length (cg_l c)"
  define c0 where "c0 = snd (newLabel (snd (newLabel c)))"
  have i0: "inside c True c0" unfolding c0_def by (rule inside_new)
  define cL where "cL = c\<lparr>cg_l := cg_l c @ [-1]\<rparr>"
  have l: "newLabel c = (int ?n, cL)" "newLabel cL = (int (?n + 1), c0)"
    by (simp_all add: newLabel_def c0_def cL_def)
  obtain arg jop where a: "cmp_args op = (arg, jop)" by fastforce
  have j: "jop \<in> {OJm, OJnm}" using a by (auto simp: cmp_args_def split: binop.splits)
  have "inside c True (emit OJmp (VInt (int (?n + 1))) (emit OPush (VBool True) (emit jop (VInt (int ?n)) (emit (cmp_opcode lt rt) (VInt arg) c0))))"
    using i0 j by (intro inside_jump inside_emit) auto
  from inside_end[OF inside_emit[OF inside_first[OF this]], of OPush "VBool False"]
  show ?thesis unfolding gen_comparison_def l a Let_def prod.case by simp
qed

lemma good_typed: "cg_good c (case getOpcodeForType op t of None \<Rightarrow> cg_errorf c | Some opcode \<Rightarrow> emit opcode VNil c)"
  by (cases "getOpcodeForType op t") (auto intro: cg_good_emit plain_typed)

lemma good_match:
  "cg_good c (case rhs of
     PatternExpr pid _ \<Rightarrow> (let c = emit OSmatch (VInt (cg_Index c pid)) c in if neg then emit ONot VNil c else c)
   | _ \<Rightarrow> cg_errorf c)"
  by (cases rhs) (simp_all add: Let_def cg_good_emit)

lemma good_binary: "cg_good c (gen_binary op lhs rhs t c)"
  by (cases op) (simp_all add: gen_binary_def good_match good_typed good_comparison cg_good_add_assign cg_good_emit)

lemma cg_goods_go: "(\<And>c'. r = Inr c' \<Longrightarrow> cg_good c c') \<Longrightarrow> cg_goods c (Some r)"
  by (auto simp: cg_goods_def)

lemma cg_good_decos: "cg_good c (c\<lparr>cg_decos := ds\<rparr>)" and cg_good_strings: "cg_good c (c\<lparr>cg_Strings := ss\<rparr>)"
  by (auto intro: cg_good_cong)

lemma Walk_good: "good_walk (Walk E fuel :: 'f node \<Rightarrow> ('f, 'r) codegen \<Rightarrow> ('f, 'r) cg_result)"
proof (induction fuel)
  case 0
  then show ?case by (simp add: good_walk_def cg_goods_def)
next
  case (Suc k)
  note W = good_walkD[OF Suc.IH]
  have "cg_goods c (Walk E (Suc k) n c)" for n :: "'f node" and c :: "('f, 'r) codegen"
  proof (cases n)
    case (IndexedExpr lhs index t)
    then show ?thesis
      by (auto simp: Let_def intro!: cg_goods_cgb good_walk_index[OF Suc.IH] W split: node.split)
  next
    case (DecoStmt decl block)
    then show ?thesis by (auto simp: Let_def intro!: W cg_good_decos split: option.split)
  next
    case NextStmt
    then show ?thesis by (auto simp: cg_goods_def split: list.split intro: W[unfolded cg_goods_def, rule_format] cg_good_decos)
  next
    case (DelStmt m expiry)
    have "cg_good c c'" if "cg_good c c1" "overwrite_last (if 0 < sint expiry then OExpire else ODel) c1 = Inr c'" for c1 c'
      using that cg_good_trans cg_good_overwrite[of "if 0 < sint expiry then OExpire else ODel" c1 c'] by (auto split: if_splits)
    then show ?thesis unfolding DelStmt Walk.simps Let_def node.case
      by (intro cg_goods_cgb W cg_goods_go) (auto intro: cg_good_emit)
  next
    case (BinaryExpr lhs rhs op t)
    then show ?thesis
      by (auto simp: Let_def intro!: good_short[OF Suc.IH] cg_goods_cgb W intro: cg_good_trans[OF _ good_binary])
  next
    case (BuiltinExpr name args t)
    then show ?thesis
      by (auto simp: Let_def intro!: cg_goods_cgb good_walk_list[OF Suc.IH] cg_goods_go intro: cg_good_trans[OF _ cg_good_builtin] split: option.split)
  next
    case (UnaryExpr e op t)
    then show ?thesis by (auto simp: Let_def intro!: cg_goods_cgb W cg_goods_go intro: cg_good_trans[OF _ cg_good_unary])
  next
    case (ConvExpr m t)
    then show ?thesis by (auto simp: Let_def intro!: cg_goods_cgb W cg_good_conv)
  qed (auto simp: good_cond[OF Suc.IH] cg_good_VarDecl cg_good_PatternExpr cg_good_IDTerm cg_good_CaprefTerm
      intro!: good_walk_list[OF Suc.IH] cg_good_emit cg_good_strings)
  then show ?case by (simp add: good_walk_def)
qed

text \<open>Writing the jumps: without an error, every label was set.\<close>

lemma write_jump_ok:
  assumes "jump_ok l len j i" and "no_address (Operand i)"
  shows "\<exists>i' good. write_jump l i = Inr (i', good) \<and> no_address (Operand i') \<and> is_jump i' = is_jump i \<and>
    (good \<and> is_jump i \<longrightarrow> (\<exists>n. Operand i' = VInt n \<and> int j < n \<and> n \<le> int len))"
proof (cases "is_jump i")
  case True
  with assms(1) obtain k where k: "Operand i = VInt (int k)" "k < length l" "l ! k = -1 \<or> int j < l ! k \<and> l ! k \<le> int len"
    by (auto simp: jump_ok_def)
  show ?thesis
  proof (cases "l ! k = -1")
    case unset: True
    then have "write_jump l i = Inr (i, False)" using k(1,2) True by (simp add: write_jump_def at_int_def)
    with assms(2) show ?thesis by (intro exI[of _ i] exI[of _ False]) simp
  next
    case False
    then have "write_jump l i = Inr (i\<lparr>Operand := VInt (l ! k)\<rparr>, True)" using k True by (simp add: write_jump_def at_int_def)
    with k(3) False show ?thesis by (intro exI[of _ "i\<lparr>Operand := VInt (l ! k)\<rparr>"] exI[of _ True]) (simp add: is_jump_def)
  qed
next
  case False
  then show ?thesis using assms(2) by (intro exI[of _ i] exI[of _ True]) (simp add: write_jump_def)
qed

definition write_step :: "('f, 'r) codegen \<Rightarrow> nat \<Rightarrow> ('f, 'r) codegen go" where
  "write_step c j = and_then (write_jump (cg_l c) (cg_Program c ! j)) (\<lambda>(i, good).
         let c = c\<lparr>cg_Program := (cg_Program c)[j := i]\<rparr> in Inr (if good then c else cg_errorf c))"

text \<open>What the first \<open>n\<close> steps have done.\<close>

definition written :: "('f, 'r) codegen \<Rightarrow> nat \<Rightarrow> ('f, 'r) codegen \<Rightarrow> bool" where
  "written c n c' \<longleftrightarrow> length (cg_Program c') = length (cg_Program c) \<and> cg_l c' = cg_l c \<and>
    cg_heap c' = cg_heap c \<and> cg_Metrics c' = cg_Metrics c \<and> list_all (\<lambda>i. no_address (Operand i)) (cg_Program c') \<and>
    (\<forall>j < length (cg_Program c). n \<le> j \<longrightarrow> cg_Program c' ! j = cg_Program c ! j) \<and>
    (cg_errors c' = 0 \<longrightarrow> (\<forall>j < n. is_jump (cg_Program c' ! j) \<longrightarrow>
       (\<exists>t. Operand (cg_Program c' ! j) = VInt t \<and> int j < t \<and> t \<le> int (length (cg_Program c')))))"

lemma written_step:
  assumes c: "cg_inv c" and w: "written c n c'" and len: "n < length (cg_Program c)"
  shows "\<exists>c2. write_step c' n = Inr c2 \<and> written c (Suc n) c2"
proof -
  have n: "n < length (cg_Program c')" using len w by (simp add: written_def)
  have "jump_ok (cg_l c') (length (cg_Program c')) n (cg_Program c' ! n)" using c w len by (simp add: written_def cg_inv_def)
  moreover have na: "list_all (\<lambda>i. no_address (Operand i)) (cg_Program c')" using w by (simp add: written_def)
  then have "no_address (Operand (cg_Program c' ! n))" using n unfolding list_all_length by blast
  ultimately obtain i good where i: "write_jump (cg_l c') (cg_Program c' ! n) = Inr (i, good)" "no_address (Operand i)"
    "good \<and> is_jump i \<longrightarrow> (\<exists>t. Operand i = VInt t \<and> int n < t \<and> t \<le> int (length (cg_Program c')))" using write_jump_ok by metis
  define c2 where "c2 = (if good then c'\<lparr>cg_Program := (cg_Program c')[n := i]\<rparr> else cg_errorf (c'\<lparr>cg_Program := (cg_Program c')[n := i]\<rparr>))"
  have c2: "cg_Program c2 = (cg_Program c')[n := i]" "cg_l c2 = cg_l c'" "cg_heap c2 = cg_heap c'" "cg_Metrics c2 = cg_Metrics c'"
    "cg_errors c2 = 0 \<longrightarrow> good \<and> cg_errors c' = 0" by (auto simp: c2_def cg_errorf_def)
  have "write_step c' n = Inr c2" using i(1) by (simp add: write_step_def Let_def c2_def)
  moreover have "list_all (\<lambda>i. no_address (Operand i)) (cg_Program c2)"
    using na i(2) n by (simp add: c2(1) list_all_length nth_list_update)
  moreover have "\<exists>t. Operand (cg_Program c2 ! j) = VInt t \<and> int j < t \<and> t \<le> int (length (cg_Program c2))"
    if "cg_errors c2 = 0" "j < Suc n" "is_jump (cg_Program c2 ! j)" for j
  proof (cases "j = n")
    case True
    with that i(3) c2 n show ?thesis by simp
  next
    case False
    then have "j < n" "is_jump (cg_Program c' ! j)" "cg_errors c' = 0" using that c2 by auto
    then obtain t where "Operand (cg_Program c' ! j) = VInt t" "int j < t" "t \<le> int (length (cg_Program c'))"
      using w unfolding written_def by blast
    with False show ?thesis by (simp add: c2(1))
  qed
  ultimately show ?thesis using w c2 by (intro exI[of _ c2]) (auto simp: written_def)
qed

lemma write_steps:
  assumes "cg_inv c" and "n \<le> length (cg_Program c)"
  shows "\<exists>c'. foldM write_step c [0..<n] = Inr c' \<and> written c n c'"
  using assms(2)
proof (induction n)
  case 0
  have "written c 0 c" using assms(1) by (simp add: written_def cg_inv_def)
  then show ?case by simp
next
  case (Suc n)
  then obtain c' where c': "foldM write_step c [0..<n] = Inr c'" "written c n c'" by (meson Suc_leD)
  obtain c2 where "write_step c' n = Inr c2" "written c (Suc n) c2" using written_step[OF assms(1) c'(2)] Suc.prems by auto
  with c'(1) show ?case by (simp add: foldM_append)
qed

lemma writeJumps_forward:
  assumes "cg_inv c"
  shows "\<exists>c'. writeJumps c = Inr c' \<and> cg_heap c' = cg_heap c \<and> cg_Metrics c' = cg_Metrics c \<and>
    list_all (\<lambda>i. no_address (Operand i)) (cg_Program c') \<and> (cg_errors c' = 0 \<longrightarrow> forward_jumps (cg_Program c'))"
proof -
  have "writeJumps c = foldM write_step c [0..<length (cg_Program c)]"
    by (simp add: writeJumps_def write_step_def[abs_def])
  then show ?thesis using write_steps[OF assms order.refl] by (auto simp: forward_jumps_def written_def)
qed

subsection \<open>Metrics of a compiled program\<close>

text \<open>The metrics that a compilation declares are new on the heap, in the order of the object.\<close>

definition cg_md :: "('f, 'r) codegen \<Rightarrow> 'f mt_metric list \<times> nat list" where
  "cg_md c = (mh_metrics (cg_heap c), cg_Metrics c)"

fun md_ext :: "'f mt_metric list \<times> nat list \<Rightarrow> 'f mt_metric list \<times> nat list \<Rightarrow> bool" where
  "md_ext (ms, ids) (ms', ids') \<longleftrightarrow> prefix ms ms' \<and> ids' = ids @ [length ms..<length ms']"

lemma md_ext_refl [simp]: "md_ext x x"
  by (cases x) simp

lemma md_ext_trans: "md_ext x y \<Longrightarrow> md_ext y z \<Longrightarrow> md_ext x z"
proof -
  assume a: "md_ext x y" "md_ext y z"
  obtain ms ids ms' ids' ms'' ids'' where e: "x = (ms, ids)" "y = (ms', ids')" "z = (ms'', ids'')" by (cases x, cases y, cases z)
  have "length ms \<le> length ms'" "length ms' \<le> length ms''" using a e by (auto dest: prefix_length_le)
  then have "[length ms..<length ms''] = [length ms..<length ms'] @ [length ms'..<length ms'']" using upt_add_eq_append[of "length ms" "length ms'" "length ms'' - length ms'"] by simp
  then show ?thesis using a e by auto
qed

lemma cg_md_simps [simp]:
  "cg_md (emit op x c) = cg_md c" "cg_md (cg_errorf c) = cg_md c" "cg_md (setLabel l c) = cg_md c" "cg_md (c\<lparr>cg_decos := ds\<rparr>) = cg_md c"
  "cg_md (gen_PatternExpr E p pat c) = cg_md c" "cg_md (c\<lparr>cg_Strings := ss\<rparr>) = cg_md c" "cg_md (c\<lparr>cg_l := ls\<rparr>) = cg_md c" "cg_md (gen_index_conv t c) = cg_md c"
  "cg_md (or_error c (emitConversion t u c)) = cg_md c"
  by (auto simp: cg_md_def emit_def cg_errorf_def setLabel_def gen_PatternExpr_def gen_index_conv_def or_error_def emitConversion_def split: option.split)

lemma cg_md_gen [simp]:
  "cg_md (gen_IDTerm symb lv t c) = cg_md c" "cg_md (gen_CaprefTerm csymb t c) = cg_md c" "cg_md (gen_comparison op lt rt c) = cg_md c"
  "cg_md (gen_add_assign t c) = cg_md c"
  by (auto simp: gen_IDTerm_def gen_CaprefTerm_def gen_comparison_def gen_add_assign_def newLabel_def Let_def split: option.split prod.split)

lemma cg_md_binary [simp]: "cg_md (gen_binary op lhs rhs t c) = cg_md c"
  by (auto simp: gen_binary_def Let_def split: option.split node.split)

lemma cg_md_builtin: "gen_builtin name args t c = Inr c' \<Longrightarrow> cg_md c' = cg_md c"
  by (auto simp: gen_builtin_def Let_def split: if_splits option.splits list.splits node.splits)

lemma cg_md_unary: "gen_unary e op c = Inr c' \<Longrightarrow> cg_md c' = cg_md c"
  by (auto simp: gen_unary_def split: unop.splits node.splits)

lemma cg_md_overwrite: "overwrite_last op c = Inr c' \<Longrightarrow> cg_md c' = cg_md c"
  by (auto simp: overwrite_last_def cg_md_def split: if_splits)

lemma md_ext_VarDecl: "md_ext (cg_md c) (cg_md (gen_VarDecl E d c))"
proof -
  obtain r where r: "gen_VarDecl E d c = (case r of None \<Rightarrow> cg_errorf c | Some (m, ds) \<Rightarrow>
      c\<lparr>cg_heap := \<lparr>mh_data = ds, mh_metrics = mh_metrics (cg_heap c) @ [m\<lparr>mm_Hidden := vd_Hidden d, mm_Limit := vd_Limit d\<rparr>]\<rparr>,
             cg_binding := (cg_binding c)(vd_Symbol d \<mapsto> (length (mh_metrics (cg_heap c)), int (length (cg_Metrics c)))),
             cg_Metrics := cg_Metrics c @ [length (mh_metrics (cg_heap c))]\<rparr>)"
    unfolding gen_VarDecl_def Let_def by blast
  show ?thesis unfolding r by (cases r) (auto simp: cg_md_def cg_errorf_def)
qed

definition exts :: "('f, 'r) codegen \<Rightarrow> ('f, 'r) cg_result \<Rightarrow> bool" where
  "exts c r \<longleftrightarrow> (\<forall>c'. r = Some (Inr c') \<longrightarrow> md_ext (cg_md c) (cg_md c'))"

lemma exts_ok [simp]: "exts c (ok c') \<longleftrightarrow> md_ext (cg_md c) (cg_md c')"
  by (simp add: exts_def ok_def)

lemma exts_cgb: "exts c r \<Longrightarrow> (\<And>c1. md_ext (cg_md c) (cg_md c1) \<Longrightarrow> exts c (f c1)) \<Longrightarrow> exts c (cgb r f)"
  by (auto simp: exts_def dest!: cgb_cases)

lemma exts_go: "(\<And>c'. r = Inr c' \<Longrightarrow> md_ext (cg_md c) (cg_md c')) \<Longrightarrow> exts c (Some r)"
  by (auto simp: exts_def)

definition ext_walk :: "('f node \<Rightarrow> ('f, 'r) codegen \<Rightarrow> ('f, 'r) cg_result) \<Rightarrow> bool" where
  "ext_walk W \<longleftrightarrow> (\<forall>n c c1. md_ext (cg_md c) (cg_md c1) \<longrightarrow> exts c (W n c1))"

lemma ext_walkD: "ext_walk W \<Longrightarrow> md_ext (cg_md c) (cg_md c1) \<Longrightarrow> exts c (W n c1)"
  by (simp add: ext_walk_def)

lemma ext_walk_list: "ext_walk W \<Longrightarrow> md_ext (cg_md c) (cg_md c1) \<Longrightarrow> exts c (walk_list W ns c1)"
  by (induction ns arbitrary: c1) (auto intro!: exts_cgb intro: ext_walkD)

lemma ext_walk_index: "ext_walk W \<Longrightarrow> md_ext (cg_md c) (cg_md c1) \<Longrightarrow> exts c (walk_index W ns c1)"
  by (induction ns arbitrary: c1) (auto intro!: exts_cgb intro: ext_walkD)

lemma ext_walk_opt: "ext_walk W \<Longrightarrow> md_ext (cg_md c) (cg_md c1) \<Longrightarrow> exts c (walk_opt W n c1)"
  by (auto simp: walk_opt_def intro: ext_walkD split: option.split)

lemma ext_cond:
  assumes W: "ext_walk W" and m: "md_ext (cg_md c) (cg_md c1)"
  shows "exts c (gen_cond W cond truth els c1)"
  unfolding gen_cond_def newLabel_def Let_def prod.case
  by (intro exts_cgb ext_walk_opt[OF W] ext_walkD[OF W]) (simp_all add: m)

lemma ext_short:
  assumes W: "ext_walk W" and m: "md_ext (cg_md c) (cg_md c1)"
  shows "exts c (gen_short W j b lhs rhs c1)"
  unfolding gen_short_def newLabel_def Let_def prod.case
  by (intro exts_cgb ext_walkD[OF W]) (simp_all add: m)

lemma Walk_ext: "ext_walk (Walk E fuel :: 'f node \<Rightarrow> ('f, 'r) codegen \<Rightarrow> ('f, 'r) cg_result)"
proof (induction fuel)
  case 0
  then show ?case by (simp add: ext_walk_def exts_def)
next
  case (Suc k)
  note W = ext_walkD[OF Suc.IH]
  have "exts c (Walk E (Suc k) n c1)" if m: "md_ext (cg_md c) (cg_md c1)" for n :: "'f node" and c c1 :: "('f, 'r) codegen"
  proof (cases n)
    case NextStmt
    show ?thesis
    proof (cases "cg_decos c1")
      case Nil
      then show ?thesis using NextStmt by (simp add: exts_def)
    next
      case (Cons b rest)
      have "exts c (Walk E k b (c1\<lparr>cg_decos := rest\<rparr>))" by (rule W) (simp add: m)
      then show ?thesis using NextStmt Cons by simp
    qed
  next
    case (VarDecl d)
    then show ?thesis using md_ext_trans[OF m md_ext_VarDecl] by simp
  qed (use m in \<open>auto simp: Let_def intro!: ext_cond[OF Suc.IH] ext_short[OF Suc.IH] exts_cgb exts_go W ext_walk_list[OF Suc.IH] ext_walk_index[OF Suc.IH]
      dest: cg_md_builtin cg_md_unary cg_md_overwrite split: node.split option.split\<close>)
  then show ?case by (simp add: ext_walk_def)
qed

subsection \<open>Compiled programs\<close>

lemma cg_inv_new: "heap_ok h \<Longrightarrow> cg_inv (new_codegen h)"
  by (simp add: cg_inv_def new_codegen_def)

lemma CodeGen_ends:
  assumes "nweight n < fuel"
  shows "\<exists>r. CodeGen E fuel h n = Some r"
proof -
  have "dsum (new_codegen h) = 0" by (simp add: dsum_def new_codegen_def)
  then have "fits (nweight n) (Walk E fuel n (new_codegen h))" using walksD[OF Walk_walks, of n "new_codegen h" fuel "nweight n" E] assms by simp
  then show ?thesis by (auto simp: fits_def CodeGen_def split: sum.split)
qed

text \<open>C36: the code generator ends. Fuel above the weight of the tree (its nodes, the left side of an assignment counted twice) is enough
  for every tree, whatever its decorators and \<open>next\<close> statements: the generator returns an object, errors or a panic.\<close>

theorem CodeGen_returns:
  assumes "nweight n < fuel"
  shows "\<exists>r. CodeGen E fuel h n = Some r"
  by (rule CodeGen_ends[OF assms])

lemma CodeGen_object:
  assumes "heap_ok h" and "CodeGen E fuel h n = Some (Inr (Some c))"
  shows "forward_jumps (cg_Program c) \<and> vm_ok (length (mh_metrics (cg_heap c))) (vm_New b c) \<and> heap_ok (cg_heap c)"
proof -
  obtain c1 where c1: "Walk E fuel n (new_codegen h) = Some (Inr c1)" "and_then (writeJumps c1) (\<lambda>c. Inr (if cg_errors c > 0 then None else Some c)) = Inr (Some c)"
    using assms(2) by (auto simp: CodeGen_def split: option.splits sum.splits)
  have "cg_good (new_codegen h) c1" using Walk_good[of E fuel] c1(1) unfolding good_walk_def cg_goods_def by blast
  then have inv: "cg_inv c1" using cg_inv_new[OF assms(1)] unfolding cg_good_def by blast
  obtain c2 where "writeJumps c1 = Inr c2 \<and> cg_heap c2 = cg_heap c1 \<and> cg_Metrics c2 = cg_Metrics c1 \<and>
    list_all (\<lambda>i. no_address (Operand i)) (cg_Program c2) \<and> (cg_errors c2 = 0 \<longrightarrow> forward_jumps (cg_Program c2))"
    using writeJumps_forward[OF inv] by (rule exE)
  then show ?thesis using c1(2) inv by (auto simp: cg_inv_def vm_ok_def vm_New_def split: if_splits)
qed

text \<open>The metrics of an object are the new ones on the heap.\<close>

lemma CodeGen_metrics:
  fixes E :: "('f, 'r) cg_env"
  assumes "heap_ok h" and "CodeGen E fuel h n = Some (Inr (Some c))"
  shows "prefix (mh_metrics h) (mh_metrics (cg_heap c)) \<and> cg_Metrics c = [length (mh_metrics h)..<length (mh_metrics (cg_heap c))]"
proof -
  obtain c1 where c1: "Walk E fuel n (new_codegen h) = Some (Inr c1)" "and_then (writeJumps c1) (\<lambda>c. Inr (if cg_errors c > 0 then None else Some c)) = Inr (Some c)"
    using assms(2) by (auto simp: CodeGen_def split: option.splits sum.splits)
  have "cg_good (new_codegen h) c1" using Walk_good[of E fuel] c1(1) unfolding good_walk_def cg_goods_def by blast
  then have inv: "cg_inv c1" using cg_inv_new[OF assms(1)] unfolding cg_good_def by blast
  have "md_ext (cg_md (new_codegen h :: ('f, 'r) codegen)) (cg_md c1)" using ext_walkD[OF Walk_ext[of E fuel], of "new_codegen h" "new_codegen h" n] c1(1) by (simp add: exts_def)
  moreover obtain c2 where "writeJumps c1 = Inr c2 \<and> cg_heap c2 = cg_heap c1 \<and> cg_Metrics c2 = cg_Metrics c1 \<and>
    list_all (\<lambda>i. no_address (Operand i)) (cg_Program c2) \<and> (cg_errors c2 = 0 \<longrightarrow> forward_jumps (cg_Program c2))"
    using writeJumps_forward[OF inv] by (rule exE)
  ultimately show ?thesis using c1(2) by (auto simp: cg_md_def new_codegen_def split: if_splits)
qed

text \<open>C9: compiled programs run. Whatever tree the generator turned into an object, every jump of its code goes forward and
  at most to the end, so that the machine ends on every sequence of lines, without a panic outside its instructions, whatever
  the regular expressions, the floating point and the time functions answer; and the metrics stay consistent, with the slice
  and the map of the label values of each in agreement.\<close>

theorem Compiled_program_runs:
  assumes "heap_ok h" and "CodeGen E fuel h n = Some (Inr (Some c))" and "vs_heap s = cg_heap c"
  shows "forward_jumps (cg_Program c) \<and>
    (\<exists>s'. vm_Run V (vm_New b c) ls s = Some (Inr s') \<and> heap_ok (vs_heap s') \<and>
       length (mh_metrics (vs_heap s')) = length (mh_metrics (cg_heap c)))"
proof -
  note O = CodeGen_object[OF assms(1,2), of b]
  have "forward_jumps (vm_prog (vm_New b c))" using O by (simp add: vm_New_def)
  with vm_Run_ends[of "vm_New b c" "length (mh_metrics (cg_heap c))" s V ls] O assms(3) show ?thesis by simp
qed

text \<open>A program that counts, for each file, the lines with a match:
  \<open>counter hits by file\<close> and \<open>/GET/ { hits[getfilename()]++ }\<close>.\<close>

definition example_env :: "(nat, string) cg_env" where
  "example_env = \<lparr>ce_fo = nat_floats, ce_now = 1, ce_name = ''p'', ce_Compile = Some\<rparr>"

definition example_decl :: "nat var_decl" where
  "example_decl = \<lparr>vd_Name = ''hits'', vd_ExportedName = [], vd_Hidden = False, vd_Keys = [''file''], vd_Limit = 0, vd_Buckets = [],
     vd_Kind = Counter, vd_Symbol = 0, vd_Type = TyOp True dimensionName [T_String, T_Int], vd_Pos = ''p:1''\<rparr>"

definition example_program :: "nat node" where
  "example_program =
     StmtList [VarDecl example_decl,
       CondStmt (Some (UnaryExpr (PatternExpr 0 ''GET'') U_MATCH T_Bool))
         (StmtList [UnaryExpr (IndexedExpr (IDTerm (Some 0) True T_Int) (ExprList [BuiltinExpr ''getfilename'' None T_String] T_None) T_Int) U_INC T_Int]) None]"

definition example_heap :: "nat mt_heap" where
  "example_heap = \<lparr>mh_data = [], mh_metrics = []\<rparr>"

definition example_declared :: "(nat, string) codegen" where
  "example_declared = (new_codegen \<lparr>mh_data = [], mh_metrics = [(NewMetric ''hits'' ''p'' Counter TInt [''file''])\<lparr>mm_Source := ''p:1''\<rparr>]\<rparr>)
     \<lparr>cg_Metrics := [0], cg_binding := [0 \<mapsto> (0, 0)]\<rparr>"

definition example_state :: "(nat, string) codegen \<Rightarrow> (nat, unit) vm_state" where
  "example_state c = \<lparr>vs_pc = 0, vs_matched = False, vs_matches = (\<lambda>_. []), vs_time = zeroTime, vs_stack = [], vs_heap = cg_heap c,
     vs_memos = (), vs_terminate = False, vs_errors = 0\<rparr>"

text \<open>An environment in which a pattern matches a line that begins with it, no text is a time and nothing is remembered.\<close>

definition example_vm_env :: "(nat, string, unit) vm_env" where
  "example_vm_env = \<lparr>en_fo = nat_floats, en_now = 1, en_FindStringSubmatch = (\<lambda>re l. if take (length re) l = re then Some [re] else None),
     en_ReplaceAllLiteralString = (\<lambda>_ l _. l), en_ToLower = (\<lambda>l. l), en_time_Parse = (\<lambda>_ _. None), en_Year = (\<lambda>_. 2024),
     en_AddYears = (\<lambda>t _. t), en_memo_Get = (\<lambda>_ _. None), en_memo_Add = (\<lambda>_ _ c. c)\<rparr>"

lemma Walk_example_nodes:
  "Walk E (Suc k) (IndexedExpr lhs (ExprList args t') t) c = cgb (walk_index (Walk E k) args c) (Walk E k lhs)"
  "Walk E (Suc k) (BuiltinExpr name None t) c = Some (gen_builtin name None t c)"
  by (simp_all add: ok_def cgb_def Let_def)

lemmas gen_simps = gen_cond_def gen_PatternExpr_def gen_unary_def gen_IDTerm_def gen_builtin_def gen_index_conv_def builtin_opcode_def
  ok_def cgb_def walk_opt_def newLabel_def emit_def setLabel_def cg_pc_def new_codegen_def

lemma example_VarDecl: "gen_VarDecl example_env example_decl (new_codegen example_heap) = example_declared"
  by (simp add: gen_VarDecl_def decl_Type_def example_declared_def example_decl_def example_env_def new_codegen_def metric_type_def element_type_def
      T_Int_def T_Float_def T_String_def T_Bool_def T_None_def T_Buckets_def NewMetric_def Let_def example_heap_def dimensionName_def)

lemma example_CodeGen:
  "\<exists>c. CodeGen example_env 12 example_heap example_program = Some (Inr (Some c)) \<and>
     map Opcode (cg_Program c) = [OMatch, OJnm, OSetmatched, OGetfilename, OMload, ODload, OInc, OSetmatched]"
  unfolding CodeGen_def example_program_def
  apply (simp add: numeral_eq_Suc Walk_node Walk_example_nodes example_VarDecl cgb_def ok_def del: Walk.simps)
  apply (simp add: example_declared_def numeral_eq_Suc Walk_node Walk_example_nodes gen_simps T_Int_def T_String_def T_Float_def example_env_def
      NewMetric_def Let_def del: Walk.simps)
  apply (simp add: writeJumps_def write_jump_def is_jump_def at_int_def upt_rec)
  done

theorem CodeGen_returns_witness:
  "nweight example_program < 12 \<and> (\<exists>r. CodeGen example_env 12 example_heap example_program = Some r)"
proof -
  have "nweight example_program < 12" by (simp add: example_program_def)
  from this CodeGen_returns[OF this] show ?thesis by blast
qed

theorem Compiled_program_runs_witness:
  "\<exists>c s'. CodeGen example_env 12 example_heap example_program = Some (Inr (Some c)) \<and> length (cg_Program c) = 8 \<and> forward_jumps (cg_Program c) \<and>
     vm_Run example_vm_env (vm_New False c) [(5, \<lparr>ll_Filename = ''f'', ll_Line = ''GET /''\<rparr>)] (example_state c) = Some (Inr s') \<and> heap_ok (vs_heap s')"
proof -
  obtain c where c: "CodeGen example_env 12 example_heap example_program = Some (Inr (Some c))"
    and p: "map Opcode (cg_Program c) = [OMatch, OJnm, OSetmatched, OGetfilename, OMload, ODload, OInc, OSetmatched]"
    using example_CodeGen by (elim exE conjE)
  have "length (cg_Program c) = 8" using arg_cong[OF p, of length] by simp
  moreover have "heap_ok example_heap" by (simp add: heap_ok_def example_heap_def)
  from Compiled_program_runs[OF this c, of "example_state c" example_vm_env False "[(5, \<lparr>ll_Filename = ''f'', ll_Line = ''GET /''\<rparr>)]"]
  have "forward_jumps (cg_Program c) \<and> (\<exists>s'. vm_Run example_vm_env (vm_New False c) [(5, \<lparr>ll_Filename = ''f'', ll_Line = ''GET /''\<rparr>)] (example_state c) = Some (Inr s') \<and> heap_ok (vs_heap s'))"
    by (auto simp: example_state_def)
  ultimately show ?thesis using c by blast
qed

end
