(* ===== verification/Mtail_Opt.thy ===== *)
theory Mtail_Opt
  imports Mtail_Codegen
begin

text \<open>
  Constant folding of mtail programs: \<open>src/inputs/mtail/internal/runtime/compiler/opt/opt.go\<close>, which \<open>compiler.go\<close> runs before and after the
  type checker. The pass walks the tree and replaces an arithmetic expression of two literals by a
  literal. The theorem compares what it computes with what the machine computes for the same expression.
\<close>

subsection \<open>The pass\<close>

text \<open>A literal, an error that is reported, or the expression as it is.\<close>

datatype 'f folded = Folded "'f node" | FoldError | Unfolded

definition fold_int_int :: "'f float_ops \<Rightarrow> binop \<Rightarrow> 64 word \<Rightarrow> 64 word \<Rightarrow> 'f folded" where
  "fold_int_int fo op a b =
     (case op of
        B_PLUS \<Rightarrow> Folded (IntLit (a + b))
      | B_MINUS \<Rightarrow> Folded (IntLit (a - b))
      | B_MUL \<Rightarrow> Folded (IntLit (a * b))
      | B_DIV \<Rightarrow> if b = 0 then FoldError else Folded (IntLit (word_of_int (go_div (sint a) (sint b))))
      | B_MOD \<Rightarrow> if b = 0 then FoldError else Folded (IntLit (word_of_int (go_mod (sint a) (sint b))))
      | B_POW \<Rightarrow> Folded (IntLit (fo_to_int fo (fo_pow fo (fo_of_int fo a) (fo_of_int fo b))))
      | _ \<Rightarrow> Unfolded)"

text \<open>The remainder is written to the right operand, which is then dropped: the literal keeps its zero.\<close>

definition fold_int_float :: "'f float_ops \<Rightarrow> binop \<Rightarrow> 64 word \<Rightarrow> 'f \<Rightarrow> 'f folded" where
  "fold_int_float fo op a b =
     (case op of
        B_PLUS \<Rightarrow> Folded (FloatLit (fo_add fo (fo_of_int fo a) b))
      | B_MINUS \<Rightarrow> Folded (FloatLit (fo_sub fo (fo_of_int fo a) b))
      | B_MUL \<Rightarrow> Folded (FloatLit (fo_mul fo (fo_of_int fo a) b))
      | B_DIV \<Rightarrow> if fo_eq fo b (fo_zero fo) then FoldError else Folded (FloatLit (fo_div fo (fo_of_int fo a) b))
      | B_MOD \<Rightarrow> if fo_eq fo b (fo_zero fo) then FoldError else Folded (FloatLit (fo_zero fo))
      | B_POW \<Rightarrow> Folded (FloatLit (fo_pow fo (fo_of_int fo a) b))
      | _ \<Rightarrow> Unfolded)"

definition fold_float_int :: "'f float_ops \<Rightarrow> binop \<Rightarrow> 'f \<Rightarrow> 64 word \<Rightarrow> 'f folded" where
  "fold_float_int fo op a b =
     (case op of
        B_PLUS \<Rightarrow> Folded (FloatLit (fo_add fo a (fo_of_int fo b)))
      | B_MINUS \<Rightarrow> Folded (FloatLit (fo_sub fo a (fo_of_int fo b)))
      | B_MUL \<Rightarrow> Folded (FloatLit (fo_mul fo a (fo_of_int fo b)))
      | B_DIV \<Rightarrow> if b = 0 then FoldError else Folded (FloatLit (fo_div fo a (fo_of_int fo b)))
      | B_MOD \<Rightarrow> if b = 0 then FoldError else Folded (FloatLit (fo_mod fo a (fo_of_int fo b)))
      | B_POW \<Rightarrow> Folded (FloatLit (fo_pow fo a (fo_of_int fo b)))
      | _ \<Rightarrow> Unfolded)"

definition fold_float_float :: "'f float_ops \<Rightarrow> binop \<Rightarrow> 'f \<Rightarrow> 'f \<Rightarrow> 'f folded" where
  "fold_float_float fo op a b =
     (case op of
        B_PLUS \<Rightarrow> Folded (FloatLit (fo_add fo a b))
      | B_MINUS \<Rightarrow> Folded (FloatLit (fo_sub fo a b))
      | B_MUL \<Rightarrow> Folded (FloatLit (fo_mul fo a b))
      | B_DIV \<Rightarrow> if fo_eq fo b (fo_zero fo) then FoldError else Folded (FloatLit (fo_div fo a b))
      | B_MOD \<Rightarrow> if fo_eq fo b (fo_zero fo) then FoldError else Folded (FloatLit (fo_mod fo a b))
      | B_POW \<Rightarrow> Folded (FloatLit (fo_pow fo a b))
      | _ \<Rightarrow> Unfolded)"

definition fold_literals :: "'f float_ops \<Rightarrow> binop \<Rightarrow> 'f node \<Rightarrow> 'f node \<Rightarrow> 'f folded" where
  "fold_literals fo op lhs rhs =
     (case lhs of
        IntLit a \<Rightarrow> (case rhs of IntLit b \<Rightarrow> fold_int_int fo op a b | FloatLit b \<Rightarrow> fold_int_float fo op a b | _ \<Rightarrow> Unfolded)
      | FloatLit a \<Rightarrow> (case rhs of IntLit b \<Rightarrow> fold_float_int fo op a b | FloatLit b \<Rightarrow> fold_float_float fo op a b | _ \<Rightarrow> Unfolded)
      | _ \<Rightarrow> Unfolded)"

text \<open>The node that replaces a binary expression, with the number of errors it adds.\<close>

definition opt_VisitAfter :: "'f float_ops \<Rightarrow> 'f node \<Rightarrow> 'f node \<Rightarrow> binop \<Rightarrow> ty \<Rightarrow> 'f node \<times> nat" where
  "opt_VisitAfter fo lhs rhs op t =
     (case fold_literals fo op lhs rhs of
        Folded r \<Rightarrow> (r, 0)
      | FoldError \<Rightarrow> (BinaryExpr lhs rhs op TyErr, 1)
      | Unfolded \<Rightarrow> (BinaryExpr lhs rhs op t, 0))"

text \<open>\<open>ast.Walk\<close> with this visitor. A deletion is a leaf of the walk. The block of a decorator is rewritten in its declaration,
  which the statements that use it hold here.\<close>

fun opt_Walk :: "'f float_ops \<Rightarrow> 'f node \<Rightarrow> 'f node \<times> nat" where
  "opt_Walk fo (StmtList ns) = (let rs = map (opt_Walk fo) ns in (StmtList (map fst rs), sum_list (map snd rs)))"
| "opt_Walk fo (ExprList ns t) = (let rs = map (opt_Walk fo) ns in (ExprList (map fst rs) t, sum_list (map snd rs)))"
| "opt_Walk fo (CondStmt cond truth els) =
     (let c = map_option (opt_Walk fo) cond; r = opt_Walk fo truth; e = map_option (opt_Walk fo) els;
          errs = (\<lambda>x. case x of None \<Rightarrow> 0 | Some y \<Rightarrow> snd y) in
      (CondStmt (map_option fst c) (fst r) (map_option fst e), errs c + snd r + errs e))"
| "opt_Walk fo (BuiltinExpr name args t) =
     (case args of
        None \<Rightarrow> (BuiltinExpr name None t, 0)
      | Some ns \<Rightarrow> (let rs = map (opt_Walk fo) ns in (BuiltinExpr name (Some (map fst rs)) t, sum_list (map snd rs))))"
| "opt_Walk fo (BinaryExpr lhs rhs op t) =
     (let l = opt_Walk fo lhs; r = opt_Walk fo rhs; x = opt_VisitAfter fo (fst l) (fst r) op t in (fst x, snd l + snd r + snd x))"
| "opt_Walk fo (UnaryExpr e op t) = (let r = opt_Walk fo e in (UnaryExpr (fst r) op t, snd r))"
| "opt_Walk fo (IndexedExpr lhs index t) = (let i = opt_Walk fo index; l = opt_Walk fo lhs in (IndexedExpr (fst l) (fst i) t, snd i + snd l))"
| "opt_Walk fo (DecoStmt decl block) =
     (let d = map_option (opt_Walk fo) decl; b = opt_Walk fo block in
      (DecoStmt (map_option fst d) (fst b), (case d of None \<Rightarrow> 0 | Some y \<Rightarrow> snd y) + snd b))"
| "opt_Walk fo (ConvExpr n t) = (let r = opt_Walk fo n in (ConvExpr (fst r) t, snd r))"
| "opt_Walk fo n = (n, 0)"

text \<open>The tree and whether errors were reported.\<close>

definition Optimise :: "'f float_ops \<Rightarrow> 'f node \<Rightarrow> 'f node \<times> bool" where
  "Optimise fo n = (let r = opt_Walk fo n in (fst r, snd r > 0))"

subsection \<open>Constant expressions on the machine\<close>

definition arith_ops :: "binop set" where
  "arith_ops = {B_PLUS, B_MINUS, B_MUL, B_DIV, B_MOD, B_POW}"

text \<open>Expressions of literals of one type.\<close>

fun const_expr :: "ty \<Rightarrow> 'f node \<Rightarrow> bool" where
  "const_expr t (IntLit _) \<longleftrightarrow> t = T_Int"
| "const_expr t (FloatLit _) \<longleftrightarrow> t = T_Float"
| "const_expr t (BinaryExpr lhs rhs op t') \<longleftrightarrow> t' = t \<and> op \<in> arith_ops \<and> const_expr t lhs \<and> const_expr t rhs"
| "const_expr t _ \<longleftrightarrow> False"

fun const_code :: "'f node \<Rightarrow> 'f instr list" where
  "const_code (IntLit i) = [\<lparr>Opcode = OPush, Operand = VInt64 i\<rparr>]"
| "const_code (FloatLit x) = [\<lparr>Opcode = OPush, Operand = VFloat x\<rparr>]"
| "const_code (BinaryExpr lhs rhs op t) = const_code lhs @ const_code rhs @ [\<lparr>Opcode = the (getOpcodeForType op t), Operand = VNil\<rparr>]"
| "const_code _ = []"

text \<open>What the machine computes for two values; \<open>None\<close> is a run-time error.\<close>

definition const_op :: "'f float_ops \<Rightarrow> opcode \<Rightarrow> 'f vm_value \<Rightarrow> 'f vm_value \<Rightarrow> 'f vm_value option" where
  "const_op fo op a b =
     (case (a, b) of
        (VInt64 x, VInt64 y) \<Rightarrow> map_option VInt64 (int_op fo op x y)
      | (VFloat x, VFloat y) \<Rightarrow>
          Some (VFloat
            (case op of
               OFadd \<Rightarrow> fo_add fo x y | OFsub \<Rightarrow> fo_sub fo x y | OFmul \<Rightarrow> fo_mul fo x y
             | OFdiv \<Rightarrow> fo_div fo x y | OFmod \<Rightarrow> fo_mod fo x y | _ \<Rightarrow> fo_pow fo x y))
      | _ \<Rightarrow> None)"

fun const_value :: "'f float_ops \<Rightarrow> 'f node \<Rightarrow> 'f vm_value option" where
  "const_value fo (IntLit i) = Some (VInt64 i)"
| "const_value fo (FloatLit x) = Some (VFloat x)"
| "const_value fo (BinaryExpr lhs rhs op t) =
     (case const_value fo lhs of
        None \<Rightarrow> None
      | Some a \<Rightarrow> (case const_value fo rhs of None \<Rightarrow> None | Some b \<Rightarrow> const_op fo (the (getOpcodeForType op t)) a b))"
| "const_value fo _ = None"

definition int_opcode :: "binop \<Rightarrow> opcode" where
  "int_opcode op =
     (case op of B_PLUS \<Rightarrow> OIadd | B_MINUS \<Rightarrow> OIsub | B_MUL \<Rightarrow> OImul | B_DIV \<Rightarrow> OIdiv | B_MOD \<Rightarrow> OImod | _ \<Rightarrow> OIpow)"

definition float_opcode :: "binop \<Rightarrow> opcode" where
  "float_opcode op =
     (case op of B_PLUS \<Rightarrow> OFadd | B_MINUS \<Rightarrow> OFsub | B_MUL \<Rightarrow> OFmul | B_DIV \<Rightarrow> OFdiv | B_MOD \<Rightarrow> OFmod | _ \<Rightarrow> OFpow)"

lemma arith_opcode:
  "op \<in> arith_ops \<Longrightarrow> getOpcodeForType op T_Int = Some (int_opcode op)"
  "op \<in> arith_ops \<Longrightarrow> getOpcodeForType op T_Float = Some (float_opcode op)"
  by (auto simp: arith_ops_def getOpcodeForType_def typedOperators_def int_opcode_def float_opcode_def T_Int_def T_Float_def)

lemma const_type: "const_expr t e \<Longrightarrow> t = T_Int \<or> t = T_Float"
  by (induction t e rule: const_expr.induct) auto

lemma T_Int_Float [simp]: "T_Int \<noteq> T_Float" "T_Float \<noteq> T_Int"
  by (simp_all add: T_Int_def T_Float_def)

text \<open>The value of an expression has its type.\<close>

lemma const_value_type:
  assumes "const_expr t e" and "const_value fo e = Some x"
  shows "(\<exists>w. x = VInt64 w \<and> t = T_Int) \<or> (\<exists>f. x = VFloat f \<and> t = T_Float)"
  using assms by (induction t e arbitrary: x rule: const_expr.induct) (auto simp: const_op_def split: option.splits; fastforce)+

subsection \<open>The code of a constant expression\<close>

lemma Walk_const:
  "const_expr t e \<Longrightarrow> nweight e < fuel \<Longrightarrow> Walk E fuel e c = ok (c\<lparr>cg_Program := cg_Program c @ const_code e\<rparr>)"
proof (induction t e arbitrary: fuel c rule: const_expr.induct)
  case (3 t lhs rhs op t')
  have "fuel \<noteq> 0" using "3.prems"(2) by simp
  then obtain k where k: "fuel = Suc k" using not0_implies_Suc by blast
  have ops: "op \<notin> {B_AND, B_OR, B_ADD_ASSIGN, B_LT, B_GT, B_LE, B_GE, B_EQ, B_NE}" "op \<in> {B_PLUS, B_MINUS, B_MUL, B_DIV, B_MOD, B_POW, B_ASSIGN}"
    using "3.prems"(1) by (auto simp: arith_ops_def)
  obtain opc where oc: "getOpcodeForType op t = Some opc"
    using arith_opcode[of op] const_type[of t lhs] "3.prems"(1) by auto
  have "Walk E k lhs c = ok (c\<lparr>cg_Program := cg_Program c @ const_code lhs\<rparr>)" using 3 k by simp
  moreover have "Walk E k rhs c' = ok (c'\<lparr>cg_Program := cg_Program c' @ const_code rhs\<rparr>)" for c' :: "('a, 'b) codegen" using 3 k by simp
  ultimately show ?case using ops oc "3.prems"(1) unfolding k by (simp add: cgb_def ok_def gen_binary_def emit_def)
qed (auto simp: ok_def emit_def gr0_conv_Suc dest!: less_imp_Suc_add)

text \<open>One instruction of such code on the machine.\<close>

lemma exec_Push: "exec_instr E v l \<lparr>Opcode = OPush, Operand = x\<rparr> s = (Some (), s\<lparr>vs_stack := x # vs_stack s\<rparr>)"
  by (simp add: exec_instr_def Push_def vmodify_def)

lemma exec_int_op_stack:
  "vs_stack s = VInt64 y # VInt64 x # st \<Longrightarrow>
    exec_int_op fo op s = (case int_op fo op x y of None \<Rightarrow> (None, s\<lparr>vs_stack := st\<rparr>) | Some z \<Rightarrow> (Some (), s\<lparr>vs_stack := VInt64 z # st\<rparr>))"
  by (simp add: exec_int_op_def vm_step_simps PopInt_def split: option.split)

lemma exec_float_op_stack:
  "vs_stack s = VFloat g # VFloat f # st \<Longrightarrow>
    exec_float_op fo op s = (Some (), s\<lparr>vs_stack := the (const_op fo op (VFloat f) (VFloat g)) # st\<rparr>)"
  by (simp add: exec_float_op_def vm_step_simps PopFloat_def const_op_def)

lemma exec_const_op:
  assumes "op \<in> arith_ops" and "t = T_Int \<and> a = VInt64 x \<and> b = VInt64 y \<or> t = T_Float \<and> a = VFloat f \<and> b = VFloat g"
    and "vs_stack s = b # a # st"
  shows "exec_instr E v l \<lparr>Opcode = the (getOpcodeForType op t), Operand = VNil\<rparr> s =
    (case const_op (en_fo E) (the (getOpcodeForType op t)) a b of
       Some z \<Rightarrow> (Some (), s\<lparr>vs_stack := z # st\<rparr>) | None \<Rightarrow> (None, s\<lparr>vs_stack := st\<rparr>))"
proof (cases "t = T_Int")
  case True
  then have "exec_instr E v l \<lparr>Opcode = the (getOpcodeForType op t), Operand = VNil\<rparr> s = exec_int_op (en_fo E) (int_opcode op) s"
    using arith_opcode(1)[OF assms(1)] assms(1) by (auto simp: exec_instr_def Let_def int_opcode_def arith_ops_def)
  then show ?thesis using assms True arith_opcode(1)[OF assms(1)]
    by (auto simp: exec_int_op_stack const_op_def split: option.split)
next
  case False
  then have "exec_instr E v l \<lparr>Opcode = the (getOpcodeForType op t), Operand = VNil\<rparr> s = exec_float_op (en_fo E) (float_opcode op) s"
    using arith_opcode(2)[OF assms(1)] assms(1,2) by (auto simp: exec_instr_def Let_def float_opcode_def arith_ops_def)
  then show ?thesis using assms False arith_opcode(2)[OF assms(1)]
    by (auto simp: exec_float_op_stack const_op_def)
qed

lemma vm_loop_next:
  assumes "vs_pc s = int k" and "k < length (vm_prog v)" and "exec_instr E v l (vm_prog v ! k) (s\<lparr>vs_pc := int k + 1\<rparr>) = (Some (), s')" and "\<not> vs_terminate s'"
  shows "vm_loop E v l s = vm_loop E v l s'"
  using assms by (subst vm_loop.simps) (simp add: execute_def Let_def)

lemma vm_loop_fail:
  assumes "vs_pc s = int k" and "k < length (vm_prog v)" and "exec_instr E v l (vm_prog v ! k) (s\<lparr>vs_pc := int k + 1\<rparr>) = (None, s')"
  shows "vm_loop E v l s = Some (Inr (s'\<lparr>vs_terminate := False, vs_errors := vs_errors s' + 1\<rparr>))"
  using assms by (subst vm_loop.simps) (simp add: execute_def Let_def)

text \<open>The code of an expression pushes its value, or ends the line with a run-time error.\<close>

lemma vm_loop_const:
  assumes "const_expr t e" and "vm_prog v = pre @ const_code e @ post" and "vs_pc s = int (length pre)" and "\<not> vs_terminate s"
  shows "case const_value (en_fo E) e of
      Some x \<Rightarrow> vm_loop E v l s = vm_loop E v l (s\<lparr>vs_pc := int (length pre + length (const_code e)), vs_stack := x # vs_stack s\<rparr>)
    | None \<Rightarrow> \<exists>s'. vm_loop E v l s = Some (Inr s') \<and> vs_errors s' = vs_errors s + 1"
  using assms
proof (induction t e arbitrary: pre post s rule: const_expr.induct)
  case (3 t lhs rhs op t')
  let ?fo = "en_fo E" and ?opc = "the (getOpcodeForType op t)"
  let ?i = "\<lparr>Opcode = ?opc, Operand = VNil\<rparr>"
  have t: "t' = t" "op \<in> arith_ops" "const_expr t lhs" "const_expr t rhs" using "3.prems"(1) by auto
  have prog: "vm_prog v = pre @ const_code lhs @ (const_code rhs @ ?i # post)"
    "vm_prog v = (pre @ const_code lhs) @ const_code rhs @ (?i # post)" using "3.prems"(2) t(1) by simp_all
  note L = "3.IH"(1)[OF t(3) prog(1) "3.prems"(3,4)]
  show ?case
  proof (cases "const_value ?fo lhs")
    case (Some a)
    define s1 where "s1 = s\<lparr>vs_pc := int (length pre + length (const_code lhs)), vs_stack := a # vs_stack s\<rparr>"
    have l1: "vm_loop E v l s = vm_loop E v l s1" using L Some by (simp add: s1_def)
    have "vs_pc s1 = int (length (pre @ const_code lhs))" "\<not> vs_terminate s1" using "3.prems"(4) by (simp_all add: s1_def)
    note R = "3.IH"(2)[OF t(4) prog(2) this]
    show ?thesis
    proof (cases "const_value ?fo rhs")
      case b: (Some b)
      define s2 where "s2 = s1\<lparr>vs_pc := int (length pre + length (const_code lhs) + length (const_code rhs)), vs_stack := b # vs_stack s1\<rparr>"
      have l2: "vm_loop E v l s = vm_loop E v l s2" using R b l1 by (simp add: s2_def)
      let ?k = "length pre + length (const_code lhs) + length (const_code rhs)"
      have k: "vs_pc s2 = int ?k" "?k < length (vm_prog v)" "vm_prog v ! ?k = ?i" by (simp_all add: s2_def prog(2) nth_append)
      have st: "vs_stack (s2\<lparr>vs_pc := int ?k + 1\<rparr>) = b # a # vs_stack s" by (simp add: s2_def s1_def)
      obtain x y f g where ty: "t = T_Int \<and> a = VInt64 x \<and> b = VInt64 y \<or> t = T_Float \<and> a = VFloat f \<and> b = VFloat g"
        using const_value_type[OF t(3) Some] const_value_type[OF t(4) b] by auto
      note op = exec_const_op[OF t(2) ty st, of E v l]
      show ?thesis
      proof (cases "const_op ?fo ?opc a b")
        case None
        from vm_loop_fail[OF k(1,2), of E l] k(3) None op have
          "vm_loop E v l s2 = Some (Inr (s2\<lparr>vs_pc := int ?k + 1, vs_stack := vs_stack s, vs_terminate := False, vs_errors := vs_errors s2 + 1\<rparr>))" by simp
        then show ?thesis using l2 Some b None t(1) by (simp add: s2_def s1_def)
      next
        case z: (Some z)
        from vm_loop_next[OF k(1,2), of E l] k(3) z op "3.prems"(4) have
          "vm_loop E v l s2 = vm_loop E v l (s2\<lparr>vs_pc := int ?k + 1, vs_stack := z # vs_stack s\<rparr>)" by (simp add: s2_def s1_def)
        then show ?thesis using l2 Some b z t(1) by (simp add: s2_def s1_def ac_simps)
      qed
    next
      case None
      then show ?thesis using R l1 Some by (simp add: s1_def)
    qed
  next
    case None
    then show ?thesis using L by simp
  qed
next
  case (1 t i)
  then show ?case using vm_loop_next[of s "length pre" v E l] by (simp add: exec_Push nth_append add.commute)
next
  case (2 t x)
  then show ?case using vm_loop_next[of s "length pre" v E l] by (simp add: exec_Push nth_append add.commute)
qed auto

lemma const_code_no_jump: "const_expr t e \<Longrightarrow> i \<in> set (const_code e) \<Longrightarrow> \<not> is_jump i"
proof (induction t e rule: const_expr.induct)
  case (3 t lhs rhs op t')
  then show ?case using arith_opcode[of op] const_type[of t lhs]
    by (auto simp: is_jump_def int_opcode_def float_opcode_def split: binop.splits)
qed (auto simp: is_jump_def)

lemma foldM_same: "(\<And>j. j \<in> set js \<Longrightarrow> f c j = Inr c) \<Longrightarrow> foldM f c js = Inr c"
  by (induction js) auto

lemma writeJumps_straight: "(\<And>i. i \<in> set (cg_Program c) \<Longrightarrow> \<not> is_jump i) \<Longrightarrow> writeJumps c = Inr c"
  unfolding writeJumps_def by (rule foldM_same) (simp add: write_jump_def)

lemma CodeGen_const:
  fixes E :: "('f, 'r) cg_env"
  assumes "const_expr t e" and "nweight e < fuel"
  shows "CodeGen E fuel h e = Some (Inr (Some ((new_codegen h)\<lparr>cg_Program := const_code e\<rparr>)))"
proof -
  have "Walk E fuel e (new_codegen h) = ok ((new_codegen h)\<lparr>cg_Program := const_code e\<rparr>)" using Walk_const[OF assms, of E "new_codegen h"] by (simp add: new_codegen_def)
  moreover have "writeJumps ((new_codegen h)\<lparr>cg_Program := const_code e\<rparr> :: ('f, 'r) codegen) = Inr ((new_codegen h)\<lparr>cg_Program := const_code e\<rparr>)"
    by (rule writeJumps_straight) (use const_code_no_jump[OF assms(1)] in simp)
  ultimately show ?thesis by (simp add: CodeGen_def ok_def) (simp add: new_codegen_def)
qed

text \<open>A line of the program that is the expression alone.\<close>

lemma ProcessLogLine_const:
  assumes "const_expr t e" and "vm_prog v = const_code e" and "\<not> vs_terminate s"
  shows "\<exists>s'. ProcessLogLine V v l s = Some (Inr s') \<and>
    (case const_value (en_fo V) e of
       Some x \<Rightarrow> vs_stack s' = [x] \<and> vs_errors s' = vs_errors s
     | None \<Rightarrow> vs_errors s' = vs_errors s + 1)"
proof (cases "const_value (en_fo V) e")
  case None
  then show ?thesis using vm_loop_const[OF assms(1), of v "[]" "[]" "new_thread s" V l] assms(2,3)
    by (auto simp: ProcessLogLine_def new_thread_def)
next
  case (Some x)
  let ?s' = "(new_thread s)\<lparr>vs_pc := int (length (const_code e)), vs_stack := [x]\<rparr>"
  have "ProcessLogLine V v l s = vm_loop V v l ?s'"
    using vm_loop_const[OF assms(1), of v "[]" "[]" "new_thread s" V l] assms(2,3) Some by (simp add: ProcessLogLine_def new_thread_def)
  also have "\<dots> = Some (Inr ?s')" using assms(2) by (subst vm_loop.simps) simp
  finally show ?thesis using Some by (simp add: new_thread_def)
qed

subsection \<open>Folding agrees with the machine\<close>

definition literal :: "ty \<Rightarrow> 'f node \<Rightarrow> bool" where
  "literal t n \<longleftrightarrow> const_expr t n \<and> (\<forall>l r op u. n \<noteq> BinaryExpr l r op u)"

lemma literal_cases: "literal t n \<Longrightarrow> (\<exists>w. n = IntLit w \<and> t = T_Int) \<or> (\<exists>f. n = FloatLit f \<and> t = T_Float)"
  unfolding literal_def by (cases n) auto

lemma fold_literals_agrees:
  assumes "op \<in> arith_ops" and "literal t lhs" and "literal t rhs"
  shows "case fold_literals fo op lhs rhs of
      Folded n \<Rightarrow> literal t n \<and> const_value fo n = const_value fo (BinaryExpr lhs rhs op t)
    | FoldError \<Rightarrow> t = T_Int \<longrightarrow> const_value fo (BinaryExpr lhs rhs op t) = None
    | Unfolded \<Rightarrow> False"
  using literal_cases[OF assms(2)] literal_cases[OF assms(3)] assms(1) arith_opcode[OF assms(1)]
  by (auto simp: fold_literals_def fold_int_int_def fold_float_float_def arith_ops_def int_opcode_def float_opcode_def const_op_def int_op_def literal_def)

lemma opt_Walk_const:
  "const_expr t e \<Longrightarrow>
    (if snd (opt_Walk fo e) = 0 then literal t (fst (opt_Walk fo e)) \<and> const_value fo (fst (opt_Walk fo e)) = const_value fo e
     else t = T_Int \<longrightarrow> const_value fo e = None)"
proof (induction t e rule: const_expr.induct)
  case (3 t lhs rhs op t')
  let ?l = "opt_Walk fo lhs" and ?r = "opt_Walk fo rhs"
  have t: "t' = t" "op \<in> arith_ops" "const_expr t lhs" "const_expr t rhs" using "3.prems" by auto
  show ?case
  proof (cases "snd ?l = 0 \<and> snd ?r = 0")
    case True
    then have lit: "literal t (fst ?l)" "literal t (fst ?r)" and eq: "const_value fo (fst ?l) = const_value fo lhs" "const_value fo (fst ?r) = const_value fo rhs"
      using "3.IH" t by auto
    have "const_value fo (BinaryExpr (fst ?l) (fst ?r) op t) = const_value fo (BinaryExpr lhs rhs op t)" by (simp only: const_value.simps eq)
    then show ?thesis using fold_literals_agrees[OF t(2) lit, of fo] True t(1)
      by (auto simp: opt_VisitAfter_def Let_def split: folded.splits)
  next
    case False
    then show ?thesis using "3.IH" t by (auto simp: Let_def split: option.splits if_splits)
  qed
qed (auto simp: literal_def)


text \<open>Mixed literals are folded as if the integer were converted first, but for the remainder of an integer by a float, which is always zero.\<close>

lemma fold_mixed:
  "fold_literals fo B_MOD (IntLit a) (FloatLit x) = (if fo_eq fo x (fo_zero fo) then FoldError else Folded (FloatLit (fo_zero fo)))"
  "op \<noteq> B_MOD \<Longrightarrow> fold_literals fo op (IntLit a) (FloatLit x) = fold_literals fo op (FloatLit (fo_of_int fo a)) (FloatLit x)"
  by (simp_all add: fold_literals_def fold_int_float_def fold_float_float_def split: binop.split)

definition folded_example :: "nat node" where
  "folded_example = BinaryExpr (BinaryExpr (IntLit 7) (IntLit 2) B_DIV T_Int) (IntLit 5) B_MUL T_Int"


end
