(* ===== verification/Mtail_Runtime.thy ===== *)
theory Mtail_Runtime
  imports Mtail_Opt
begin

text \<open>
  The program loader of mtail: \<open>src/inputs/mtail/internal/runtime/runtime.go\<close> with the pipeline of \<open>compiler/compiler.go\<close>. It compiles programs, puts their
  metrics into the store, runs one machine per program and hands it every line. A machine is a position in the list of all
  that were ever started; its channel is unbuffered, and the model lets it run a line before the next step. The lexer and
  parser, the type checker and the hash are parameters.
\<close>

subsection \<open>State\<close>

record rt_config =
  rc_omitMetricSource :: bool
  rc_compileOnly :: bool
  rc_errorsAbort :: bool
  rc_syslogUseCurrentYear :: bool
  rc_disableOptimisation :: bool

record ('f, 'r, 'c) rt_env =
  re_vm :: "('f, 'r, 'c) vm_env"
  re_regexp :: "string \<Rightarrow> 'r option"
  re_Parse :: "string \<Rightarrow> string \<Rightarrow> 'f node option"
  re_Check :: "'f node \<Rightarrow> 'f node option"
  re_sha256 :: "string \<Rightarrow> string"
  re_memos :: 'c

datatype rt_error = OpenFailed | CompileFailed | AddFailed store_error | StatFailed | ListFailed

record vm_handle =
  vh_contentHash :: string
  vh_vm :: nat

text \<open>A machine with what it keeps between lines, whether its channel is closed, and the lines it received.\<close>

record ('f, 'r, 'c) rt_machine =
  rv_vm :: "('f, 'r) vm"
  rv_memos :: 'c
  rv_errors :: nat
  rv_closed :: bool
  rv_lines :: "logline list"

record ('f, 'r, 'c) runtime =
  rt_ms :: mt_store
  rt_heap :: "'f mt_heap"
  rt_handles :: "(string \<times> vm_handle) list"
  rt_machines :: "('f, 'r, 'c) rt_machine list"
  rt_programErrors :: "(string \<times> rt_error option) list"

definition new_runtime :: "('f, 'r, 'c) runtime" where
  "new_runtime = \<lparr>rt_ms = [], rt_heap = \<lparr>mh_data = [], mh_metrics = []\<rparr>, rt_handles = [], rt_machines = [], rt_programErrors = []\<rparr>"

subsection \<open>Paths\<close>

definition path_Base :: "string \<Rightarrow> string" where
  "path_Base path =
     (if path = [] then ''.''
      else
        (let b = takeWhile (\<lambda>c. c \<noteq> CHR ''/'') (dropWhile (\<lambda>c. c = CHR ''/'') (rev path)) in
         if b = [] then ''/'' else rev b))"

text \<open>\<open>filepath.Ext\<close>: from the last dot of the last element.\<close>

definition path_Ext :: "string \<Rightarrow> string" where
  "path_Ext path =
     (let b = rev (takeWhile (\<lambda>c. c \<noteq> CHR ''/'') (rev path)) in
      if CHR ''.'' \<in> set b then CHR ''.'' # rev (takeWhile (\<lambda>c. c \<noteq> CHR ''.'') (rev b)) else [])"

subsection \<open>The compiler\<close>

definition optimise_pass :: "('f, 'r, 'c) rt_env \<Rightarrow> rt_config \<Rightarrow> 'f node \<Rightarrow> 'f node option" where
  "optimise_pass E cfg n =
     (if rc_disableOptimisation cfg then Some n
      else (case Optimise (en_fo (re_vm E)) n of (n', failed) \<Rightarrow> if failed then None else Some n'))"

definition front_end :: "('f, 'r, 'c) rt_env \<Rightarrow> rt_config \<Rightarrow> string \<Rightarrow> string \<Rightarrow> 'f node option" where
  "front_end E cfg name input =
     Option.bind (re_Parse E name input) (\<lambda>n. Option.bind (optimise_pass E cfg n) (\<lambda>n. Option.bind (re_Check E n) (optimise_pass E cfg)))"

text \<open>The object, \<open>None\<close> for compile errors, or a panic of the generator. The fuel is enough for the tree.\<close>

definition Compile :: "('f, 'r, 'c) rt_env \<Rightarrow> rt_config \<Rightarrow> int \<Rightarrow> string \<Rightarrow> string \<Rightarrow> 'f mt_heap \<Rightarrow> (('f, 'r) codegen option) go" where
  "Compile E cfg now name0 input h =
     (let name = path_Base name0;
          cenv = \<lparr>ce_fo = en_fo (re_vm E), ce_now = now, ce_name = name, ce_Compile = re_regexp E\<rparr> in
      case front_end E cfg name input of
        None \<Rightarrow> Inr None
      | Some n \<Rightarrow> (case CodeGen cenv (nweight n + 1) h n of None \<Rightarrow> Inr None | Some r \<Rightarrow> r))"

subsection \<open>Loading and unloading\<close>

text \<open>The metrics of an object go to the store one by one; after an error those before it stay.\<close>

fun add_metrics :: "('f, 'r, 'c) rt_env \<Rightarrow> rt_config \<Rightarrow> int \<Rightarrow> nat list \<Rightarrow> mt_store \<Rightarrow> 'f mt_heap \<Rightarrow> store_error option \<times> mt_store \<times> 'f mt_heap" where
  "add_metrics E cfg now [] s h = (None, s, h)"
| "add_metrics E cfg now (mid # mids) s h =
     (let m = mh_metrics h ! mid in
      if mm_Hidden m then add_metrics E cfg now mids s h
      else
        (let h1 = (if rc_omitMetricSource cfg then h\<lparr>mh_metrics := (mh_metrics h)[mid := m\<lparr>mm_Source := []\<rparr>]\<rparr> else h) in
         case Store_Add (en_fo (re_vm E)) now mid s h1 of
           Inl e \<Rightarrow> (Some e, s, h1)
         | Inr (s', h') \<Rightarrow> add_metrics E cfg now mids s' h'))"

definition close_lines :: "nat \<Rightarrow> ('f, 'r, 'c) runtime \<Rightarrow> ('f, 'r, 'c) runtime go" where
  "close_lines i r =
     (if rv_closed (rt_machines r ! i) then Inl (ExplicitPanic ''close of closed channel'')
      else Inr (r\<lparr>rt_machines := (rt_machines r)[i := (rt_machines r ! i)\<lparr>rv_closed := True\<rparr>]\<rparr>))"

definition start_machine :: "('f, 'r, 'c) rt_env \<Rightarrow> rt_config \<Rightarrow> string \<Rightarrow> string \<Rightarrow> ('f, 'r) codegen \<Rightarrow> ('f, 'r, 'c) runtime \<Rightarrow> ('f, 'r, 'c) runtime go" where
  "start_machine E cfg name contentHash obj r =
     and_then (case map_of (rt_handles r) name of None \<Rightarrow> Inr r | Some handle \<Rightarrow> close_lines (vh_vm handle) r) (\<lambda>r.
       Inr (r\<lparr>rt_handles := AList.update name \<lparr>vh_contentHash = contentHash, vh_vm = length (rt_machines r)\<rparr> (rt_handles r),
              rt_machines := rt_machines r @
                [\<lparr>rv_vm = vm_New (rc_syslogUseCurrentYear cfg) obj, rv_memos = re_memos E, rv_errors = 0, rv_closed = False, rv_lines = []\<rparr>]\<rparr>))"

definition CompileAndRun :: "('f, 'r, 'c) rt_env \<Rightarrow> rt_config \<Rightarrow> int \<Rightarrow> string \<Rightarrow> string \<Rightarrow> ('f, 'r, 'c) runtime \<Rightarrow> (('f, 'r, 'c) runtime \<times> rt_error option) go" where
  "CompileAndRun E cfg now name input r =
     (let contentHash = re_sha256 E input in
      if (case map_of (rt_handles r) name of None \<Rightarrow> False | Some vh \<Rightarrow> vh_contentHash vh = contentHash) then Inr (r, None)
      else
        and_then (Compile E cfg now name input (rt_heap r)) (\<lambda>res.
          case res of
            None \<Rightarrow> Inr (r, Some CompileFailed)
          | Some obj \<Rightarrow>
              (case add_metrics E cfg now (cg_Metrics obj) (rt_ms r) (cg_heap obj) of
                 (err, s, h) \<Rightarrow>
                   (let r1 = r\<lparr>rt_ms := s, rt_heap := h\<rparr> in
                    case err of
                      Some e \<Rightarrow> Inr (r1, Some (AddFailed e))
                    | None \<Rightarrow>
                        if rc_compileOnly cfg then Inr (r1, None)
                        else and_then (start_machine E cfg name contentHash obj r1) (\<lambda>r2. Inr (r2, None))))))"

text \<open>\<open>contents\<close> is what the file holds, \<open>None\<close> when it cannot be opened.\<close>

definition LoadProgram :: "('f, 'r, 'c) rt_env \<Rightarrow> rt_config \<Rightarrow> int \<Rightarrow> string \<Rightarrow> string option \<Rightarrow> ('f, 'r, 'c) runtime \<Rightarrow> (('f, 'r, 'c) runtime \<times> rt_error option) go" where
  "LoadProgram E cfg now programPath contents r =
     (let name = path_Base programPath in
      if prefix ''.'' name then Inr (r, None)
      else if path_Ext name \<noteq> ''.mtail'' then Inr (r, None)
      else
        (case contents of
           None \<Rightarrow> Inr (r, Some OpenFailed)
         | Some input \<Rightarrow>
             and_then (CompileAndRun E cfg now name input r) (\<lambda>(r, err).
               Inr (r\<lparr>rt_programErrors := AList.update name err (rt_programErrors r)\<rparr>, if rc_errorsAbort cfg then err else None))))"

definition UnloadProgram :: "string \<Rightarrow> ('f, 'r, 'c) runtime \<Rightarrow> ('f, 'r, 'c) runtime go" where
  "UnloadProgram pathname r =
     (let name = path_Base pathname in
      case map_of (rt_handles r) name of
        None \<Rightarrow> Inl NilDereference
      | Some handle \<Rightarrow> and_then (close_lines (vh_vm handle) r) (\<lambda>r. Inr (r\<lparr>rt_handles := AList.delete name (rt_handles r)\<rparr>)))"

subsection \<open>Loading all programs\<close>

text \<open>A pass over a directory: the names of its files with their contents, then the programs whose file is gone.\<close>

fun load_files :: "('f, 'r, 'c) rt_env \<Rightarrow> rt_config \<Rightarrow> int \<Rightarrow> (string \<times> string option) list \<Rightarrow> ('f, 'r, 'c) runtime \<Rightarrow> (('f, 'r, 'c) runtime \<times> rt_error option) go" where
  "load_files E cfg now [] r = Inr (r, None)"
| "load_files E cfg now ((name, contents) # files) r =
     and_then (LoadProgram E cfg now name contents r) (\<lambda>(r, err).
       if err \<noteq> None \<and> rc_errorsAbort cfg then Inr (r, err) else load_files E cfg now files r)"

definition load_directory :: "('f, 'r, 'c) rt_env \<Rightarrow> rt_config \<Rightarrow> int \<Rightarrow> (string \<times> string option) list \<Rightarrow> ('f, 'r, 'c) runtime \<Rightarrow> (('f, 'r, 'c) runtime \<times> rt_error option) go" where
  "load_directory E cfg now files r =
     (let marked = map fst (rt_handles r) in
      and_then (load_files E cfg now files r) (\<lambda>(r, err).
        if err \<noteq> None then Inr (r, err)
        else and_then (foldM (\<lambda>r name. UnloadProgram name r) r (filter (\<lambda>name. name \<notin> path_Base ` fst ` set files) marked)) (\<lambda>r. Inr (r, None))))"

text \<open>The programs of the configuration; blank ones are skipped.\<close>

fun load_progs :: "('f, 'r, 'c) rt_env \<Rightarrow> rt_config \<Rightarrow> int \<Rightarrow> (string \<times> string) list \<Rightarrow> ('f, 'r, 'c) runtime \<Rightarrow> (('f, 'r, 'c) runtime \<times> rt_error option) go" where
  "load_progs E cfg now [] r = Inr (r, None)"
| "load_progs E cfg now ((name0, prog) # progs) r =
     (if TrimSpace prog = [] then load_progs E cfg now progs r
      else
        (let name = ''http_'' @ name0 in
         and_then (CompileAndRun E cfg now name prog r) (\<lambda>(r, err).
           let r = r\<lparr>rt_programErrors := AList.update name err (rt_programErrors r)\<rparr> in
           if err \<noteq> None \<and> rc_errorsAbort cfg then Inr (r, err) else load_progs E cfg now progs r)))"

datatype program_path = PathUnknown | PathUnreadable | PathDir "(string \<times> string option) list" | PathFile string "string option"

definition LoadAllPrograms :: "('f, 'r, 'c) rt_env \<Rightarrow> rt_config \<Rightarrow> int \<Rightarrow> bool \<Rightarrow> (string \<times> string) list \<Rightarrow> program_path \<Rightarrow> ('f, 'r, 'c) runtime \<Rightarrow> (('f, 'r, 'c) runtime \<times> rt_error option) go" where
  "LoadAllPrograms E cfg now hasPath progs path r =
     (if \<not> hasPath \<and> progs = [] then Inr (r, None)
      else if progs \<noteq> [] then load_progs E cfg now progs r
      else
        (case path of
           PathUnknown \<Rightarrow> Inr (r, Some StatFailed)
         | PathUnreadable \<Rightarrow> Inr (r, Some ListFailed)
         | PathDir files \<Rightarrow> load_directory E cfg now files r
         | PathFile name contents \<Rightarrow> and_then (LoadProgram E cfg now name contents r) (\<lambda>(r, err). Inr (r, if rc_errorsAbort cfg then err else None))))"

subsection \<open>Lines\<close>

text \<open>\<open>None\<close> is a machine that does not come back.\<close>

definition run_line :: "('f, 'r, 'c) rt_env \<Rightarrow> int \<Rightarrow> logline \<Rightarrow> nat \<Rightarrow> ('f, 'r, 'c) runtime \<Rightarrow> (('f, 'r, 'c) runtime go) option" where
  "run_line E now l i r =
     (let mc = rt_machines r ! i;
          s = \<lparr>vs_pc = 0, vs_matched = False, vs_matches = (\<lambda>_. []), vs_time = zeroTime, vs_stack = [], vs_heap = rt_heap r,
               vs_memos = rv_memos mc, vs_terminate = False, vs_errors = rv_errors mc\<rparr> in
      if rv_closed mc then Some (Inl (ExplicitPanic ''send on closed channel''))
      else
        (case ProcessLogLine ((re_vm E)\<lparr>en_now := now\<rparr>) (rv_vm mc) l s of
           None \<Rightarrow> None
         | Some (Inl p) \<Rightarrow> Some (Inl p)
         | Some (Inr s') \<Rightarrow>
             Some (Inr (r\<lparr>rt_heap := vs_heap s',
               rt_machines := (rt_machines r)[i := mc\<lparr>rv_memos := vs_memos s', rv_errors := vs_errors s', rv_lines := rv_lines mc @ [l]\<rparr>]\<rparr>))))"

fun dispatch :: "('f, 'r, 'c) rt_env \<Rightarrow> int \<Rightarrow> logline \<Rightarrow> nat list \<Rightarrow> ('f, 'r, 'c) runtime \<Rightarrow> (('f, 'r, 'c) runtime go) option" where
  "dispatch E now l [] r = Some (Inr r)"
| "dispatch E now l (i # is) r =
     (case run_line E now l i r of None \<Rightarrow> None | Some (Inl p) \<Rightarrow> Some (Inl p) | Some (Inr r') \<Rightarrow> dispatch E now l is r')"

definition send_line :: "('f, 'r, 'c) rt_env \<Rightarrow> int \<Rightarrow> logline \<Rightarrow> ('f, 'r, 'c) runtime \<Rightarrow> (('f, 'r, 'c) runtime go) option" where
  "send_line E now l r = dispatch E now l (map (\<lambda>(_, h). vh_vm h) (rt_handles r)) r"

text \<open>The lines have ended.\<close>

definition end_of_lines :: "('f, 'r, 'c) runtime \<Rightarrow> ('f, 'r, 'c) runtime go" where
  "end_of_lines r =
     and_then (foldM (\<lambda>r (_, h). close_lines (vh_vm h) r) r (rt_handles r)) (\<lambda>r. Inr (r\<lparr>rt_handles := []\<rparr>))"

text \<open>What the loader and the goroutine of the lines do, one step at a time: a reload is a sequence of loads and unloads, between which lines can come.\<close>

datatype rt_event =
    ProgramEvent int string string
  | FileEvent int string "string option"
  | UnloadEvent string
  | LineEvent int logline
  | EndEvent

definition rt_step :: "('f, 'r, 'c) rt_env \<Rightarrow> rt_config \<Rightarrow> rt_event \<Rightarrow> ('f, 'r, 'c) runtime \<Rightarrow> (('f, 'r, 'c) runtime go) option" where
  "rt_step E cfg ev r =
     (case ev of
        ProgramEvent now name input \<Rightarrow> Some (and_then (CompileAndRun E cfg now name input r) (\<lambda>(r, _). Inr r))
      | FileEvent now path contents \<Rightarrow> Some (and_then (LoadProgram E cfg now path contents r) (\<lambda>(r, _). Inr r))
      | UnloadEvent name \<Rightarrow> Some (UnloadProgram name r)
      | LineEvent now l \<Rightarrow> send_line E now l r
      | EndEvent \<Rightarrow> Some (end_of_lines r))"

fun rt_run :: "('f, 'r, 'c) rt_env \<Rightarrow> rt_config \<Rightarrow> rt_event list \<Rightarrow> ('f, 'r, 'c) runtime \<Rightarrow> (('f, 'r, 'c) runtime go) option" where
  "rt_run E cfg [] r = Some (Inr r)"
| "rt_run E cfg (ev # evs) r =
     (case rt_step E cfg ev r of None \<Rightarrow> None | Some (Inl p) \<Rightarrow> Some (Inl p) | Some (Inr r') \<Rightarrow> rt_run E cfg evs r')"

subsection \<open>The invariant\<close>

definition machine_ok :: "nat \<Rightarrow> ('f, 'r, 'c) rt_machine \<Rightarrow> bool" where
  "machine_ok nm mc \<longleftrightarrow> forward_jumps (vm_prog (rv_vm mc)) \<and> vm_ok nm (rv_vm mc)"

text \<open>Each program has a machine of its own, and exactly the machines of programs have an open channel.\<close>

definition handles_ok :: "(string \<times> vm_handle) list \<Rightarrow> ('f, 'r, 'c) rt_machine list \<Rightarrow> bool" where
  "handles_ok hs ms \<longleftrightarrow>
     distinct (map fst hs) \<and>
     (\<forall>n n' h h'. map_of hs n = Some h \<and> map_of hs n' = Some h' \<and> vh_vm h = vh_vm h' \<longrightarrow> n = n') \<and>
     (\<forall>n h. map_of hs n = Some h \<longrightarrow> vh_vm h < length ms) \<and>
     (\<forall>i < length ms. rv_closed (ms ! i) \<longleftrightarrow> (\<forall>n h. map_of hs n = Some h \<longrightarrow> vh_vm h \<noteq> i))"

definition rt_inv :: "('f, 'r, 'c) runtime \<Rightarrow> bool" where
  "rt_inv r \<longleftrightarrow>
     heap_ok (rt_heap r) \<and>
     (\<forall>v \<in> set (concat (map snd (rt_ms r))). v < length (mh_metrics (rt_heap r))) \<and>
     (\<forall>mc \<in> set (rt_machines r). machine_ok (length (mh_metrics (rt_heap r))) mc) \<and>
     handles_ok (rt_handles r) (rt_machines r)"

lemma rt_inv_new: "rt_inv new_runtime"
  by (simp add: rt_inv_def new_runtime_def heap_ok_def handles_ok_def)

lemma machine_ok_mono: "machine_ok nm mc \<Longrightarrow> nm \<le> nm' \<Longrightarrow> machine_ok nm' mc"
  by (auto simp: machine_ok_def vm_ok_def list_all_iff)

lemma machine_ok_cong: "rv_vm mc = rv_vm mc' \<Longrightarrow> machine_ok nm mc = machine_ok nm mc'"
  by (simp add: machine_ok_def)

lemma handles_okD:
  assumes "handles_ok hs ms"
  shows "map_of hs n = Some h \<Longrightarrow> map_of hs n' = Some h' \<Longrightarrow> vh_vm h = vh_vm h' \<Longrightarrow> n = n'"
    and "map_of hs n = Some h \<Longrightarrow> vh_vm h < length ms \<and> \<not> rv_closed (ms ! vh_vm h)"
    and "distinct (map fst hs)"
  using assms unfolding handles_ok_def by blast+

lemma handles_ok_cong:
  "handles_ok hs ms \<Longrightarrow> map rv_closed ms' = map rv_closed ms \<Longrightarrow> handles_ok hs ms'"
proof -
  assume h: "handles_ok hs ms" and m: "map rv_closed ms' = map rv_closed ms"
  have "length ms' = length ms" using m map_eq_imp_length_eq by blast
  moreover have "rv_closed (ms' ! i) = rv_closed (ms ! i)" if "i < length ms" for i
    using arg_cong[OF m, of "\<lambda>l. l ! i"] that calculation by simp
  ultimately show ?thesis using h unfolding handles_ok_def by simp
qed

text \<open>Closing the channel of a program and forgetting it.\<close>

lemma handles_ok_close:
  assumes h: "handles_ok hs ms" and n: "map_of hs n = Some x"
  shows "handles_ok (AList.delete n hs) (ms[vh_vm x := (ms ! vh_vm x)\<lparr>rv_closed := True\<rparr>])"
  unfolding handles_ok_def
proof (intro conjI allI impI)
  note H = handles_okD[OF h]
  let ?ms = "ms[vh_vm x := (ms ! vh_vm x)\<lparr>rv_closed := True\<rparr>]"
  show "distinct (map fst (AList.delete n hs))" using H(3) by (rule AList.distinct_delete)
  fix m m' y y' assume "map_of (AList.delete n hs) m = Some y \<and> map_of (AList.delete n hs) m' = Some y' \<and> vh_vm y = vh_vm y'"
  then show "m = m'" using H(1) by (auto simp: AList.delete_conv' split: if_splits)
next
  fix m y assume "map_of (AList.delete n hs) m = Some y"
  then show "vh_vm y < length (ms[vh_vm x := (ms ! vh_vm x)\<lparr>rv_closed := True\<rparr>])"
    using handles_okD(2)[OF h] by (auto simp: AList.delete_conv' split: if_splits)
next
  fix i assume i: "i < length (ms[vh_vm x := (ms ! vh_vm x)\<lparr>rv_closed := True\<rparr>])"
  show "rv_closed (ms[vh_vm x := (ms ! vh_vm x)\<lparr>rv_closed := True\<rparr>] ! i) \<longleftrightarrow> (\<forall>m y. map_of (AList.delete n hs) m = Some y \<longrightarrow> vh_vm y \<noteq> i)"
  proof (cases "i = vh_vm x")
    case True
    then show ?thesis using i n handles_okD(1)[OF h] by (auto simp: AList.delete_conv' split: if_splits)
  next
    case False
    have "map_of (AList.delete n hs) m = Some y \<longleftrightarrow> m \<noteq> n \<and> map_of hs m = Some y" for m y by (simp add: AList.delete_conv')
    then have "(\<forall>m y. map_of (AList.delete n hs) m = Some y \<longrightarrow> vh_vm y \<noteq> i) \<longleftrightarrow> (\<forall>m y. map_of hs m = Some y \<longrightarrow> vh_vm y \<noteq> i)"
      using n False by (metis option.inject)
    then show ?thesis using i h False unfolding handles_ok_def by simp
  qed
qed

lemma handles_ok_start:
  assumes h: "handles_ok hs ms" and n: "map_of hs n = None" and "\<not> rv_closed mc"
  shows "handles_ok (AList.update n \<lparr>vh_contentHash = ch, vh_vm = length ms\<rparr> hs) (ms @ [mc])"
  unfolding handles_ok_def
proof (intro conjI allI impI)
  note H = handles_okD[OF h]
  let ?hs = "AList.update n \<lparr>vh_contentHash = ch, vh_vm = length ms\<rparr> hs"
  have m: "map_of ?hs k = (if k = n then Some \<lparr>vh_contentHash = ch, vh_vm = length ms\<rparr> else map_of hs k)" for k
    by (simp add: update_conv')
  have old: "vh_vm y < length ms" if "map_of hs k = Some y" for k y using H(2)[OF that] by simp
  show "distinct (map fst ?hs)" using H(3) by (rule AList.distinct_update)
  { fix k k' y y' assume "map_of ?hs k = Some y \<and> map_of ?hs k' = Some y' \<and> vh_vm y = vh_vm y'"
    then show "k = k'" by (cases "k = n"; cases "k' = n") (auto simp: m dest: old H(1)) }
  { fix k y assume "map_of ?hs k = Some y"
    then show "vh_vm y < length (ms @ [mc])" by (cases "k = n") (auto simp: m dest!: old) }
  { fix i assume i: "i < length (ms @ [mc])"
    show "rv_closed ((ms @ [mc]) ! i) \<longleftrightarrow> (\<forall>k y. map_of ?hs k = Some y \<longrightarrow> vh_vm y \<noteq> i)"
    proof (cases "i = length ms")
      case True
      then show ?thesis using assms(3) m by auto
    next
      case False
      then have "i < length ms" using i by simp
      moreover have "(\<forall>k y. map_of ?hs k = Some y \<longrightarrow> vh_vm y \<noteq> i) \<longleftrightarrow> (\<forall>k y. map_of hs k = Some y \<longrightarrow> vh_vm y \<noteq> i)"
        using False n unfolding m by (auto split: if_splits) (metis option.distinct(1))
      ultimately show ?thesis using h False unfolding handles_ok_def by (simp add: nth_append)
    qed }
qed

subsection \<open>Steps keep the invariant\<close>

lemma Compile_object:
  assumes "heap_ok h" and "Compile E cfg now name input h = Inr (Some c)"
  shows "forward_jumps (cg_Program c)" and "vm_ok (length (mh_metrics (cg_heap c))) (vm_New b c)" and "heap_ok (cg_heap c)"
    and "length (mh_metrics h) \<le> length (mh_metrics (cg_heap c))"
    and "cg_Metrics c = [length (mh_metrics h)..<length (mh_metrics (cg_heap c))]"
proof -
  obtain ce n where c: "CodeGen ce (nweight n + 1) h n = Some (Inr (Some c))"
    using assms(2) by (auto simp: Compile_def Let_def split: option.splits)
  show "forward_jumps (cg_Program c)" "vm_ok (length (mh_metrics (cg_heap c))) (vm_New b c)" "heap_ok (cg_heap c)"
    using CodeGen_object[OF assms(1) c, of b] by simp_all
  show "length (mh_metrics h) \<le> length (mh_metrics (cg_heap c))" "cg_Metrics c = [length (mh_metrics h)..<length (mh_metrics (cg_heap c))]"
    using CodeGen_metrics[OF assms(1) c] by (auto dest: prefix_length_le)
qed

lemma metric_ok_Source [simp]: "metric_ok (m\<lparr>mm_Source := x\<rparr>) = metric_ok m"
  by (simp add: metric_ok_def lv_key_def[abs_def])

lemma values_ok_Source [simp]: "values_ok h (m\<lparr>mm_Source := x\<rparr>) = values_ok h m"
  by (simp add: values_ok_def)

lemma add_metrics_ok:
  assumes "heap_ok h" and "distinct mids" and "\<forall>m \<in> set mids. m < length (mh_metrics h)"
    and "\<forall>v \<in> set (concat (map snd s)). v \<notin> set mids \<and> v < length (mh_metrics h)"
    and "add_metrics E cfg now mids s h = (err, s', h')"
  shows "heap_ok h' \<and> length (mh_metrics h') = length (mh_metrics h) \<and> (\<forall>v \<in> set (concat (map snd s')). v < length (mh_metrics h))"
  using assms
proof (induction mids arbitrary: s h)
  case (Cons mid mids)
  let ?m = "mh_metrics h ! mid"
  define h1 where "h1 = (if rc_omitMetricSource cfg then h\<lparr>mh_metrics := (mh_metrics h)[mid := ?m\<lparr>mm_Source := []\<rparr>]\<rparr> else h)"
  have h1: "heap_ok h1" "length (mh_metrics h1) = length (mh_metrics h)"
    using heap_ok_update[OF Cons.prems(1), of "?m\<lparr>mm_Source := []\<rparr>" mid] Cons.prems(1,3) by (auto simp: h1_def heap_ok_iff)
  show ?case
  proof (cases "mm_Hidden ?m")
    case True
    then show ?thesis using Cons.IH[of h s] Cons.prems by (auto simp: Let_def)
  next
    case False
    have "\<forall>v \<in> set (concat (map snd s)). v \<noteq> mid \<and> v < length (mh_metrics h1)" using Cons.prems(4) h1(2) by auto
    from Store_Add_total[OF h1(1) _ this, of "en_fo (re_vm E)" now] Cons.prems(3) h1(2)
    consider (bad) "Store_Add (en_fo (re_vm E)) now mid s h1 = Inl DifferentKind"
      | (good) s1 m1 where "Store_Add (en_fo (re_vm E)) now mid s h1 = Inr (s1, h1\<lparr>mh_metrics := (mh_metrics h1)[mid := m1]\<rparr>)" "metric_ok m1" "values_ok h1 m1"
        "set (concat (map snd s1)) \<subseteq> insert mid (set (concat (map snd s)))" by auto
    then show ?thesis
    proof cases
      case bad
      then have "s' = s" "h' = h1" using Cons.prems(5) False by (simp_all add: Let_def flip: h1_def)
      then show ?thesis using h1 Cons.prems(4) by auto
    next
      case good
      let ?h = "h1\<lparr>mh_metrics := (mh_metrics h1)[mid := m1]\<rparr>"
      have "add_metrics E cfg now mids s1 ?h = (err, s', h')" using good(1) Cons.prems(5) False by (simp add: Let_def flip: h1_def)
      moreover have "heap_ok ?h" by (rule heap_ok_update[OF h1(1) good(2,3)])
      moreover have "\<forall>v \<in> set (concat (map snd s1)). v \<notin> set mids \<and> v < length (mh_metrics ?h)"
        using good(4) Cons.prems(2-4) h1(2) by (auto simp: subset_iff)
      ultimately show ?thesis using Cons.IH[of ?h s1] Cons.prems(2,3) h1(2) by simp
    qed
  qed
qed auto

text \<open>The lines the machine of each program received.\<close>

definition received :: "('f, 'r, 'c) runtime \<Rightarrow> string \<rightharpoonup> logline list" where
  "received r name = map_option (\<lambda>h. rv_lines (rt_machines r ! vh_vm h)) (map_of (rt_handles r) name)"

lemma close_program:
  assumes "rt_inv r" and "map_of (rt_handles r) name = Some h"
  shows "\<exists>r'. close_lines (vh_vm h) r = Inr r' \<and> rt_inv (r'\<lparr>rt_handles := AList.delete name (rt_handles r')\<rparr>) \<and> rt_handles r' = rt_handles r \<and>
    received (r'\<lparr>rt_handles := AList.delete name (rt_handles r')\<rparr>) = (received r)(name := None) \<and> rt_heap r' = rt_heap r \<and> rt_ms r' = rt_ms r"
proof -
  have ok: "handles_ok (rt_handles r) (rt_machines r)" using assms(1) by (simp add: rt_inv_def)
  note H = handles_okD(2)[OF ok assms(2)]
  let ?mc = "rt_machines r ! vh_vm h"
  let ?r = "r\<lparr>rt_machines := (rt_machines r)[vh_vm h := ?mc\<lparr>rv_closed := True\<rparr>]\<rparr>"
  have "machine_ok nm mc" if "\<forall>mc \<in> set (rt_machines r). machine_ok nm mc" "mc \<in> set (rt_machines ?r)" for nm mc
    using that H set_update_subset_insert[of "rt_machines r" "vh_vm h" "?mc\<lparr>rv_closed := True\<rparr>"] by (force simp: machine_ok_def)
  then have "rt_inv (?r\<lparr>rt_handles := AList.delete name (rt_handles ?r)\<rparr>)"
    using assms(1) handles_ok_close[OF ok assms(2)] by (simp add: rt_inv_def)
  moreover have "received (?r\<lparr>rt_handles := AList.delete name (rt_handles ?r)\<rparr>) = (received r)(name := None)"
    using handles_okD(1)[OF ok assms(2)] H by (auto simp: received_def AList.delete_conv' fun_eq_iff nth_list_update option.map_comp intro!: option.map_cong0)
  ultimately show ?thesis using H by (intro exI[of _ ?r]) (simp add: close_lines_def)
qed

lemma handles_ok_map: "handles_ok hs ms \<Longrightarrow> map_of hs' = map_of hs \<Longrightarrow> distinct (map fst hs') \<Longrightarrow> handles_ok hs' ms"
  by (simp add: handles_ok_def)

lemma start_machine_ok:
  assumes inv: "rt_inv r" and obj: "forward_jumps (cg_Program obj)" "vm_ok (length (mh_metrics (rt_heap r))) (vm_New (rc_syslogUseCurrentYear cfg) obj)"
  shows "\<exists>r'. start_machine E cfg name ch obj r = Inr r' \<and> rt_inv r' \<and> received r' = (received r)(name \<mapsto> [])"
proof -
  define x where "x = (\<lambda>ms :: ('a, 'b, 'c) rt_machine list. \<lparr>vh_contentHash = ch, vh_vm = length ms\<rparr>)"
  define mc where "mc = \<lparr>rv_vm = vm_New (rc_syslogUseCurrentYear cfg) obj, rv_memos = re_memos E, rv_errors = 0, rv_closed = False, rv_lines = []\<rparr>"
  define started where "started = (\<lambda>r :: ('a, 'b, 'c) runtime. r\<lparr>rt_handles := AList.update name (x (rt_machines r)) (rt_handles r), rt_machines := rt_machines r @ [mc]\<rparr>)"
  have mc: "machine_ok (length (mh_metrics (rt_heap r))) mc" "\<not> rv_closed mc" using obj by (simp_all add: machine_ok_def mc_def vm_New_def)
  have step: "rt_inv (started r1)" "received (started r1) = (received r2)(name \<mapsto> [])"
    if r2: "rt_inv r2" "map_of (rt_handles r2) name = None" "rt_heap r2 = rt_heap r"
      "rt_machines r1 = rt_machines r2" "rt_heap r1 = rt_heap r2" "rt_ms r1 = rt_ms r2"
      "distinct (map fst (rt_handles r1))" "\<And>n. n \<noteq> name \<Longrightarrow> map_of (rt_handles r1) n = map_of (rt_handles r2) n" for r1 r2
  proof -
    have ok: "handles_ok (rt_handles r2) (rt_machines r2)" using r2(1) by (simp add: rt_inv_def)
    have "map_of (AList.update name (x (rt_machines r2)) (rt_handles r1)) = map_of (AList.update name (x (rt_machines r2)) (rt_handles r2))"
      using r2(8) by (auto simp: update_conv' fun_eq_iff)
    moreover have "handles_ok (AList.update name (x (rt_machines r2)) (rt_handles r2)) (rt_machines r2 @ [mc])"
      using handles_ok_start[OF ok r2(2) mc(2), of ch] by (simp add: x_def)
    ultimately have "handles_ok (AList.update name (x (rt_machines r2)) (rt_handles r1)) (rt_machines r2 @ [mc])"
      using handles_ok_map AList.distinct_update[OF r2(7)] by blast
    then show "rt_inv (started r1)" using r2(1,3-6) mc(1) by (auto simp: rt_inv_def started_def)
    show "received (started r1) = (received r2)(name \<mapsto> [])"
      using r2(4,8) handles_okD(2)[OF ok] by (auto simp: received_def started_def update_conv' fun_eq_iff x_def mc_def nth_append intro!: option.map_cong0)
  qed
  show ?thesis
  proof (cases "map_of (rt_handles r) name")
    case None
    have "start_machine E cfg name ch obj r = Inr (started r)" using None by (simp add: start_machine_def started_def x_def mc_def)
    moreover have "distinct (map fst (rt_handles r))" using inv by (auto simp: rt_inv_def dest: handles_okD(3))
    ultimately show ?thesis using step[OF inv None] by simp
  next
    case (Some h)
    obtain r1 where r1: "close_lines (vh_vm h) r = Inr r1" "rt_inv (r1\<lparr>rt_handles := AList.delete name (rt_handles r1)\<rparr>)" "rt_handles r1 = rt_handles r"
      "received (r1\<lparr>rt_handles := AList.delete name (rt_handles r1)\<rparr>) = (received r)(name := None)" "rt_heap r1 = rt_heap r"
      using close_program[OF inv Some] by blast
    have "start_machine E cfg name ch obj r = Inr (started r1)" using Some r1(1) by (simp add: start_machine_def started_def x_def mc_def)
    moreover have "distinct (map fst (rt_handles r1))" using inv r1(3) by (auto simp: rt_inv_def dest: handles_okD(3))
    ultimately show ?thesis using step[OF r1(2), of r1] r1(4,5) by (simp add: AList.delete_conv')
  qed
qed

text \<open>A load either leaves every machine as it was or starts a new one for the program.\<close>

lemma CompileAndRun_ok:
  assumes inv: "rt_inv r" and np: "\<And>h p. Compile E cfg now name input h \<noteq> Inl p"
  shows "\<exists>r' err. CompileAndRun E cfg now name input r = Inr (r', err) \<and> rt_inv r' \<and>
    (received r' = received r \<or> err = None \<and> received r' = (received r)(name \<mapsto> []))"
proof (cases "case map_of (rt_handles r) name of None \<Rightarrow> False | Some vh \<Rightarrow> vh_contentHash vh = re_sha256 E input")
  case True
  then show ?thesis using inv by (simp add: CompileAndRun_def)
next
  case new: False
  obtain res where res: "Compile E cfg now name input (rt_heap r) = Inr res" using np by (cases "Compile E cfg now name input (rt_heap r)") auto
  show ?thesis
  proof (cases res)
    case None
    then show ?thesis using new res inv by (simp add: CompileAndRun_def)
  next
    case (Some obj)
    have hp: "heap_ok (rt_heap r)" using inv by (simp add: rt_inv_def)
    note O = Compile_object[OF hp res[unfolded Some]]
    obtain err s h where a: "add_metrics E cfg now (cg_Metrics obj) (rt_ms r) (cg_heap obj) = (err, s, h)" by (metis prod_cases3)
    have h: "heap_ok h" "length (mh_metrics h) = length (mh_metrics (cg_heap obj))" "\<forall>v \<in> set (concat (map snd s)). v < length (mh_metrics h)"
    proof -
      have "\<forall>v \<in> set (concat (map snd (rt_ms r))). v < length (mh_metrics (rt_heap r))" using inv unfolding rt_inv_def by blast
      then have ids: "\<forall>v \<in> set (concat (map snd (rt_ms r))). v \<notin> set (cg_Metrics obj) \<and> v < length (mh_metrics (cg_heap obj))"
        unfolding O(5) set_upt atLeastLessThan_iff using O(4) by force
      have "distinct (cg_Metrics obj)" "\<forall>m \<in> set (cg_Metrics obj). m < length (mh_metrics (cg_heap obj))" by (simp_all add: O(5))
      note A = add_metrics_ok[OF O(3) this ids a]
      show "heap_ok h" "length (mh_metrics h) = length (mh_metrics (cg_heap obj))" "\<forall>v \<in> set (concat (map snd s)). v < length (mh_metrics h)"
        using A by auto
    qed
    define r1 where "r1 = r\<lparr>rt_ms := s, rt_heap := h\<rparr>"
    have r1: "rt_inv r1" "received r1 = received r"
      using inv h O(4) by (auto simp: rt_inv_def r1_def received_def fun_eq_iff intro: machine_ok_mono)
    obtain r2 where r2: "start_machine E cfg name (re_sha256 E input) obj r1 = Inr r2" "rt_inv r2" "received r2 = (received r1)(name \<mapsto> [])"
      using start_machine_ok[OF r1(1) O(1), of cfg E name] O(2) h(2) by (auto simp: r1_def)
    have eq: "CompileAndRun E cfg now name input r =
        (case err of Some e \<Rightarrow> Inr (r1, Some (AddFailed e)) | None \<Rightarrow> if rc_compileOnly cfg then Inr (r1, None) else Inr (r2, None))"
      using new res Some a r2(1) by (simp add: CompileAndRun_def Let_def r1_def split: option.split)
    show ?thesis unfolding eq using r1 r2 by (cases err) auto
  qed
qed

lemma LoadProgram_ok:
  assumes inv: "rt_inv r" and np: "\<And>input h p. Compile E cfg now (path_Base path) input h \<noteq> Inl p"
  shows "\<exists>r' err. LoadProgram E cfg now path contents r = Inr (r', err) \<and> rt_inv r' \<and>
    (received r' = received r \<or> err = None \<and> received r' = (received r)(path_Base path \<mapsto> []))"
proof -
  have cong: "rt_inv (r\<lparr>rt_programErrors := x\<rparr>) = rt_inv r" "received (r\<lparr>rt_programErrors := x\<rparr>) = received r" for r :: "('a, 'b, 'c) runtime" and x
    by (simp_all add: rt_inv_def received_def fun_eq_iff)
  show ?thesis
  proof (cases contents)
    case None
    then show ?thesis using inv by (simp add: LoadProgram_def Let_def)
  next
    case (Some input)
    obtain r1 err where "CompileAndRun E cfg now (path_Base path) input r = Inr (r1, err)" "rt_inv r1"
      "received r1 = received r \<or> err = None \<and> received r1 = (received r)(path_Base path \<mapsto> [])"
      using CompileAndRun_ok[OF inv np] by blast
    then show ?thesis using Some inv by (auto simp: LoadProgram_def Let_def cong)
  qed
qed

lemma UnloadProgram_ok:
  assumes "rt_inv r"
  shows "(case UnloadProgram name r of
      Inl p \<Rightarrow> p = NilDereference \<and> received r (path_Base name) = None
    | Inr r' \<Rightarrow> rt_inv r' \<and> received r (path_Base name) \<noteq> None \<and> received r' = (received r)(path_Base name := None))"
proof (cases "map_of (rt_handles r) (path_Base name)")
  case None
  then show ?thesis by (simp add: UnloadProgram_def Let_def received_def)
next
  case (Some h)
  from close_program[OF assms Some] Some show ?thesis by (auto simp: UnloadProgram_def Let_def received_def)
qed

subsection \<open>Lines reach every machine\<close>

lemma run_line_ok:
  assumes inv: "rt_inv r" and i: "i < length (rt_machines r)" "\<not> rv_closed (rt_machines r ! i)"
  shows "\<exists>r'. run_line E now l i r = Some (Inr r') \<and> rt_inv r' \<and> rt_handles r' = rt_handles r \<and>
    map rv_closed (rt_machines r') = map rv_closed (rt_machines r) \<and>
    map rv_lines (rt_machines r') = (map rv_lines (rt_machines r))[i := rv_lines (rt_machines r ! i) @ [l]]"
proof -
  let ?mc = "rt_machines r ! i"
  let ?s = "\<lparr>vs_pc = 0, vs_matched = False, vs_matches = (\<lambda>_. []), vs_time = zeroTime, vs_stack = [], vs_heap = rt_heap r,
               vs_memos = rv_memos ?mc, vs_terminate = False, vs_errors = rv_errors ?mc\<rparr>"
  let ?nm = "length (mh_metrics (rt_heap r))"
  have mc: "machine_ok ?nm ?mc" using inv i(1) by (simp add: rt_inv_def)
  obtain s' where s': "ProcessLogLine ((re_vm E)\<lparr>en_now := now\<rparr>) (rv_vm ?mc) l ?s = Some (Inr s')" "heap_ok (vs_heap s')" "length (mh_metrics (vs_heap s')) = ?nm"
    using ProcessLogLine_ends[of "rv_vm ?mc" ?nm ?s "(re_vm E)\<lparr>en_now := now\<rparr>" l] mc inv by (auto simp: machine_ok_def rt_inv_def)
  define mc' where "mc' = ?mc\<lparr>rv_memos := vs_memos s', rv_errors := vs_errors s', rv_lines := rv_lines ?mc @ [l]\<rparr>"
  define r' where "r' = r\<lparr>rt_heap := vs_heap s', rt_machines := (rt_machines r)[i := mc']\<rparr>"
  have run: "run_line E now l i r = Some (Inr r')" using s'(1) i(2) by (simp add: run_line_def Let_def r'_def mc'_def)
  have closed: "map rv_closed (rt_machines r') = map rv_closed (rt_machines r)"
    using i(1) by (simp add: r'_def mc'_def map_update list_update_same_conv)
  have "machine_ok ?nm x" if "x \<in> set (rt_machines r')" for x
    using that inv mc set_update_subset_insert[of "rt_machines r" i mc'] machine_ok_cong[of mc' ?mc ?nm]
    by (auto simp: r'_def rt_inv_def mc'_def)
  then have "rt_inv r'" using inv s'(2,3) handles_ok_cong[OF _ closed] by (simp add: rt_inv_def r'_def)
  moreover have "map rv_lines (rt_machines r') = (map rv_lines (rt_machines r))[i := rv_lines ?mc @ [l]]" by (simp add: r'_def mc'_def map_update)
  ultimately show ?thesis using run closed by (intro exI[of _ r']) (simp add: r'_def)
qed

lemma dispatch_ok:
  assumes "rt_inv r" and "distinct is" and "\<forall>i \<in> set is. i < length (rt_machines r) \<and> \<not> rv_closed (rt_machines r ! i)"
  shows "\<exists>r'. dispatch E now l is r = Some (Inr r') \<and> rt_inv r' \<and> rt_handles r' = rt_handles r \<and> length (rt_machines r') = length (rt_machines r) \<and>
    (\<forall>j < length (rt_machines r). rv_lines (rt_machines r' ! j) = rv_lines (rt_machines r ! j) @ (if j \<in> set is then [l] else []))"
  using assms
proof (induction "is" arbitrary: r)
  case (Cons i "is")
  obtain r1 where r1: "run_line E now l i r = Some (Inr r1)" "rt_inv r1" "rt_handles r1 = rt_handles r"
      "map rv_closed (rt_machines r1) = map rv_closed (rt_machines r)"
      "map rv_lines (rt_machines r1) = (map rv_lines (rt_machines r))[i := rv_lines (rt_machines r ! i) @ [l]]"
    using run_line_ok[OF Cons.prems(1), of i E now l] Cons.prems(3) by auto
  have len: "length (rt_machines r1) = length (rt_machines r)" using map_eq_imp_length_eq[OF r1(4)] .
  have c: "rv_closed (rt_machines r1 ! j) = rv_closed (rt_machines r ! j)" if "j < length (rt_machines r)" for j
    using arg_cong[OF r1(4), of "\<lambda>xs. xs ! j"] that len by simp
  have ls: "rv_lines (rt_machines r1 ! j) = rv_lines (rt_machines r ! j) @ (if j = i then [l] else [])" if "j < length (rt_machines r)" for j
    using arg_cong[OF r1(5), of "\<lambda>xs. xs ! j"] that len by (auto simp: nth_list_update)
  obtain r' where r': "dispatch E now l is r1 = Some (Inr r')" "rt_inv r'" "rt_handles r' = rt_handles r1" "length (rt_machines r') = length (rt_machines r1)"
      "\<forall>j < length (rt_machines r1). rv_lines (rt_machines r' ! j) = rv_lines (rt_machines r1 ! j) @ (if j \<in> set is then [l] else [])"
    using Cons.IH[OF r1(2)] Cons.prems(2,3) c len by auto
  show ?case using r' r1 len ls Cons.prems(2) by (intro exI[of _ r']) auto
qed auto

lemma handles_indices:
  assumes "handles_ok hs ms"
  shows "distinct (map (\<lambda>(_, h). vh_vm h) hs)" and "i \<in> set (map (\<lambda>(_, h). vh_vm h) hs) \<longleftrightarrow> (\<exists>n h. map_of hs n = Some h \<and> vh_vm h = i)"
proof -
  note d = handles_okD(3)[OF assms]
  have m: "(n, h) \<in> set hs \<longleftrightarrow> map_of hs n = Some h" for n h using map_of_eq_Some_iff[OF d, of n h] by simp
  have "inj_on (\<lambda>(_, h). vh_vm h) (set hs)"
    unfolding inj_on_def using handles_okD(1)[OF assms] m by (auto, metis option.inject)
  then show "distinct (map (\<lambda>(_, h). vh_vm h) hs)" using d by (simp add: distinct_map)
  show "i \<in> set (map (\<lambda>(_, h). vh_vm h) hs) \<longleftrightarrow> (\<exists>n h. map_of hs n = Some h \<and> vh_vm h = i)" using m by force
qed

lemma send_line_ok:
  assumes inv: "rt_inv r"
  shows "\<exists>r'. send_line E now l r = Some (Inr r') \<and> rt_inv r' \<and> received r' = (\<lambda>n. map_option (\<lambda>ls. ls @ [l]) (received r n))"
proof -
  have ok: "handles_ok (rt_handles r) (rt_machines r)" using inv by (simp add: rt_inv_def)
  let ?is = "map (\<lambda>(_, h). vh_vm h) (rt_handles r)"
  have "\<forall>i \<in> set ?is. i < length (rt_machines r) \<and> \<not> rv_closed (rt_machines r ! i)"
    using handles_okD(2)[OF ok] unfolding Ball_def handles_indices(2)[OF ok] by blast
  from dispatch_ok[OF inv handles_indices(1)[OF ok] this, of E now l] obtain r' where
    r': "dispatch E now l ?is r = Some (Inr r')" "rt_inv r'" "rt_handles r' = rt_handles r"
      "\<forall>j < length (rt_machines r). rv_lines (rt_machines r' ! j) = rv_lines (rt_machines r ! j) @ (if j \<in> set ?is then [l] else [])" by blast
  have "received r' n = map_option (\<lambda>ls. ls @ [l]) (received r n)" for n
  proof (cases "map_of (rt_handles r) n")
    case (Some h)
    then have "vh_vm h \<in> set ?is" using handles_indices(2)[OF ok] by blast
    then show ?thesis using Some r'(3,4) handles_okD(2)[OF ok Some] by (simp add: received_def)
  qed (simp add: received_def r'(3))
  then show ?thesis using r'(1,2) by (intro exI[of _ r']) (simp add: send_line_def fun_eq_iff)
qed

lemma close_all:
  assumes "distinct (map (\<lambda>(_, h). vh_vm h) hs)" and "\<forall>i \<in> set (map (\<lambda>(_, h). vh_vm h) hs). i < length (rt_machines r) \<and> \<not> rv_closed (rt_machines r ! i)"
  shows "\<exists>ms. foldM (\<lambda>r (_, h). close_lines (vh_vm h) r) r hs = Inr (r\<lparr>rt_machines := ms\<rparr>) \<and> map rv_vm ms = map rv_vm (rt_machines r) \<and>
    (\<forall>j < length (rt_machines r). rv_closed (ms ! j) \<longleftrightarrow> rv_closed (rt_machines r ! j) \<or> j \<in> set (map (\<lambda>(_, h). vh_vm h) hs))"
  using assms
proof (induction hs arbitrary: r)
  case Nil
  then show ?case by (intro exI[of _ "rt_machines r"]) simp
next
  case (Cons x hs)
  obtain n h where x: "x = (n, h)" by fastforce
  let ?i = "vh_vm h" and ?ms = "rt_machines r"
  define r1 where "r1 = r\<lparr>rt_machines := ?ms[?i := (?ms ! ?i)\<lparr>rv_closed := True\<rparr>]\<rparr>"
  have i: "?i < length ?ms" "\<not> rv_closed (?ms ! ?i)" "?i \<notin> set (map (\<lambda>(_, h). vh_vm h) hs)" using Cons.prems x by auto
  have r1: "close_lines ?i r = Inr r1" "length (rt_machines r1) = length ?ms" "map rv_vm (rt_machines r1) = map rv_vm ?ms"
    using i by (simp_all add: close_lines_def r1_def map_update list_update_same_conv)
  have c: "rv_closed (rt_machines r1 ! j) \<longleftrightarrow> rv_closed (?ms ! j) \<or> j = ?i" if "j < length ?ms" for j
    using i that by (auto simp: r1_def nth_list_update)
  have "j < length (rt_machines r1) \<and> \<not> rv_closed (rt_machines r1 ! j)" if j: "j \<in> set (map (\<lambda>(_, h). vh_vm h) hs)" for j
  proof -
    have "j \<noteq> ?i" using j i(3) by metis
    moreover have "j \<in> set (map (\<lambda>(_, h). vh_vm h) (x # hs))" using j by simp
    then have "j < length ?ms \<and> \<not> rv_closed (?ms ! j)" by (rule Cons.prems(2)[rule_format])
    ultimately show ?thesis using c r1(2) by simp
  qed
  then obtain ms where ms: "foldM (\<lambda>r (_, h). close_lines (vh_vm h) r) r1 hs = Inr (r1\<lparr>rt_machines := ms\<rparr>)" "map rv_vm ms = map rv_vm (rt_machines r1)"
      "\<forall>j < length (rt_machines r1). rv_closed (ms ! j) \<longleftrightarrow> rv_closed (rt_machines r1 ! j) \<or> j \<in> set (map (\<lambda>(_, h). vh_vm h) hs)"
    using Cons.IH[of r1] Cons.prems(1) x by auto
  show ?case using ms r1 c by (intro exI[of _ ms]) (auto simp: x r1_def)
qed

lemma end_of_lines_ok:
  assumes inv: "rt_inv r"
  shows "\<exists>r'. end_of_lines r = Inr r' \<and> rt_inv r' \<and> received r' = Map.empty"
proof -
  have ok: "handles_ok (rt_handles r) (rt_machines r)" using inv by (simp add: rt_inv_def)
  let ?is = "map (\<lambda>(_, h). vh_vm h) (rt_handles r)"
  have "\<forall>i \<in> set ?is. i < length (rt_machines r) \<and> \<not> rv_closed (rt_machines r ! i)"
    using handles_okD(2)[OF ok] unfolding Ball_def handles_indices(2)[OF ok] by blast
  from close_all[OF handles_indices(1)[OF ok] this] obtain ms where
    ms: "foldM (\<lambda>r (_, h). close_lines (vh_vm h) r) r (rt_handles r) = Inr (r\<lparr>rt_machines := ms\<rparr>)" "map rv_vm ms = map rv_vm (rt_machines r)"
      "\<forall>j < length (rt_machines r). rv_closed (ms ! j) \<longleftrightarrow> rv_closed (rt_machines r ! j) \<or> j \<in> set ?is" by blast
  let ?r = "r\<lparr>rt_machines := ms, rt_handles := []\<rparr>"
  have len: "length ms = length (rt_machines r)" using map_eq_imp_length_eq[OF ms(2)] .
  have "rv_closed (ms ! j)" if "j < length ms" for j
    using ms(3) that ok len unfolding handles_indices(2)[OF ok] handles_ok_def by auto
  then have "handles_ok [] ms" by (simp add: handles_ok_def)
  moreover have "machine_ok nm mc" if "\<forall>mc \<in> set (rt_machines r). machine_ok nm mc" "mc \<in> set ms" for nm mc
  proof -
    have "rv_vm mc \<in> set (map rv_vm (rt_machines r))" using that(2) ms(2) by (metis image_eqI set_map)
    then show ?thesis using that(1) machine_ok_cong by (metis (no_types, lifting) image_iff set_map)
  qed
  ultimately have "rt_inv ?r" using inv by (simp add: rt_inv_def)
  then show ?thesis using ms(1) by (intro exI[of _ ?r]) (simp add: end_of_lines_def received_def fun_eq_iff)
qed

subsection \<open>The service of the loader\<close>

text \<open>What the users of the loader can rely on: the lines that each loaded program has received since it was loaded. A load may start the program
  afresh or leave things as they were.\<close>

inductive delivers :: "rt_event list \<Rightarrow> (string \<rightharpoonup> logline list) \<Rightarrow> bool" where
  start: "delivers [] Map.empty"
| line: "delivers evs A \<Longrightarrow> delivers (evs @ [LineEvent now l]) (\<lambda>n. map_option (\<lambda>ls. ls @ [l]) (A n))"
| ended: "delivers evs A \<Longrightarrow> delivers (evs @ [EndEvent]) Map.empty"
| unload: "delivers evs A \<Longrightarrow> A (path_Base n) \<noteq> None \<Longrightarrow> delivers (evs @ [UnloadEvent n]) (A(path_Base n := None))"
| program_kept: "delivers evs A \<Longrightarrow> delivers (evs @ [ProgramEvent now n input]) A"
| program_new: "delivers evs A \<Longrightarrow> delivers (evs @ [ProgramEvent now n input]) (A(n \<mapsto> []))"
| file_kept: "delivers evs A \<Longrightarrow> delivers (evs @ [FileEvent now path contents]) A"
| file_new: "delivers evs A \<Longrightarrow> delivers (evs @ [FileEvent now path contents]) (A(path_Base path \<mapsto> []))"

lemma rt_step_delivers:
  assumes np: "\<And>now name input h p. Compile E cfg now name input h \<noteq> Inl p" and inv: "rt_inv r" and d: "delivers evs (received r)"
  shows "case rt_step E cfg ev r of
      None \<Rightarrow> False
    | Some (Inl p) \<Rightarrow> p = NilDereference \<and> (\<exists>n. ev = UnloadEvent n)
    | Some (Inr r') \<Rightarrow> rt_inv r' \<and> delivers (evs @ [ev]) (received r')"
proof (cases ev)
  case (ProgramEvent now name input)
  obtain r' err where "CompileAndRun E cfg now name input r = Inr (r', err)" "rt_inv r'"
    "received r' = received r \<or> err = None \<and> received r' = (received r)(name \<mapsto> [])"
    using CompileAndRun_ok[OF inv np] by blast
  then show ?thesis using ProgramEvent program_kept[OF d] program_new[OF d] by (auto simp: rt_step_def)
next
  case (FileEvent now path contents)
  obtain r' err where "LoadProgram E cfg now path contents r = Inr (r', err)" "rt_inv r'"
    "received r' = received r \<or> err = None \<and> received r' = (received r)(path_Base path \<mapsto> [])"
    using LoadProgram_ok[OF inv np] by blast
  then show ?thesis using FileEvent file_kept[OF d] file_new[OF d] by (auto simp: rt_step_def)
next
  case (UnloadEvent n)
  then show ?thesis using UnloadProgram_ok[OF inv, of n] unload[OF d, of n] by (auto simp: rt_step_def split: sum.splits)
next
  case (LineEvent now l)
  obtain r' where "send_line E now l r = Some (Inr r')" "rt_inv r'" "received r' = (\<lambda>n. map_option (\<lambda>ls. ls @ [l]) (received r n))"
    using send_line_ok[OF inv] by blast
  then show ?thesis using LineEvent line[OF d, of now l] by (simp add: rt_step_def)
next
  case EndEvent
  obtain r' where "end_of_lines r = Inr r'" "rt_inv r'" "received r' = Map.empty" using end_of_lines_ok[OF inv] by blast
  then show ?thesis using EndEvent ended[OF d] by (simp add: rt_step_def)
qed

text \<open>C10: the mtail loader serves its programs. Let the front end be any function, as long as the code generator does not panic on what it returns. From a start without
  programs, through any sequence of loads, unloads, lines and the end of the lines, the loader always returns: every line is run
  to its end by every loaded program, whatever the programs, and the only panic there can be is the unload of a program that is not
  loaded. At each moment the machine of a program has received exactly the lines since it was started, a machine that
  was replaced or unloaded has a closed channel, closed once, so that after the end no goroutine is left, and the metrics
  on the heap are consistent.\<close>

theorem Runtime_serves:
  assumes "\<And>now name input h p. Compile E cfg now name input h \<noteq> Inl p"
  shows "case rt_run E cfg evs new_runtime of
      None \<Rightarrow> False
    | Some (Inl p) \<Rightarrow> p = NilDereference \<and> (\<exists>n. UnloadEvent n \<in> set evs)
    | Some (Inr r) \<Rightarrow> rt_inv r \<and> delivers evs (received r)"
proof -
  have "case rt_run E cfg evs' r of
      None \<Rightarrow> False
    | Some (Inl p) \<Rightarrow> p = NilDereference \<and> (\<exists>n. UnloadEvent n \<in> set evs')
    | Some (Inr r') \<Rightarrow> rt_inv r' \<and> delivers (evs @ evs') (received r')" if "rt_inv r" "delivers evs (received r)" for evs evs' r
    using that
  proof (induction evs' arbitrary: evs r)
    case (Cons ev evs')
    note S = rt_step_delivers[OF assms Cons.prems, of ev]
    show ?case
    proof (cases "rt_step E cfg ev r")
      case (Some res)
      show ?thesis
      proof (cases res)
        case (Inl p)
        then show ?thesis using S Some by auto
      next
        case (Inr r1)
        then have "rt_inv r1" "delivers (evs @ [ev]) (received r1)" using S Some by auto
        from Cons.IH[OF this] show ?thesis using Some Inr by (auto split: option.splits sum.splits)
      qed
    qed (use S in simp)
  qed simp
  note R = this[OF rt_inv_new, of "[]" evs]
  have "received (new_runtime :: ('a, 'b, 'c) runtime) = Map.empty" by (simp add: received_def new_runtime_def fun_eq_iff)
  then show ?thesis using R[unfolded append_Nil] delivers.start by simp
qed

text \<open>A front end that reads every text as the same constant expression.\<close>

definition example_rt_env :: "(nat, string, unit) rt_env" where
  "example_rt_env = \<lparr>re_vm = example_vm_env, re_regexp = Some, re_Parse = (\<lambda>_ _. Some folded_example), re_Check = Some, re_sha256 = (\<lambda>x. x), re_memos = ()\<rparr>"

definition example_config :: rt_config where
  "example_config = \<lparr>rc_omitMetricSource = False, rc_compileOnly = False, rc_errorsAbort = False, rc_syslogUseCurrentYear = False, rc_disableOptimisation = True\<rparr>"

theorem Runtime_serves_witness:
  "\<exists>r. rt_run example_rt_env example_config
       [FileEvent 1 ''a.mtail'' (Some ''x''), LineEvent 2 \<lparr>ll_Filename = ''f'', ll_Line = ''l''\<rparr>, EndEvent] new_runtime = Some (Inr r) \<and>
     rt_inv r \<and> delivers [FileEvent 1 ''a.mtail'' (Some ''x''), LineEvent 2 \<lparr>ll_Filename = ''f'', ll_Line = ''l''\<rparr>, EndEvent] (received r)"
proof -
  have c: "const_expr T_Int folded_example" "nweight folded_example < Suc (nweight folded_example)" by (simp_all add: folded_example_def arith_ops_def)
  have "Compile example_rt_env example_config now name input h \<noteq> Inl p" for now name input h p
    by (simp add: CodeGen_const[OF c] Compile_def front_end_def optimise_pass_def example_rt_env_def example_config_def Let_def)
  from Runtime_serves[OF this, of "[FileEvent 1 ''a.mtail'' (Some ''x''), LineEvent 2 \<lparr>ll_Filename = ''f'', ll_Line = ''l''\<rparr>, EndEvent]"]
  show ?thesis by (auto split: option.splits sum.splits)
qed

subsection \<open>A reload follows the directory\<close>

lemma path_Base_idem: "path_Base (path_Base p) = path_Base p"
proof -
  define b where "b = takeWhile (\<lambda>c. c \<noteq> CHR ''/'') (dropWhile (\<lambda>c. c = CHR ''/'') (rev p))"
  have ns: "c \<noteq> CHR ''/''" if "c \<in> set b" for c using set_takeWhileD[OF that[unfolded b_def]] by simp
  then have t: "takeWhile (\<lambda>c. c \<noteq> CHR ''/'') b = b" by (simp add: takeWhile_eq_all_conv)
  have d: "dropWhile (\<lambda>c. c = CHR ''/'') b = b" using ns by (cases b) auto
  have "path_Base (rev b) = rev b" if "b \<noteq> []" unfolding path_Base_def Let_def rev_rev_ident d t using that by simp
  moreover have "path_Base ''.'' = ''.''" "path_Base ''/'' = ''/''" by (simp_all add: path_Base_def)
  moreover have "path_Base p = (if p = [] then ''.'' else if b = [] then ''/'' else rev b)" by (simp add: path_Base_def Let_def flip: b_def)
  ultimately show ?thesis by simp
qed

lemma load_files_ok:
  assumes np: "\<And>now name input h p. Compile E cfg now name input h \<noteq> Inl p" and "rt_inv r"
  shows "\<exists>r' err. load_files E cfg now files r = Inr (r', err) \<and> rt_inv r' \<and>
    (\<forall>n. received r' n = received r n \<or> received r' n = Some [] \<and> n \<in> path_Base ` fst ` set files)"
  using assms(2)
proof (induction files arbitrary: r)
  case (Cons f files)
  obtain path contents where f: "f = (path, contents)" by fastforce
  obtain r1 e where r1: "LoadProgram E cfg now path contents r = Inr (r1, e)" "rt_inv r1"
    "received r1 = received r \<or> e = None \<and> received r1 = (received r)(path_Base path \<mapsto> [])"
    using LoadProgram_ok[OF Cons.prems np] by blast
  then have one: "received r1 n = received r n \<or> received r1 n = Some [] \<and> n = path_Base path" for n by (auto split: if_splits)
  obtain r2 e2 where r2: "load_files E cfg now files r1 = Inr (r2, e2)" "rt_inv r2"
    "\<forall>n. received r2 n = received r1 n \<or> received r2 n = Some [] \<and> n \<in> path_Base ` fst ` set files"
    using Cons.IH[OF r1(2)] by blast
  have "load_files E cfg now (f # files) r = Inr (if e \<noteq> None \<and> rc_errorsAbort cfg then (r1, e) else (r2, e2))"
    using r1(1) r2(1) by (simp add: f)
  moreover have "received r2 n = received r n \<or> received r2 n = Some [] \<and> n \<in> path_Base ` fst ` set (f # files)" for n
    using r2(3)[rule_format, of n] one[of n] by (auto simp: f)
  moreover have "received r1 n = received r n \<or> received r1 n = Some [] \<and> n \<in> path_Base ` fst ` set (f # files)" for n
    using one[of n] by (auto simp: f)
  ultimately show ?case using r1(2) r2(2) by (cases "e \<noteq> None \<and> rc_errorsAbort cfg") auto
qed auto

lemma unload_all:
  assumes "rt_inv r" and "distinct names" and "\<forall>n \<in> set names. path_Base n = n \<and> received r n \<noteq> None"
  shows "\<exists>r'. foldM (\<lambda>r name. UnloadProgram name r) r names = Inr r' \<and> rt_inv r' \<and> received r' = (\<lambda>n. if n \<in> set names then None else received r n)"
  using assms
proof (induction names arbitrary: r)
  case (Cons n names)
  have "path_Base n = n" "received r n \<noteq> None" using Cons.prems(3) by auto
  then obtain r1 where r1: "UnloadProgram n r = Inr r1" "rt_inv r1" "received r1 = (received r)(n := None)"
    using UnloadProgram_ok[OF Cons.prems(1), of n] by (cases "UnloadProgram n r") auto
  have "\<forall>m \<in> set names. path_Base m = m \<and> received r1 m \<noteq> None"
  proof
    fix m assume "m \<in> set names"
    then show "path_Base m = m \<and> received r1 m \<noteq> None" using Cons.prems(2,3) r1(3) by (cases "m = n") auto
  qed
  then obtain r' where "foldM (\<lambda>r name. UnloadProgram name r) r1 names = Inr r'" "rt_inv r'"
    "received r' = (\<lambda>n. if n \<in> set names then None else received r1 n)"
    using Cons.IH[OF r1(2) distinct_tl[OF Cons.prems(2), simplified]] by blast
  then show ?case using r1 by (intro exI[of _ r']) auto
qed auto



end
