(* ===== verification/Spec2Isabelle.thy ===== *)
theory Spec2Isabelle
  imports Prom_Relabel Log_Pipeline Log_Scanner Metrics_Agent Metric_Series Retry Ibex Mtail_Runtime
begin

text \<open>
  A verification development of categraf, a monitoring agent written in Go (under \<open>src/\<close>).

  \<^bold>\<open>The program.\<close> The agent gathers metric samples with input plugins, processes them
  (\<open>config/inline.go\<close>: name filters, value mappings, labels, relabel rules), converts them to time
  series and queues them for its writers (\<open>types\<close>, \<open>writer\<close>). Beside that it collects logs: a tailer reads a
  file in chunks, a decoder cuts them into lines, line parsers and line handlers turn lines
  into messages, a processor redacts and encodes them, a batch strategy sends payloads to
  destinations, and an auditor remembers the offset of each message that was delivered, so
  that a restarted agent reads on from there. It also runs scripts a server assigns to it (\<open>ibex\<close>),
  and its \<open>mtail\<close> input compiles user programs to byte code that turns log lines into metrics.

  \<^bold>\<open>The theories.\<close>

  \<^item> \<open>Go_Prelude\<close>: panics as values (\<open>go\<close>, a sum with the panic on the left, sequenced by \<open>and_then\<close> and
    \<open>foldM\<close>), strings as lists of bytes in byte order, \<open>strconv\<close>, \<open>strings\<close> and \<open>bytes\<close> functions.
  \<^item> \<open>Prom_Labels\<close>, \<open>Label_Builder\<close> (\<open>pkg/prom/labels/labels.go\<close>): label sets as slices, every function on
    them with its early exits, the two-pointer loops and the two paths of \<open>Hash\<close>; the builder
    with its \<open>del\<close> and \<open>add\<close> slices and the aliasing inside \<open>Del\<close>. A builder refines a map.
  \<^item> \<open>Prom_Relabel\<close> (\<open>pkg/relabel/relabel.go\<close>): rules, their validation and \<open>Process\<close>. \<open>relabel_spec\<close> is the
    specification on maps which \<open>Process\<close> refines.
  \<^item> \<open>Safe_List\<close> (\<open>types/safe_list.go\<close>), \<open>Samples\<close> (\<open>types/sample.go\<close>, \<open>pkg/conv/conv.go\<close>,
    \<open>writer/writers.go\<close>): the locale \<open>fifo\<close> is the contract of the queue, interpreted on the limited
    list; \<open>writers_step\<close> interleaves writes, the reading loop and the counting goroutines.
  \<^item> \<open>Input_Config\<close> (\<open>config/inline.go\<close>, \<open>pkg/filter/filter.go\<close>): initialisation and \<open>Process\<close>; \<open>label_spec\<close> states the
    precedence of labels, \<open>config_ready\<close> what keeps \<open>Process\<close> from panicking.
  \<^item> \<open>Input_Provider\<close> (\<open>inputs/provider_manager.go\<close>, \<open>local_provider.go\<close>, \<open>http_provider.go\<close>, \<open>pkg/cfg\<close>, \<open>pkg/set\<close>), \<open>Metrics_Agent\<close>
    (\<open>agent/metrics_agent.go\<close>, \<open>metrics_reader.go\<close>): configurations by input and checksum, the difference between two
    answers of a server, registration and stop of readers, one gathering round. The readers
    follow the answers of the server; a reader is a position in the list of all ever started.
  \<^item> \<open>Log_Decoder\<close> (\<open>logs/decoder/decoder.go\<close>, \<open>matcher.go\<close>): the loop over a chunk with its indices and the
    copies into the line buffer; chunking, accounting of bytes, and lines.
  \<^item> \<open>Log_Handlers\<close> (\<open>line_parser.go\<close>, \<open>single_line_handler.go\<close>, \<open>multiline_handler.go\<close>,
    \<open>auto_multiline_handler.go\<close>, \<open>logs/parser\<close>): each goroutine as a function of the events it selects (a
    line, a tick of its timer, the closed channel). The locale \<open>raw_accounting\<close> is what the
    tailer relies on: no raw byte is lost; both parsers and all handlers are interpreted.
  \<^item> \<open>Log_Config\<close> (\<open>config/logs\<close>): rules, tailing modes, validation, sources and their subscribers.
  \<^item> \<open>Log_Message\<close> (\<open>logs/message\<close>, \<open>logs/processor\<close>): origins, status, redaction, the raw encoder.
  \<^item> \<open>Log_Sender\<close> (\<open>logs/sender\<close>): buffer, serializers, retries, and the batch strategy as the step relation
    \<open>batch_step\<close> of the loop, its ticker and the concurrent sends.
  \<^item> \<open>Log_Auditor\<close> (\<open>logs/auditor/auditor.go\<close>): the locale \<open>offset_registry\<close> and its interpretation on the
    registry, cleanup, the file written at a stop and read at a start.
  \<^item> \<open>Log_Tailer\<close> (\<open>logs/input/file\<close>, \<open>logs/input/kubernetes\<close> parsers): one tailer with its decoder, parser, handler
    and forwarder as the step relation \<open>tail_step\<close> with the channels between them.
  \<^item> \<open>Log_Files\<close> (\<open>logs/input/file/file_provider.go\<close>, \<open>logs/util/date_format.go\<close>): date patterns in paths, the walk below a
    base directory with its limits of depth and entries, and which files are tailed in which order.
  \<^item> \<open>Log_Scanner\<close> (\<open>logs/input/file/scanner.go\<close>, \<open>rotate_nix.go\<close>): \<open>scanner_step\<close> handles sources, scans and the end;
    start, restart after a rotation and stop of tailers, their number, and that none is lost.
  \<^item> \<open>Metric_Series\<close> (\<open>types/metric.go\<close>, \<open>types/metric\<close>): metrics and the series grouper; the locale \<open>keyed_store\<close> is the
    contract of tags and of fields, interpreted on both.
  \<^item> \<open>Retry\<close> (\<open>pkg/retry\<close>): the retry state machine, with the delay as a 64 bit word. \<open>Backoff_Policy\<close> (\<open>pkg/backoff\<close>): the policy of the
    log destinations over rational numbers.
  \<^item> \<open>Log_Client\<close> (\<open>logs/client\<close>, \<open>logs/client/tcp\<close>): connecting, framing and sending over TCP, with the bytes each connection
    received; the locale \<open>framing\<close> is the contract of a delimiter, interpreted on both of them. \<open>Log_Intake\<close> (\<open>logs/client/http\<close>,
    \<open>logs/client/kafka\<close>, \<open>pkg/httpx\<close>): the HTTP and Kafka destinations. \<open>Log_Pipeline\<close> (\<open>config/logs.go\<close>, \<open>agent/logs_endpoints.go\<close>,
    \<open>logs/pipeline\<close>): from the settings to endpoints and pipelines, and the round robin over them.
  \<^item> \<open>Go_Utf8\<close>: conversion between bytes and runes. \<open>Ibex\<close> (\<open>ibex/task.go\<close>, \<open>tasks.go\<close>, \<open>heartbeat.go\<close>): tasks, their result
    files, and \<open>ibex_step\<close>, which interleaves assignments, one goroutine per run with its termination
    handler, clean-up, shut-down and restarts of the agent.

  \<^item> \<open>Mtail_Metrics\<close> (\<open>inputs/mtail/internal/metrics\<close>): data, metrics with their label values (a slice and a map that
    must agree), the store and its garbage collection, on a heap of data that metrics share.
  \<^item> \<open>Mtail_VM\<close> (\<open>inputs/mtail/internal/runtime/vm\<close>, \<open>runtime/code\<close>): every instruction of the virtual machine, with run-time
    errors and recovered panics as the end of a line, and the loop over instructions and lines.
  \<^item> \<open>Mtail_Codegen\<close> (\<open>inputs/mtail/internal/runtime/compiler/codegen\<close>, \<open>ast\<close>, \<open>types\<close>): the generator from the checked syntax tree to byte code. An
    invariant of the label table shows that all jumps of the result go forward, so that the machine always ends.
  \<^item> \<open>Mtail_Opt\<close> (\<open>compiler/opt\<close>), \<open>Mtail_Runtime\<close> (\<open>runtime/runtime.go\<close>, \<open>compiler/compiler.go\<close>): constant folding agrees with the
    machine; the loader compiles, replaces and stops programs and hands them the lines. \<open>delivers\<close> is its specification.

  This theory adds what spans components: where a restarted agent reads on.

  \<^bold>\<open>Conventions.\<close> A pointer or an interface that can be nil is an option; a panic (nil dereference, index
  out of range, negative allocation, write to a nil map, division by zero) is a value of \<open>go\<close>; an error
  that the code returns is a value of its own; what the code only logs is left out. Maps are
  association lists where the order of an iteration could matter, otherwise functions. Loops
  are structural or have a measure. Two loops could run for ever and are partial functions (\<open>gc_expire\<close> and
  \<open>vm_loop\<close>): not returning is \<open>None\<close>, and the theorems show that they return. The walk of the code generator
  uses fuel: one more than the weight of the tree is enough (\<open>CodeGen_returns\<close>). Time, regular expressions, JSON, character
  sets, MD5, floating point and the file system are parameters, and what is assumed of them is
  a hypothesis of the theorem that needs it, shown satisfiable by its witness.

  \<^bold>\<open>Not modelled.\<close> The other input plugins (third-party clients and operating system sources), the network below
  the log destinations (what it does is given with every attempt), the Kafka client, the embedded Prometheus agent,
  the HTTP API, the heartbeat, self-update, generated protobuf code, decoding of configuration
  files; of mtail the lexer, parser and type checker, the tailer and the exporter. Goroutines are interleaved at the granularity of channel operations; mutexes make the
  operations they guard atomic, and the Go memory model below that is not modelled.
\<close>

subsection \<open>From the tailer to the auditor and back\<close>

lemma forwardMessage_message:
  assumes "forwardMessage t output = (t', [msg])" and "shouldTrackOffset t"
  shows "\<exists>o'. m_Origin msg = Some o' \<and> o_Identifier o' = Tailer_Identifier t \<and> LogSource o' = t_Source t \<and>
    Offset o' = FormatInt (decodedOffset t')"
  using assms by (auto simp: forwardMessage_def Let_def NewOrigin_def NewLogMessage_def split: if_splits)

text \<open>C1: where a file is read again after a restart. A tailer that follows a file which has not been rotated
  forwards a message; the processor with the raw encoder passes it on; the auditor commits it
  and later writes its registry to disk on a clean stop. After a start within the time to
  live, with a tailing mode that does not force a position, a new tailer of the same file
  starts exactly at the byte after the ones decoded for that message: nothing is read twice,
  nothing is skipped.\<close>

theorem Restart_resumes:
  fixes start stop now :: int
  assumes "forwardMessage t output = (t', [msg])" and "shouldTrackOffset t" and "in_int64 (decodedOffset t')"
    and "src_Config (t_Source t) = Some c"
    and "processMessage E (raw_encode date host) rules msg = Inr [sent]"
    and "Auditor_run json_Marshal a (Audit now sent # later) = Inr a'"
    and "list_all (keeps_entry (Tailer_Identifier t) (now + entryTTL a)) later"
    and "stop \<le> now + entryTTL a" and "start \<le> now + entryTTL a"
    and "json_Marshal \<lparr>j_Version = registryAPIVersion, j_Registry = a_registry (cleanupRegistry stop a')\<rparr> = Some mr"
    and "json_is_object mr"
    and "json_Unmarshal mr = Some \<lparr>j_Version = registryAPIVersion, j_Registry = a_registry (cleanupRegistry stop a')\<rparr>"
    and "mode \<noteq> ForceBeginning" and "mode \<noteq> ForceEnd"
  shows "Position (GetOffset (Auditor_Start json_is_object json_Unmarshal start (Auditor_Stop json_Marshal True stop a')))
    (Tailer_Identifier t) mode = (decodedOffset t', SeekStart, False)"
proof -
  obtain o' where o': "m_Origin msg = Some o'" "o_Identifier o' = Tailer_Identifier t" "LogSource o' = t_Source t"
    "Offset o' = FormatInt (decodedOffset t')"
    using forwardMessage_message [OF assms(1,2)] by blast
  have s: "m_Origin sent = Some o'" using processMessage_outs [OF assms(5)] o'(1) by simp
  have ne: "o_Identifier o' \<noteq> []" using o'(2) by (simp add: Tailer_Identifier_def)
  have "GetOffset (Auditor_Start json_is_object json_Unmarshal start (Auditor_Stop json_Marshal True stop a'))
      (o_Identifier o') = FormatInt (decodedOffset t')"
    using auditor_restart [OF s _ ne assms(6), where stop = stop and start = start and c = c] assms(4,7-12) o'(2-4)
    by simp
  with o'(2) assms(3,13,14) FormatInt_nonempty [of "decodedOffset t'"] show ?thesis
    by (simp add: Position_def Let_def ParseInt_FormatInt)
qed

definition resumed_config :: logs_config where
  "resumed_config = sample_config\<lparr>ProcessingRules := []\<rparr>"

definition resumed_tailer :: tailer where
  "resumed_tailer = NewTailer ''/var/log/a.log'' False (NewLogSource 1 ''a'' (Some resumed_config))"

definition resumed_output :: dmessage where
  "resumed_output = NewMessage 0 ''hello'' ''info'' 6 []"

theorem Restart_resumes_witness:
  "\<exists>a' jm ju msg sent. forwardMessage resumed_tailer resumed_output = (resumed_tailer\<lparr>decodedOffset := 6\<rparr>, [msg]) \<and>
     Auditor_run jm (New_Auditor None 100) [Audit 5 sent, FlushTick True] = Inr a' \<and>
     Position (GetOffset (Auditor_Start (\<lambda>_. True) ju 30 (Auditor_Stop jm True 20 a'))) ''file:/var/log/a.log'' End = (6, SeekStart, False)"
proof -
  let ?t = "resumed_tailer" and ?jm = "\<lambda>r :: json_registry. Some ([] :: bytes)"
  let ?E = "\<lparr>re_match = (\<lambda>re c. False), re_replace = (\<lambda>re c p. c)\<rparr> :: regex_engine"
  obtain msg where f: "forwardMessage ?t resumed_output = (?t\<lparr>decodedOffset := 6\<rparr>, [msg])"
    by (simp add: forwardMessage_def resumed_tailer_def resumed_output_def NewTailer_def NewMessage_def Let_def shouldTrackOffset_def)
  have tr: "shouldTrackOffset ?t" by (simp add: resumed_tailer_def NewTailer_def shouldTrackOffset_def)
  have c: "src_Config (t_Source ?t) = Some resumed_config" by (simp add: resumed_tailer_def NewTailer_def NewLogSource_def)
  have id: "Tailer_Identifier ?t = ''file:/var/log/a.log''"
    by (simp add: resumed_tailer_def NewTailer_def Tailer_Identifier_def)
  obtain o' where o': "m_Origin msg = Some o'" "LogSource o' = t_Source ?t"
    using forwardMessage_message [OF f tr] by blast
  have r: "applyRedactingRules ?E [] msg = Inr (Some (m_Content msg))"
    using o' c by (simp add: applyRedactingRules_def origin_config_def resumed_config_def)
  obtain m' bs where e: "rawEncoder_Encode ''d'' ''h'' msg (m_Content msg) = Inr (m', bs)"
    using rawEncoder_total [OF o'(1), of resumed_config "''d''" "''h''" "m_Content msg"] o'(2) c by auto
  define sent where "sent = m'\<lparr>m_Content := bs\<rparr>"
  have p: "processMessage ?E (raw_encode ''d'' ''h'') [] msg = Inr [sent]"
    by (simp add: processMessage_def r e raw_encode_def sent_def)
  have so: "m_Origin sent = Some o'" using processMessage_outs [OF p] o'(1) by simp
  obtain a' where a: "Auditor_run ?jm (New_Auditor None 100) [Audit 5 sent, FlushTick True] = Inr a'"
    using so o'(2) c by (simp add: Auditor_run_def audit_step_def origin_config_def)
  let ?ju = "\<lambda>b :: bytes. Some \<lparr>j_Version = registryAPIVersion, j_Registry = a_registry (cleanupRegistry 20 a')\<rparr>"
  have "Position (GetOffset (Auditor_Start (\<lambda>_. True) ?ju 30 (Auditor_Stop ?jm True 20 a'))) (Tailer_Identifier ?t) End =
      (decodedOffset (?t\<lparr>decodedOffset := 6\<rparr>), SeekStart, False)"
    by (rule Restart_resumes [OF f tr _ c p a]) (simp_all add: in_int64_def keeps_entry_def New_Auditor_def)
  with f a id show ?thesis by fastforce
qed

end
